(* ===== verification/Go_Prelude.thy ===== *)
theory Go_Prelude
  imports Main "HOL-Library.Word"
begin

text \<open>
  What every theory of the development shares: the types of Go values the program handles
  (bytes, machine words, byte slices), the outcome of a Go call (a value, an error value or a
  run-time panic), checked indexing and slicing, and the byte orders of \<^verbatim>\<open>encoding/binary\<close>.

  A Go slice is a list.  Its capacity is not modelled: \<open>slice_go\<close> panics as soon as the high
  bound passes the length, where Go would still accept a bound up to the capacity; that is
  the stricter rule, and the no-panic lemmas of the components show that it is never hit.
\<close>

unbundle bit_operations_syntax

named_theorems go_simps \<open>unfolding rules of the outcome monad and of checked slice access\<close>
named_theorems wire_defs \<open>definitions of the byte-order encoders and decoders\<close>

section \<open>Types\<close>

type_synonym byte = "8 word"
type_synonym bytes = "8 word list"
type_synonym u16 = "16 word"
type_synonym u32 = "32 word"
type_synonym u64 = "64 word"

section \<open>Errors, panics and outcomes\<close>

text \<open>
  An error value keeps the format string of the source and its arguments, so two errors of the
  model are equal exactly when the source builds them from the same call and arguments.
  \<open>SysErr\<close> stands for an error a system call or a library call hands back.
\<close>

datatype arg = ArgN nat | ArgI int | ArgS string | ArgIDs "u32 list"

datatype go_error =
    ErrorsNew string
  | Errorf string "arg list"
  | Wrapf string go_error
  | EOF
  | UnexpectedEOF
  | SysErr string

text \<open>\<open>LibPanic\<close> is a panic a library function documents for misuse.\<close>

datatype go_panic = IndexOutOfRange | SliceOutOfRange | LibPanic string

datatype 'a result = Ok 'a | Error go_error | Panicked go_panic

primrec then_do :: "'a result \<Rightarrow> ('a \<Rightarrow> 'b result) \<Rightarrow> 'b result" where
  "then_do (Ok x) f = f x"
| "then_do (Error e) f = Error e"
| "then_do (Panicked p) f = Panicked p"

text \<open>\<open>on_error m g\<close> rewrites the error a call returned (the source's \<^verbatim>\<open>fmt.Errorf("...: %w", err)\<close>).\<close>

primrec on_error :: "'a result \<Rightarrow> (go_error \<Rightarrow> go_error) \<Rightarrow> 'a result" where
  "on_error (Ok x) g = Ok x"
| "on_error (Error e) g = Error (g e)"
| "on_error (Panicked p) g = Panicked p"

text \<open>
  \<open>match_err m h g\<close>: the source's \<^verbatim>\<open>x, err := m; if err != nil { h } ; g\<close>, where the handler does
  more than hand the error on.
\<close>

primrec match_err :: "'a result \<Rightarrow> (go_error \<Rightarrow> 'b result) \<Rightarrow> ('a \<Rightarrow> 'b result) \<Rightarrow> 'b result" where
  "match_err (Ok x) h g = g x"
| "match_err (Error e) h g = h e"
| "match_err (Panicked p) h g = Panicked p"

text \<open>Running a call for every element, in order.\<close>

primrec mapM_go :: "('a \<Rightarrow> 'b result) \<Rightarrow> 'a list \<Rightarrow> 'b list result" where
  "mapM_go f [] = Ok []"
| "mapM_go f (x # xs) = then_do (f x) (\<lambda>y. then_do (mapM_go f xs) (\<lambda>ys. Ok (y # ys)))"

definition no_panic :: "'a result \<Rightarrow> bool" where
  "no_panic r \<longleftrightarrow> (case r of Panicked _ \<Rightarrow> False | _ \<Rightarrow> True)"

lemma no_panic_simps [simp]:
  "no_panic (Ok x)" "no_panic (Error e)" "\<not> no_panic (Panicked p)"
  by (simp_all add: no_panic_def)

lemma no_panic_then_do [intro]:
  "no_panic m \<Longrightarrow> (\<And>x. m = Ok x \<Longrightarrow> no_panic (f x)) \<Longrightarrow> no_panic (then_do m f)"
  by (cases m) auto

lemma no_panic_on_error [simp]: "no_panic (on_error m g) = no_panic m"
  by (cases m) auto

lemma no_panic_match_err [intro]:
  "no_panic m \<Longrightarrow> (\<And>e. no_panic (h e)) \<Longrightarrow> (\<And>x. m = Ok x \<Longrightarrow> no_panic (g x)) \<Longrightarrow>
   no_panic (match_err m h g)"
  by (cases m) auto

lemma match_err_Ok_iff:
  "match_err m h g = Ok y \<longleftrightarrow> (\<exists>x. m = Ok x \<and> g x = Ok y) \<or> (\<exists>e. m = Error e \<and> h e = Ok y)"
  by (cases m) auto

lemma match_err_success:
  assumes "match_err m h g = Ok y" "\<And>e. h e \<noteq> Ok y"
  obtains x where "m = Ok x" "g x = Ok y"
  using assms by (cases m) auto

text \<open>Every value a computation can return satisfies \<open>P\<close>; the rules follow the code's branches.\<close>

definition returns_only :: "('a \<Rightarrow> bool) \<Rightarrow> 'a result \<Rightarrow> bool" where
  "returns_only P r \<longleftrightarrow> (\<forall>y. r = Ok y \<longrightarrow> P y)"

lemma returns_only_simps [simp]:
  "returns_only P (Ok y) = P y" "returns_only P (Error e)" "returns_only P (Panicked q)"
  by (simp_all add: returns_only_def)

lemma returns_only_then_do:
  "(\<And>x. m = Ok x \<Longrightarrow> returns_only P (f x)) \<Longrightarrow> returns_only P (then_do m f)"
  by (cases m) auto

lemma returns_only_match_err:
  "(\<And>e. m = Error e \<Longrightarrow> returns_only P (h e)) \<Longrightarrow> (\<And>x. m = Ok x \<Longrightarrow> returns_only P (g x)) \<Longrightarrow>
   returns_only P (match_err m h g)"
  by (cases m) auto

lemma returns_onlyD: "returns_only P r \<Longrightarrow> r = Ok y \<Longrightarrow> P y"
  by (simp add: returns_only_def)

lemma mapM_go_map: "(\<And>x. x \<in> set xs \<Longrightarrow> f x = Ok (g x)) \<Longrightarrow> mapM_go f xs = Ok (map g xs)"
  by (induction xs) auto

lemma then_do_Ok_iff: "then_do m f = Ok y \<longleftrightarrow> (\<exists>x. m = Ok x \<and> f x = Ok y)"
  by (cases m) auto

lemma then_do_OkE:
  assumes "then_do m f = Ok y"
  obtains x where "m = Ok x" "f x = Ok y"
  using assms by (auto simp: then_do_Ok_iff)

lemma on_error_Ok_iff [simp]: "on_error m g = Ok y \<longleftrightarrow> m = Ok y"
  by (cases m) auto

lemma then_do_assoc: "then_do (then_do m f) g = then_do m (\<lambda>x. then_do (f x) g)"
  by (cases m) auto

lemma then_do_cong [cong, fundef_cong]:
  "m = m' \<Longrightarrow> (\<And>x. m' = Ok x \<Longrightarrow> f x = f' x) \<Longrightarrow> then_do m f = then_do m' f'"
  by (cases m') auto

section \<open>Checked access to slices\<close>

definition index_go :: "'a list \<Rightarrow> nat \<Rightarrow> 'a result" where
  "index_go xs i = (if i < length xs then Ok (xs ! i) else Panicked IndexOutOfRange)"

definition slice_go :: "'a list \<Rightarrow> nat \<Rightarrow> nat \<Rightarrow> 'a list result" where
  "slice_go xs a b =
     (if a \<le> b \<and> b \<le> length xs then Ok (take (b - a) (drop a xs)) else Panicked SliceOutOfRange)"

definition set_go :: "'a list \<Rightarrow> nat \<Rightarrow> 'a \<Rightarrow> 'a list result" where
  "set_go xs i v = (if i < length xs then Ok (xs[i := v]) else Panicked IndexOutOfRange)"

text \<open>\<open>copy_at xs a ys\<close> is Go's \<^verbatim>\<open>copy(xs[a:], ys)\<close>: it stops at the shorter of the two.\<close>

definition copy_at :: "'a list \<Rightarrow> nat \<Rightarrow> 'a list \<Rightarrow> 'a list" where
  "copy_at xs a ys =
     take a xs @ take (length xs - a) ys @ drop (a + length ys) xs"

lemma index_go_Ok [simp, go_simps]: "i < length xs \<Longrightarrow> index_go xs i = Ok (xs ! i)"
  by (simp add: index_go_def)

lemma slice_go_Ok [simp, go_simps]:
  "a \<le> b \<Longrightarrow> b \<le> length xs \<Longrightarrow> slice_go xs a b = Ok (take (b - a) (drop a xs))"
  by (simp add: slice_go_def)

lemma set_go_Ok [simp, go_simps]: "i < length xs \<Longrightarrow> set_go xs i v = Ok (xs[i := v])"
  by (simp add: set_go_def)

lemma slice_go_panic: "b < a \<Longrightarrow> slice_go xs a b = Panicked SliceOutOfRange"
  by (simp add: slice_go_def)

lemma slice_go_length: "slice_go xs a b = Ok ys \<Longrightarrow> length ys = b - a"
  by (auto simp: slice_go_def split: if_splits)

lemma take_drop_join: "take k (drop i xs) @ drop (i + k) xs = drop i xs"
  by (metis append_take_drop_id drop_drop add.commute)

lemma length_copy_at [simp]: "a \<le> length xs \<Longrightarrow> length (copy_at xs a ys) = length xs"
  by (simp add: copy_at_def)

lemma nth_copy_at:
  assumes "a + length ys \<le> length xs" "i < length xs"
  shows "copy_at xs a ys ! i = (if a \<le> i \<and> i < a + length ys then ys ! (i - a) else xs ! i)"
  using assms by (auto simp: copy_at_def nth_append)

lemma take_drop_copy_at:
  "a + length ys \<le> length xs \<Longrightarrow> take (length ys) (drop a (copy_at xs a ys)) = ys"
  by (simp add: copy_at_def)

section \<open>Byte order: encoding/binary\<close>

definition word16_be :: "byte \<Rightarrow> byte \<Rightarrow> u16" where
  [wire_defs]: "word16_be b0 b1 = ucast b1 OR push_bit 8 (ucast b0)"

definition word32_be :: "byte \<Rightarrow> byte \<Rightarrow> byte \<Rightarrow> byte \<Rightarrow> u32" where
  [wire_defs]: "word32_be b0 b1 b2 b3 =
     ucast b3 OR push_bit 8 (ucast b2) OR push_bit 16 (ucast b1) OR push_bit 24 (ucast b0)"

definition put16_be :: "u16 \<Rightarrow> bytes" where
  [wire_defs]: "put16_be w = [ucast (drop_bit 8 w), ucast w]"

definition put32_be :: "u32 \<Rightarrow> bytes" where
  [wire_defs]: "put32_be w =
     [ucast (drop_bit 24 w), ucast (drop_bit 16 w), ucast (drop_bit 8 w), ucast w]"

definition uint16_be :: "bytes \<Rightarrow> u16 result" where
  "uint16_be b = (case b of b0 # b1 # _ \<Rightarrow> Ok (word16_be b0 b1) | _ \<Rightarrow> Panicked IndexOutOfRange)"

definition uint32_be :: "bytes \<Rightarrow> u32 result" where
  "uint32_be b =
     (case b of b0 # b1 # b2 # b3 # _ \<Rightarrow> Ok (word32_be b0 b1 b2 b3)
      | _ \<Rightarrow> Panicked IndexOutOfRange)"

text \<open>\<^verbatim>\<open>binary.BigEndian.PutUint16(p[a:a+2], v)\<close>, in place.\<close>

definition put16_at :: "bytes \<Rightarrow> nat \<Rightarrow> u16 \<Rightarrow> bytes result" where
  "put16_at p a v =
     (if a + 2 \<le> length p then Ok (p[a := ucast (drop_bit 8 v), a + 1 := ucast v])
      else Panicked SliceOutOfRange)"

lemma length_put_be [simp]: "length (put16_be w) = 2" "length (put32_be v) = 4"
  by (simp_all add: wire_defs)

lemma length_concat_put32 [simp]: "length (concat (map put32_be xs)) = 4 * length xs"
  by (induction xs) auto

lemma word16_be_put [simp]: "word16_be (ucast (drop_bit 8 w)) (ucast w) = w"
  unfolding word16_be_def by (rule bit_word_eqI) (auto simp: bit_simps)

lemma word32_be_put [simp]:
  "word32_be (ucast (drop_bit 24 w)) (ucast (drop_bit 16 w)) (ucast (drop_bit 8 w)) (ucast w) = w"
proof (rule bit_word_eqI)
  fix n assume "n < LENGTH(32)"
  then show "bit (word32_be (ucast (drop_bit 24 w)) (ucast (drop_bit 16 w))
      (ucast (drop_bit 8 w)) (ucast w)) n = bit w n"
    unfolding word32_be_def
    by (cases "n < 8"; cases "n < 16"; cases "n < 24") (auto simp: bit_simps)
qed

lemma put16_be_word [simp]: "put16_be (word16_be a b) = [a, b]"
proof -
  have "(ucast (drop_bit 8 (word16_be a b)) :: byte) = a"
    unfolding word16_be_def by (rule bit_word_eqI) (auto simp: bit_simps dest: bit_imp_le_length)
  moreover have "(ucast (word16_be a b) :: byte) = b"
    unfolding word16_be_def by (rule bit_word_eqI) (auto simp: bit_simps dest: bit_imp_le_length)
  ultimately show ?thesis by (simp add: put16_be_def)
qed

lemma put32_be_word [simp]: "put32_be (word32_be a b c d) = [a, b, c, d]"
proof -
  have "(ucast (drop_bit 24 (word32_be a b c d)) :: byte) = a"
    unfolding word32_be_def by (rule bit_word_eqI) (auto simp: bit_simps dest: bit_imp_le_length)
  moreover have "(ucast (drop_bit 16 (word32_be a b c d)) :: byte) = b"
    unfolding word32_be_def by (rule bit_word_eqI) (auto simp: bit_simps dest: bit_imp_le_length)
  moreover have "(ucast (drop_bit 8 (word32_be a b c d)) :: byte) = c"
    unfolding word32_be_def by (rule bit_word_eqI) (auto simp: bit_simps dest: bit_imp_le_length)
  moreover have "(ucast (word32_be a b c d) :: byte) = d"
    unfolding word32_be_def by (rule bit_word_eqI) (auto simp: bit_simps dest: bit_imp_le_length)
  ultimately show ?thesis by (simp add: put32_be_def)
qed

lemma uint_be_put [simp]:
  "uint16_be (put16_be w @ rest) = Ok w" "uint32_be (put32_be v @ rest) = Ok v"
  "uint16_be (put16_be w) = Ok w" "uint32_be (put32_be v) = Ok v"
  by (simp_all add: uint16_be_def uint32_be_def put16_be_def put32_be_def)

lemma uint16_be_nth: "2 \<le> length b \<Longrightarrow> uint16_be b = Ok (word16_be (b ! 0) (b ! 1))"
  by (cases b; cases "tl b") (auto simp: uint16_be_def)

lemma uint32_be_nth:
  "4 \<le> length b \<Longrightarrow> uint32_be b = Ok (word32_be (b ! 0) (b ! 1) (b ! 2) (b ! 3))"
  by (auto simp: uint32_be_def numeral_eq_Suc Suc_le_length_iff)

definition u32_at :: "bytes \<Rightarrow> nat \<Rightarrow> u32" where
  "u32_at p i = word32_be (p ! i) (p ! (i + 1)) (p ! (i + 2)) (p ! (i + 3))"

definition u16_at :: "bytes \<Rightarrow> nat \<Rightarrow> u16" where
  "u16_at p i = word16_be (p ! i) (p ! (i + 1))"

lemma take2_drop: "i + 2 \<le> length p \<Longrightarrow> take 2 (drop i p) = [p ! i, p ! (i + 1)]"
  by (rule nth_equalityI) (auto simp: less_Suc_eq numeral_eq_Suc)

lemma take4_drop:
  "i + 4 \<le> length p \<Longrightarrow> take 4 (drop i p) = [p ! i, p ! (i + 1), p ! (i + 2), p ! (i + 3)]"
  by (rule nth_equalityI) (auto simp: less_Suc_eq numeral_eq_Suc)

lemma uint_be_at:
  "i + 4 \<le> length p \<Longrightarrow> uint32_be (take 4 (drop i p)) = Ok (u32_at p i)"
  "i + 2 \<le> length p \<Longrightarrow> uint16_be (take 2 (drop i p)) = Ok (u16_at p i)"
  by (simp_all add: take4_drop take2_drop uint32_be_def uint16_be_def u32_at_def u16_at_def)

lemma put_be_at:
  "i + 4 \<le> length p \<Longrightarrow> put32_be (u32_at p i) = take 4 (drop i p)"
  "i + 2 \<le> length p \<Longrightarrow> put16_be (u16_at p i) = take 2 (drop i p)"
  by (simp_all add: take4_drop take2_drop u32_at_def u16_at_def)

lemma u32_at_put: "length pre = i \<Longrightarrow> u32_at (pre @ put32_be w @ post) i = w"
  by (auto simp: u32_at_def put32_be_def nth_append)

lemma put16_at_Ok [simp, go_simps]:
  "a + 2 \<le> length p \<Longrightarrow> put16_at p a v = Ok (p[a := ucast (drop_bit 8 v), Suc a := ucast v])"
  by (simp add: put16_at_def)

lemma put_be_inj [simp]:
  "put16_be w = put16_be w' \<longleftrightarrow> w = w'" "put32_be v = put32_be v' \<longleftrightarrow> v = v'"
  by (metis uint_be_put(3) result.inject(1), metis uint_be_put(4) result.inject(1))

lemma unat_byte: "unat (b :: byte) < 256"
proof -
  have "unat b < 2 ^ LENGTH(8)" by (rule unsigned_less)
  then show ?thesis by simp
qed

lemma take_bit_word_self: "unat w < 2 ^ n \<Longrightarrow> take_bit n w = (w :: 'a::len word)"
  by (metis unsigned_take_bit_eq take_bit_nat_eq_self unsigned_word_eqI)

lemma unat_drop_bit: "unat (drop_bit n (w :: 'a::len word)) = unat w div 2 ^ n"
  by (metis drop_bit_eq_div unat_drop_bit_eq)

lemma unat_ucast_mod: "unat (ucast (w :: 'a::len word) :: 'b::len word) = unat w mod 2 ^ LENGTH('b)"
  by (simp only: unsigned_ucast_eq take_bit_eq_mod)

lemma unat_ucast_byte [simp]:
  "unat (ucast (b :: byte) :: u32) = unat b" "unat (ucast (b :: byte) :: u16) = unat b"
  using unat_byte [of b] by (simp_all add: unat_ucast_mod)

lemma unat_u16: "unat (w :: u16) < 65536"
proof -
  have "unat w < 2 ^ LENGTH(16)" by (rule unsigned_less)
  then show ?thesis by simp
qed

lemma unat_ucast_u16 [simp]: "unat (ucast (w :: u16) :: u32) = unat w"
  using unat_u16 [of w] by (simp add: unat_ucast_mod)

lemma unat_word16_be: "unat (word16_be a b) = 256 * unat a + unat b"
proof -
  have "word16_be a b = ucast b + push_bit 8 (ucast a)"
    unfolding word16_be_def
    by (subst disjunctive_add) (auto simp: bit_simps dest: bit_imp_le_length)
  also have "\<dots> = of_nat (unat b) + 256 * of_nat (unat a)"
    by (simp add: push_bit_eq_mult mult.commute)
  also have "\<dots> = of_nat (256 * unat a + unat b)" by (simp del: of_nat_unat)
  finally have "unat (word16_be a b) = (256 * unat a + unat b) mod 2 ^ LENGTH(16)"
    by (simp only: unat_of_nat)
  then show ?thesis
    using unat_byte [of a] unat_byte [of b] by simp
qed

end
