(* ===== verification/Go_Strings.thy ===== *)
theory Go_Strings
  imports Go_Prelude
begin

text \<open>
  The functions of the packages \<^verbatim>\<open>strings\<close> and \<^verbatim>\<open>strconv\<close> the program
  calls, on Go strings (byte strings, so \<open>char\<close> is one byte).  White space is Unicode white
  space in its UTF-8 encoding: every lead byte of such an encoding starts a rune, so matching
  the encodings byte by byte agrees with Go's rune-wise scan on every input, valid UTF-8 or not.
  \<open>EqualFold\<close> is exact whenever one side is ASCII, which is how the program calls it;
  \<open>ToLower\<close> changes ASCII letters only (the program lower-cases protocol names, URL
  schemes and hexadecimal digits).
\<close>

section \<open>Bytes and strings\<close>

definition bytes_of_string :: "string \<Rightarrow> bytes" where
  "bytes_of_string s = map of_char s"

definition string_of_bytes :: "bytes \<Rightarrow> string" where
  "string_of_bytes b = map (\<lambda>x. char_of (unat x)) b"

lemma length_bytes_of_string [simp]: "length (bytes_of_string s) = length s"
  by (simp add: bytes_of_string_def)

lemma char_of_byte_of_char [simp]: "char_of (unat (of_char c :: byte)) = c"
proof -
  have "(of_char c :: byte) = of_nat (of_char c)" by (simp only: of_nat_of_char)
  then have "unat (of_char c :: byte) = of_char c mod 2 ^ LENGTH(8)" by (simp only: unat_of_nat)
  then show ?thesis by simp
qed

lemma string_of_bytes_of_string [simp]: "string_of_bytes (bytes_of_string s) = s"
  by (simp add: string_of_bytes_def bytes_of_string_def comp_def)

section \<open>Package strings\<close>

definition HasPrefix :: "string \<Rightarrow> string \<Rightarrow> bool" where
  "HasPrefix s p \<longleftrightarrow> take (length p) s = p"

definition HasSuffix :: "string \<Rightarrow> string \<Rightarrow> bool" where
  "HasSuffix s p \<longleftrightarrow> length p \<le> length s \<and> drop (length s - length p) s = p"

definition TrimPrefix :: "string \<Rightarrow> string \<Rightarrow> string" where
  "TrimPrefix s p = (if HasPrefix s p then drop (length p) s else s)"

definition TrimSuffix :: "string \<Rightarrow> string \<Rightarrow> string" where
  "TrimSuffix s p = (if HasSuffix s p then take (length s - length p) s else s)"

primrec Contains :: "string \<Rightarrow> string \<Rightarrow> bool" where
  "Contains [] sub \<longleftrightarrow> sub = []"
| "Contains (c # cs) sub \<longleftrightarrow> HasPrefix (c # cs) sub \<or> Contains cs sub"

primrec IndexByte :: "string \<Rightarrow> char \<Rightarrow> nat option" where
  "IndexByte [] c = None"
| "IndexByte (x # xs) c = (if x = c then Some 0 else map_option Suc (IndexByte xs c))"

text \<open>\<open>Split_char s c\<close> is \<^verbatim>\<open>strings.Split\<close> with a separator of one byte.\<close>

lemma IndexByte_None_iff: "IndexByte s c = None \<longleftrightarrow> c \<notin> set s"
  by (induction s) (auto split: option.splits)

primrec Split_char :: "string \<Rightarrow> char \<Rightarrow> string list" where
  "Split_char [] c = [[]]"
| "Split_char (x # xs) c =
     (if x = c then [] # Split_char xs c
      else case Split_char xs c of [] \<Rightarrow> [[x]] | y # ys \<Rightarrow> (x # y) # ys)"

definition ReplaceAll_char :: "string \<Rightarrow> char \<Rightarrow> string \<Rightarrow> string" where
  "ReplaceAll_char s c r = concat (map (\<lambda>x. if x = c then r else [x]) s)"

definition space_runes :: "string list" where
  "space_runes =
     [[CHR 0x09], [CHR 0x0A], [CHR 0x0B], [CHR 0x0C], [CHR 0x0D], [CHR 0x20],
      [CHR 0xC2, CHR 0x85], [CHR 0xC2, CHR 0xA0], [CHR 0xE1, CHR 0x9A, CHR 0x80]]
     @ map (\<lambda>k. [CHR 0xE2, CHR 0x80, k])
         [CHR 0x80, CHR 0x81, CHR 0x82, CHR 0x83, CHR 0x84, CHR 0x85, CHR 0x86, CHR 0x87,
          CHR 0x88, CHR 0x89, CHR 0x8A, CHR 0xA8, CHR 0xA9, CHR 0xAF]
     @ [[CHR 0xE2, CHR 0x81, CHR 0x9F], [CHR 0xE3, CHR 0x80, CHR 0x80]]"

text \<open>The bytes of the white-space rune at the front (at the end) of a string, 0 if none.\<close>

definition space_len :: "string \<Rightarrow> nat" where
  "space_len s = (case find (HasPrefix s) space_runes of None \<Rightarrow> 0 | Some r \<Rightarrow> length r)"

definition rspace_len :: "string \<Rightarrow> nat" where
  "rspace_len s = (case find (HasSuffix s) space_runes of None \<Rightarrow> 0 | Some r \<Rightarrow> length r)"

lemma space_runes_nonempty: "r \<in> set space_runes \<Longrightarrow> r \<noteq> []"
  by (auto simp: space_runes_def)

lemma find_in_set: "find P xs = Some x \<Longrightarrow> x \<in> set xs \<and> P x"
  by (induction xs) (auto split: if_splits)

lemma HasPrefix_length: "HasPrefix s p \<Longrightarrow> length p \<le> length s"
  by (metis HasPrefix_def length_take min.absorb_iff2 min.cobounded1)

lemma space_len_le: "space_len s \<le> length s"
  by (auto simp: space_len_def split: option.splits dest!: find_in_set HasPrefix_length)

lemma rspace_len_le: "rspace_len s \<le> length s"
  by (auto simp: rspace_len_def HasSuffix_def split: option.splits dest!: find_in_set)

lemma space_len_Nil [simp]: "space_len [] = 0" "rspace_len [] = 0"
  using space_len_le [of "[]"] rspace_len_le [of "[]"] by simp_all

function TrimLeftSpace :: "string \<Rightarrow> string" where
  "TrimLeftSpace s = (if space_len s = 0 then s else TrimLeftSpace (drop (space_len s) s))"
  by pat_completeness auto
termination
proof (relation "measure length")
  fix s :: string assume "space_len s \<noteq> 0"
  with space_len_le [of s] show "(drop (space_len s) s, s) \<in> measure length" by auto
qed simp

function TrimRightSpace :: "string \<Rightarrow> string" where
  "TrimRightSpace s =
     (if rspace_len s = 0 then s else TrimRightSpace (take (length s - rspace_len s) s))"
  by pat_completeness auto
termination
proof (relation "measure length")
  fix s :: string assume "rspace_len s \<noteq> 0"
  with rspace_len_le [of s] show "(take (length s - rspace_len s) s, s) \<in> measure length" by auto
qed simp

declare TrimLeftSpace.simps [simp del] TrimRightSpace.simps [simp del]

definition TrimSpace :: "string \<Rightarrow> string" where
  "TrimSpace s = TrimRightSpace (TrimLeftSpace s)"

text \<open>\<^verbatim>\<open>strings.Fields\<close>: the maximal runs without white space.\<close>

function Fields_from :: "string \<Rightarrow> string \<Rightarrow> string list" where
  "Fields_from cur [] = (if cur = [] then [] else [cur])"
| "Fields_from cur (c # cs) =
     (if space_len (c # cs) = 0 then Fields_from (cur @ [c]) cs
      else (if cur = [] then [] else [cur]) @ Fields_from [] (drop (space_len (c # cs) - 1) cs))"
  by pat_completeness auto
termination
  by (relation "measure (\<lambda>(cur, s). length s)") auto

definition Fields :: "string \<Rightarrow> string list" where
  "Fields s = Fields_from [] s"

lemma Fields_nonempty: "f \<in> set (Fields_from cur s) \<Longrightarrow> f \<noteq> []"
  by (induction cur s rule: Fields_from.induct) (auto split: if_splits)

definition lower_char :: "char \<Rightarrow> char" where
  "lower_char c =
     (if 65 \<le> (of_char c :: nat) \<and> (of_char c :: nat) \<le> 90 then char_of ((of_char c :: nat) + 32)
      else c)"

definition ToLower :: "string \<Rightarrow> string" where
  "ToLower s = map lower_char s"

text \<open>
  Simple case folding: U+017F folds to \<open>s\<close>, U+212A to \<open>k\<close>, and ASCII capitals to
  small letters; no other rune folds to an ASCII character.
\<close>

fun fold_case :: "string \<Rightarrow> string" where
  "fold_case (a # b # c # cs) =
     (if a = CHR 0xC5 \<and> b = CHR 0xBF then CHR ''s'' # fold_case (c # cs)
      else if a = CHR 0xE2 \<and> b = CHR 0x84 \<and> c = CHR 0xAA then CHR ''k'' # fold_case cs
      else lower_char a # fold_case (b # c # cs))"
| "fold_case [a, b] =
     (if a = CHR 0xC5 \<and> b = CHR 0xBF then ''s'' else [lower_char a, lower_char b])"
| "fold_case [a] = [lower_char a]"
| "fold_case [] = []"

definition EqualFold :: "string \<Rightarrow> string \<Rightarrow> bool" where
  "EqualFold s t \<longleftrightarrow> fold_case s = fold_case t"

section \<open>Package strconv\<close>

definition digit_val :: "char \<Rightarrow> nat option" where
  "digit_val c =
     (let n = (of_char c :: nat) in if 48 \<le> n \<and> n \<le> 57 then Some (n - 48) else None)"

text \<open>
  \<^verbatim>\<open>strconv.ParseUint(s, 10, bits)\<close>: digits are read from the left and the first prefix
  above the maximum is a range error.  \<open>whole\<close> is the string the error message quotes.
\<close>

primrec parse_digits :: "string \<Rightarrow> nat \<Rightarrow> nat \<Rightarrow> string \<Rightarrow> nat result" where
  "parse_digits whole maxv n [] = Ok n"
| "parse_digits whole maxv n (c # cs) =
     (case digit_val c of
        None \<Rightarrow> Error (Errorf ''parsing %q: invalid syntax'' [ArgS whole])
      | Some d \<Rightarrow>
          (if maxv < 10 * n + d then Error (Errorf ''parsing %q: value out of range'' [ArgS whole])
           else parse_digits whole maxv (10 * n + d) cs))"

definition ParseUint :: "string \<Rightarrow> nat \<Rightarrow> nat result" where
  "ParseUint s bits =
     (if s = [] then Error (Errorf ''parsing %q: invalid syntax'' [ArgS s])
      else parse_digits s (2 ^ bits - 1) 0 s)"

definition Atoi :: "string \<Rightarrow> int result" where
  "Atoi s =
     (let neg = (s \<noteq> [] \<and> hd s = CHR ''-'');
          body = (if s \<noteq> [] \<and> (hd s = CHR ''-'' \<or> hd s = CHR ''+'') then tl s else s)
      in if body = [] then Error (Errorf ''parsing %q: invalid syntax'' [ArgS s])
         else then_do (parse_digits s (if neg then 2 ^ 63 else 2 ^ 63 - 1) 0 body)
                (\<lambda>n. Ok (if neg then - int n else int n)))"

fun Itoa_nat :: "nat \<Rightarrow> string" where
  "Itoa_nat n =
     (if n < 10 then [char_of (48 + n)] else Itoa_nat (n div 10) @ [char_of (48 + n mod 10)])"

declare Itoa_nat.simps [simp del]

lemma parse_digits_bound: "parse_digits w m n s = Ok r \<Longrightarrow> n \<le> m \<Longrightarrow> r \<le> m"
  by (induction s arbitrary: n) (auto split: option.splits if_splits)

lemma ParseUint_bound: "ParseUint s bits = Ok n \<Longrightarrow> n < 2 ^ bits"
proof -
  assume "ParseUint s bits = Ok n"
  then have "parse_digits s (2 ^ bits - 1) 0 s = Ok n"
    by (auto simp: ParseUint_def split: if_splits)
  then have "n \<le> 2 ^ bits - 1" by (rule parse_digits_bound) simp
  then show ?thesis
    by (metis Suc_diff_1 Suc_le_mono le_imp_less_Suc zero_less_power zero_less_numeral)
qed

lemma parse_digits_no_panic [simp]: "no_panic (parse_digits w m n s)"
  by (induction s arbitrary: n) (auto split: option.splits)

lemma ParseUint_no_panic [simp]: "no_panic (ParseUint s bits)"
  by (simp add: ParseUint_def)

text \<open>Printing and parsing decimal numbers are inverse.\<close>

lemma digit_val_char_of [simp]: "d < 10 \<Longrightarrow> digit_val (char_of (48 + d)) = Some d"
  by (simp add: digit_val_def Let_def of_char_of)

lemma parse_digits_append:
  "parse_digits w m n (xs @ ys) = then_do (parse_digits w m n xs) (\<lambda>k. parse_digits w m k ys)"
  by (induction xs arbitrary: n) (auto split: option.splits)

lemma parse_digits_Itoa: "n \<le> m \<Longrightarrow> parse_digits w m 0 (Itoa_nat n) = Ok n"
proof (induction n rule: Itoa_nat.induct)
  case (1 n)
  show ?case
  proof (cases "n < 10")
    case True
    then show ?thesis using "1.prems" by (simp add: Itoa_nat.simps [of n])
  next
    case False
    have "n div 10 \<le> m" using "1.prems" by (meson div_le_dividend order_trans)
    with False "1.IH" have "parse_digits w m 0 (Itoa_nat (n div 10)) = Ok (n div 10)" by simp
    then show ?thesis using False "1.prems"
      by (simp add: Itoa_nat.simps [of n] parse_digits_append)
  qed
qed

lemma Itoa_nat_nonempty [simp]: "Itoa_nat n \<noteq> []"
  by (subst Itoa_nat.simps) simp

lemma ParseUint_Itoa: "n < 2 ^ bits \<Longrightarrow> ParseUint (Itoa_nat n) bits = Ok n"
  by (simp add: ParseUint_def parse_digits_Itoa)

section \<open>Plain strings\<close>

text \<open>Visible ASCII characters: none of them begins or ends a white-space rune.\<close>

definition plain_char :: "char \<Rightarrow> bool" where
  "plain_char c \<longleftrightarrow> 0x21 \<le> (of_char c :: nat) \<and> (of_char c :: nat) \<le> 0x7E"

definition plain :: "string \<Rightarrow> bool" where
  "plain s \<longleftrightarrow> s \<noteq> [] \<and> (\<forall>c \<in> set s. plain_char c)"

lemma space_runes_ends:
  "r \<in> set space_runes \<Longrightarrow> \<not> plain_char (hd r) \<and> \<not> plain_char (last r)"
  by (auto simp: space_runes_def plain_char_def)

lemma HasPrefix_hd: "HasPrefix (c # cs) r \<Longrightarrow> r \<noteq> [] \<Longrightarrow> hd r = c"
  by (cases r) (auto simp: HasPrefix_def)

lemma HasSuffix_last: "HasSuffix (cs @ [c]) r \<Longrightarrow> r \<noteq> [] \<Longrightarrow> last r = c"
  by (metis HasSuffix_def last_appendR last_drop last_snoc length_greater_0_conv diff_less
      append_is_Nil_conv not_Cons_self2)

lemma space_len_plain [simp]: "plain_char c \<Longrightarrow> space_len (c # cs) = 0"
  by (auto simp: space_len_def split: option.split
      dest!: find_in_set dest: HasPrefix_hd space_runes_ends space_runes_nonempty)

lemma rspace_len_plain [simp]: "plain_char c \<Longrightarrow> rspace_len (cs @ [c]) = 0"
  by (auto simp: rspace_len_def split: option.split
      dest!: find_in_set dest: HasSuffix_last space_runes_ends space_runes_nonempty)

lemma TrimSpace_plain_ends:
  assumes "s \<noteq> []" "plain_char (hd s)" "plain_char (last s)"
  shows "TrimSpace s = s"
proof -
  obtain c cs where "s = c # cs" using assms(1) by (cases s) auto
  then have "TrimLeftSpace s = s" using assms(2) by (simp add: TrimLeftSpace.simps)
  moreover obtain d ds where "s = ds @ [d]" using assms(1) by (metis append_butlast_last_id)
  then have "TrimRightSpace s = s" using assms(3) by (simp add: TrimRightSpace.simps)
  ultimately show ?thesis by (simp add: TrimSpace_def)
qed

lemma Fields_from_word:
  "\<forall>c \<in> set w. plain_char c \<Longrightarrow> Fields_from cur (w @ s) = Fields_from (cur @ w) s"
  by (induction w arbitrary: cur) simp_all

lemma space_len_blank [simp]: "space_len (CHR '' '' # cs) = 1"
  by (simp add: space_len_def space_runes_def HasPrefix_def)

text \<open>Words joined by one blank each.\<close>

primrec unwords :: "string list \<Rightarrow> string" where
  "unwords [] = ''''"
| "unwords (w # ws) = w @ concat (map (\<lambda>v. '' '' @ v) ws)"

lemma Fields_from_words:
  "\<forall>w \<in> set ws. plain w \<Longrightarrow> cur \<noteq> [] \<Longrightarrow>
   Fields_from cur (concat (map (\<lambda>v. '' '' @ v) ws)) = cur # ws"
proof (induction ws arbitrary: cur)
  case (Cons w ws)
  then have "\<forall>c \<in> set w. plain_char c" "w \<noteq> []" by (auto simp: plain_def)
  then show ?case
    using Cons by (simp add: Fields_from_word)
qed simp

lemma Fields_unwords: "\<forall>w \<in> set ws. plain w \<Longrightarrow> Fields (unwords ws) = ws"
proof (cases ws)
  case (Cons w ws')
  assume "\<forall>w \<in> set ws. plain w"
  then have w: "\<forall>c \<in> set w. plain_char c" "w \<noteq> []" "\<forall>v \<in> set ws'. plain v"
    using Cons by (auto simp: plain_def)
  then have "Fields_from [] (w @ concat (map (\<lambda>v. '' '' @ v) ws')) = w # ws'"
    using Fields_from_words [of ws' w] Fields_from_word [of w "[]"] by simp
  then show ?thesis using Cons by (simp add: Fields_def)
qed (simp add: Fields_def)

lemma Split_char_join:
  "\<forall>s \<in> set ss. c \<notin> set s \<Longrightarrow> c \<notin> set s0 \<Longrightarrow>
   Split_char (s0 @ concat (map (\<lambda>v. c # v) ss)) c = s0 # ss"
proof (induction ss arbitrary: s0)
  case Nil
  then show ?case by (induction s0) auto
next
  case (Cons s ss)
  have tail: "Split_char (c # s @ concat (map (\<lambda>v. c # v) ss)) c = [] # s # ss"
    using Cons by simp
  from Cons.prems(2) show ?case
    by (induction s0) (use tail in auto)
qed

end
