(* ===== verification/Go_Sort.thy ===== *)
theory Go_Sort
  imports Go_Prelude "HOL-Library.Multiset"
begin

text \<open>
  \<^verbatim>\<open>sort.SliceStable\<close>, as a stable insertion sort over the comparator \<open>lt\<close>.  The locale
  states what a comparator has to satisfy (a strict weak order) and proves what the sort then
  promises: a permutation, in order, that keeps the order of equivalent elements.  For such a
  comparator these three facts determine the result, so the choice of algorithm is immaterial.
\<close>

fun insert_stable :: "('a \<Rightarrow> 'a \<Rightarrow> bool) \<Rightarrow> 'a \<Rightarrow> 'a list \<Rightarrow> 'a list" where
  "insert_stable lt x [] = [x]"
| "insert_stable lt x (y # ys) = (if lt y x then y # insert_stable lt x ys else x # y # ys)"

definition SliceStable :: "('a \<Rightarrow> 'a \<Rightarrow> bool) \<Rightarrow> 'a list \<Rightarrow> 'a list" where
  "SliceStable lt xs = foldr (insert_stable lt) xs []"

lemma SliceStable_simps [simp]:
  "SliceStable lt [] = []"
  "SliceStable lt (x # xs) = insert_stable lt x (SliceStable lt xs)"
  by (simp_all add: SliceStable_def)

lemma mset_insert_stable [simp]: "mset (insert_stable lt x ys) = add_mset x (mset ys)"
  by (induction ys) auto

lemma mset_SliceStable [simp]: "mset (SliceStable lt xs) = mset xs"
  by (induction xs) auto

lemma set_SliceStable [simp]: "set (SliceStable lt xs) = set xs"
  by (metis mset_SliceStable set_mset_mset)

lemma length_SliceStable [simp]: "length (SliceStable lt xs) = length xs"
  by (metis mset_SliceStable size_mset)

lemma set_insert_stable [simp]: "set (insert_stable lt x ys) = insert x (set ys)"
  by (metis mset_insert_stable set_mset_add_mset_insert set_mset_mset)

locale strict_weak_order =
  fixes lt :: "'a \<Rightarrow> 'a \<Rightarrow> bool"
  assumes lt_asym: "lt a b \<Longrightarrow> \<not> lt b a"
    and lt_neg_trans: "lt a c \<Longrightarrow> lt a b \<or> lt b c"
begin

definition in_order :: "'a list \<Rightarrow> bool" where
  "in_order = sorted_wrt (\<lambda>a b. \<not> lt b a)"

definition equivalent :: "'a \<Rightarrow> 'a \<Rightarrow> bool" where
  "equivalent a b \<longleftrightarrow> \<not> lt a b \<and> \<not> lt b a"

lemma lt_trans: "lt a b \<Longrightarrow> lt b c \<Longrightarrow> lt a c"
  using lt_asym lt_neg_trans by blast

lemma in_order_insert: "in_order ys \<Longrightarrow> in_order (insert_stable lt x ys)"
proof (induction ys)
  case (Cons y ys)
  show ?case
  proof (cases "lt y x")
    case True
    with Cons lt_asym show ?thesis by (auto simp: in_order_def)
  next
    case False
    have "\<not> lt z x" if "z \<in> set ys" for z
      using False Cons.prems that lt_neg_trans [of z x y] by (auto simp: in_order_def)
    with False Cons.prems show ?thesis by (auto simp: in_order_def)
  qed
qed (simp add: in_order_def)

lemma SliceStable_in_order: "in_order (SliceStable lt xs)"
  by (induction xs) (auto simp: in_order_insert, simp add: in_order_def)

lemma SliceStable_hd_least:
  assumes "xs \<noteq> []" "x \<in> set xs"
  shows "\<not> lt x (hd (SliceStable lt xs))"
proof -
  obtain y ys where s: "SliceStable lt xs = y # ys"
    using assms(1) by (metis length_SliceStable length_0_conv neq_Nil_conv)
  have "x \<in> insert y (set ys)" using assms(2) s by (metis list.simps(15) set_SliceStable)
  with SliceStable_in_order [of xs] lt_asym s show ?thesis by (auto simp: in_order_def)
qed

lemma insert_stable_filter:
  "filter (equivalent a) (insert_stable lt x ys) = filter (equivalent a) (x # ys)"
proof (induction ys)
  case (Cons y ys)
  have "\<not> (lt y x \<and> equivalent a x \<and> equivalent a y)"
    using lt_neg_trans [of y x a] by (auto simp: equivalent_def)
  with Cons show ?case by auto
qed simp

lemma SliceStable_stable:
  "filter (equivalent a) (SliceStable lt xs) = filter (equivalent a) xs"
  by (induction xs) (auto simp: insert_stable_filter)

end

end
