(* ===== verification/Endpoints.thy ===== *)
theory Endpoints
  imports Go_Strings Go_Sort
begin

text \<open>
  The gateway directory of \<^verbatim>\<open>main.go\<close>: the service description the provider API returns,
  the endpoints it advertises for a transport, and the TCP reachability probe.  Fields of the
  JSON document that the program only prints (locations, configuration, serial, version,
  transport options) are left out.  The outcome of dialling an endpoint is a parameter.
\<close>

section \<open>Data\<close>

record Transport =
  Type :: string
  Ports :: "string list"
  Protocols :: "string list"

record Gateway =
  gwHost :: string
  IPAddress :: string
  gwLocation :: string
  Capabilities_Transport :: "Transport list"

record Service =
  Gateways :: "Gateway list"

record Endpoint =
  Host :: string
  IP :: string
  Location :: string
  Protocol :: string
  Port :: int

text \<open>\<^verbatim>\<open>net.JoinHostPort\<close> brackets a host that contains a colon.\<close>

definition JoinHostPort :: "string \<Rightarrow> string \<Rightarrow> string" where
  "JoinHostPort host port =
     (if IndexByte host (CHR '':'') \<noteq> None then ''['' @ host @ '']:'' @ port
      else host @ '':'' @ port)"

definition Itoa :: "int \<Rightarrow> string" where
  "Itoa i = (if i < 0 then CHR ''-'' # Itoa_nat (nat (- i)) else Itoa_nat (nat i))"

definition Address :: "Endpoint \<Rightarrow> string" where
  "Address e = JoinHostPort (IP e) (Itoa (Port e))"

section \<open>Advertised endpoints\<close>

definition endpoint_of_port :: "Gateway \<Rightarrow> string \<Rightarrow> string \<Rightarrow> Endpoint list" where
  "endpoint_of_port g proto p =
     (case Atoi p of
        Ok port \<Rightarrow>
          (if port < 1 \<or> port > 65535 then []
           else [\<lparr>Host = gwHost g, IP = IPAddress g, Location = gwLocation g,
                  Protocol = ToLower proto, Port = port\<rparr>])
      | Error e \<Rightarrow> []
      | Panicked q \<Rightarrow> [])"

definition endpoints :: "Service \<Rightarrow> string \<Rightarrow> Endpoint list" where
  "endpoints s transportType =
     concat (map (\<lambda>g.
       concat (map (\<lambda>t.
         (if \<not> EqualFold (Type t) transportType then []
          else concat (map (\<lambda>proto. concat (map (endpoint_of_port g proto) (Ports t)))
                 (Protocols t))))
         (Capabilities_Transport g)))
       (Gateways s))"

lemma endpoint_of_port_iff:
  "e \<in> set (endpoint_of_port g proto p) \<longleftrightarrow>
     Host e = gwHost g \<and> IP e = IPAddress g \<and> Location e = gwLocation g \<and>
     Protocol e = ToLower proto \<and> Atoi p = Ok (Port e) \<and> 1 \<le> Port e \<and> Port e \<le> 65535"
  by (cases e; cases "Atoi p") (auto simp: endpoint_of_port_def)

section \<open>TCP reachability probe\<close>

record Probe =
  prEndpoint :: Endpoint
  prLatency :: nat
  prErr :: "go_error option"

text \<open>
  Each goroutine writes its own slot of \<^verbatim>\<open>results\<close>, so the slice after
  \<^verbatim>\<open>wg.Wait\<close> does not depend on the schedule: slot \<open>i\<close> holds the outcome of
  endpoint \<open>i\<close>.  \<open>outcome i e\<close> is \<open>None\<close> when the context ended before a semaphore slot was
  free (with the context's error \<open>ctxErr\<close>), and the dial's duration and error otherwise.
\<close>

definition tcp_less :: "Probe \<Rightarrow> Probe \<Rightarrow> bool" where
  "tcp_less a b \<longleftrightarrow>
     (if prErr a = None \<and> prErr b \<noteq> None then True
      else if prErr a \<noteq> None \<and> prErr b = None then False
      else prLatency a < prLatency b)"

definition probeTCP ::
  "go_error \<Rightarrow> (nat \<Rightarrow> Endpoint \<Rightarrow> (nat \<times> go_error option) option) \<Rightarrow> Service \<Rightarrow> Probe list" where
  "probeTCP ctxErr outcome s =
     (let eps = filter (\<lambda>ep. Protocol ep = ''tcp'') (endpoints s ''openvpn'');
          results = map (\<lambda>(i, ep).
            (case outcome i ep of
               None \<Rightarrow> \<lparr>prEndpoint = ep, prLatency = 0, prErr = Some ctxErr\<rparr>
             | Some (elapsed, err) \<Rightarrow> \<lparr>prEndpoint = ep, prLatency = elapsed, prErr = err\<rparr>))
            (zip [0..<length eps] eps)
      in SliceStable tcp_less results)"

interpretation tcp_order: strict_weak_order tcp_less
  by unfold_locales (auto simp: tcp_less_def split: if_splits)

end
