(* ===== verification/Protocol.thy ===== *)
theory Protocol
  imports Endpoints
begin

text \<open>
  The OpenVPN control packet of \<^verbatim>\<open>protocol.go\<close>: its wire encoding (\<open>marshal\<close>), its
  decoder (\<open>parseControlPacket\<close>, with every index and slice checked), the UDP reset exchange
  (\<open>openVPNResetUDP\<close>) and the ranking of the probed endpoints.  A session id is a byte list
  of length 8 (\<open>wf_packet\<close> states what the Go array type guarantees).
\<close>

section \<open>Control packets\<close>

abbreviation (input) opControlSoftResetV1 :: byte where "opControlSoftResetV1 \<equiv> 3"
abbreviation (input) opControlV1 :: byte where "opControlV1 \<equiv> 4"
abbreviation (input) opAckV1 :: byte where "opAckV1 \<equiv> 5"
abbreviation (input) opControlHardResetClientV2 :: byte where "opControlHardResetClientV2 \<equiv> 7"
abbreviation (input) opControlHardResetServerV2 :: byte where "opControlHardResetServerV2 \<equiv> 8"

type_synonym sessionID = bytes

record controlPacket =
  Opcode :: byte
  KeyID :: byte
  SessionID :: sessionID
  AckIDs :: "u32 list"
  RemoteSessionID :: "sessionID option"
  PacketID :: u32
  Payload :: bytes

definition wf_packet :: "controlPacket \<Rightarrow> bool" where
  "wf_packet p \<longleftrightarrow>
     length (SessionID p) = 8 \<and> (\<forall>r. RemoteSessionID p = Some r \<longrightarrow> length r = 8)"

definition marshal :: "controlPacket \<Rightarrow> bytes result" where
  "marshal p =
     (if Opcode p = 0 \<or> Opcode p > 31 then
        Error (Errorf ''invalid opcode %d'' [ArgN (unat (Opcode p))])
      else if KeyID p > 7 then Error (Errorf ''invalid key id %d'' [ArgN (unat (KeyID p))])
      else if length (AckIDs p) > 255 then Error (ErrorsNew ''too many ACK ids'')
      else if length (AckIDs p) > 0 \<and> RemoteSessionID p = None then
        Error (ErrorsNew ''ACK ids require remote session id'')
      else Ok
        ([push_bit 3 (Opcode p) OR (KeyID p AND 7)]
         @ SessionID p
         @ [of_nat (length (AckIDs p))]
         @ concat (map put32_be (AckIDs p))
         @ (if length (AckIDs p) > 0 then the (RemoteSessionID p) else [])
         @ (if Opcode p \<noteq> opAckV1 then put32_be (PacketID p) @ Payload p else [])))"

text \<open>The loop over the ACK array: from \<open>pos\<close>, \<open>n\<close> entries are left to read.\<close>

fun parseAckIDs :: "bytes \<Rightarrow> nat \<Rightarrow> nat \<Rightarrow> (u32 list \<times> nat) result" where
  "parseAckIDs raw pos 0 = Ok ([], pos)"
| "parseAckIDs raw pos (Suc n) =
     then_do (slice_go raw pos (pos + 4)) (\<lambda>w.
     then_do (uint32_be w) (\<lambda>ack.
     then_do (parseAckIDs raw (pos + 4) n) (\<lambda>(acks, pos'). Ok (ack # acks, pos'))))"

definition parseRemote :: "bytes \<Rightarrow> nat \<Rightarrow> nat \<Rightarrow> (sessionID option \<times> nat) result" where
  "parseRemote raw ackCount pos =
     (if ackCount > 0 then
        (if length raw < pos + 8 then Error (ErrorsNew ''truncated remote session id'')
         else then_do (slice_go raw pos (pos + 8)) (\<lambda>r. Ok (Some r, pos + 8)))
      else Ok (None, pos))"

text \<open>The part after the ACK block: an ACK ends there, other packets carry an id and a payload.\<close>

definition parseTail ::
  "bytes \<Rightarrow> byte \<Rightarrow> sessionID \<Rightarrow> u32 list \<Rightarrow> sessionID option \<Rightarrow> nat \<Rightarrow> controlPacket result" where
  "parseTail raw b0 sid acks remote pos =
     (let p = \<lparr>Opcode = drop_bit 3 b0, KeyID = b0 AND 7, SessionID = sid, AckIDs = acks,
               RemoteSessionID = remote, PacketID = 0, Payload = []\<rparr> in
      if Opcode p = opAckV1 then
        (if pos \<noteq> length raw then
           then_do (slice_go raw pos (length raw)) (\<lambda>rest. Ok (p\<lparr>Payload := rest\<rparr>))
         else Ok p)
      else if length raw < pos + 4 then Error (ErrorsNew ''truncated packet id'')
      else
        then_do (slice_go raw pos (pos + 4)) (\<lambda>w.
        then_do (uint32_be w) (\<lambda>pid.
        then_do (slice_go raw (pos + 4) (length raw)) (\<lambda>rest.
          Ok (p\<lparr>PacketID := pid, Payload := rest\<rparr>)))))"

definition parseControlPacket :: "bytes \<Rightarrow> controlPacket result" where
  "parseControlPacket raw =
     (if length raw < 10 then Error (Errorf ''control packet too short: %d'' [ArgN (length raw)])
      else
        then_do (index_go raw 0) (\<lambda>b0.
        then_do (slice_go raw 1 9) (\<lambda>sid.
        then_do (index_go raw 9) (\<lambda>c.
        let ackCount = unat c in
        if ackCount > 64 then Error (Errorf ''unreasonable ACK count %d'' [ArgN ackCount])
        else if length raw < 10 + ackCount * 4 then Error (ErrorsNew ''truncated ACK array'')
        else
          then_do (parseAckIDs raw 10 ackCount) (\<lambda>(acks, pos).
          then_do (parseRemote raw ackCount pos) (\<lambda>(remote, pos).
          parseTail raw b0 sid acks remote pos))))))"

section \<open>Encoding and decoding\<close>

text \<open>
  What the wire carries of a packet: the remote session id travels with ACKs only, and an ACK
  packet has neither packet id nor payload.
\<close>

definition wire_view :: "controlPacket \<Rightarrow> controlPacket" where
  "wire_view p =
     p\<lparr>RemoteSessionID := (if AckIDs p = [] then None else RemoteSessionID p),
       PacketID := (if Opcode p = opAckV1 then 0 else PacketID p),
       Payload := (if Opcode p = opAckV1 then [] else Payload p)\<rparr>"

lemma first_byte_fields:
  assumes "op \<le> (31 :: byte)" "key \<le> (7 :: byte)"
  shows "drop_bit 3 (push_bit 3 op OR (key AND 7)) = op"
    and "(push_bit 3 op OR (key AND 7)) AND 7 = key"
proof -
  have op: "take_bit 5 op = op"
    using assms(1) by (intro take_bit_word_self) (simp add: word_le_nat_alt)
  have key: "take_bit 3 key = key"
    using assms(2) by (intro take_bit_word_self) (simp add: word_le_nat_alt)
  have 7: "(7 :: byte) = mask 3" by (simp add: mask_eq_exp_minus_1)
  show "drop_bit 3 (push_bit 3 op OR (key AND 7)) = op"
    unfolding 7 by (subst op [symmetric], subst (2) op [symmetric], rule bit_word_eqI)
      (auto simp: bit_simps)
  show "(push_bit 3 op OR (key AND 7)) AND 7 = key"
    unfolding 7 by (subst (2) key [symmetric], rule bit_word_eqI) (auto simp: bit_simps)
qed

lemma first_byte_join: "push_bit 3 (drop_bit 3 b) OR (b AND 7 AND 7) = (b :: byte)"
proof -
  have 7: "(7 :: byte) = mask 3" by (simp add: mask_eq_exp_minus_1)
  show ?thesis unfolding 7 by (rule bit_word_eqI) (auto simp: bit_simps)
qed

lemma unat_of_nat_byte: "n < 256 \<Longrightarrow> unat (of_nat n :: byte) = n"
  by (simp add: unat_of_nat)

definition acks_at :: "bytes \<Rightarrow> nat \<Rightarrow> nat \<Rightarrow> u32 list" where
  "acks_at raw pos n = map (\<lambda>i. u32_at raw (pos + 4 * i)) [0..<n]"

lemma acks_at_Suc: "acks_at raw pos (Suc n) = u32_at raw pos # acks_at raw (pos + 4) n"
  by (simp add: acks_at_def map_upt_Suc algebra_simps del: upt_Suc)

lemma parseAckIDs_eq:
  "pos + 4 * n \<le> length raw \<Longrightarrow> parseAckIDs raw pos n = Ok (acks_at raw pos n, pos + 4 * n)"
proof (induction n arbitrary: pos)
  case 0
  then show ?case by (simp add: acks_at_def)
next
  case (Suc n)
  then have "parseAckIDs raw (pos + 4) n = Ok (acks_at raw (pos + 4) n, (pos + 4) + 4 * n)"
    by (intro Suc.IH) simp
  with Suc.prems show ?case by (simp add: uint_be_at acks_at_Suc)
qed

lemma acks_at_concat:
  "length pre = pos \<Longrightarrow> acks_at (pre @ concat (map put32_be acks) @ post) pos (length acks) = acks"
proof (induction acks arbitrary: pre pos)
  case (Cons a acks)
  have "acks_at ((pre @ put32_be a) @ concat (map put32_be acks) @ post) (pos + 4) (length acks) = acks"
    by (rule Cons.IH) (simp add: Cons.prems)
  with Cons.prems show ?case by (simp add: acks_at_Suc u32_at_put)
qed (simp add: acks_at_def)

lemma concat_acks_at:
  "pos + 4 * n \<le> length raw \<Longrightarrow>
   concat (map put32_be (acks_at raw pos n)) = take (4 * n) (drop pos raw)"
proof (induction n arbitrary: pos)
  case (Suc n)
  then have "concat (map put32_be (acks_at raw (pos + 4) n)) = take (4 * n) (drop 4 (drop pos raw))"
    by (simp add: add.commute)
  with Suc.prems show ?case
    by (simp add: acks_at_Suc put_be_at take_add [symmetric] del: drop_drop)
qed (simp add: acks_at_def)

text \<open>
  The decoder in closed form: every slice it takes is in range, so no panic is left, and the
  outcome depends on the length and the ACK count only.
\<close>

definition after_acks :: "bytes \<Rightarrow> nat" where
  "after_acks raw = 10 + 4 * unat (raw ! 9) + (if unat (raw ! 9) > 0 then 8 else 0)"

lemma parseControlPacket_eq:
  "parseControlPacket raw =
     (if length raw < 10 then Error (Errorf ''control packet too short: %d'' [ArgN (length raw)])
      else let n = unat (raw ! 9); opc = drop_bit 3 (raw ! 0); pos = after_acks raw in
      if n > 64 then Error (Errorf ''unreasonable ACK count %d'' [ArgN n])
      else if length raw < 10 + 4 * n then Error (ErrorsNew ''truncated ACK array'')
      else if length raw < pos then Error (ErrorsNew ''truncated remote session id'')
      else if opc \<noteq> opAckV1 \<and> length raw < pos + 4 then Error (ErrorsNew ''truncated packet id'')
      else Ok \<lparr>Opcode = opc, KeyID = raw ! 0 AND 7, SessionID = take 8 (drop 1 raw),
        AckIDs = acks_at raw 10 n,
        RemoteSessionID = (if n > 0 then Some (take 8 (drop (10 + 4 * n) raw)) else None),
        PacketID = (if opc = opAckV1 then 0 else u32_at raw pos),
        Payload = drop (if opc = opAckV1 then pos else pos + 4) raw\<rparr>)"
proof (cases "length raw < 10")
  case False
  let ?n = "unat (raw ! 9)"
  have head: "index_go raw 0 = Ok (raw ! 0)" "index_go raw 9 = Ok (raw ! 9)"
      "slice_go raw 1 9 = Ok (take 8 (drop 1 raw))"
    using False by (auto simp: index_go_def slice_go_def)
  show ?thesis
  proof (cases "?n > 64 \<or> length raw < 10 + 4 * ?n")
    case True
    with False show ?thesis by (auto simp: parseControlPacket_def Let_def head mult.commute)
  next
    case short: False
    then have acks: "parseAckIDs raw 10 ?n = Ok (acks_at raw 10 ?n, 10 + 4 * ?n)"
      by (simp add: parseAckIDs_eq)
    have tail: "parseTail raw b sid acks r pos =
        (if drop_bit 3 b \<noteq> opAckV1 \<and> length raw < pos + 4 then Error (ErrorsNew ''truncated packet id'')
         else Ok \<lparr>Opcode = drop_bit 3 b, KeyID = b AND 7, SessionID = sid, AckIDs = acks,
           RemoteSessionID = r, PacketID = (if drop_bit 3 b = opAckV1 then 0 else u32_at raw pos),
           Payload = drop (if drop_bit 3 b = opAckV1 then pos else pos + 4) raw\<rparr>)"
      if "pos \<le> length raw" for b sid acks r pos
      using that by (auto simp: parseTail_def Let_def uint_be_at)
    show ?thesis
    proof (cases "length raw < after_acks raw")
      case True
      with False short show ?thesis
        by (auto simp: parseControlPacket_def Let_def head acks parseRemote_def after_acks_def
            mult.commute split: if_splits)
    next
      case ok: False
      then have "parseRemote raw ?n (10 + 4 * ?n) =
          Ok (if ?n > 0 then Some (take 8 (drop (10 + 4 * ?n) raw)) else None, after_acks raw)"
        by (auto simp: parseRemote_def after_acks_def split: if_splits)
      with False short ok show ?thesis
        by (simp add: parseControlPacket_def Let_def head acks tail mult.commute)
    qed
  qed
qed (simp add: parseControlPacket_def)

lemma parseControlPacket_total: "no_panic (parseControlPacket raw)"
  by (simp add: parseControlPacket_eq Let_def)

text \<open>The shape of every encoding, split where the decoder splits it.\<close>

lemma marshal_shape:
  assumes "marshal p = Ok raw"
  obtains rem tail where
    "raw = (push_bit 3 (Opcode p) OR (KeyID p AND 7)) # SessionID p @ of_nat (length (AckIDs p))
        # concat (map put32_be (AckIDs p)) @ rem @ tail"
    "rem = (if AckIDs p = [] then [] else the (RemoteSessionID p))"
    "tail = (if Opcode p = opAckV1 then [] else put32_be (PacketID p) @ Payload p)"
    "Opcode p \<noteq> 0" "Opcode p \<le> 31" "KeyID p \<le> 7" "length (AckIDs p) \<le> 255"
    "AckIDs p \<noteq> [] \<longrightarrow> RemoteSessionID p \<noteq> None"
  using assms by (auto simp: marshal_def not_less split: if_splits)

lemma parse_marshal:
  assumes wf: "wf_packet p" and m: "marshal p = Ok raw"
  shows "parseControlPacket raw =
    (if length (AckIDs p) \<le> 64 then Ok (wire_view p)
     else Error (Errorf ''unreasonable ACK count %d'' [ArgN (length (AckIDs p))]))"
proof -
  obtain rem tail where raw: "raw = (push_bit 3 (Opcode p) OR (KeyID p AND 7)) # SessionID p
        @ of_nat (length (AckIDs p)) # concat (map put32_be (AckIDs p)) @ rem @ tail"
    and rem: "rem = (if AckIDs p = [] then [] else the (RemoteSessionID p))"
    and tail: "tail = (if Opcode p = opAckV1 then [] else put32_be (PacketID p) @ Payload p)"
    and op: "Opcode p \<le> 31" "KeyID p \<le> 7" and n255: "length (AckIDs p) \<le> 255"
    and ack: "AckIDs p \<noteq> [] \<longrightarrow> RemoteSessionID p \<noteq> None"
    by (rule marshal_shape [OF m])
  let ?n = "length (AckIDs p)" and ?acks = "concat (map put32_be (AckIDs p))"
  let ?pre = "(push_bit 3 (Opcode p) OR (KeyID p AND 7)) # SessionID p @ [of_nat ?n]"
  have sid: "length (SessionID p) = 8" using wf by (simp add: wf_packet_def)
  have lrem: "length rem = (if AckIDs p = [] then 0 else 8)"
    using wf ack rem by (auto simp: wf_packet_def)
  have raw1: "raw = ?pre @ ?acks @ rem @ tail" and raw2: "raw = (?pre @ ?acks) @ rem @ tail"
    and raw3: "raw = (?pre @ ?acks @ rem) @ tail" by (simp_all add: raw)
  have len: "length raw = 10 + 4 * ?n + length rem + length tail" by (simp add: raw sid)
  have n: "unat (raw ! 9) = ?n" using n255 by (simp add: raw sid nth_append unat_of_nat_byte)
  have pos: "after_acks raw = length (?pre @ ?acks @ rem)"
    by (simp add: after_acks_def n lrem sid)
  have acks: "acks_at raw 10 ?n = AckIDs p"
    unfolding raw1 by (rule acks_at_concat) (simp add: sid)
  have sid8: "take 8 (drop (Suc 0) raw) = SessionID p" by (simp add: raw sid)
  have rem8: "take 8 (drop (10 + 4 * ?n) raw) = the (RemoteSessionID p)" if "AckIDs p \<noteq> []"
    using that lrem rem by (subst raw2) (simp add: sid drop_Cons' drop_append)
  have tl: "drop (after_acks raw) raw = tail"
    unfolding pos by (subst raw3, subst append_eq_conv_conj [THEN iffD1, OF refl]) simp
  have pid: "u32_at raw (after_acks raw) = PacketID p" if "Opcode p \<noteq> opAckV1"
    unfolding pos using that tail by (subst raw3) (simp only: u32_at_put if_False)
  have payload: "drop (after_acks raw + 4) raw = drop 4 tail"
    by (metis tl drop_drop add.commute)
  have bits: "drop_bit 3 (raw ! 0) = Opcode p" "raw ! 0 AND 7 = KeyID p"
    using first_byte_fields [OF op] by (simp_all add: raw)
  have len': "length raw = after_acks raw + length tail"
    by (simp add: len after_acks_def n lrem)
  have bound: "\<not> length raw < 10" "\<not> length raw < 10 + 4 * ?n" using len by simp_all
  show ?thesis
  proof (cases "?n \<le> 64")
    case True
    have "parseControlPacket raw = Ok \<lparr>Opcode = Opcode p, KeyID = KeyID p, SessionID = SessionID p,
        AckIDs = AckIDs p, RemoteSessionID = (if AckIDs p = [] then None else RemoteSessionID p),
        PacketID = (if Opcode p = opAckV1 then 0 else PacketID p),
        Payload = (if Opcode p = opAckV1 then [] else Payload p)\<rparr>"
      using True bound len' ack rem8 tail
      by (auto simp: parseControlPacket_eq Let_def n acks sid8 pid payload bits tl)
    with True show ?thesis by (simp add: wire_view_def)
  next
    case False
    with bound show ?thesis by (simp add: parseControlPacket_eq Let_def n)
  qed
qed

lemma marshal_parse:
  assumes parse: "parseControlPacket raw = Ok p" and op: "Opcode p \<noteq> 0"
    and ack: "Opcode p = opAckV1 \<longrightarrow> Payload p = []"
  shows "marshal p = Ok raw"
proof -
  let ?n = "unat (raw ! 9)" and ?opc = "drop_bit 3 (raw ! 0)" and ?pos = "after_acks raw"
  have len: "10 \<le> length raw" "?n \<le> 64" "10 + 4 * ?n \<le> length raw" "?pos \<le> length raw"
      "?opc \<noteq> opAckV1 \<Longrightarrow> ?pos + 4 \<le> length raw"
    and p: "p = \<lparr>Opcode = ?opc, KeyID = raw ! 0 AND 7, SessionID = take 8 (drop 1 raw),
        AckIDs = acks_at raw 10 ?n,
        RemoteSessionID = (if ?n > 0 then Some (take 8 (drop (10 + 4 * ?n) raw)) else None),
        PacketID = (if ?opc = opAckV1 then 0 else u32_at raw ?pos),
        Payload = drop (if ?opc = opAckV1 then ?pos else ?pos + 4) raw\<rparr>"
    using parse by (auto simp: parseControlPacket_eq Let_def not_less split: if_splits)
  have nacks: "length (acks_at raw 10 ?n) = ?n" by (simp add: acks_at_def)
  have c9: "of_nat ?n = raw ! 9" by simp
  have opc: "?opc \<le> 31"
    using unat_byte [of "raw ! 0"] by (simp add: word_le_nat_alt unat_drop_bit)
  have key: "raw ! 0 AND 7 \<le> 7" by (rule word_and_le1)
  have rest: "(if ?n > 0 then take 8 (drop (10 + 4 * ?n) raw) else []) @ drop ?pos raw
      = drop (10 + 4 * ?n) raw"
    using take_drop_join [of 8 "10 + 4 * ?n" raw] by (simp add: after_acks_def add.commute)
  have "(if ?opc \<noteq> opAckV1 then put32_be (PacketID p) @ Payload p else []) = drop ?pos raw"
    using len ack take_drop_join [of 4 ?pos raw] by (auto simp: p put_be_at)
  moreover have "concat (map put32_be (acks_at raw 10 ?n)) @ drop (10 + 4 * ?n) raw = drop 10 raw"
    using len take_drop_join [of "4 * ?n" 10 raw] by (simp add: concat_acks_at)
  moreover have "[raw ! 0] @ take 8 (drop 1 raw) @ [raw ! 9] @ drop 10 raw = raw"
    using len(1) Cons_nth_drop_Suc [of 0 raw] Cons_nth_drop_Suc [of 9 raw] take_drop_join [of 8 1 raw]
    by (cases "raw = []") auto
  ultimately show ?thesis
    using op opc key len nacks rest first_byte_join [of "raw ! 0"] c9
    by (auto simp: marshal_def p not_less)
qed

section \<open>The UDP reset exchange\<close>

text \<open>
  The outside world of one exchange: what \<^verbatim>\<open>crypto/rand\<close> returns for a request of \<open>n\<close> bytes, the
  error of dialling, the error of the \<open>i\<close>-th write to the socket, the datagram (or error) of the
  read, and the measured round-trip time.
\<close>

record udp_env =
  rand_read :: "nat \<Rightarrow> bytes result"
  dial_err :: "go_error option"
  write_err :: "nat \<Rightarrow> go_error option"
  read_dgram :: "bytes result"
  elapsed :: nat

definition newSessionID :: "udp_env \<Rightarrow> sessionID result" where
  "newSessionID env = rand_read env 8"

record wireProbe =
  wpEndpoint :: Endpoint
  Latency :: nat
  ClientSID :: sessionID
  ServerSID :: sessionID
  ServerPacket :: u32
  ServerAckedUs :: bool
  Err :: "go_error option"

definition reset_packet :: "sessionID \<Rightarrow> controlPacket" where
  "reset_packet sid = \<lparr>Opcode = opControlHardResetClientV2, KeyID = 0, SessionID = sid, AckIDs = [],
     RemoteSessionID = None, PacketID = 0, Payload = []\<rparr>"

definition ack_packet :: "sessionID \<Rightarrow> sessionID \<Rightarrow> u32 \<Rightarrow> controlPacket" where
  "ack_packet sid remote pid = \<lparr>Opcode = opAckV1, KeyID = 0, SessionID = sid, AckIDs = [pid],
     RemoteSessionID = Some remote, PacketID = 0, Payload = []\<rparr>"

text \<open>
  The result is the probe record and the datagrams handed to the socket, in order.  The read
  buffer has 4096 bytes, so a longer datagram is cut there.
\<close>

definition checkServerReset ::
  "udp_env \<Rightarrow> wireProbe \<Rightarrow> sessionID \<Rightarrow> bytes \<Rightarrow> controlPacket \<Rightarrow> (wireProbe \<times> bytes list) result" where
  "checkServerReset env r clientSID reset resp =
     (if Opcode resp \<noteq> opControlHardResetServerV2 then
        Ok (r\<lparr>Err := Some (Errorf ''unexpected opcode %d'' [ArgN (unat (Opcode resp))])\<rparr>, [reset])
      else if KeyID resp \<noteq> 0 then
        Ok (r\<lparr>Err := Some (Errorf ''unexpected key id %d'' [ArgN (unat (KeyID resp))])\<rparr>, [reset])
      else if length (AckIDs resp) = 0 then
        Ok (r\<lparr>Err := Some (ErrorsNew ''server reset did not ACK client reset'')\<rparr>, [reset])
      else
        let r = (if 0 \<in> set (AckIDs resp) then r\<lparr>ServerAckedUs := True\<rparr> else r) in
        if \<not> ServerAckedUs r then
          Ok (r\<lparr>Err := Some (Errorf ''server ACK list does not contain client packet 0: %v''
                [ArgIDs (AckIDs resp)])\<rparr>, [reset])
        else if RemoteSessionID resp = None \<or> the (RemoteSessionID resp) \<noteq> clientSID then
          Ok (r\<lparr>Err := Some (ErrorsNew ''server returned wrong remote session id'')\<rparr>, [reset])
        else
          let r = r\<lparr>ServerSID := SessionID resp, ServerPacket := PacketID resp\<rparr> in
          match_err (marshal (ack_packet clientSID (SessionID resp) (PacketID resp)))
            (\<lambda>e. Ok (r\<lparr>Err := Some e\<rparr>, [reset])) (\<lambda>ack.
          case write_err env 1 of
            Some e \<Rightarrow> Ok (r\<lparr>Err := Some (Wrapf ''send reset ACK: %w'' e)\<rparr>, [reset, ack])
          | None \<Rightarrow> Ok (r, [reset, ack])))"

definition openVPNResetUDP :: "udp_env \<Rightarrow> Endpoint \<Rightarrow> (wireProbe \<times> bytes list) result" where
  "openVPNResetUDP env ep =
     (let r = \<lparr>wpEndpoint = ep, Latency = 0, ClientSID = replicate 8 0, ServerSID = replicate 8 0,
               ServerPacket = 0, ServerAckedUs = False, Err = None\<rparr> in
      if ToLower (Protocol ep) \<noteq> ''udp'' then
        Ok (r\<lparr>Err := Some (ErrorsNew ''wire probe currently requires UDP'')\<rparr>, [])
      else
        match_err (newSessionID env) (\<lambda>e. Ok (r\<lparr>Err := Some e\<rparr>, [])) (\<lambda>clientSID.
        let r = r\<lparr>ClientSID := clientSID\<rparr> in
        match_err (marshal (reset_packet clientSID)) (\<lambda>e. Ok (r\<lparr>Err := Some e\<rparr>, [])) (\<lambda>reset.
        if dial_err env \<noteq> None then Ok (r\<lparr>Err := dial_err env\<rparr>, [])
        else if write_err env 0 \<noteq> None then Ok (r\<lparr>Err := write_err env 0\<rparr>, [reset])
        else
          let r = r\<lparr>Latency := elapsed env\<rparr> in
          match_err (read_dgram env) (\<lambda>e. Ok (r\<lparr>Err := Some e\<rparr>, [reset])) (\<lambda>dgram.
          match_err (parseControlPacket (take 4096 dgram))
            (\<lambda>e. Ok (r\<lparr>Err := Some (Wrapf ''parse server reset: %w'' e)\<rparr>, [reset]))
            (checkServerReset env r clientSID reset)))))"

text \<open>Both packets the client sends are always encodable, and decode to themselves.\<close>

lemma marshal_reset_packet:
  "length sid = 8 \<Longrightarrow> \<exists>raw. marshal (reset_packet sid) = Ok raw \<and>
     parseControlPacket raw = Ok (reset_packet sid)"
proof -
  assume sid: "length sid = 8"
  obtain raw where m: "marshal (reset_packet sid) = Ok raw"
    by (simp add: marshal_def reset_packet_def word_less_nat_alt)
  have "parseControlPacket raw = Ok (wire_view (reset_packet sid))"
    using parse_marshal [OF _ m] sid by (simp add: wf_packet_def reset_packet_def)
  with m show ?thesis by (simp add: wire_view_def reset_packet_def)
qed

lemma marshal_ack_packet:
  "length sid = 8 \<Longrightarrow> length remote = 8 \<Longrightarrow> \<exists>raw. marshal (ack_packet sid remote pid) = Ok raw \<and>
     parseControlPacket raw = Ok (ack_packet sid remote pid)"
proof -
  assume len: "length sid = 8" "length remote = 8"
  obtain raw where m: "marshal (ack_packet sid remote pid) = Ok raw"
    by (simp add: marshal_def ack_packet_def word_less_nat_alt)
  have "parseControlPacket raw = Ok (wire_view (ack_packet sid remote pid))"
    using parse_marshal [OF _ m] len by (simp add: wf_packet_def ack_packet_def)
  with m show ?thesis by (simp add: wire_view_def ack_packet_def)
qed

lemma parseControlPacket_wf: "parseControlPacket raw = Ok p \<Longrightarrow> wf_packet p"
  by (auto simp: parseControlPacket_eq Let_def wf_packet_def after_acks_def not_less
      split: if_splits)

lemma checkServerReset_success:
  assumes "checkServerReset env r0 sid reset resp = Ok (r, sent)" "Err r = None"
    "\<not> ServerAckedUs r0"
  shows "Opcode resp = opControlHardResetServerV2 \<and> KeyID resp = 0 \<and> 0 \<in> set (AckIDs resp) \<and>
    RemoteSessionID resp = Some sid \<and> ServerSID r = SessionID resp \<and>
    ServerPacket r = PacketID resp \<and> ServerAckedUs r \<and> ClientSID r = ClientSID r0 \<and>
    (\<exists>ack. marshal (ack_packet sid (SessionID resp) (PacketID resp)) = Ok ack \<and> sent = [reset, ack])"
  using assms unfolding checkServerReset_def Let_def
  by (auto simp: match_err_Ok_iff split: if_splits option.splits)

text \<open>Which server reply completes an exchange, and what a completed exchange has sent.\<close>

definition completed_reset :: "udp_env \<Rightarrow> sessionID \<Rightarrow> controlPacket \<Rightarrow> bytes list \<Rightarrow> bool" where
  "completed_reset env sid resp sent \<longleftrightarrow>
     newSessionID env = Ok sid \<and>
     (\<exists>dgram. read_dgram env = Ok dgram \<and> parseControlPacket (take 4096 dgram) = Ok resp) \<and>
     Opcode resp = opControlHardResetServerV2 \<and> KeyID resp = 0 \<and> 0 \<in> set (AckIDs resp) \<and>
     RemoteSessionID resp = Some sid \<and>
     (\<exists>reset ack. sent = [reset, ack] \<and> marshal (reset_packet sid) = Ok reset \<and>
        marshal (ack_packet sid (SessionID resp) (PacketID resp)) = Ok ack)"

lemma openVPNResetUDP_success:
  assumes run: "openVPNResetUDP env ep = Ok (r, sent)" and ok: "Err r = None"
  shows "\<exists>resp. completed_reset env (ClientSID r) resp sent \<and>
    ServerSID r = SessionID resp \<and> ServerPacket r = PacketID resp"
proof -
  let ?r0 = "\<lparr>wpEndpoint = ep, Latency = 0, ClientSID = replicate 8 0, ServerSID = replicate 8 0,
               ServerPacket = 0, ServerAckedUs = False, Err = None\<rparr>"
  have udp: "ToLower (Protocol ep) = ''udp''"
    using run ok by (auto simp: openVPNResetUDP_def Let_def split: if_splits)
  note run = run [unfolded openVPNResetUDP_def Let_def, simplified udp, simplified]
  obtain sid where sid: "newSessionID env = Ok sid"
    using run ok by (cases "newSessionID env") auto
  note run = run [unfolded sid, simplified]
  obtain reset where reset: "marshal (reset_packet sid) = Ok reset"
    using run ok by (cases "marshal (reset_packet sid)") auto
  note run = run [unfolded reset, simplified]
  have io: "dial_err env = None" "write_err env 0 = None"
    using run ok by (auto split: if_splits)
  note run = run [unfolded io, simplified]
  obtain dgram where dgram: "read_dgram env = Ok dgram"
    using run ok by (cases "read_dgram env") auto
  note run = run [unfolded dgram, simplified]
  obtain resp where resp: "parseControlPacket (take 4096 dgram) = Ok resp"
    using run ok by (cases "parseControlPacket (take 4096 dgram)") auto
  note run = run [unfolded resp, simplified]
  show ?thesis
    using checkServerReset_success [OF run ok] sid reset dgram resp
    by (auto simp: completed_reset_def)
qed

lemma checkServerReset_endpoint:
  "returns_only (\<lambda>(r', sent). wpEndpoint r' = wpEndpoint r) (checkServerReset env r sid reset resp)"
  by (auto simp: checkServerReset_def Let_def intro!: returns_only_match_err split: option.splits)

lemma openVPNResetUDP_endpoint:
  assumes "openVPNResetUDP env ep = Ok (r, sent)"
  shows "wpEndpoint r = ep"
proof -
  have "returns_only (\<lambda>(r', sent). wpEndpoint r' = ep) (openVPNResetUDP env ep)"
    unfolding openVPNResetUDP_def Let_def
    using checkServerReset_endpoint [where r = "\<lparr>wpEndpoint = ep, Latency = l, ClientSID = c,
      ServerSID = s, ServerPacket = k, ServerAckedUs = b, Err = e\<rparr>" for l c s k b e]
    by (auto intro!: returns_only_match_err)
  with assms show ?thesis by (auto dest: returns_onlyD)
qed

lemma openVPNResetUDP_total:
  assumes "no_panic (rand_read env 8)" "no_panic (read_dgram env)"
  shows "no_panic (openVPNResetUDP env ep)"
proof -
  have marshal: "no_panic (marshal p)" for p by (simp add: marshal_def)
  then have "no_panic (checkServerReset env r sid reset resp)" for r sid reset resp
    by (auto simp: checkServerReset_def Let_def intro!: no_panic_match_err split: option.splits)
  then show ?thesis
    unfolding openVPNResetUDP_def Let_def newSessionID_def
    using assms marshal parseControlPacket_total by (auto intro!: no_panic_match_err)
qed

section \<open>Probing every advertised UDP endpoint\<close>

definition wire_less :: "wireProbe \<Rightarrow> wireProbe \<Rightarrow> bool" where
  "wire_less a b \<longleftrightarrow>
     (let iok = (Err a = None); jok = (Err b = None) in
      if iok \<noteq> jok then iok else Latency a < Latency b)"

interpretation wire_order: strict_weak_order wire_less
  by unfold_locales (auto simp: wire_less_def Let_def split: if_splits)

text \<open>
  Every goroutine fills its own slot, so the slice before sorting is independent of the
  schedule.  \<open>net i ep\<close> is \<open>None\<close> when the context ended while waiting for one of the twelve
  semaphore slots.
\<close>

definition probe_one ::
  "go_error \<Rightarrow> (nat \<Rightarrow> Endpoint \<Rightarrow> udp_env option) \<Rightarrow> nat \<times> Endpoint \<Rightarrow> wireProbe result" where
  "probe_one ctxErr net iep =
     (case iep of (i, ep) \<Rightarrow>
       (case net i ep of
          None \<Rightarrow> Ok \<lparr>wpEndpoint = ep, Latency = 0, ClientSID = replicate 8 0,
             ServerSID = replicate 8 0, ServerPacket = 0, ServerAckedUs = False, Err = Some ctxErr\<rparr>
        | Some env \<Rightarrow> then_do (openVPNResetUDP env ep) (\<lambda>(r, sent). Ok r)))"

definition probeOpenVPNWire ::
  "go_error \<Rightarrow> (nat \<Rightarrow> Endpoint \<Rightarrow> udp_env option) \<Rightarrow> Service \<Rightarrow> wireProbe list result" where
  "probeOpenVPNWire ctxErr net s =
     (let eps = filter (\<lambda>ep. Protocol ep = ''udp'') (endpoints s ''openvpn'') in
      then_do (mapM_go (probe_one ctxErr net) (zip [0..<length eps] eps)) (\<lambda>results.
        Ok (SliceStable wire_less results)))"

lemma mapM_go_all2: "mapM_go f xs = Ok ys \<Longrightarrow> list_all2 (\<lambda>x y. f x = Ok y) xs ys"
  by (induction xs arbitrary: ys) (auto simp: then_do_Ok_iff)

lemma probe_one_endpoint: "probe_one ctxErr net (i, ep) = Ok r \<Longrightarrow> wpEndpoint r = ep"
  by (auto simp: probe_one_def then_do_Ok_iff split: option.splits dest: openVPNResetUDP_endpoint)

lemma probed_endpoints:
  assumes "mapM_go (probe_one ctxErr net) (zip is eps) = Ok rs" "length is = length eps"
  shows "map wpEndpoint rs = eps"
proof -
  have all: "list_all2 (\<lambda>x y. probe_one ctxErr net x = Ok y) (zip is eps) rs"
    using assms(1) by (rule mapM_go_all2)
  then have "length rs = length eps" using assms(2) by (auto dest: list_all2_lengthD)
  then show ?thesis
    using all assms(2) by (intro nth_equalityI) (auto simp: list_all2_conv_all_nth dest!: probe_one_endpoint)
qed

lemma wire_rank_stable:
  "filter (\<lambda>r. Latency r = lat \<and> (Err r = None) = ok) (SliceStable wire_less rs)
   = filter (\<lambda>r. Latency r = lat \<and> (Err r = None) = ok) rs"
proof -
  define a where "a = \<lparr>wpEndpoint = undefined, Latency = lat, ClientSID = [], ServerSID = [],
    ServerPacket = 0, ServerAckedUs = False, Err = (if ok then None else Some EOF)\<rparr>"
  have "wire_order.equivalent a = (\<lambda>r. Latency r = lat \<and> (Err r = None) = ok)"
    by (auto simp: wire_order.equivalent_def wire_less_def a_def fun_eq_iff Let_def)
  then show ?thesis using wire_order.SliceStable_stable [of a rs] by simp
qed

lemma probeOpenVPNWire_endpoints:
  assumes "probeOpenVPNWire ctxErr net s = Ok rs"
  shows "mset (map wpEndpoint rs) = mset (filter (\<lambda>ep. Protocol ep = ''udp'') (endpoints s ''openvpn''))"
proof -
  let ?eps = "filter (\<lambda>ep. Protocol ep = ''udp'') (endpoints s ''openvpn'')"
  obtain us where us: "mapM_go (probe_one ctxErr net) (zip [0 ..< length ?eps] ?eps) = Ok us"
    and rs: "rs = SliceStable wire_less us"
    using assms by (auto simp: probeOpenVPNWire_def Let_def then_do_Ok_iff)
  have "mset (map wpEndpoint rs) = mset (map wpEndpoint us)"
    by (simp only: rs mset_map mset_SliceStable)
  then show ?thesis using probed_endpoints [OF us] by simp
qed

section \<open>Properties\<close>

definition data_sample :: controlPacket where
  "data_sample = \<lparr>Opcode = 4, KeyID = 0, SessionID = [1, 2, 3, 4, 5, 6, 7, 8], AckIDs = [5, 9],
     RemoteSessionID = Some [8, 7, 6, 5, 4, 3, 2, 1], PacketID = 3, Payload = [0x16, 3, 1]\<rparr>"

definition data_sample_raw :: bytes where
  "data_sample_raw = [32, 1, 2, 3, 4, 5, 6, 7, 8, 2, 0, 0, 0, 5, 0, 0, 0, 9, 8, 7, 6, 5, 4, 3, 2, 1,
     0, 0, 0, 3, 0x16, 3, 1]"

lemma marshal_data_sample: "wf_packet data_sample" "marshal data_sample = Ok data_sample_raw"
  by (simp_all add: wf_packet_def data_sample_def marshal_def data_sample_raw_def put32_be_def)

text \<open>
  C22. Every control packet \<^verbatim>\<open>marshal\<close> encodes is decoded by \<^verbatim>\<open>parseControlPacket\<close> to what the wire
  carries of it (the remote session id only with ACKs, packet id and payload only outside ACK
  packets), unless it has more than the 64 ACK ids the decoder accepts, which it then reports.
\<close>

theorem control_packet_roundtrip:
  assumes "wf_packet p" "marshal p = Ok raw"
  shows "parseControlPacket raw =
    (if length (AckIDs p) \<le> 64 then Ok (wire_view p)
     else Error (Errorf ''unreasonable ACK count %d'' [ArgN (length (AckIDs p))]))"
  using assms by (rule parse_marshal)

theorem control_packet_roundtrip_witness:
  "marshal data_sample = Ok data_sample_raw \<and> parseControlPacket data_sample_raw = Ok data_sample"
proof -
  have "length (AckIDs data_sample) \<le> 64" "wire_view data_sample = data_sample"
    by (simp_all add: data_sample_def wire_view_def)
  then show ?thesis
    using control_packet_roundtrip [OF marshal_data_sample] marshal_data_sample by simp
qed

text \<open>
  Whatever \<^verbatim>\<open>parseControlPacket\<close> accepts (with a non-zero opcode, and for an ACK packet without
  trailing bytes) is re-encoded by \<^verbatim>\<open>marshal\<close> to the very same bytes: the wire form is canonical.
\<close>

theorem control_packet_canonical:
  assumes "parseControlPacket raw = Ok p" "Opcode p \<noteq> 0" "Opcode p = opAckV1 \<longrightarrow> Payload p = []"
  shows "marshal p = Ok raw"
  using assms by (rule marshal_parse)

theorem control_packet_canonical_witness:
  "parseControlPacket data_sample_raw = Ok data_sample \<and> marshal data_sample = Ok data_sample_raw"
proof -
  have "length (AckIDs data_sample) \<le> 64" "wire_view data_sample = data_sample"
    by (simp_all add: data_sample_def wire_view_def)
  then have p: "parseControlPacket data_sample_raw = Ok data_sample"
    using parse_marshal [OF marshal_data_sample] by simp
  show ?thesis using control_packet_canonical [OF p] p by (simp add: data_sample_def)
qed

text \<open>
  \<^verbatim>\<open>parseControlPacket\<close> indexes and slices no datagram out of range, and every packet it returns
  has session ids of eight bytes, a key id below 8, an opcode of five bits and at most 64 ACK ids.
\<close>

theorem parseControlPacket_safe:
  "no_panic (parseControlPacket raw)
   \<and> returns_only (\<lambda>p. wf_packet p \<and> KeyID p \<le> 7 \<and> Opcode p \<le> 31 \<and> length (AckIDs p) \<le> 64)
       (parseControlPacket raw)"
proof -
  have "drop_bit 3 b \<le> 31" for b :: byte
    using unat_byte [of b] by (simp add: word_le_nat_alt unat_drop_bit)
  then have "returns_only (\<lambda>p. KeyID p \<le> 7 \<and> Opcode p \<le> 31 \<and> length (AckIDs p) \<le> 64)
      (parseControlPacket raw)"
    by (simp add: parseControlPacket_eq Let_def acks_at_def word_and_le1 not_less)
  then show ?thesis
    using parseControlPacket_total [of raw] parseControlPacket_wf [of raw]
    by (auto simp: returns_only_def)
qed

definition reset_env :: "bytes \<Rightarrow> udp_env" where
  "reset_env dgram = \<lparr>rand_read = (\<lambda>n. Ok (replicate n 7)), dial_err = None, write_err = (\<lambda>_. None),
     read_dgram = Ok dgram, elapsed = 12\<rparr>"

definition reset_reply :: bytes where
  "reset_reply = [64, 1, 1, 1, 1, 1, 1, 1, 1, 1, 0, 0, 0, 0, 7, 7, 7, 7, 7, 7, 7, 7, 0, 0, 0, 0]"

definition udp_endpoint :: Endpoint where
  "udp_endpoint = \<lparr>Host = ''h'', IP = ''10.0.0.1'', Location = ''x'', Protocol = ''UDP'', Port = 53\<rparr>"

text \<open>
  When \<^verbatim>\<open>openVPNResetUDP\<close> reports no error, the datagram it read was a hard reset from a server
  that acknowledged packet 0 and echoed this client's session id, the recorded server session and
  packet id are that datagram's, and exactly two datagrams were sent: the client's hard reset and
  an ACK of the server's packet addressed to the server's session.
\<close>

theorem openVPNResetUDP_handshake:
  assumes "openVPNResetUDP env ep = Ok (r, sent)" "Err r = None"
  shows "\<exists>resp. completed_reset env (ClientSID r) resp sent
    \<and> ServerSID r = SessionID resp \<and> ServerPacket r = PacketID resp"
  using assms by (rule openVPNResetUDP_success)

theorem openVPNResetUDP_handshake_witness:
  "\<exists>r sent resp. openVPNResetUDP (reset_env reset_reply) udp_endpoint = Ok (r, sent) \<and> Err r = None
    \<and> completed_reset (reset_env reset_reply) (replicate 8 7) resp sent
    \<and> ServerSID r = replicate 8 1 \<and> length sent = 2"
proof -
  define out where "out = openVPNResetUDP (reset_env reset_reply) udp_endpoint"
  have "(case out of Ok (r, sent) \<Rightarrow> Err r = None \<and> ClientSID r = replicate 8 7
      \<and> ServerSID r = replicate 8 1 \<and> length sent = 2 | _ \<Rightarrow> False)"
    unfolding out_def by code_simp
  then obtain r sent where o: "openVPNResetUDP (reset_env reset_reply) udp_endpoint = Ok (r, sent)"
    "Err r = None" "ClientSID r = replicate 8 7" "ServerSID r = replicate 8 1" "length sent = 2"
    by (auto simp: out_def split: result.splits)
  then show ?thesis using openVPNResetUDP_handshake [OF o(1,2)] by auto
qed

text \<open>
  \<^verbatim>\<open>probeOpenVPNWire\<close> returns one result for every advertised UDP endpoint, the confirmed ones
  before the failed ones and each group by increasing latency; results with equal rank keep the
  order in which the endpoints are advertised.
\<close>

theorem probeOpenVPNWire_ranking:
  assumes "probeOpenVPNWire ctxErr net s = Ok rs"
  shows "mset (map wpEndpoint rs) = mset (filter (\<lambda>ep. Protocol ep = ''udp'') (endpoints s ''openvpn''))
    \<and> sorted_wrt (\<lambda>a b. Err b = None \<longrightarrow> Err a = None) rs
    \<and> sorted_wrt (\<lambda>a b. (Err a = None \<longleftrightarrow> Err b = None) \<longrightarrow> Latency a \<le> Latency b) rs
    \<and> (\<exists>unsorted. map wpEndpoint unsorted = filter (\<lambda>ep. Protocol ep = ''udp'') (endpoints s ''openvpn'')
        \<and> (\<forall>lat ok. filter (\<lambda>r. Latency r = lat \<and> (Err r = None) = ok) rs
             = filter (\<lambda>r. Latency r = lat \<and> (Err r = None) = ok) unsorted))"
proof -
  let ?eps = "filter (\<lambda>ep. Protocol ep = ''udp'') (endpoints s ''openvpn'')"
  obtain us where us: "mapM_go (probe_one ctxErr net) (zip [0 ..< length ?eps] ?eps) = Ok us"
    and rs: "rs = SliceStable wire_less us"
    using assms by (auto simp: probeOpenVPNWire_def Let_def then_do_Ok_iff)
  have eps: "map wpEndpoint us = ?eps" using probed_endpoints [OF us] by simp
  have order: "sorted_wrt (\<lambda>a b. \<not> wire_less b a) rs"
    using wire_order.SliceStable_in_order [of us] by (simp add: wire_order.in_order_def rs)
  have "mset (map wpEndpoint rs) = mset (map wpEndpoint us)"
    by (simp only: rs mset_map mset_SliceStable)
  moreover have "sorted_wrt (\<lambda>a b. Err b = None \<longrightarrow> Err a = None) rs"
    "sorted_wrt (\<lambda>a b. (Err a = None \<longleftrightarrow> Err b = None) \<longrightarrow> Latency a \<le> Latency b) rs"
    by (rule sorted_wrt_mono_rel [OF _ order], auto simp: wire_less_def Let_def split: if_splits)+
  moreover have "filter (\<lambda>r. Latency r = lat \<and> (Err r = None) = ok) rs
      = filter (\<lambda>r. Latency r = lat \<and> (Err r = None) = ok) us" for lat ok
    using wire_rank_stable [of lat ok us] by (simp add: rs)
  ultimately show ?thesis using eps by auto
qed

definition two_port_service :: Service where
  "two_port_service = \<lparr>Gateways = [\<lparr>gwHost = ''h'', IPAddress = ''10.0.0.1'', gwLocation = ''x'',
     Capabilities_Transport = [\<lparr>Type = ''OpenVPN'', Ports = [''53'', ''80'', ''x''], Protocols = [''udp'']\<rparr>]\<rparr>]\<rparr>"

definition second_answers :: "nat \<Rightarrow> Endpoint \<Rightarrow> udp_env option" where
  "second_answers i ep = (if i = 1 then Some (reset_env reset_reply) else None)"

definition udp_at :: "int \<Rightarrow> Endpoint" where
  "udp_at port = \<lparr>Host = ''h'', IP = ''10.0.0.1'', Location = ''x'', Protocol = ''udp'', Port = port\<rparr>"

lemma two_port_endpoints: "endpoints two_port_service ''openvpn'' = [udp_at 53, udp_at 80]"
proof -
  have "EqualFold ''OpenVPN'' ''openvpn''" "ToLower ''udp'' = ''udp''" by code_simp+
  then show ?thesis
    by (simp add: endpoints_def two_port_service_def endpoint_of_port_def udp_at_def Atoi_def digit_val_def Let_def)
qed

theorem probeOpenVPNWire_ranking_witness:
  "\<exists>rs. probeOpenVPNWire EOF second_answers two_port_service = Ok rs
    \<and> map (Port \<circ> wpEndpoint) rs = [80, 53] \<and> sorted_wrt (\<lambda>a b. Err b = None \<longrightarrow> Err a = None) rs"
proof -
  define out where "out = probeOpenVPNWire EOF second_answers two_port_service"
  have "(case mapM_go (probe_one EOF second_answers) [(0, udp_at 53), (1, udp_at 80)] of
      Ok rs \<Rightarrow> map (Port \<circ> wpEndpoint) (SliceStable wire_less rs) = [80, 53] | _ \<Rightarrow> False)"
    by code_simp
  then have "(case out of Ok rs \<Rightarrow> map (Port \<circ> wpEndpoint) rs = [80, 53] | _ \<Rightarrow> False)"
    by (auto simp: out_def probeOpenVPNWire_def two_port_endpoints udp_at_def Let_def upt_rec
        split: result.splits)
  then obtain rs where rs: "probeOpenVPNWire EOF second_answers two_port_service = Ok rs"
    "map (Port \<circ> wpEndpoint) rs = [80, 53]"
    by (auto simp: out_def split: result.splits)
  moreover have "sorted_wrt (\<lambda>a b. Err b = None \<longrightarrow> Err a = None) rs"
    using probeOpenVPNWire_ranking [OF rs(1)] by (elim conjE)
  ultimately show ?thesis by (intro exI [of _ rs] conjI)
qed

end
