(* ===== verification/ControlConn.thy ===== *)
theory ControlConn
  imports Protocol
begin

text \<open>
  The OpenVPN control channel as a byte stream (\<^verbatim>\<open>tlsprobe.go\<close>): opening it, writing a byte string as
  a sequence of control packets, reading it back, and the choice of the gateway by latency.

  The socket is the list of what its following reads return and the error of its \<open>i\<close>-th write; an
  operation also returns the datagrams it handed to the socket.  When the socket has nothing more
  to deliver its read returns \<open>endErr\<close> (the deadline).  The two mutexes make \<^verbatim>\<open>Write\<close> and \<^verbatim>\<open>Read\<close>
  atomic, so they are functions on the connection.
\<close>

section \<open>The connection\<close>

record controlUDPConn =
  localSID :: sessionID
  remoteSID :: sessionID
  nextID :: u32
  readBuf :: bytes

definition dialControlUDP :: "udp_env \<Rightarrow> Endpoint \<Rightarrow> (controlUDPConn \<times> nat \<times> bytes list) result" where
  "dialControlUDP env ep =
     (if Protocol ep \<noteq> ''udp'' then Error (ErrorsNew ''control TLS probe currently requires UDP'')
      else
        then_do (newSessionID env) (\<lambda>sid.
        then_do (marshal (reset_packet sid)) (\<lambda>reset.
        if dial_err env \<noteq> None then Error (the (dial_err env))
        else if write_err env 0 \<noteq> None then Error (the (write_err env 0))
        else
          then_do (read_dgram env) (\<lambda>dgram.
          then_do (parseControlPacket (take 4096 dgram)) (\<lambda>resp.
          if Opcode resp \<noteq> opControlHardResetServerV2 then
            Error (Errorf ''expected server hard reset, got opcode %d'' [ArgN (unat (Opcode resp))])
          else if RemoteSessionID resp = None \<or> the (RemoteSessionID resp) \<noteq> sid then
            Error (ErrorsNew ''server reset session-id mismatch'')
          else
            then_do (marshal (ack_packet sid (SessionID resp) (PacketID resp))) (\<lambda>ack.
            if write_err env 1 \<noteq> None then Error (the (write_err env 1))
            else Ok (\<lparr>localSID = sid, remoteSID = SessionID resp, nextID = 1, readBuf = []\<rparr>,
                     elapsed env, [reset, ack])))))))"

definition control_packet :: "sessionID \<Rightarrow> u32 \<Rightarrow> bytes \<Rightarrow> controlPacket" where
  "control_packet sid pid chunk = \<lparr>Opcode = opControlV1, KeyID = 0, SessionID = sid, AckIDs = [],
     RemoteSessionID = None, PacketID = pid, Payload = chunk\<rparr>"

text \<open>
  \<^verbatim>\<open>Write\<close>: the connection afterwards, the datagrams handed to the socket, the count of bytes
  written and the error.  \<open>k\<close> counts the writes of this call.
\<close>

function write_loop ::
  "(nat \<Rightarrow> go_error option) \<Rightarrow> nat \<Rightarrow> controlUDPConn \<Rightarrow> bytes \<Rightarrow> nat \<Rightarrow> bytes list
    \<Rightarrow> (controlUDPConn \<times> bytes list \<times> nat \<times> go_error option) result" where
  "write_loop werr k c p totalLen sent =
     (if length p > 0 then
        let n = (if length p > 1000 then 1000 else length p) in
        then_do (slice_go p 0 n) (\<lambda>chunk.
        match_err (marshal (control_packet (localSID c) (nextID c) chunk))
          (\<lambda>err. Ok (c, sent, totalLen, Some err)) (\<lambda>raw.
        (case werr k of
           Some err \<Rightarrow> Ok (c, sent @ [raw], totalLen, Some err)
         | None \<Rightarrow>
             then_do (slice_go p n (length p)) (\<lambda>p'.
             write_loop werr (k + 1) (c\<lparr>nextID := nextID c + 1\<rparr>) p' (totalLen + n) (sent @ [raw])))))
      else Ok (c, sent, totalLen, None))"
  by pat_completeness auto
termination
  by (relation "measure (\<lambda>(werr, k, c, p, t, s). length p)") (auto split: if_splits dest: slice_go_length)

declare write_loop.simps [simp del]

definition conn_Write ::
  "(nat \<Rightarrow> go_error option) \<Rightarrow> controlUDPConn \<Rightarrow> bytes
    \<Rightarrow> (controlUDPConn \<times> bytes list \<times> nat \<times> go_error option) result" where
  "conn_Write werr c p = write_loop werr 0 c p 0 []"

definition sendAck :: "go_error option \<Rightarrow> controlUDPConn \<Rightarrow> u32 \<Rightarrow> (bytes list \<times> go_error option) result" where
  "sendAck werr c pid =
     match_err (marshal (ack_packet (localSID c) (remoteSID c) pid)) (\<lambda>err. Ok ([], Some err)) (\<lambda>raw.
     Ok ([raw], werr))"

text \<open>\<^verbatim>\<open>bytes.Buffer.Read\<close> on a buffer that is not empty.\<close>

definition buf_Read :: "controlUDPConn \<Rightarrow> nat \<Rightarrow> bytes \<times> controlUDPConn" where
  "buf_Read c n = (take n (readBuf c), c\<lparr>readBuf := drop n (readBuf c)\<rparr>)"

text \<open>
  \<^verbatim>\<open>Read\<close> into a buffer of \<open>n\<close> bytes: the bytes (or the error), the connection, the reads of the
  socket that are left, and the ACKs sent.
\<close>

fun read_loop ::
  "go_error \<Rightarrow> (nat \<Rightarrow> go_error option) \<Rightarrow> nat \<Rightarrow> controlUDPConn \<Rightarrow> nat \<Rightarrow> bytes list \<Rightarrow> bytes result list
    \<Rightarrow> ((bytes + go_error) \<times> controlUDPConn \<times> bytes result list \<times> bytes list) result" where
  "read_loop endErr werr k c n sent [] = Ok (Inr endErr, c, [], sent)"
| "read_loop endErr werr k c n sent (rd # reads) =
     match_err rd (\<lambda>err. Ok (Inr err, c, reads, sent)) (\<lambda>dgram.
     match_err (parseControlPacket (take 8192 dgram))
       (\<lambda>err. read_loop endErr werr k c n sent reads) (\<lambda>pkt.
     if SessionID pkt \<noteq> remoteSID c then read_loop endErr werr k c n sent reads
     else if Opcode pkt = opAckV1 then read_loop endErr werr k c n sent reads
     else if Opcode pkt = opControlV1 then
       (if RemoteSessionID pkt \<noteq> None \<and> the (RemoteSessionID pkt) \<noteq> localSID c then
          read_loop endErr werr k c n sent reads
        else
          then_do (sendAck (werr k) c (PacketID pkt)) (\<lambda>(ack, err).
          case err of
            Some e \<Rightarrow> Ok (Inr e, c, reads, sent @ ack)
          | None \<Rightarrow>
              (if length (Payload pkt) = 0 then
                 read_loop endErr werr (k + 1) c n (sent @ ack) reads
               else
                 let c = c\<lparr>readBuf := readBuf c @ Payload pkt\<rparr>; (b, c) = buf_Read c n in
                 Ok (Inl b, c, reads, sent @ ack))))
     else if Opcode pkt = opControlSoftResetV1 then
       Ok (Inr (ErrorsNew ''server requested control-channel rekey during TLS probe''), c, reads, sent)
     else read_loop endErr werr k c n sent reads))"

declare read_loop.simps(2) [simp del]

definition conn_Read ::
  "go_error \<Rightarrow> (nat \<Rightarrow> go_error option) \<Rightarrow> controlUDPConn \<Rightarrow> nat \<Rightarrow> bytes result list
    \<Rightarrow> ((bytes + go_error) \<times> controlUDPConn \<times> bytes result list \<times> bytes list) result" where
  "conn_Read endErr werr c n reads =
     (if length (readBuf c) > 0 then
        (let (b, c) = buf_Read c n in Ok (Inl b, c, reads, []))
      else read_loop endErr werr 0 c n [] reads)"

section \<open>Choosing a gateway\<close>

definition medianLatency :: "nat list \<Rightarrow> nat" where
  "medianLatency samples =
     (if length samples = 0 then 0 else SliceStable (<) samples ! (length samples div 2))"

record lowLatencyCandidate =
  cEndpoint :: Endpoint
  Samples :: "nat list"
  Median :: nat
  Best :: nat

definition candidate_less :: "lowLatencyCandidate \<Rightarrow> lowLatencyCandidate \<Rightarrow> bool" where
  "candidate_less a b \<longleftrightarrow>
     (let iStable = length (Samples a) \<ge> 2; jStable = length (Samples b) \<ge> 2 in
      if iStable \<noteq> jStable then iStable
      else if Median a \<noteq> Median b then Median a < Median b
      else Best a < Best b)"

text \<open>One goroutine of stage 2; \<open>net i s\<close> is the world of sample \<open>s\<close> of finalist \<open>i\<close>.\<close>

primrec take_samples ::
  "(nat \<Rightarrow> udp_env) \<Rightarrow> nat list \<Rightarrow> lowLatencyCandidate \<Rightarrow> lowLatencyCandidate result" where
  "take_samples net [] cand = Ok (cand\<lparr>Median := medianLatency (Samples cand)\<rparr>)"
| "take_samples net (s # ss) cand =
     then_do (openVPNResetUDP (net s) (cEndpoint cand)) (\<lambda>(r, sent).
     if Err r \<noteq> None then take_samples net ss cand
     else take_samples net ss
       (cand\<lparr>Samples := Samples cand @ [Latency r],
             Best := (if Best cand = 0 \<or> Latency r < Best cand then Latency r else Best cand)\<rparr>))"

definition bestWireEndpoint ::
  "go_error \<Rightarrow> (nat \<Rightarrow> Endpoint \<Rightarrow> udp_env option) \<Rightarrow> (nat \<Rightarrow> nat \<Rightarrow> udp_env) \<Rightarrow> Service \<Rightarrow> Endpoint result" where
  "bestWireEndpoint ctxErr net net2 s =
     then_do (probeOpenVPNWire ctxErr net s) (\<lambda>rs.
     let candidates = map (\<lambda>r. \<lparr>cEndpoint = wpEndpoint r, Samples = [Latency r], Median = 0, Best = Latency r\<rparr>)
                        (take 5 (filter (\<lambda>r. Err r = None) rs)) in
     if length candidates = 0 then Error (ErrorsNew ''no protocol-confirmed UDP endpoint'')
     else
       then_do (mapM_go (\<lambda>(i, cand). take_samples (net2 i) [0, 1] cand)
         (zip [0 ..< length candidates] candidates)) (\<lambda>candidates.
       then_do (index_go (SliceStable candidate_less candidates) 0) (\<lambda>c. Ok (cEndpoint c))))"

definition tlsVersionName :: "u16 \<Rightarrow> string" where
  "tlsVersionName v =
     (if v = 0x0303 then ''TLS 1.2'' else if v = 0x0304 then ''TLS 1.3''
      else ''0x'' @ map (\<lambda>i. ''0123456789abcdef'' ! (unat (drop_bit (4 * (3 - i)) v) mod 16)) [0 ..< 4])"

interpretation candidate_order: strict_weak_order candidate_less
  by unfold_locales (auto simp: candidate_less_def Let_def split: if_splits)

interpretation latency_order: strict_weak_order "(<) :: nat \<Rightarrow> nat \<Rightarrow> bool"
  by unfold_locales auto

section \<open>What is written\<close>

definition control_dgram :: "sessionID \<Rightarrow> u32 \<Rightarrow> bytes \<Rightarrow> bytes" where
  "control_dgram sid pid chunk = [32] @ sid @ [0] @ put32_be pid @ chunk"

lemma marshal_control_packet: "marshal (control_packet sid pid chunk) = Ok (control_dgram sid pid chunk)"
  by (simp add: marshal_def control_packet_def control_dgram_def word_less_nat_alt)

lemma parse_control_dgram:
  "length sid = 8 \<Longrightarrow> parseControlPacket (control_dgram sid pid chunk) = Ok (control_packet sid pid chunk)"
  using parse_marshal [OF _ marshal_control_packet, of sid pid chunk]
  by (simp add: wf_packet_def control_packet_def wire_view_def)

function write_dgrams :: "sessionID \<Rightarrow> u32 \<Rightarrow> bytes \<Rightarrow> bytes list" where
  "write_dgrams sid pid p =
     (if p = [] then [] else control_dgram sid pid (take 1000 p) # write_dgrams sid (pid + 1) (drop 1000 p))"
  by pat_completeness auto
termination by (relation "measure (\<lambda>(sid, pid, p). length p)") auto

declare write_dgrams.simps [simp del]

lemma write_loop_eq:
  "(\<And>k. werr k = None) \<Longrightarrow>
   write_loop werr k c p t sent =
     Ok (c\<lparr>nextID := nextID c + of_nat (length (write_dgrams (localSID c) (nextID c) p))\<rparr>,
         sent @ write_dgrams (localSID c) (nextID c) p, t + length p, None)"
proof (induction "length p" arbitrary: k c p t sent rule: less_induct)
  case less
  show ?case
  proof (cases "p = []")
    case True
    then show ?thesis by (simp add: write_loop.simps write_dgrams.simps)
  next
    case False
    let ?n = "if length p > 1000 then 1000 else length p"
    have n: "take ?n p = take 1000 p" "drop ?n p = drop 1000 p" "?n \<le> length p"
      by (cases "length p > 1000"; simp)+
    have step: "write_loop werr k c p t sent =
        write_loop werr (k + 1) (c\<lparr>nextID := nextID c + 1\<rparr>) (drop 1000 p) (t + ?n)
          (sent @ [control_dgram (localSID c) (nextID c) (take 1000 p)])"
      using False n less.prems
      by (subst write_loop.simps) (simp add: Let_def marshal_control_packet del: if_split)
    have "length (drop 1000 p) < length p" using False by simp
    note IH = less.hyps [OF this less.prems, of "k + 1" "c\<lparr>nextID := nextID c + 1\<rparr>" "t + ?n"
        "sent @ [control_dgram (localSID c) (nextID c) (take 1000 p)]"]
    have len: "?n + (length p - 1000) = length p" by simp
    show ?thesis
      unfolding step IH write_dgrams.simps [of "localSID c" "nextID c" p]
      using False len by (simp add: add.assoc)
  qed
qed

text \<open>Numbered from \<open>pid\<close>, at most 1000 bytes each, together the bytes to write.\<close>

lemma write_dgrams_chunks:
  "\<exists>chunks. write_dgrams sid pid p = map (\<lambda>i. control_dgram sid (pid + of_nat i) (chunks ! i)) [0 ..< length chunks]
    \<and> concat chunks = p \<and> (\<forall>ch \<in> set chunks. ch \<noteq> [] \<and> length ch \<le> 1000)"
proof (induction "length p" arbitrary: pid p rule: less_induct)
  case less
  show ?case
  proof (cases "p = []")
    case True
    then show ?thesis by (intro exI [of _ "[]"]) (simp add: write_dgrams.simps)
  next
    case False
    then have "length (drop 1000 p) < length p" by simp
    from less.hyps [OF this, of "pid + 1"] obtain chunks where ch:
      "write_dgrams sid (pid + 1) (drop 1000 p) =
        map (\<lambda>i. control_dgram sid (pid + 1 + of_nat i) (chunks ! i)) [0 ..< length chunks]"
      "concat chunks = drop 1000 p" "\<forall>ch \<in> set chunks. ch \<noteq> [] \<and> length ch \<le> 1000"
      by blast
    have idx: "[0 ..< length (take 1000 p # chunks)] = 0 # map Suc [0 ..< length chunks]"
      by (simp add: upt_conv_Cons map_Suc_upt del: upt_Suc)
    have "write_dgrams sid pid p = map (\<lambda>i. control_dgram sid (pid + of_nat i) ((take 1000 p # chunks) ! i))
        [0 ..< length (take 1000 p # chunks)]"
      unfolding idx using False
      by (simp add: write_dgrams.simps [of sid pid p] ch(1) add.assoc o_def)
    moreover have "concat (take 1000 p # chunks) = p" by (simp add: ch(2))
    ultimately show ?thesis using ch(3) False by (intro exI [of _ "take 1000 p # chunks"]) auto
  qed
qed

section \<open>What is read\<close>

text \<open>The bytes of the stream a datagram carries to this connection.\<close>

definition accepted :: "controlUDPConn \<Rightarrow> controlPacket \<Rightarrow> bool" where
  "accepted c pkt \<longleftrightarrow> SessionID pkt = remoteSID c \<and> Opcode pkt = opControlV1
     \<and> (RemoteSessionID pkt = None \<or> RemoteSessionID pkt = Some (localSID c))"

definition carried :: "controlUDPConn \<Rightarrow> bytes result \<Rightarrow> bytes" where
  "carried c rd = (case rd of
       Ok dgram \<Rightarrow> (case parseControlPacket (take 8192 dgram) of
           Ok pkt \<Rightarrow> (if accepted c pkt then Payload pkt else []) | _ \<Rightarrow> [])
     | _ \<Rightarrow> [])"

definition pending :: "controlUDPConn \<Rightarrow> bytes result list \<Rightarrow> bytes" where
  "pending c reads = readBuf c @ concat (map (carried c) reads)"

text \<open>A read of the socket that neither fails nor asks for a new key.\<close>

definition quiet :: "controlUDPConn \<Rightarrow> bytes result \<Rightarrow> bool" where
  "quiet c rd \<longleftrightarrow> (\<exists>dgram. rd = Ok dgram \<and> (\<forall>pkt. parseControlPacket (take 8192 dgram) = Ok pkt \<longrightarrow>
     SessionID pkt = remoteSID c \<longrightarrow> Opcode pkt \<noteq> opControlSoftResetV1))"

definition ack_dgram :: "controlUDPConn \<Rightarrow> u32 \<Rightarrow> bytes" where
  "ack_dgram c pid = [40] @ localSID c @ [1] @ put32_be pid @ remoteSID c"

lemma sendAck_eq: "sendAck e c pid = Ok ([ack_dgram c pid], e)"
  by (simp add: sendAck_def marshal_def ack_packet_def ack_dgram_def word_less_nat_alt)

lemma parse_never_panics: "parseControlPacket raw \<noteq> Panicked q"
  using parseControlPacket_total [of raw] by (auto simp: no_panic_def)

lemma read_loop_step:
  "read_loop e werr k c n sent (Ok d # reads) =
     (case parseControlPacket (take 8192 d) of
        Ok pkt \<Rightarrow>
          (if SessionID pkt = remoteSID c \<and> Opcode pkt = opControlSoftResetV1 then
             Ok (Inr (ErrorsNew ''server requested control-channel rekey during TLS probe''), c, reads, sent)
           else if accepted c pkt then
             (case werr k of
                Some err \<Rightarrow> Ok (Inr err, c, reads, sent @ [ack_dgram c (PacketID pkt)])
              | None \<Rightarrow>
                  (if Payload pkt = [] then
                     read_loop e werr (k + 1) c n (sent @ [ack_dgram c (PacketID pkt)]) reads
                   else Ok (Inl (take n (readBuf c @ Payload pkt)),
                         c\<lparr>readBuf := drop n (readBuf c @ Payload pkt)\<rparr>, reads,
                         sent @ [ack_dgram c (PacketID pkt)])))
           else read_loop e werr k c n sent reads)
      | _ \<Rightarrow> read_loop e werr k c n sent reads)"
proof (cases "parseControlPacket (take 8192 d)")
  case (Ok pkt)
  then show ?thesis
    by (auto simp: read_loop.simps(2) accepted_def sendAck_eq buf_Read_def Let_def split: option.splits)
next
  case (Panicked q)
  then show ?thesis by (simp add: parse_never_panics)
qed (simp add: read_loop.simps(2))

lemma read_loop_not_Ok:
  "read_loop e werr k c n sent (Error err # reads) = Ok (Inr err, c, reads, sent)"
  "read_loop e werr k c n sent (Panicked q # reads) = Panicked q"
  by (simp_all add: read_loop.simps(2))

lemma carried_cong:
  "localSID c' = localSID c \<Longrightarrow> remoteSID c' = remoteSID c \<Longrightarrow> carried c' = carried c"
  by (auto simp: carried_def accepted_def fun_eq_iff split: result.splits)

definition same_session :: "controlUDPConn \<Rightarrow> controlUDPConn \<Rightarrow> bool" where
  "same_session c c' \<longleftrightarrow> localSID c' = localSID c \<and> remoteSID c' = remoteSID c \<and> nextID c' = nextID c"

lemma carried_Ok:
  "carried c (Ok d) = (case parseControlPacket (take 8192 d) of
     Ok pkt \<Rightarrow> (if accepted c pkt then Payload pkt else []) | _ \<Rightarrow> [])"
  by (simp add: carried_def)

lemma read_loop_data:
  "read_loop e werr k c n sent reads = Ok (Inl b, c', reads', acks) \<Longrightarrow> readBuf c = [] \<Longrightarrow>
   pending c reads = b @ pending c' reads' \<and> same_session c c' \<and> length reads' < length reads
   \<and> (0 < n \<longrightarrow> b \<noteq> [])"
proof (induction reads arbitrary: k sent)
  case (Cons rd reads)
  show ?case
  proof (cases rd)
    case (Ok d)
    show ?thesis
    proof (cases "parseControlPacket (take 8192 d)")
      case (Ok pkt)
      show ?thesis
      proof (cases "accepted c pkt \<and> Payload pkt \<noteq> []")
        case True
        then have "b = take n (Payload pkt)" "c' = c\<lparr>readBuf := drop n (Payload pkt)\<rparr>" "reads' = reads"
          using Cons.prems \<open>rd = Ok d\<close> Ok by (auto simp: read_loop_step accepted_def split: option.splits)
        then show ?thesis
          using True Cons.prems(2) \<open>rd = Ok d\<close> Ok carried_cong [of c' c]
          by (auto simp: pending_def carried_Ok same_session_def)
      next
        case False
        then have "carried c rd = []" using \<open>rd = Ok d\<close> Ok by (auto simp: carried_Ok)
        moreover have "\<exists>k sent. read_loop e werr k c n sent reads = Ok (Inl b, c', reads', acks)"
          using False Cons.prems(1) \<open>rd = Ok d\<close> Ok by (fastforce simp: read_loop_step split: if_splits option.splits)
        ultimately show ?thesis using Cons.IH Cons.prems(2) by (fastforce simp: pending_def)
      qed
    next
      case (Error err)
      then show ?thesis
        using Cons.prems Cons.IH [of k sent] \<open>rd = Ok d\<close>
        by (auto simp: read_loop_step pending_def carried_Ok)
    qed (simp add: parse_never_panics)
  qed (use Cons.prems in \<open>simp_all add: read_loop_not_Ok\<close>)
qed simp

lemma read_loop_end:
  "\<forall>rd \<in> set reads. quiet c rd \<Longrightarrow> (\<And>k. werr k = None) \<Longrightarrow>
   if concat (map (carried c) reads) = [] then
     \<exists>acks. read_loop e werr k c n sent reads = Ok (Inr e, c, [], acks)
   else \<exists>b c' reads' acks. read_loop e werr k c n sent reads = Ok (Inl b, c', reads', acks) \<and> set reads' \<subseteq> set reads"
proof (induction reads arbitrary: k sent)
  case (Cons rd reads)
  obtain d where rd: "rd = Ok d" and q: "\<And>pkt. parseControlPacket (take 8192 d) = Ok pkt \<Longrightarrow>
      SessionID pkt = remoteSID c \<Longrightarrow> Opcode pkt \<noteq> opControlSoftResetV1"
    using Cons.prems(1) by (auto simp: quiet_def)
  note IH = Cons.IH [OF _ Cons.prems(2)]
  show ?case
  proof (cases "parseControlPacket (take 8192 d)")
    case (Ok pkt)
    have soft: "\<not> (SessionID pkt = remoteSID c \<and> Opcode pkt = opControlSoftResetV1)" using q Ok by blast
    show ?thesis
    proof (cases "accepted c pkt \<and> Payload pkt \<noteq> []")
      case True
      then show ?thesis using Ok soft Cons.prems(2) by (auto simp: rd read_loop_step carried_Ok)
    next
      case False
      then have "carried c rd = []" using Ok by (auto simp: rd carried_Ok)
      moreover obtain k' sent' where "read_loop e werr k c n sent (rd # reads) = read_loop e werr k' c n sent' reads"
        using False Ok Cons.prems(2)
        by (cases "accepted c pkt") (simp_all add: rd read_loop_step if_not_P [OF soft])
      ultimately show ?thesis using IH [of k' sent'] Cons.prems(1) by (auto split: if_splits)
    qed
  next
    case (Error err)
    then show ?thesis
      using IH [of k sent] Cons.prems(1) by (auto simp: rd read_loop_step carried_Ok split: if_splits)
  qed (simp add: parse_never_panics)
qed simp

text \<open>
  Reading until the socket has nothing more to deliver, the \<open>k\<close>th call of \<^verbatim>\<open>Read\<close> with a buffer of \<open>ns k\<close> bytes.
\<close>

inductive drains ::
  "go_error \<Rightarrow> (nat \<Rightarrow> nat) \<Rightarrow> controlUDPConn \<Rightarrow> bytes result list \<Rightarrow> bytes \<Rightarrow> bool"
  for e where
  drained: "conn_Read e (\<lambda>_. None) c (ns 0) reads = Ok (Inr err, c', reads', acks) \<Longrightarrow> drains e ns c reads []"
| delivered: "conn_Read e (\<lambda>_. None) c (ns 0) reads = Ok (Inl b, c', reads', acks) \<Longrightarrow>
    drains e (\<lambda>k. ns (Suc k)) c' reads' out \<Longrightarrow> drains e ns c reads (b @ out)"

lemma conn_Read_data:
  assumes "conn_Read e (\<lambda>_. None) c n reads = Ok (Inl b, c', reads', acks)"
  shows "pending c reads = b @ pending c' reads' \<and> same_session c c' \<and> (0 < n \<longrightarrow> b \<noteq> [])
    \<and> (length reads' < length reads \<or> reads' = reads \<and> (0 < n \<longrightarrow> length (readBuf c') < length (readBuf c)))"
proof (cases "readBuf c = []")
  case True
  then show ?thesis using assms read_loop_data by (auto simp: conn_Read_def)
next
  case False
  then have "b = take n (readBuf c)" "c' = c\<lparr>readBuf := drop n (readBuf c)\<rparr>" "reads' = reads"
    using assms by (auto simp: conn_Read_def buf_Read_def)
  then show ?thesis
    using False carried_cong [of c' c] by (auto simp: pending_def same_session_def)
qed

lemma conn_Read_end:
  assumes "\<forall>rd \<in> set reads. quiet c rd"
  shows "if pending c reads = [] then \<exists>acks. conn_Read e (\<lambda>_. None) c n reads = Ok (Inr e, c, [], acks)
    else \<exists>b c' reads' acks. conn_Read e (\<lambda>_. None) c n reads = Ok (Inl b, c', reads', acks) \<and> set reads' \<subseteq> set reads"
  using read_loop_end [OF assms, where werr = "\<lambda>_. None" and e = e and k = 0 and n = n and sent = "[]"]
  by (cases "readBuf c = []") (auto simp: conn_Read_def pending_def buf_Read_def split: if_splits)

lemma quiet_cong: "same_session c c' \<Longrightarrow> quiet c' = quiet c"
  by (auto simp: quiet_def same_session_def fun_eq_iff)

lemma drains_sound:
  "drains e ns c reads out \<Longrightarrow> \<forall>rd \<in> set reads. quiet c rd \<Longrightarrow>
   out = pending c reads"
proof (induction rule: drains.induct)
  case (drained c ns reads err c' reads' acks)
  then show ?case using conn_Read_end [of reads c e "ns 0"] by (auto split: if_splits)
next
  case (delivered c ns reads b c' reads' acks out)
  have "set reads' \<subseteq> set reads"
    using conn_Read_end [of reads c e "ns 0"] delivered.hyps(1) delivered.prems by (auto split: if_splits)
  moreover have d: "pending c reads = b @ pending c' reads'" "same_session c c'"
    using conn_Read_data [OF delivered.hyps(1)] by blast+
  ultimately have "out = pending c' reads'"
    using delivered.prems quiet_cong [OF d(2)] by (intro delivered.IH) auto
  with d(1) show ?case by simp
qed

lemma drains_complete:
  "\<forall>rd \<in> set reads. quiet c rd \<Longrightarrow> \<forall>k. 0 < ns k \<Longrightarrow>
   drains e ns c reads (pending c reads)"
proof (induction "length (pending c reads)" arbitrary: c reads ns rule: less_induct)
  case less
  show ?case
  proof (cases "pending c reads = []")
    case True
    then show ?thesis using conn_Read_end [OF less.prems(1), of e "ns 0"] by (auto intro: drained)
  next
    case False
    then obtain b c' reads' acks where rd: "conn_Read e (\<lambda>_. None) c (ns 0) reads = Ok (Inl b, c', reads', acks)"
      "set reads' \<subseteq> set reads"
      using conn_Read_end [OF less.prems(1), of e "ns 0"] by auto
    note d = conn_Read_data [OF rd(1)]
    have "length (pending c' reads') < length (pending c reads)" using d less.prems(2) by simp
    moreover have "\<forall>rd \<in> set reads'. quiet c' rd" using rd(2) less.prems(1) d quiet_cong [of c c'] by auto
    moreover have "\<forall>k. 0 < ns (Suc k)" using less.prems(2) by simp
    ultimately have "drains e (\<lambda>k. ns (Suc k)) c' reads' (pending c' reads')" by (rule less.hyps)
    then show ?thesis using delivered [of e c ns reads, OF rd(1)] d by simp
  qed
qed

lemma stream_pending:
  assumes "length (localSID a) = 8" "remoteSID b = localSID a" "readBuf b = []"
  shows "(\<forall>rd \<in> set (map Ok (write_dgrams (localSID a) pid p)). quiet b rd)
    \<and> pending b (map Ok (write_dgrams (localSID a) pid p)) = p"
proof (induction "length p" arbitrary: pid p rule: less_induct)
  case less
  show ?case
  proof (cases "p = []")
    case True
    then show ?thesis using assms by (simp add: write_dgrams.simps pending_def)
  next
    case False
    then have IH: "(\<forall>rd \<in> set (map Ok (write_dgrams (localSID a) (pid + 1) (drop 1000 p))). quiet b rd)
        \<and> pending b (map Ok (write_dgrams (localSID a) (pid + 1) (drop 1000 p))) = drop 1000 p"
      using less [of "drop 1000 p" "pid + 1"] by simp
    let ?d = "control_dgram (localSID a) pid (take 1000 p)"
    have "take 8192 ?d = ?d" using assms(1) by (simp add: control_dgram_def)
    then have parse: "parseControlPacket (take 8192 ?d) = Ok (control_packet (localSID a) pid (take 1000 p))"
      using parse_control_dgram [OF assms(1)] by simp
    then have "quiet b (Ok ?d)" "carried b (Ok ?d) = take 1000 p"
      using assms(2) by (simp_all add: quiet_def carried_Ok accepted_def control_packet_def)
    then show ?thesis
      using IH False assms(3) by (simp add: write_dgrams.simps [of _ pid p] pending_def)
  qed
qed

section \<open>Properties\<close>

text \<open>
  \<^verbatim>\<open>Write\<close> on a working socket reports all bytes written, sends them as control packets of the
  connection's session with consecutive packet ids from the next id on (modulo $2^{32}$), each with 1 to
  1000 bytes of payload, in order and without gaps, and advances the next id by their number.
\<close>

theorem conn_Write_packets:
  assumes "\<And>k. werr k = None" "length (localSID c) = 8"
  shows "\<exists>chunks sent. conn_Write werr c p =
      Ok (c\<lparr>nextID := nextID c + of_nat (length chunks)\<rparr>, sent, length p, None)
    \<and> concat chunks = p \<and> (\<forall>ch \<in> set chunks. ch \<noteq> [] \<and> length ch \<le> 1000) \<and> length sent = length chunks
    \<and> (\<forall>i < length chunks. parseControlPacket (sent ! i) =
         Ok (control_packet (localSID c) (nextID c + of_nat i) (chunks ! i)))"
proof -
  obtain chunks where ch: "write_dgrams (localSID c) (nextID c) p =
      map (\<lambda>i. control_dgram (localSID c) (nextID c + of_nat i) (chunks ! i)) [0 ..< length chunks]"
    "concat chunks = p" "\<forall>ch \<in> set chunks. ch \<noteq> [] \<and> length ch \<le> 1000"
    using write_dgrams_chunks by blast
  then show ?thesis
    using assms by (intro exI [of _ chunks] exI [of _ "write_dgrams (localSID c) (nextID c) p"])
      (simp add: conn_Write_def write_loop_eq parse_control_dgram)
qed

text \<open>
  C2. On working sockets, and when every datagram arrives exactly once and in order, the control channel is
  a faithful byte stream: what one end writes, the other end (which has the writer's session id as its remote
  one and nothing buffered) reads as exactly the same bytes and nothing else, whatever positive buffer size it
  passes to each call of \<^verbatim>\<open>Read\<close>.  Without the delivery hypothesis this fails, see the retransmitted packet below.
\<close>

theorem control_stream_roundtrip:
  assumes "\<And>k. werr k = None" "\<forall>k. 0 < ns k"
    and "length (localSID a) = 8" "remoteSID b = localSID a" "readBuf b = []"
    and "conn_Write werr a p = Ok (a', sent, m, None)"
  shows "drains e ns b (map Ok sent) out \<longleftrightarrow> out = p"
proof -
  have sent: "sent = write_dgrams (localSID a) (nextID a) p"
    using assms(1,6) by (simp add: conn_Write_def write_loop_eq)
  have q: "\<forall>rd \<in> set (map Ok sent). quiet b rd" and p: "pending b (map Ok sent) = p"
    using stream_pending [OF assms(3-5), of "nextID a" p] unfolding sent by blast+
  show ?thesis
    using drains_sound [OF _ q, of e ns out] drains_complete [OF q assms(2), of e] p by auto
qed

definition conn_a :: controlUDPConn where
  "conn_a = \<lparr>localSID = [1, 1, 1, 1, 1, 1, 1, 1], remoteSID = [2, 2, 2, 2, 2, 2, 2, 2], nextID = 1, readBuf = []\<rparr>"

definition conn_b :: controlUDPConn where
  "conn_b = \<lparr>localSID = [2, 2, 2, 2, 2, 2, 2, 2], remoteSID = [1, 1, 1, 1, 1, 1, 1, 1], nextID = 1, readBuf = []\<rparr>"

theorem conn_Write_packets_witness:
  "\<exists>chunks sent. conn_Write (\<lambda>_. None) conn_a (replicate 1500 7) =
      Ok (conn_a\<lparr>nextID := 1 + of_nat (length chunks)\<rparr>, sent, 1500, None) \<and> concat chunks = (replicate 1500 7 :: bytes)"
proof -
  have "length (localSID conn_a) = 8" "nextID conn_a = 1" by (simp_all add: conn_a_def)
  then show ?thesis using conn_Write_packets [of "\<lambda>_. None" conn_a "replicate 1500 7"] by auto
qed

theorem control_stream_roundtrip_witness:
  "\<exists>a' sent m. conn_Write (\<lambda>_. None) conn_a [22, 3, 1] = Ok (a', sent, m, None)
     \<and> drains EOF (\<lambda>k. k + 1) conn_b (map Ok sent) [22, 3, 1]"
proof -
  obtain a' sent m where w: "conn_Write (\<lambda>_. None) conn_a [22, 3, 1] = Ok (a', sent, m, None)"
    by (simp add: conn_Write_def write_loop_eq)
  then show ?thesis
    using control_stream_roundtrip [OF _ _ _ _ _ w, of "\<lambda>k. k + 1" conn_b EOF "[22, 3, 1]"]
    by (auto simp: conn_a_def conn_b_def)
qed

text \<open>
  C32. \<^verbatim>\<open>Read\<close> refines reading from an abstract byte stream, the bytes buffered and the payloads of the
  accepted packets still to arrive: what it returns is a non-empty prefix of that stream and the
  rest of the stream stays; on a quiet socket it ends only when the stream is empty.
\<close>

theorem conn_Read_refines_stream:
  "(\<forall>b c' reads' acks. conn_Read e (\<lambda>_. None) c n reads = Ok (Inl b, c', reads', acks) \<longrightarrow>
      pending c reads = b @ pending c' reads' \<and> same_session c c' \<and> (0 < n \<longrightarrow> b \<noteq> []))
   \<and> ((\<forall>rd \<in> set reads. quiet c rd) \<longrightarrow>
      (if pending c reads = [] then \<exists>acks. conn_Read e (\<lambda>_. None) c n reads = Ok (Inr e, c, [], acks)
       else \<exists>b c' reads' acks. conn_Read e (\<lambda>_. None) c n reads = Ok (Inl b, c', reads', acks)))"
  using conn_Read_data conn_Read_end [of reads c e n] by (auto split: if_splits)

theorem conn_Read_refines_stream_witness:
  "\<exists>b c' reads' acks. conn_Read EOF (\<lambda>_. None) conn_b 2 [Ok (control_dgram (localSID conn_a) 1 [22, 3, 1])] =
     Ok (Inl b, c', reads', acks)"
proof -
  let ?d = "control_dgram (localSID conn_a) 1 [22, 3, 1]"
  have "write_dgrams (localSID conn_a) 1 [22, 3, 1] = [?d]" by (simp add: write_dgrams.simps)
  then have "(\<forall>rd \<in> set [Ok ?d]. quiet conn_b rd) \<and> pending conn_b [Ok ?d] = [22, 3, 1]"
    using stream_pending [of conn_a conn_b 1 "[22, 3, 1]"] by (simp add: conn_a_def conn_b_def)
  then show ?thesis using conn_Read_refines_stream [of EOF conn_b 2 "[Ok ?d]"] by simp
qed

text \<open>
  C40. \<^verbatim>\<open>Read\<close> does not look at packet ids: a control packet that arrives twice, as a server that missed
  the ACK retransmits it, is delivered to the TLS layer twice.
\<close>

theorem retransmission_delivered_twice:
  assumes "length (localSID a) = 8" "remoteSID b = localSID a" "readBuf b = []" "length p \<le> 1000" "\<forall>k. 0 < ns k"
  shows "drains e ns b [Ok (control_dgram (localSID a) pid p), Ok (control_dgram (localSID a) pid p)] (p @ p)"
proof -
  let ?d = "control_dgram (localSID a) pid p"
  have "take 8192 ?d = ?d" using assms(1,4) by (simp add: control_dgram_def)
  then have "parseControlPacket (take 8192 ?d) = Ok (control_packet (localSID a) pid p)"
    using parse_control_dgram [OF assms(1)] by simp
  then have "quiet b (Ok ?d)" "carried b (Ok ?d) = p"
    using assms(2) by (simp_all add: quiet_def carried_Ok accepted_def control_packet_def)
  then show ?thesis
    using drains_complete [of "[Ok ?d, Ok ?d]" b ns e] assms(3,5) by (simp add: pending_def)
qed

theorem retransmission_delivered_twice_witness:
  "drains EOF (\<lambda>_. 100) conn_b [Ok (control_dgram (localSID conn_a) 4 [5, 6]), Ok (control_dgram (localSID conn_a) 4 [5, 6])]
     ([5, 6] @ [5, 6])"
  using retransmission_delivered_twice [of conn_a conn_b "[5, 6]" "\<lambda>_. 100" EOF 4] by (simp add: conn_a_def conn_b_def)

section \<open>Latency ranking\<close>

lemma sorted_nats: "sorted (SliceStable (<) (xs :: nat list))"
  using latency_order.SliceStable_in_order [of xs]
  by (simp add: latency_order.in_order_def not_less sorted_wrt_iff_nth_less sorted_iff_nth_mono_less)

lemma sorted_below:
  assumes "sorted (ys :: nat list)" "k < length ys"
  shows "length (filter (\<lambda>x. x < ys ! k) ys) \<le> k" "length (filter (\<lambda>x. x > ys ! k) ys) \<le> length ys - k - 1"
proof -
  have "ys ! k \<le> ys ! (k + i)" if "i < length ys - k" for i
    by (rule sorted_nth_mono [OF assms(1)]) (use that in auto)
  then have "filter (\<lambda>x. x < ys ! k) (drop k ys) = []"
    using assms(2) by (auto simp: filter_empty_conv in_set_conv_nth not_less)
  then have "filter (\<lambda>x. x < ys ! k) ys = filter (\<lambda>x. x < ys ! k) (take k ys)"
    by (metis append_Nil2 append_take_drop_id filter_append)
  then show "length (filter (\<lambda>x. x < ys ! k) ys) \<le> k"
    by (metis length_filter_le length_take min.bounded_iff order_trans min.cobounded2)
  have "ys ! i \<le> ys ! k" if "i \<le> k" for i
    by (rule sorted_nth_mono [OF assms(1) that assms(2)])
  then have "filter (\<lambda>x. x > ys ! k) (take (Suc k) ys) = []"
    by (auto simp: filter_empty_conv in_set_conv_nth not_less less_Suc_eq_le)
  then have "filter (\<lambda>x. x > ys ! k) ys = filter (\<lambda>x. x > ys ! k) (drop (Suc k) ys)"
    by (metis append_Nil append_take_drop_id filter_append)
  then show "length (filter (\<lambda>x. x > ys ! k) ys) \<le> length ys - k - 1"
    by (metis diff_diff_left length_drop length_filter_le plus_1_eq_Suc add.commute)
qed

text \<open>
  \<^verbatim>\<open>medianLatency\<close> is a median: one of the samples, with at most half of the samples below it and
  fewer than half above it or the same number.
\<close>

theorem medianLatency_is_median:
  assumes "samples \<noteq> []"
  shows "medianLatency samples \<in> set samples
    \<and> 2 * length (filter (\<lambda>x. x < medianLatency samples) samples) \<le> length samples
    \<and> 2 * length (filter (\<lambda>x. x > medianLatency samples) samples) \<le> length samples"
proof -
  let ?ys = "SliceStable (<) samples" and ?k = "length samples div 2"
  have k: "?k < length ?ys" using assms by simp
  have m: "medianLatency samples = ?ys ! ?k" using assms by (simp add: medianLatency_def)
  have same: "length (filter P samples) = length (filter P ?ys)" for P
    by (metis mset_SliceStable mset_filter size_mset)
  have "?ys ! ?k \<in> set samples" using nth_mem [OF k] by simp
  then show ?thesis
    using sorted_below [OF sorted_nats k] unfolding m same length_SliceStable by linarith
qed

theorem medianLatency_is_median_witness:
  "medianLatency [30, 900, 31] = 31 \<and> medianLatency [30, 900, 31] \<in> set [30, 900, 31]"
proof -
  have "medianLatency [30, 900, 31] = 31" by (simp add: medianLatency_def)
  then show ?thesis using medianLatency_is_median [of "[30, 900, 31]"] by simp
qed

section \<open>The chosen gateway\<close>

lemma take_samples_Ok:
  assumes "take_samples net ss cand = Ok m"
  shows "cEndpoint m = cEndpoint cand \<and> Median m = medianLatency (Samples m)
    \<and> (\<exists>xs. Samples m = Samples cand @ xs \<and> length xs \<le> length ss)"
  using assms
proof (induction ss arbitrary: cand)
  case (Cons s ss)
  then obtain r sent where "openVPNResetUDP (net s) (cEndpoint cand) = Ok (r, sent)"
    by (auto simp: then_do_Ok_iff)
  with Cons.prems show ?case
    by (cases "Err r = None") (auto dest!: Cons.IH)
qed auto

abbreviation first_sample :: "wireProbe \<Rightarrow> lowLatencyCandidate" where
  "first_sample r \<equiv> \<lparr>cEndpoint = wpEndpoint r, Samples = [Latency r], Median = 0, Best = Latency r\<rparr>"

definition finalists :: "wireProbe list \<Rightarrow> wireProbe list" where
  "finalists rs = take 5 (filter (\<lambda>r. Err r = None) rs)"

lemma bestWireEndpoint_run:
  assumes "probeOpenVPNWire ctxErr net s = Ok rs" "bestWireEndpoint ctxErr net net2 s = Ok ep"
  obtains ms where "finalists rs \<noteq> []" "length ms = length (finalists rs)"
    "\<And>i. i < length ms \<Longrightarrow> take_samples (net2 i) [0, 1] (first_sample (finalists rs ! i)) = Ok (ms ! i)"
    "ep = cEndpoint (hd (SliceStable candidate_less ms))"
proof -
  let ?cs = "map first_sample (finalists rs)"
  from assms obtain ms c where ne: "finalists rs \<noteq> []"
    and ms: "mapM_go (\<lambda>(i, cand). take_samples (net2 i) [0, 1] cand) (zip [0 ..< length ?cs] ?cs) = Ok ms"
    and c: "index_go (SliceStable candidate_less ms) 0 = Ok c" "ep = cEndpoint c"
    by (auto simp: bestWireEndpoint_def Let_def then_do_Ok_iff finalists_def
        simp del: take_samples.simps One_nat_def split: if_splits)
  have all: "list_all2 (\<lambda>(i, cand) m. take_samples (net2 i) [0, 1] cand = Ok m) (zip [0 ..< length ?cs] ?cs) ms"
    using mapM_go_all2 [OF ms] by (rule list_all2_mono) auto
  have "c = hd (SliceStable candidate_less ms)"
    using c(1) by (cases "SliceStable candidate_less ms") (simp_all add: index_go_def del: length_SliceStable)
  with all ne c(2) show ?thesis
    by (intro that [of ms]) (auto simp: list_all2_conv_all_nth simp del: take_samples.simps One_nat_def)
qed

lemma finalists_advertised:
  assumes "probeOpenVPNWire ctxErr net s = Ok rs" "r \<in> set (finalists rs)"
  shows "wpEndpoint r \<in> set (endpoints s ''openvpn'')" "Protocol (wpEndpoint r) = ''udp''" "Err r = None"
proof -
  have "r \<in> set rs" and err: "Err r = None" using assms(2) by (auto simp: finalists_def dest!: in_set_takeD)
  then have "wpEndpoint r \<in> set (map wpEndpoint rs)" by simp
  moreover have "set (map wpEndpoint rs) = set (filter (\<lambda>ep. Protocol ep = ''udp'') (endpoints s ''openvpn''))"
    using probeOpenVPNWire_endpoints [OF assms(1)] by (metis set_mset_mset)
  ultimately show "wpEndpoint r \<in> set (endpoints s ''openvpn'')" "Protocol (wpEndpoint r) = ''udp''" "Err r = None"
    using err by auto
qed

lemma bestWireEndpoint_advertised:
  assumes "bestWireEndpoint ctxErr net net2 s = Ok ep"
  shows "ep \<in> set (endpoints s ''openvpn'')" "Protocol ep = ''udp''"
proof -
  obtain rs where rs: "probeOpenVPNWire ctxErr net s = Ok rs"
    using assms by (auto simp: bestWireEndpoint_def then_do_Ok_iff)
  obtain ms where ms: "finalists rs \<noteq> []" "length ms = length (finalists rs)"
    "\<And>i. i < length ms \<Longrightarrow> take_samples (net2 i) [0, 1] (first_sample (finalists rs ! i)) = Ok (ms ! i)"
    "ep = cEndpoint (hd (SliceStable candidate_less ms))"
    using bestWireEndpoint_run [OF rs assms] by blast
  have "SliceStable candidate_less ms \<noteq> []" using ms(1,2) by (metis length_SliceStable length_0_conv)
  then obtain k where k: "k < length ms" "ms ! k = hd (SliceStable candidate_less ms)"
    by (metis hd_in_set set_SliceStable in_set_conv_nth)
  then have "ep = wpEndpoint (finalists rs ! k)" "finalists rs ! k \<in> set (finalists rs)"
    using take_samples_Ok [OF ms(3) [OF k(1)]] ms(2,4) by simp_all
  then show "ep \<in> set (endpoints s ''openvpn'')" "Protocol ep = ''udp''"
    using finalists_advertised [OF rs] by auto
qed

text \<open>
  C37. The gateway \<^verbatim>\<open>bestWireEndpoint\<close> returns is an advertised UDP endpoint that completed the reset exchange
  and is one of the at most five fastest that did.  After the two extra measurements no other of these
  was measured twice or more when the chosen one was not, and none of equal stability has a smaller median.
\<close>

theorem bestWireEndpoint_best:
  assumes "probeOpenVPNWire ctxErr net s = Ok rs" and "bestWireEndpoint ctxErr net net2 s = Ok ep"
  shows "\<exists>ms k. length ms = length (finalists rs) \<and> k < length ms
    \<and> (\<forall>i < length ms. take_samples (net2 i) [0, 1] (first_sample (finalists rs ! i)) = Ok (ms ! i))
    \<and> ep = wpEndpoint (finalists rs ! k) \<and> Err (finalists rs ! k) = None
    \<and> ep \<in> set (endpoints s ''openvpn'') \<and> Protocol ep = ''udp''
    \<and> (\<forall>i < length ms. (2 \<le> length (Samples (ms ! i)) \<longrightarrow> 2 \<le> length (Samples (ms ! k)))
        \<and> ((2 \<le> length (Samples (ms ! i))) = (2 \<le> length (Samples (ms ! k)))
            \<longrightarrow> medianLatency (Samples (ms ! k)) \<le> medianLatency (Samples (ms ! i))))"
proof -
  obtain ms where ms: "finalists rs \<noteq> []" "length ms = length (finalists rs)"
    "\<And>i. i < length ms \<Longrightarrow> take_samples (net2 i) [0, 1] (first_sample (finalists rs ! i)) = Ok (ms ! i)"
    "ep = cEndpoint (hd (SliceStable candidate_less ms))"
    using bestWireEndpoint_run [OF assms] by blast
  have ne: "ms \<noteq> []" using ms(1,2) by auto
  then have "SliceStable candidate_less ms \<noteq> []" by (metis length_SliceStable length_0_conv)
  then have "hd (SliceStable candidate_less ms) \<in> set ms" by (metis hd_in_set set_SliceStable)
  then obtain k where k: "k < length ms" "ms ! k = hd (SliceStable candidate_less ms)"
    by (auto simp: in_set_conv_nth)
  note m = take_samples_Ok [OF ms(3)]
  have least: "\<not> candidate_less (ms ! i) (ms ! k)" if "i < length ms" for i
    unfolding k(2) using ne that by (intro candidate_order.SliceStable_hd_least) auto
  have ep: "ep = wpEndpoint (finalists rs ! k)" using m [OF k(1)] k(2) ms(4) by simp
  have "finalists rs ! k \<in> set (finalists rs)" using k(1) ms(2) by simp
  note adv = finalists_advertised [OF assms(1) this, folded ep]
  have "(2 \<le> length (Samples (ms ! i)) \<longrightarrow> 2 \<le> length (Samples (ms ! k)))
      \<and> ((2 \<le> length (Samples (ms ! i))) = (2 \<le> length (Samples (ms ! k)))
          \<longrightarrow> medianLatency (Samples (ms ! k)) \<le> medianLatency (Samples (ms ! i)))"
    if "i < length ms" for i
    using least [OF that] m [OF that] m [OF k(1)]
    by (auto simp: candidate_less_def Let_def split: if_splits)
  with ms(2,3) k(1) ep adv show ?thesis by blast
qed

lemma sample_best:
  "\<exists>rs. probeOpenVPNWire EOF second_answers two_port_service = Ok rs
    \<and> bestWireEndpoint EOF second_answers (\<lambda>i s. reset_env reset_reply) two_port_service = Ok (udp_at 80)"
proof -
  let ?probe = "mapM_go (probe_one EOF second_answers) [(0, udp_at 53), (1, udp_at 80)]"
  let ?net2 = "\<lambda>(i :: nat) (s :: nat). reset_env reset_reply"
  have zip: "zip [0 ..< length [udp_at 53, udp_at 80]] [udp_at 53, udp_at 80] = [(0, udp_at 53), (1, udp_at 80)]"
    by (simp add: upt_rec)
  have eps: "filter (\<lambda>ep. Protocol ep = ''udp'') (endpoints two_port_service ''openvpn'') = [udp_at 53, udp_at 80]"
    by (simp add: two_port_endpoints udp_at_def)
  have probe: "probeOpenVPNWire EOF second_answers two_port_service = then_do ?probe (\<lambda>rs. Ok (SliceStable wire_less rs))"
    unfolding probeOpenVPNWire_def Let_def eps zip ..
  have "(case openVPNResetUDP (reset_env reset_reply) (udp_at 80) of Ok (r, sent) \<Rightarrow> Err r = None | _ \<Rightarrow> False)"
    by code_simp
  then obtain r sent where r: "openVPNResetUDP (reset_env reset_reply) (udp_at 80) = Ok (r, sent)" "Err r = None"
    by (auto split: result.splits)
  have rep: "wpEndpoint r = udp_at 80" using r(1) by (rule openVPNResetUDP_endpoint)
  obtain f where "?probe = Ok [f, r]" "Err f = Some EOF"
    using r by (simp add: probe_one_def second_answers_def)
  then have rs: "probeOpenVPNWire EOF second_answers two_port_service = Ok [r, f]"
    using probe r(2) by (simp add: wire_less_def)
  have fin: "finalists [r, f] = [r]" using \<open>Err f = Some EOF\<close> r(2) by (simp add: finalists_def)
  have "\<exists>m. take_samples (?net2 0) [0, 1] (first_sample r) = Ok m \<and> cEndpoint m = udp_at 80"
    using r rep by simp
  then have best: "bestWireEndpoint EOF second_answers ?net2 two_port_service = Ok (udp_at 80)"
    unfolding bestWireEndpoint_def rs then_do.simps finalists_def [symmetric] fin Let_def
    by (auto simp: index_go_def simp del: take_samples.simps One_nat_def)
  show ?thesis using rs best by blast
qed


theorem bestWireEndpoint_best_witness:
  "\<exists>rs. probeOpenVPNWire EOF second_answers two_port_service = Ok rs
    \<and> bestWireEndpoint EOF second_answers (\<lambda>i s. reset_env reset_reply) two_port_service = Ok (udp_at 80)
    \<and> udp_at 80 \<in> set (endpoints two_port_service ''openvpn'') \<and> Protocol (udp_at 80) = ''udp''"
proof -
  obtain rs where b: "probeOpenVPNWire EOF second_answers two_port_service = Ok rs"
    "bestWireEndpoint EOF second_answers (\<lambda>i s. reset_env reset_reply) two_port_service = Ok (udp_at 80)"
    using sample_best by blast
  show ?thesis using bestWireEndpoint_best [OF b] b by blast
qed

end
