(* ===== verification/Go_GCM.thy ===== *)
theory Go_GCM
  imports Go_Prelude
begin

text \<open>
  What the data channel uses of Go's \<^verbatim>\<open>crypto/aes\<close> and \<^verbatim>\<open>crypto/cipher\<close>: AES with a 256-bit key
  (FIPS 197) and Galois counter mode with a 12-byte nonce and a 16-byte tag (NIST SP 800-38D),
  written as executable functions on byte lists, and the interface \<open>aead\<close> its clients rely on.
  Secrecy and unforgeability are computational statements and no theorem here claims them: the
  laws are those of a deterministic authenticated encoding.
\<close>

section \<open>AES-256\<close>

definition sbox :: "byte list" where
  "sbox = [
     0x63, 0x7c, 0x77, 0x7b, 0xf2, 0x6b, 0x6f, 0xc5, 0x30, 0x01, 0x67, 0x2b, 0xfe, 0xd7, 0xab, 0x76,
     0xca, 0x82, 0xc9, 0x7d, 0xfa, 0x59, 0x47, 0xf0, 0xad, 0xd4, 0xa2, 0xaf, 0x9c, 0xa4, 0x72, 0xc0,
     0xb7, 0xfd, 0x93, 0x26, 0x36, 0x3f, 0xf7, 0xcc, 0x34, 0xa5, 0xe5, 0xf1, 0x71, 0xd8, 0x31, 0x15,
     0x04, 0xc7, 0x23, 0xc3, 0x18, 0x96, 0x05, 0x9a, 0x07, 0x12, 0x80, 0xe2, 0xeb, 0x27, 0xb2, 0x75,
     0x09, 0x83, 0x2c, 0x1a, 0x1b, 0x6e, 0x5a, 0xa0, 0x52, 0x3b, 0xd6, 0xb3, 0x29, 0xe3, 0x2f, 0x84,
     0x53, 0xd1, 0x00, 0xed, 0x20, 0xfc, 0xb1, 0x5b, 0x6a, 0xcb, 0xbe, 0x39, 0x4a, 0x4c, 0x58, 0xcf,
     0xd0, 0xef, 0xaa, 0xfb, 0x43, 0x4d, 0x33, 0x85, 0x45, 0xf9, 0x02, 0x7f, 0x50, 0x3c, 0x9f, 0xa8,
     0x51, 0xa3, 0x40, 0x8f, 0x92, 0x9d, 0x38, 0xf5, 0xbc, 0xb6, 0xda, 0x21, 0x10, 0xff, 0xf3, 0xd2,
     0xcd, 0x0c, 0x13, 0xec, 0x5f, 0x97, 0x44, 0x17, 0xc4, 0xa7, 0x7e, 0x3d, 0x64, 0x5d, 0x19, 0x73,
     0x60, 0x81, 0x4f, 0xdc, 0x22, 0x2a, 0x90, 0x88, 0x46, 0xee, 0xb8, 0x14, 0xde, 0x5e, 0x0b, 0xdb,
     0xe0, 0x32, 0x3a, 0x0a, 0x49, 0x06, 0x24, 0x5c, 0xc2, 0xd3, 0xac, 0x62, 0x91, 0x95, 0xe4, 0x79,
     0xe7, 0xc8, 0x37, 0x6d, 0x8d, 0xd5, 0x4e, 0xa9, 0x6c, 0x56, 0xf4, 0xea, 0x65, 0x7a, 0xae, 0x08,
     0xba, 0x78, 0x25, 0x2e, 0x1c, 0xa6, 0xb4, 0xc6, 0xe8, 0xdd, 0x74, 0x1f, 0x4b, 0xbd, 0x8b, 0x8a,
     0x70, 0x3e, 0xb5, 0x66, 0x48, 0x03, 0xf6, 0x0e, 0x61, 0x35, 0x57, 0xb9, 0x86, 0xc1, 0x1d, 0x9e,
     0xe1, 0xf8, 0x98, 0x11, 0x69, 0xd9, 0x8e, 0x94, 0x9b, 0x1e, 0x87, 0xe9, 0xce, 0x55, 0x28, 0xdf,
     0x8c, 0xa1, 0x89, 0x0d, 0xbf, 0xe6, 0x42, 0x68, 0x41, 0x99, 0x2d, 0x0f, 0xb0, 0x54, 0xbb, 0x16]"

definition SubByte :: "byte \<Rightarrow> byte" where
  "SubByte b = sbox ! unat b"

definition xtime :: "byte \<Rightarrow> byte" where
  "xtime b = push_bit 1 b XOR (if bit b 7 then 0x1b else 0)"

definition xor_bytes :: "bytes \<Rightarrow> bytes \<Rightarrow> bytes" where
  "xor_bytes xs ys = map2 (XOR) xs ys"

definition SubWord :: "bytes \<Rightarrow> bytes" where
  "SubWord w = map SubByte w"

definition Rcon :: "nat \<Rightarrow> bytes" where
  "Rcon i = [(xtime ^^ (i - 1)) 1, 0, 0, 0]"

text \<open>The key schedule: words of four bytes, the latest first.\<close>

definition next_word :: "nat \<Rightarrow> bytes list \<Rightarrow> bytes" where
  "next_word i ws =
     (let prev = ws ! 0;
          t = (if i mod 8 = 0 then xor_bytes (SubWord (rotate1 prev)) (Rcon (i div 8))
               else if i mod 8 = 4 then SubWord prev else prev)
      in xor_bytes (ws ! 7) t)"

primrec expand_words :: "nat \<Rightarrow> bytes list \<Rightarrow> bytes list" where
  "expand_words 0 ws = ws"
| "expand_words (Suc n) ws = expand_words n (next_word (length ws) ws # ws)"

definition key_words :: "bytes \<Rightarrow> bytes list" where
  "key_words key = map (\<lambda>i. take 4 (drop (4 * i) key)) [0 ..< 8]"

definition round_keys :: "bytes \<Rightarrow> bytes list" where
  "round_keys key =
     (let ws = rev (expand_words 52 (rev (key_words key)))
      in map (\<lambda>r. concat (take 4 (drop (4 * r) ws))) [0 ..< 15])"

text \<open>The state is the block itself: byte \<open>r + 4 * c\<close> is row \<open>r\<close> of column \<open>c\<close>.\<close>

definition ShiftRows :: "bytes \<Rightarrow> bytes" where
  "ShiftRows s = map (\<lambda>i. s ! ((i + 4 * (i mod 4)) mod 16)) [0 ..< 16]"

definition MixColumn :: "bytes \<Rightarrow> nat \<Rightarrow> bytes" where
  "MixColumn s c =
     (let a = s ! (4 * c); b = s ! (4 * c + 1); d = s ! (4 * c + 2); e = s ! (4 * c + 3) in
      [xtime a XOR (xtime b XOR b) XOR d XOR e,
       a XOR xtime b XOR (xtime d XOR d) XOR e,
       a XOR b XOR xtime d XOR (xtime e XOR e),
       (xtime a XOR a) XOR b XOR d XOR xtime e])"

definition MixColumns :: "bytes \<Rightarrow> bytes" where
  "MixColumns s = concat (map (MixColumn s) [0 ..< 4])"

definition aes_round :: "bytes \<Rightarrow> bytes \<Rightarrow> bytes" where
  "aes_round k s = xor_bytes (MixColumns (ShiftRows (map SubByte s))) k"

definition aes_encrypt :: "bytes list \<Rightarrow> bytes \<Rightarrow> bytes" where
  "aes_encrypt ks block =
     xor_bytes
       (ShiftRows (map SubByte
         (fold aes_round (take 13 (drop 1 ks)) (xor_bytes block (ks ! 0)))))
       (ks ! 14)"

section \<open>Galois counter mode\<close>

type_synonym block = "128 word"

definition block_of :: "bytes \<Rightarrow> block" where
  "block_of bs = fold (\<lambda>b acc. push_bit 8 acc OR ucast b) (take 16 (bs @ replicate 16 0)) 0"

definition bytes_of_block :: "block \<Rightarrow> bytes" where
  "bytes_of_block w = map (\<lambda>i. ucast (drop_bit (8 * (15 - i)) w)) [0 ..< 16]"

primrec gf_mult :: "nat \<Rightarrow> block \<Rightarrow> block \<Rightarrow> block \<Rightarrow> block" where
  "gf_mult 0 x v z = z"
| "gf_mult (Suc n) x v z =
     gf_mult n x (if bit v 0 then drop_bit 1 v XOR 0xe1000000000000000000000000000000 else drop_bit 1 v)
       (if bit x n then z XOR v else z)"

definition gf128 :: "block \<Rightarrow> block \<Rightarrow> block" where
  "gf128 x y = gf_mult 128 x y 0"

function ghash :: "block \<Rightarrow> block \<Rightarrow> bytes \<Rightarrow> block" where
  "ghash h y data =
     (if data = [] then y else ghash h (gf128 (y XOR block_of data) h) (drop 16 data))"
  by pat_completeness auto
termination by (relation "measure (\<lambda>(h, y, data). length data)") auto

declare ghash.simps [simp del]

definition counter_block :: "bytes \<Rightarrow> u32 \<Rightarrow> bytes" where
  "counter_block nonce c = nonce @ put32_be c"

function ctr_xor :: "bytes list \<Rightarrow> bytes \<Rightarrow> u32 \<Rightarrow> bytes \<Rightarrow> bytes" where
  "ctr_xor ks nonce c data =
     (if data = [] then []
      else xor_bytes (take 16 data) (aes_encrypt ks (counter_block nonce c))
        @ ctr_xor ks nonce (c + 1) (drop 16 data))"
  by pat_completeness auto
termination by (relation "measure (\<lambda>(ks, nonce, c, data). length data)") auto

declare ctr_xor.simps [simp del]

definition len_block :: "bytes \<Rightarrow> bytes \<Rightarrow> block" where
  "len_block aad c = push_bit 64 (of_nat (8 * length aad)) OR of_nat (8 * length c)"

definition gcm_tag :: "bytes list \<Rightarrow> bytes \<Rightarrow> bytes \<Rightarrow> bytes \<Rightarrow> bytes" where
  "gcm_tag ks nonce c aad =
     (let h = block_of (aes_encrypt ks (replicate 16 0));
          s = gf128 (ghash h (ghash h 0 aad) c XOR len_block aad c) h
      in xor_bytes (bytes_of_block s) (aes_encrypt ks (counter_block nonce 1)))"

definition gcm_max :: int where
  "gcm_max = (2 ^ 32 - 2) * 16"

text \<open>
  \<^verbatim>\<open>Seal\<close> and \<^verbatim>\<open>Open\<close> of the \<^verbatim>\<open>cipher.AEAD\<close> that \<^verbatim>\<open>NewGCM\<close> returns; the program passes a nonce of the right
  length, for any other both panic.
\<close>

definition gcmSeal :: "bytes \<Rightarrow> bytes \<Rightarrow> bytes \<Rightarrow> bytes \<Rightarrow> bytes result" where
  "gcmSeal key nonce plaintext aad =
     (if length nonce \<noteq> 12 then
        Panicked (LibPanic ''crypto/cipher: incorrect nonce length given to GCM'')
      else if int (length plaintext) > gcm_max then
        Panicked (LibPanic ''crypto/cipher: message too large for GCM'')
      else
        let ks = round_keys key; c = ctr_xor ks nonce 2 plaintext in
        Ok (c @ gcm_tag ks nonce c aad))"

definition gcmOpen :: "bytes \<Rightarrow> bytes \<Rightarrow> bytes \<Rightarrow> bytes \<Rightarrow> bytes result" where
  "gcmOpen key nonce sealed aad =
     (if length nonce \<noteq> 12 then
        Panicked (LibPanic ''crypto/cipher: incorrect nonce length given to GCM'')
      else if length sealed < 16 \<or> int (length sealed) > gcm_max + 16 then
        Error (ErrorsNew ''cipher: message authentication failed'')
      else
        let ks = round_keys key;
            tag = drop (length sealed - 16) sealed;
            c = take (length sealed - 16) sealed in
        if gcm_tag ks nonce c aad = tag then Ok (ctr_xor ks nonce 2 c)
        else Error (ErrorsNew ''cipher: message authentication failed''))"


section \<open>Lengths\<close>

lemma length_xor_bytes [simp]: "length (xor_bytes xs ys) = min (length xs) (length ys)"
  by (simp add: xor_bytes_def)

lemma length_expand_words [simp]: "length (expand_words n ws) = n + length ws"
  by (induction n arbitrary: ws) simp_all

lemma next_word_length:
  assumes "\<forall>w \<in> set ws. length w = 4" "8 \<le> length ws"
  shows "length (next_word i ws) = 4"
proof -
  have "ws ! 0 \<in> set ws" "ws ! 7 \<in> set ws" using assms(2) by (intro nth_mem; linarith)+
  then have "length (ws ! 0) = 4" "length (ws ! 7) = 4" using assms(1) by blast+
  moreover have "length (SubWord w) = length w" "length (Rcon j) = 4" for w j
    by (simp_all add: SubWord_def Rcon_def)
  ultimately show ?thesis
    unfolding next_word_def Let_def by (simp only: length_xor_bytes length_rotate1 min.idem simp_thms split: if_split)
qed

lemma expand_words_length:
  "\<forall>w \<in> set ws. length w = 4 \<Longrightarrow> 8 \<le> length ws \<Longrightarrow> \<forall>w \<in> set (expand_words n ws). length w = 4"
proof (induction n arbitrary: ws)
  case (Suc n)
  then have "\<forall>w \<in> set (next_word (length ws) ws # ws). length w = 4"
    using next_word_length [OF Suc.prems] by auto
  moreover have "8 \<le> length (next_word (length ws) ws # ws)" using Suc.prems(2) by (simp only: list.size)
  ultimately show ?case unfolding expand_words.simps by (rule Suc.IH)
qed simp

lemma key_words_length: "length key = 32 \<Longrightarrow> \<forall>w \<in> set (key_words key). length w = 4"
  by (auto simp: key_words_def)

lemma length_key_words [simp]: "length (key_words key) = 8"
  by (simp add: key_words_def)

lemma length_concat_4: "\<forall>w \<in> set ws. length w = 4 \<Longrightarrow> length (concat ws) = 4 * length ws"
  by (induction ws) auto

lemma round_key_length:
  assumes "length key = 32" "r < 15"
  shows "length (round_keys key ! r) = 16"
proof -
  let ?ws = "rev (expand_words 52 (rev (key_words key)))"
  have all: "\<forall>w \<in> set ?ws. length w = 4"
    using expand_words_length [of "rev (key_words key)" 52] key_words_length [OF assms(1)]
    by (simp del: expand_words.simps)
  then have "length (concat (take 4 (drop (4 * r) ?ws))) = 4 * length (take 4 (drop (4 * r) ?ws))"
    by (intro length_concat_4) (meson in_set_dropD in_set_takeD)
  moreover have "length ?ws = 60" by simp
  ultimately show ?thesis using assms(2) by (simp add: round_keys_def Let_def)
qed

lemma length_aes_encrypt [simp]: "length key = 32 \<Longrightarrow> length (aes_encrypt (round_keys key) b) = 16"
  by (simp add: aes_encrypt_def ShiftRows_def round_key_length)

lemma length_gcm_tag [simp]: "length key = 32 \<Longrightarrow> length (gcm_tag (round_keys key) n c a) = 16"
  by (simp add: gcm_tag_def Let_def bytes_of_block_def)

lemma length_ctr_xor [simp]:
  "length key = 32 \<Longrightarrow> length (ctr_xor (round_keys key) n c data) = length data"
proof (induction "length data" arbitrary: c data rule: less_induct)
  case less
  then show ?case
    by (cases "data = []")
      (simp_all add: ctr_xor.simps [of "round_keys key" n c data] ctr_xor.simps [of _ _ _ "[]"])
qed

section \<open>Decryption undoes encryption\<close>

lemma xor_bytes_twice:
  "length xs \<le> length ys \<Longrightarrow> xor_bytes (xor_bytes xs ys) ys = xs"
  by (rule nth_equalityI) (simp_all add: xor_bytes_def xor.assoc)

lemma ctr_xor_twice:
  "length key = 32 \<Longrightarrow>
   ctr_xor (round_keys key) n c (ctr_xor (round_keys key) n c data) = data"
proof (induction "length data" arbitrary: c data rule: less_induct)
  case less
  let ?ks = "round_keys key"
  show ?case
  proof (cases "data = []")
    case True
    then show ?thesis by (simp add: ctr_xor.simps)
  next
    case False
    let ?e = "aes_encrypt ?ks (counter_block n c)"
    let ?a = "xor_bytes (take 16 data) ?e" and ?b = "ctr_xor ?ks n (c + 1) (drop 16 data)"
    have step: "ctr_xor ?ks n c data = ?a @ ?b" using False by (simp add: ctr_xor.simps [of ?ks n c data])
    have parts: "take 16 (?a @ ?b) = ?a" "drop 16 (?a @ ?b) = ?b"
      using less.prems by (cases "16 \<le> length data"; simp add: min_def ctr_xor.simps [of _ _ _ "[]"])+
    have "0 < length ?a" using False less.prems by simp
    then have "?a @ ?b \<noteq> []" by fastforce
    then have "ctr_xor ?ks n c (?a @ ?b) = xor_bytes ?a ?e @ ctr_xor ?ks n (c + 1) ?b"
      unfolding ctr_xor.simps [of ?ks n c "?a @ ?b"] parts by (simp only: if_False)
    also have "\<dots> = take 16 data @ drop 16 data"
      using less False by (simp add: xor_bytes_twice)
    finally show ?thesis using step by simp
  qed
qed

section \<open>The interface of an AEAD\<close>

text \<open>
  What the data channel relies on: sealing is total on keys, nonces and messages of the right
  size and adds \<open>overhead\<close> bytes, opening never panics on such a key and nonce, and the two are
  inverse to each other, so that only the sealed form of a message opens to that message.
\<close>

locale aead =
  fixes seal open_sealed :: "bytes \<Rightarrow> bytes \<Rightarrow> bytes \<Rightarrow> bytes \<Rightarrow> bytes result"
    and key_size nonce_size overhead :: nat
    and limit :: int
  assumes seal_total: "length k = key_size \<Longrightarrow> length n = nonce_size \<Longrightarrow> int (length p) \<le> limit \<Longrightarrow>
      \<exists>s. seal k n p a = Ok s \<and> length s = length p + overhead"
    and open_seal: "length k = key_size \<Longrightarrow> seal k n p a = Ok s \<Longrightarrow> open_sealed k n s a = Ok p"
    and seal_open: "length k = key_size \<Longrightarrow> open_sealed k n s a = Ok p \<Longrightarrow> seal k n p a = Ok s"
    and open_total: "length n = nonce_size \<Longrightarrow> no_panic (open_sealed k n s a)"
    and seal_within: "seal k n p a = Ok s \<Longrightarrow> length n = nonce_size \<and> int (length p) \<le> limit"
begin

lemma opens_only_sealed:
  "length k = key_size \<Longrightarrow> open_sealed k n s a = Ok p \<longleftrightarrow> seal k n p a = Ok s"
  using open_seal seal_open by blast

lemma sealed_length:
  assumes "length k = key_size" "seal k n p a = Ok s"
  shows "length s = length p + overhead"
proof -
  have "length n = nonce_size" "int (length p) \<le> limit" using seal_within [OF assms(2)] by blast+
  then show ?thesis using seal_total [OF assms(1), of n p a] assms(2) by auto
qed

lemma opened_length:
  assumes "length k = key_size" "open_sealed k n s a = Ok p"
  shows "length s = length p + overhead"
  using sealed_length [OF assms(1) seal_open [OF assms]] .

text \<open>A frame that carries tag and ciphertext in the other order still opens once they are swapped back.\<close>

lemma reframe:
  assumes "length k = key_size" "seal k n p a = Ok s" "tag = drop (length p) s" "c = take (length p) s"
  shows "open_sealed k n (c @ tag) a = Ok p" "length tag = overhead" "length c = length p"
  using assms sealed_length [OF assms(1,2)] open_seal by simp_all

lemma unframe:
  assumes "length k = key_size" "open_sealed k n (c @ tag) a = Ok p" "length tag = overhead"
  shows "seal k n p a = Ok (c @ tag)" "length c = length p"
  using seal_open [OF assms(1,2)] opened_length [OF assms(1,2)] assms(3) by simp_all

end

lemma gcmOpen_Ok_iff:
  assumes "length key = 32"
  shows "gcmOpen key n s a = Ok p \<longleftrightarrow> gcmSeal key n p a = Ok s"
proof
  let ?ks = "round_keys key"
  assume "gcmOpen key n s a = Ok p"
  then have n: "length n = 12" "16 \<le> length s" "int (length s) \<le> gcm_max + 16"
    and tag: "gcm_tag ?ks n (take (length s - 16) s) a = drop (length s - 16) s"
    and p: "p = ctr_xor ?ks n 2 (take (length s - 16) s)"
    by (auto simp: gcmOpen_def Let_def split: if_splits)
  have "int (length p) \<le> gcm_max" using n assms by (simp add: p)
  moreover have "ctr_xor ?ks n 2 p = take (length s - 16) s" using assms by (simp add: p ctr_xor_twice)
  ultimately show "gcmSeal key n p a = Ok s" using n tag by (simp add: gcmSeal_def Let_def)
next
  assume "gcmSeal key n p a = Ok s"
  then show "gcmOpen key n s a = Ok p"
    using assms by (auto simp: gcmSeal_def gcmOpen_def Let_def ctr_xor_twice split: if_splits)
qed

interpretation gcm: aead gcmSeal gcmOpen 32 12 16 gcm_max
proof
  show "length k = 32 \<Longrightarrow> length n = 12 \<Longrightarrow> int (length p) \<le> gcm_max \<Longrightarrow>
      \<exists>s. gcmSeal k n p a = Ok s \<and> length s = length p + 16" for k n p a
    by (simp add: gcmSeal_def Let_def)
  show "length n = 12 \<Longrightarrow> no_panic (gcmOpen k n s a)" for k n s a
    by (simp add: gcmOpen_def Let_def)
  show "gcmSeal k n p a = Ok s \<Longrightarrow> length n = 12 \<and> int (length p) \<le> gcm_max" for k n p a s
    by (auto simp: gcmSeal_def split: if_splits)
qed (simp_all add: gcmOpen_Ok_iff)

end
