(* ===== verification/Go_Hash.thy ===== *)
theory Go_Hash
  imports Go_GCM
begin

text \<open>
  What the program uses of Go's \<^verbatim>\<open>crypto/md5\<close>, \<^verbatim>\<open>crypto/sha1\<close>, \<^verbatim>\<open>crypto/sha256\<close> and \<^verbatim>\<open>crypto/hmac\<close>: the
  three digests (RFC 1321, FIPS 180-4) and HMAC (RFC 2104) as executable functions on byte
  lists, and the interface \<open>mac\<close> the key derivation relies on.
\<close>

section \<open>Padding and blocks\<close>

definition pad_zeros :: "nat \<Rightarrow> nat" where
  "pad_zeros n = (119 - n mod 64) mod 64"

definition len64 :: "bytes \<Rightarrow> bytes" where
  "len64 msg = map (\<lambda>i. ucast (drop_bit (8 * (7 - i)) (of_nat (8 * length msg) :: u64))) [0 ..< 8]"

definition pad_be :: "bytes \<Rightarrow> bytes" where
  "pad_be msg = msg @ [0x80] @ replicate (pad_zeros (length msg)) 0 @ len64 msg"

definition pad_le :: "bytes \<Rightarrow> bytes" where
  "pad_le msg = msg @ [0x80] @ replicate (pad_zeros (length msg)) 0 @ rev (len64 msg)"

function chunks :: "nat \<Rightarrow> bytes \<Rightarrow> bytes list" where
  "chunks n xs = (if xs = [] \<or> n = 0 then [] else take n xs # chunks n (drop n xs))"
  by pat_completeness auto
termination by (relation "measure (\<lambda>(n, xs). length xs)") auto

declare chunks.simps [simp del]

definition words_be :: "bytes \<Rightarrow> u32 list" where
  "words_be xs = map (\<lambda>c. u32_at (c @ [0, 0, 0, 0]) 0) (chunks 4 xs)"

definition words_le :: "bytes \<Rightarrow> u32 list" where
  "words_le xs = map (\<lambda>c. u32_at (rev (take 4 (c @ [0, 0, 0, 0]))) 0) (chunks 4 xs)"

definition rotl :: "nat \<Rightarrow> u32 \<Rightarrow> u32" where
  "rotl n w = push_bit n w OR drop_bit (32 - n) w"

definition rotr :: "nat \<Rightarrow> u32 \<Rightarrow> u32" where
  "rotr n w = drop_bit n w OR push_bit (32 - n) w"

section \<open>MD5\<close>

definition md5_K :: "u32 list" where
  "md5_K = [
     0xd76aa478, 0xe8c7b756, 0x242070db, 0xc1bdceee, 0xf57c0faf, 0x4787c62a, 0xa8304613, 0xfd469501,
     0x698098d8, 0x8b44f7af, 0xffff5bb1, 0x895cd7be, 0x6b901122, 0xfd987193, 0xa679438e, 0x49b40821,
     0xf61e2562, 0xc040b340, 0x265e5a51, 0xe9b6c7aa, 0xd62f105d, 0x02441453, 0xd8a1e681, 0xe7d3fbc8,
     0x21e1cde6, 0xc33707d6, 0xf4d50d87, 0x455a14ed, 0xa9e3e905, 0xfcefa3f8, 0x676f02d9, 0x8d2a4c8a,
     0xfffa3942, 0x8771f681, 0x6d9d6122, 0xfde5380c, 0xa4beea44, 0x4bdecfa9, 0xf6bb4b60, 0xbebfbc70,
     0x289b7ec6, 0xeaa127fa, 0xd4ef3085, 0x04881d05, 0xd9d4d039, 0xe6db99e5, 0x1fa27cf8, 0xc4ac5665,
     0xf4292244, 0x432aff97, 0xab9423a7, 0xfc93a039, 0x655b59c3, 0x8f0ccc92, 0xffeff47d, 0x85845dd1,
     0x6fa87e4f, 0xfe2ce6e0, 0xa3014314, 0x4e0811a1, 0xf7537e82, 0xbd3af235, 0x2ad7d2bb, 0xeb86d391]"

definition md5_s :: "nat list" where
  "md5_s = [
     7, 12, 17, 22, 7, 12, 17, 22, 7, 12, 17, 22, 7, 12, 17, 22,
     5, 9, 14, 20, 5, 9, 14, 20, 5, 9, 14, 20, 5, 9, 14, 20,
     4, 11, 16, 23, 4, 11, 16, 23, 4, 11, 16, 23, 4, 11, 16, 23,
     6, 10, 15, 21, 6, 10, 15, 21, 6, 10, 15, 21, 6, 10, 15, 21]"

type_synonym quad = "u32 \<times> u32 \<times> u32 \<times> u32"

definition md5_step :: "u32 list \<Rightarrow> nat \<Rightarrow> quad \<Rightarrow> quad" where
  "md5_step m i st = (case st of (a, b, c, d) \<Rightarrow>
     let (f, g) =
       (if i < 16 then ((b AND c) OR (NOT b AND d), i)
        else if i < 32 then ((d AND b) OR (NOT d AND c), (5 * i + 1) mod 16)
        else if i < 48 then (b XOR c XOR d, (3 * i + 5) mod 16)
        else (c XOR (b OR NOT d), (7 * i) mod 16))
     in (d, b + rotl (md5_s ! i) (a + f + md5_K ! i + m ! g), b, c))"

definition md5_block :: "bytes \<Rightarrow> quad \<Rightarrow> quad" where
  "md5_block blk st =
     (case (st, fold (md5_step (words_le blk)) [0 ..< 64] st) of
        ((a, b, c, d), (a', b', c', d')) \<Rightarrow> (a + a', b + b', c + c', d + d'))"

definition put32_le :: "u32 \<Rightarrow> bytes" where
  "put32_le w = rev (put32_be w)"

definition md5_Sum :: "bytes \<Rightarrow> bytes" where
  "md5_Sum msg =
     (case fold md5_block (chunks 64 (pad_le msg)) (0x67452301, 0xefcdab89, 0x98badcfe, 0x10325476) of
        (a, b, c, d) \<Rightarrow> put32_le a @ put32_le b @ put32_le c @ put32_le d)"

section \<open>SHA-1\<close>

text \<open>The message schedule is kept latest word first.\<close>

primrec sha1_schedule :: "nat \<Rightarrow> u32 list \<Rightarrow> u32 list" where
  "sha1_schedule 0 ws = ws"
| "sha1_schedule (Suc n) ws =
     sha1_schedule n (rotl 1 (ws ! 2 XOR ws ! 7 XOR ws ! 13 XOR ws ! 15) # ws)"

type_synonym quint = "u32 \<times> u32 \<times> u32 \<times> u32 \<times> u32"

definition sha1_step :: "nat \<times> u32 \<Rightarrow> quint \<Rightarrow> quint" where
  "sha1_step iw st = (case (iw, st) of ((i, w), (a, b, c, d, e)) \<Rightarrow>
     let (f, k) =
       (if i < 20 then ((b AND c) OR (NOT b AND d), 0x5a827999)
        else if i < 40 then (b XOR c XOR d, 0x6ed9eba1)
        else if i < 60 then ((b AND c) OR (b AND d) OR (c AND d), 0x8f1bbcdc)
        else (b XOR c XOR d, 0xca62c1d6))
     in (rotl 5 a + f + e + k + w, a, rotl 30 b, c, d))"

definition sha1_block :: "bytes \<Rightarrow> quint \<Rightarrow> quint" where
  "sha1_block blk st =
     (let ws = rev (sha1_schedule 64 (rev (words_be blk))) in
      case (st, fold sha1_step (zip [0 ..< 80] ws) st) of
        ((a, b, c, d, e), (a', b', c', d', e')) \<Rightarrow> (a + a', b + b', c + c', d + d', e + e'))"

definition sha1_Sum :: "bytes \<Rightarrow> bytes" where
  "sha1_Sum msg =
     (case fold sha1_block (chunks 64 (pad_be msg))
        (0x67452301, 0xefcdab89, 0x98badcfe, 0x10325476, 0xc3d2e1f0) of
        (a, b, c, d, e) \<Rightarrow> put32_be a @ put32_be b @ put32_be c @ put32_be d @ put32_be e)"

section \<open>SHA-256\<close>

definition sha256_K :: "u32 list" where
  "sha256_K = [
    1116352408, 1899447441, 3049323471, 3921009573, 961987163, 1508970993, 2453635748, 2870763221,
    3624381080, 310598401, 607225278, 1426881987, 1925078388, 2162078206, 2614888103, 3248222580,
    3835390401, 4022224774, 264347078, 604807628, 770255983, 1249150122, 1555081692, 1996064986,
    2554220882, 2821834349, 2952996808, 3210313671, 3336571891, 3584528711, 113926993, 338241895,
    666307205, 773529912, 1294757372, 1396182291, 1695183700, 1986661051, 2177026350, 2456956037,
    2730485921, 2820302411, 3259730800, 3345764771, 3516065817, 3600352804, 4094571909, 275423344,
    430227734, 506948616, 659060556, 883997877, 958139571, 1322822218, 1537002063, 1747873779,
    1955562222, 2024104815, 2227730452, 2361852424, 2428436474, 2756734187, 3204031479, 3329325298]"

primrec sha256_schedule :: "nat \<Rightarrow> u32 list \<Rightarrow> u32 list" where
  "sha256_schedule 0 ws = ws"
| "sha256_schedule (Suc n) ws =
     (let x = ws ! 14; y = ws ! 1;
          s0 = rotr 7 x XOR rotr 18 x XOR drop_bit 3 x;
          s1 = rotr 17 y XOR rotr 19 y XOR drop_bit 10 y
      in sha256_schedule n ((ws ! 15 + s0 + ws ! 6 + s1) # ws))"

definition sha256_step :: "u32 \<times> u32 \<Rightarrow> u32 list \<Rightarrow> u32 list" where
  "sha256_step kw st =
     (let a = st ! 0; b = st ! 1; c = st ! 2; e = st ! 4; f = st ! 5; g = st ! 6;
          s1 = rotr 6 e XOR rotr 11 e XOR rotr 25 e;
          ch = (e AND f) XOR (NOT e AND g);
          t1 = st ! 7 + s1 + ch + fst kw + snd kw;
          s0 = rotr 2 a XOR rotr 13 a XOR rotr 22 a;
          maj = (a AND b) XOR (a AND c) XOR (b AND c)
      in [t1 + (s0 + maj), a, b, c, st ! 3 + t1, e, f, g])"

definition sha256_block :: "bytes \<Rightarrow> u32 list \<Rightarrow> u32 list" where
  "sha256_block blk st =
     map2 (+) st (fold sha256_step
       (zip sha256_K (rev (sha256_schedule 48 (rev (words_be blk))))) st)"

definition sha256_Sum256 :: "bytes \<Rightarrow> bytes" where
  "sha256_Sum256 msg =
     concat (map put32_be (fold sha256_block (chunks 64 (pad_be msg))
       [0x6a09e667, 0xbb67ae85, 0x3c6ef372, 0xa54ff53a, 0x510e527f, 0x9b05688c, 0x1f83d9ab,
        0x5be0cd19]))"

section \<open>HMAC\<close>

definition hmac_key :: "(bytes \<Rightarrow> bytes) \<Rightarrow> bytes \<Rightarrow> bytes" where
  "hmac_key H key =
     (let k = (if length key > 64 then H key else key) in k @ replicate (64 - length k) 0)"

definition hmac_Sum :: "(bytes \<Rightarrow> bytes) \<Rightarrow> bytes \<Rightarrow> bytes \<Rightarrow> bytes" where
  "hmac_Sum H key msg =
     (let k = hmac_key H key in
      H (map (\<lambda>b. b XOR 0x5c) k @ H (map (\<lambda>b. b XOR 0x36) k @ msg)))"

section \<open>The interface of a MAC\<close>

text \<open>The key derivation needs one law of its MAC: it returns a fixed, positive number of bytes.\<close>

locale mac =
  fixes sum_of :: "bytes \<Rightarrow> bytes \<Rightarrow> bytes" and size_of :: nat
  assumes sum_length: "length (sum_of key msg) = size_of"
    and size_pos: "0 < size_of"

lemma length_md5_Sum [simp]: "length (md5_Sum msg) = 16"
  by (simp add: md5_Sum_def put32_le_def split: prod.split)

lemma length_sha1_Sum [simp]: "length (sha1_Sum msg) = 20"
  by (simp add: sha1_Sum_def split: prod.split)

interpretation hmac_md5: mac "hmac_Sum md5_Sum" 16
  by unfold_locales (simp_all add: hmac_Sum_def Let_def)

interpretation hmac_sha1: mac "hmac_Sum sha1_Sum" 20
  by unfold_locales (simp_all add: hmac_Sum_def Let_def)

lemma length_sha256_fold:
  "length st = 8 \<Longrightarrow> length (fold sha256_block blks st) = 8"
proof (induction blks arbitrary: st)
  case (Cons b blks)
  have step: "length (fold sha256_step kws st') = 8" if "length st' = 8" for kws st'
    using that by (induction kws arbitrary: st') (simp_all add: sha256_step_def Let_def)
  have "length (sha256_block b st) = 8" using Cons.prems by (simp add: sha256_block_def step)
  then show ?case using Cons.IH by simp
qed simp

lemma length_sha256_Sum256 [simp]: "length (sha256_Sum256 msg) = 32"
  by (simp add: sha256_Sum256_def length_sha256_fold)

end
