(* ===== verification/KeyMethod.thy ===== *)
theory KeyMethod
  imports Go_Hash Protocol
begin

text \<open>
  Key method 2 of \<^verbatim>\<open>keymethod.go\<close>: the length-prefixed strings, the client's and the server's half of
  the exchange, and the derivation of the data channel keys with the TLS 1.0 PRF.  A reader is
  the list of bytes it still has to deliver, so a read returns its value and the rest.
\<close>

section \<open>Reading\<close>

definition io_ReadFull :: "bytes \<Rightarrow> nat \<Rightarrow> (bytes \<times> bytes) result" where
  "io_ReadFull r n =
     (if n = 0 then Ok ([], r) else if r = [] then Error EOF
      else if length r < n then Error UnexpectedEOF else Ok (take n r, drop n r))"

definition binary_Read16 :: "bytes \<Rightarrow> (u16 \<times> bytes) result" where
  "binary_Read16 r =
     then_do (io_ReadFull r 2) (\<lambda>(b, r). then_do (uint16_be b) (\<lambda>v. Ok (v, r)))"

definition binary_Read32 :: "bytes \<Rightarrow> (u32 \<times> bytes) result" where
  "binary_Read32 r =
     then_do (io_ReadFull r 4) (\<lambda>(b, r). then_do (uint32_be b) (\<lambda>v. Ok (v, r)))"

section \<open>Records\<close>

record keySource =
  PreMaster :: bytes
  Random1 :: bytes
  Random2 :: bytes

definition zero_source :: keySource where
  "zero_source = \<lparr>PreMaster = replicate 48 0, Random1 = replicate 32 0, Random2 = replicate 32 0\<rparr>"

definition wf_source :: "keySource \<Rightarrow> bool" where
  "wf_source k \<longleftrightarrow> length (PreMaster k) = 48 \<and> length (Random1 k) = 32 \<and> length (Random2 k) = 32"

record keyMethodRecord =
  Source :: keySource
  Options :: string
  Username :: string
  Password :: string
  PeerInfo :: string

record dataKeyBlock =
  ClientCipher :: bytes
  ClientHMAC :: bytes
  ServerCipher :: bytes
  ServerHMAC :: bytes

text \<open>\<open>rand i n\<close> is what the \<open>i\<close>-th call of \<^verbatim>\<open>rand.Read\<close> delivers for a buffer of \<open>n\<close> bytes.\<close>

definition randomClientKeySource :: "(nat \<Rightarrow> nat \<Rightarrow> bytes result) \<Rightarrow> keySource result" where
  "randomClientKeySource rand =
     then_do (rand 0 48) (\<lambda>pm.
     then_do (rand 1 32) (\<lambda>r1.
     then_do (rand 2 32) (\<lambda>r2.
     Ok \<lparr>PreMaster = pm, Random1 = r1, Random2 = r2\<rparr>)))"

section \<open>Strings on the wire\<close>

definition writeOVPNString :: "bytes \<Rightarrow> string \<Rightarrow> bytes result" where
  "writeOVPNString w s =
     (if s = '''' then Ok (w @ put16_be 0)
      else if IndexByte s (CHR 0x00) \<noteq> None then
        Error (ErrorsNew ''OpenVPN string contains NUL'')
      else
        let n = length s + 1 in
        if n > 0xffff then Error (ErrorsNew ''OpenVPN string too long'')
        else Ok (w @ put16_be (of_nat n) @ bytes_of_string s @ [0]))"

definition readOVPNString :: "bytes \<Rightarrow> nat \<Rightarrow> (string \<times> bytes) result" where
  "readOVPNString r maxLen =
     then_do (binary_Read16 r) (\<lambda>(n, r).
     if n = 0 then Ok ('''', r)
     else if unat n > maxLen then
       Error (Errorf ''OpenVPN string length %d exceeds %d'' [ArgN (unat n), ArgN maxLen])
     else
       then_do (io_ReadFull r (unat n)) (\<lambda>(b, r).
       then_do (index_go b (length b - 1)) (\<lambda>lastByte.
       if lastByte \<noteq> 0 then Error (ErrorsNew ''OpenVPN string missing trailing NUL'')
       else then_do (slice_go b 0 (length b - 1)) (\<lambda>body. Ok (string_of_bytes body, r)))))"

definition clientOptionsString :: "Endpoint \<Rightarrow> string" where
  "clientOptionsString ep =
     (let proto = (if EqualFold (Protocol ep) ''tcp'' then ''TCPv4_CLIENT'' else ''UDPv4'') in
      ''V4,dev-type tun,link-mtu 1550,tun-mtu 1500,proto '' @ proto @
      '',cipher AES-256-GCM,auth SHA512,keysize 256,key-method 2,tls-client'')"

definition clientPeerInfo :: string where
  "clientPeerInfo =
     ''IV_VER=DisFree_0.5'' @ [CHR 0x0A] @ ''IV_PLAT=linux'' @ [CHR 0x0A] @ ''IV_MTU=1500'' @ [CHR 0x0A]
     @ ''IV_CIPHERS=AES-256-GCM'' @ [CHR 0x0A] @ ''IV_PROTO=6'' @ [CHR 0x0A]"

definition marshalClientKeyMethod :: "keySource \<Rightarrow> Endpoint \<Rightarrow> bytes result" where
  "marshalClientKeyMethod src ep =
     (let b = put32_be 0 @ [2] @ PreMaster src @ Random1 src @ Random2 src in
      then_do (writeOVPNString b (clientOptionsString ep)) (\<lambda>b.
      then_do (writeOVPNString b '''') (\<lambda>b.
      then_do (writeOVPNString b '''') (\<lambda>b.
      writeOVPNString b clientPeerInfo))))"

definition readServerKeyMethod :: "bytes \<Rightarrow> (keyMethodRecord \<times> bytes) result" where
  "readServerKeyMethod r =
     then_do (binary_Read32 r) (\<lambda>(zero, r).
     if zero \<noteq> 0 then
       Error (Errorf ''key-method prefix is %d, expected 0'' [ArgN (unat zero)])
     else
       then_do (io_ReadFull r 1) (\<lambda>(method, r).
       then_do (index_go method 0) (\<lambda>m.
       if m AND 0x07 \<noteq> 2 then Error (Errorf ''server key method=%d'' [ArgN (unat m)])
       else
         then_do (io_ReadFull r 32) (\<lambda>(r1, r).
         then_do (io_ReadFull r 32) (\<lambda>(r2, r).
         then_do (on_error (readOVPNString r 8192) (\<lambda>e. Wrapf ''server options: %w'' e)) (\<lambda>(opts, r).
         then_do (on_error (readOVPNString r 1024) (\<lambda>e. Wrapf ''server username: %w'' e)) (\<lambda>(user, r).
         then_do (on_error (readOVPNString r 1024) (\<lambda>e. Wrapf ''server password: %w'' e)) (\<lambda>(pass, r).
         then_do (on_error (readOVPNString r 16384) (\<lambda>e. Wrapf ''server peer-info: %w'' e)) (\<lambda>(info, r).
         Ok (\<lparr>Source = zero_source\<lparr>Random1 := r1, Random2 := r2\<rparr>, Options = opts,
               Username = user, Password = pass, PeerInfo = info\<rparr>, r))))))))))"

section \<open>Key derivation\<close>

datatype hash_alg = md5_New | sha1_New

primrec hash_of :: "hash_alg \<Rightarrow> bytes \<Rightarrow> bytes" where
  "hash_of md5_New = md5_Sum"
| "hash_of sha1_New = sha1_Sum"

primrec hash_size :: "hash_alg \<Rightarrow> nat" where
  "hash_size md5_New = 16"
| "hash_size sha1_New = 20"

interpretation alg: mac "hmac_Sum (hash_of h)" "hash_size h" for h
  by (cases h) (simp_all add: hmac_md5.mac_axioms hmac_sha1.mac_axioms)

function pHash_loop :: "hash_alg \<Rightarrow> bytes \<Rightarrow> bytes \<Rightarrow> nat \<Rightarrow> bytes \<Rightarrow> bytes \<Rightarrow> bytes" where
  "pHash_loop newHash secret seed n a out =
     (if length out < n then
        let a = hmac_Sum (hash_of newHash) secret a;
            out = out @ hmac_Sum (hash_of newHash) secret (a @ seed)
        in pHash_loop newHash secret seed n a out
      else out)"
  by pat_completeness auto
termination
proof (relation "measure (\<lambda>(h, secret, seed, n, a, out). n - length out)", simp, goal_cases)
  case (1 h secret seed n a out a' out')
  then show ?case using alg.size_pos [of h] by (simp add: alg.sum_length)
qed

declare pHash_loop.simps [simp del]

definition pHash :: "hash_alg \<Rightarrow> bytes \<Rightarrow> bytes \<Rightarrow> nat \<Rightarrow> bytes result" where
  "pHash newHash secret seed n = slice_go (pHash_loop newHash secret seed n seed []) 0 n"

definition tls10PRF :: "bytes \<Rightarrow> bytes \<Rightarrow> nat \<Rightarrow> bytes result" where
  "tls10PRF secret seed n =
     (let half = (length secret + 1) div 2 in
      then_do (slice_go secret 0 half) (\<lambda>s1.
      then_do (slice_go secret (length secret - half) (length secret)) (\<lambda>s2.
      then_do (pHash md5_New s1 seed n) (\<lambda>a.
      then_do (pHash sha1_New s2 seed n) (\<lambda>b.
      mapM_go (\<lambda>i. then_do (index_go a i) (\<lambda>x. then_do (index_go b i) (\<lambda>y. Ok (x XOR y)))) [0 ..< n])))))"

definition deriveOpenVPNKeys ::
  "keySource \<Rightarrow> keySource \<Rightarrow> sessionID \<Rightarrow> sessionID \<Rightarrow> (bytes \<times> dataKeyBlock) result" where
  "deriveOpenVPNKeys client server clientSID serverSID =
     (let seedMaster = bytes_of_string ''OpenVPN master secret'' @ Random1 client @ Random1 server in
      then_do (tls10PRF (PreMaster client) seedMaster 48) (\<lambda>m.
      let master = copy_at (replicate 48 0) 0 m;
          seedKeys = bytes_of_string ''OpenVPN key expansion'' @ Random2 client @ Random2 server
                     @ clientSID @ serverSID in
      then_do (tls10PRF master seedKeys (2 * (64 + 64))) (\<lambda>raw.
      then_do (slice_go raw 0 64) (\<lambda>k0.
      then_do (slice_go raw 64 128) (\<lambda>k1.
      then_do (slice_go raw 128 192) (\<lambda>k2.
      then_do (slice_go raw 192 256) (\<lambda>k3.
      Ok (master,
        \<lparr>ClientCipher = copy_at (replicate 64 0) 0 k0, ClientHMAC = copy_at (replicate 64 0) 0 k1,
         ServerCipher = copy_at (replicate 64 0) 0 k2, ServerHMAC = copy_at (replicate 64 0) 0 k3\<rparr>))))))))"

text \<open>\<open>fmt.Sprintf("%x", b)\<close> for a byte slice.\<close>

definition hex_digit :: "nat \<Rightarrow> char" where
  "hex_digit n = ''0123456789abcdef'' ! n"

definition hex_of_bytes :: "bytes \<Rightarrow> string" where
  "hex_of_bytes bs = concat (map (\<lambda>b. [hex_digit (unat b div 16), hex_digit (unat b mod 16)]) bs)"

definition shortKeyProof :: "bytes \<Rightarrow> string" where
  "shortKeyProof k = hex_of_bytes (take 8 (sha256_Sum256 k))"

definition sanitizeOneLine :: "string \<Rightarrow> nat \<Rightarrow> string" where
  "sanitizeOneLine s maxLen =
     (let s = ReplaceAll_char s (CHR 0x0D) [CHR 0x5C, CHR ''r''];
          s = ReplaceAll_char s (CHR 0x0A) [CHR 0x5C, CHR ''n'']
      in if length s > maxLen then take maxLen s @ ''...'' else s)"

section \<open>Reading back\<close>

lemma io_ReadFull_append [simp]: "length a = n \<Longrightarrow> io_ReadFull (a @ r) n = Ok (a, r)"
  by (auto simp: io_ReadFull_def)

lemma io_ReadFull_Ok: "io_ReadFull r n = Ok (a, r') \<Longrightarrow> r = a @ r' \<and> length a = n"
  by (auto simp: io_ReadFull_def split: if_splits)

lemma io_ReadFull_total [simp]: "no_panic (io_ReadFull r n)"
  by (simp add: io_ReadFull_def)

lemma binary_Read_put [simp]:
  "binary_Read16 (put16_be v @ r) = Ok (v, r)" "binary_Read32 (put32_be w @ r) = Ok (w, r)"
  by (simp_all add: binary_Read16_def binary_Read32_def)

lemma binary_Read_total [simp]: "no_panic (binary_Read16 r)" "no_panic (binary_Read32 r)"
  unfolding binary_Read16_def binary_Read32_def
  by (rule no_panic_then_do; force simp: uint16_be_nth uint32_be_nth dest: io_ReadFull_Ok)+

section \<open>Strings: encoding and decoding\<close>

text \<open>The wire form of a string, and which strings have one.\<close>

definition ovpn_string :: "string \<Rightarrow> bytes" where
  "ovpn_string s =
     (if s = '''' then put16_be 0 else put16_be (of_nat (length s + 1)) @ bytes_of_string s @ [0])"

definition ovpn_ok :: "nat \<Rightarrow> string \<Rightarrow> bool" where
  "ovpn_ok m s \<longleftrightarrow> s = '''' \<or> CHR 0x00 \<notin> set s \<and> length s + 1 \<le> 0xffff \<and> length s + 1 \<le> m"

lemma writeOVPNString_Ok_iff:
  "writeOVPNString w s = Ok b \<longleftrightarrow> ovpn_ok 0xffff s \<and> b = w @ ovpn_string s"
  by (auto simp: writeOVPNString_def ovpn_ok_def ovpn_string_def Let_def IndexByte_None_iff)

lemma read_ovpn_string:
  assumes "ovpn_ok m s"
  shows "readOVPNString (ovpn_string s @ rest) m = Ok (s, rest)"
proof (cases "s = ''''")
  case True
  then show ?thesis by (simp add: readOVPNString_def ovpn_string_def)
next
  case False
  let ?n = "of_nat (length s + 1) :: u16" and ?b = "bytes_of_string s @ [0]"
  have b: "length s + 1 \<le> 65535" "length s + 1 \<le> m" using assms False by (auto simp: ovpn_ok_def)
  then have n: "unat ?n = length s + 1" by (simp add: unat_of_nat del: of_nat_add of_nat_Suc)
  have nz: "?n \<noteq> 0" by (metis n unat_0 Suc_eq_plus1 nat.distinct(1))
  have "io_ReadFull (?b @ rest) (length s + 1) = Ok (?b, rest)" by (rule io_ReadFull_append) simp
  then show ?thesis
    using False b nz n by (simp add: readOVPNString_def ovpn_string_def nth_append
        del: of_nat_add of_nat_Suc io_ReadFull_append)
qed

lemma readOVPNString_total [simp]: "no_panic (readOVPNString r m)"
proof -
  have "no_panic (if l \<noteq> 0 then Error e else then_do (slice_go b 0 (length b - 1)) (\<lambda>x. Ok (f x)))"
    for l :: byte and b :: bytes and e and f :: "bytes \<Rightarrow> string \<times> bytes"
    by simp
  moreover have "no_panic (index_go b (length b - 1))" if "io_ReadFull r' (unat n) = Ok (b, r'')" "n \<noteq> 0"
    for b r' r'' and n :: u16
  proof -
    have "0 < unat n" using that(2) by (simp add: unat_gt_0)
    then show ?thesis using io_ReadFull_Ok [OF that(1)] by (simp add: index_go_def)
  qed
  ultimately show ?thesis
    unfolding readOVPNString_def by (intro no_panic_then_do) (auto split: prod.split intro!: no_panic_then_do)
qed

section \<open>The two halves of the exchange\<close>

text \<open>What a conforming server sends: random1 and random2 only, then four strings.\<close>

definition server_half :: "keyMethodRecord \<Rightarrow> bytes" where
  "server_half rec =
     put32_be 0 @ [2] @ Random1 (Source rec) @ Random2 (Source rec) @ ovpn_string (Options rec)
     @ ovpn_string (Username rec) @ ovpn_string (Password rec) @ ovpn_string (PeerInfo rec)"

definition server_half_ok :: "keyMethodRecord \<Rightarrow> bool" where
  "server_half_ok rec \<longleftrightarrow> wf_source (Source rec) \<and> PreMaster (Source rec) = replicate 48 0
     \<and> ovpn_ok 8192 (Options rec) \<and> ovpn_ok 1024 (Username rec) \<and> ovpn_ok 1024 (Password rec)
     \<and> ovpn_ok 16384 (PeerInfo rec)"

lemma read_server_half:
  assumes "server_half_ok rec"
  shows "readServerKeyMethod (server_half rec @ rest) = Ok (rec, rest)"
proof -
  have ok: "length (Random1 (Source rec)) = 32" "length (Random2 (Source rec)) = 32"
    "PreMaster (Source rec) = replicate 48 0"
    "ovpn_ok 8192 (Options rec)" "ovpn_ok 1024 (Username rec)" "ovpn_ok 1024 (Password rec)"
    "ovpn_ok 16384 (PeerInfo rec)"
    using assms by (auto simp: server_half_ok_def wf_source_def)
  have m: "io_ReadFull (2 # r) 1 = Ok ([2], r)" for r
    using io_ReadFull_append [of "[2]" 1 r] by simp
  show ?thesis
    using ok by (simp add: server_half_def readServerKeyMethod_def read_ovpn_string zero_source_def
        m [simplified])
qed

lemma readServerKeyMethod_total: "no_panic (readServerKeyMethod r)"
proof -
  have "no_panic (index_go m 0)" if "io_ReadFull r' (Suc 0) = Ok (m, r'')" for m r' r''
    using io_ReadFull_Ok [OF that] by (simp add: index_go_def)
  then show ?thesis
    unfolding readServerKeyMethod_def by (auto split: prod.split intro!: no_panic_then_do)
qed

lemma client_strings_ok: "ovpn_ok 0xffff (clientOptionsString ep)" "ovpn_ok 0xffff clientPeerInfo"
  by (simp_all add: ovpn_ok_def clientOptionsString_def clientPeerInfo_def Let_def)

lemma marshalClientKeyMethod_eq:
  "marshalClientKeyMethod src ep =
     Ok (put32_be 0 @ [2] @ PreMaster src @ Random1 src @ Random2 src
         @ ovpn_string (clientOptionsString ep) @ ovpn_string '''' @ ovpn_string ''''
         @ ovpn_string clientPeerInfo)"
proof -
  have "writeOVPNString w (clientOptionsString ep) = Ok (w @ ovpn_string (clientOptionsString ep))"
    "writeOVPNString w clientPeerInfo = Ok (w @ ovpn_string clientPeerInfo)"
    "writeOVPNString w '''' = Ok (w @ ovpn_string '''')" for w
    by (simp_all add: writeOVPNString_Ok_iff client_strings_ok) (simp add: ovpn_ok_def)
  then show ?thesis by (simp add: marshalClientKeyMethod_def Let_def)
qed

section \<open>The PRF\<close>

text \<open>
  RFC 2246, section 5: \<open>A(0)\<close> is the seed, \<open>A(i)\<close> the MAC of \<open>A(i-1)\<close>, and \<open>P_hash\<close> the concatenation of
  the MACs of \<open>A(i) @ seed\<close>, cut off after \<open>n\<close> bytes.
\<close>

primrec p_A :: "(bytes \<Rightarrow> bytes \<Rightarrow> bytes) \<Rightarrow> bytes \<Rightarrow> bytes \<Rightarrow> nat \<Rightarrow> bytes" where
  "p_A hmac secret seed 0 = seed"
| "p_A hmac secret seed (Suc i) = hmac secret (p_A hmac secret seed i)"

definition p_blocks :: "(bytes \<Rightarrow> bytes \<Rightarrow> bytes) \<Rightarrow> bytes \<Rightarrow> bytes \<Rightarrow> nat \<Rightarrow> bytes" where
  "p_blocks hmac secret seed k =
     concat (map (\<lambda>i. hmac secret (p_A hmac secret seed (Suc i) @ seed)) [0 ..< k])"

context mac
begin

lemma length_p_blocks: "length (p_blocks sum_of secret seed k) = k * size_of"
  by (induction k) (simp_all add: p_blocks_def sum_length)

lemma take_p_blocks:
  assumes "n \<le> k * size_of" "k \<le> k'"
  shows "take n (p_blocks sum_of secret seed k') = take n (p_blocks sum_of secret seed k)"
proof -
  have "[0 ..< k'] = [0 ..< k] @ [k ..< k']" using assms(2) by (metis le_add_diff_inverse upt_add_eq_append zero_le)
  then obtain rest where "p_blocks sum_of secret seed k' = p_blocks sum_of secret seed k @ rest"
    by (simp add: p_blocks_def)
  then show ?thesis using assms(1) by (simp add: length_p_blocks)
qed

lemma p_blocks_agree:
  assumes "n \<le> k * size_of" "n \<le> k' * size_of"
  shows "take n (p_blocks sum_of secret seed k') = take n (p_blocks sum_of secret seed k)"
  using take_p_blocks [OF assms(1), of k'] take_p_blocks [OF assms(2), of k] by (cases "k \<le> k'") auto

end

lemma pHash_loop_blocks:
  "length (p_blocks (hmac_Sum (hash_of h)) secret seed k) \<le> n + hash_size h \<Longrightarrow>
   \<exists>k'. pHash_loop h secret seed n (p_A (hmac_Sum (hash_of h)) secret seed k)
          (p_blocks (hmac_Sum (hash_of h)) secret seed k)
        = p_blocks (hmac_Sum (hash_of h)) secret seed k' \<and> n \<le> k' * hash_size h"
proof (induction "n - k * hash_size h" arbitrary: k rule: less_induct)
  case less
  let ?m = "hmac_Sum (hash_of h)"
  show ?case
  proof (cases "k * hash_size h < n")
    case True
    have next_blocks: "p_blocks ?m secret seed k @ ?m secret (?m secret (p_A ?m secret seed k) @ seed)
        = p_blocks ?m secret seed (Suc k)"
      by (simp add: p_blocks_def)
    have "n - Suc k * hash_size h < n - k * hash_size h" using True alg.size_pos [of h] by simp
    moreover have "length (p_blocks ?m secret seed (Suc k)) \<le> n + hash_size h"
      using True by (simp add: alg.length_p_blocks)
    ultimately show ?thesis
      using less.hyps [of "Suc k"] True
      by (subst pHash_loop.simps) (simp add: alg.length_p_blocks Let_def next_blocks)
  next
    case False
    then show ?thesis
      by (subst pHash_loop.simps) (auto simp: alg.length_p_blocks not_less)
  qed
qed

lemma pHash_blocks:
  assumes "n \<le> k * hash_size h"
  shows "pHash h secret seed n = Ok (take n (p_blocks (hmac_Sum (hash_of h)) secret seed k))"
proof -
  obtain k' where k': "pHash_loop h secret seed n seed [] = p_blocks (hmac_Sum (hash_of h)) secret seed k'"
    "n \<le> k' * hash_size h"
    using pHash_loop_blocks [of h secret seed 0 n] by (auto simp: p_blocks_def)
  then show ?thesis
    using alg.p_blocks_agree [OF assms k'(2)] by (simp add: pHash_def alg.length_p_blocks)
qed

definition prf_bytes :: "bytes \<Rightarrow> bytes \<Rightarrow> nat \<Rightarrow> bytes" where
  "prf_bytes secret seed n =
     (let half = (length secret + 1) div 2 in
      xor_bytes
        (take n (p_blocks (hmac_Sum md5_Sum) (take half secret) seed n))
        (take n (p_blocks (hmac_Sum sha1_Sum) (drop (length secret - half) secret) seed n)))"

lemma length_prf [simp]: "length (prf_bytes secret seed n) = n"
  by (simp add: prf_bytes_def Let_def hmac_md5.length_p_blocks hmac_sha1.length_p_blocks)

lemma tls10PRF_eq: "tls10PRF secret seed n = Ok (prf_bytes secret seed n)"
proof -
  let ?half = "(length secret + 1) div 2"
  let ?a = "take n (p_blocks (hmac_Sum md5_Sum) (take ?half secret) seed n)"
  let ?b = "take n (p_blocks (hmac_Sum sha1_Sum) (drop (length secret - ?half) secret) seed n)"
  have half: "?half \<le> length secret" by linarith
  have len: "length ?a = n" "length ?b = n"
    by (simp_all add: hmac_md5.length_p_blocks hmac_sha1.length_p_blocks)
  have "pHash md5_New (take ?half secret) seed n = Ok ?a"
    "pHash sha1_New (drop (length secret - ?half) secret) seed n = Ok ?b"
    using pHash_blocks [of n n md5_New] pHash_blocks [of n n sha1_New] by simp_all
  moreover have "mapM_go (\<lambda>i. then_do (index_go ?a i) (\<lambda>x. then_do (index_go ?b i) (\<lambda>y. Ok (x XOR y)))) [0 ..< n]
      = Ok (map (\<lambda>i. ?a ! i XOR ?b ! i) [0 ..< n])"
    using len by (intro mapM_go_map) simp
  moreover have "map (\<lambda>i. ?a ! i XOR ?b ! i) [0 ..< n] = prf_bytes secret seed n"
    using len by (intro nth_equalityI) (simp_all add: prf_bytes_def Let_def xor_bytes_def)
  ultimately show ?thesis
    using half by (simp add: tls10PRF_def Let_def)
qed

lemma prf_prefix: "m \<le> n \<Longrightarrow> prf_bytes secret seed m = take m (prf_bytes secret seed n)"
proof -
  assume mn: "m \<le> n"
  have "m \<le> m * 16" "m \<le> n * 16" "m \<le> m * 20" "m \<le> n * 20" using mn by simp_all
  then have "take m (p_blocks (hmac_Sum md5_Sum) s seed n) = take m (p_blocks (hmac_Sum md5_Sum) s seed m)"
    "take m (p_blocks (hmac_Sum sha1_Sum) s seed n) = take m (p_blocks (hmac_Sum sha1_Sum) s seed m)" for s
    using hmac_md5.p_blocks_agree [of m m n s seed] hmac_sha1.p_blocks_agree [of m m n s seed] by simp_all
  with mn show ?thesis
    by (simp add: prf_bytes_def Let_def xor_bytes_def take_map take_zip min_absorb1)
qed

definition master_secret :: "keySource \<Rightarrow> keySource \<Rightarrow> bytes" where
  "master_secret client server =
     prf_bytes (PreMaster client)
       (bytes_of_string ''OpenVPN master secret'' @ Random1 client @ Random1 server) 48"

definition key_material :: "keySource \<Rightarrow> keySource \<Rightarrow> sessionID \<Rightarrow> sessionID \<Rightarrow> bytes" where
  "key_material client server csid ssid =
     prf_bytes (master_secret client server)
       (bytes_of_string ''OpenVPN key expansion'' @ Random2 client @ Random2 server @ csid @ ssid) 256"

lemma length_key_material [simp]:
  "length (master_secret client server) = 48" "length (key_material client server csid ssid) = 256"
  by (simp_all add: master_secret_def key_material_def)

lemma deriveOpenVPNKeys_eq:
  "deriveOpenVPNKeys client server csid ssid =
     Ok (master_secret client server,
       let raw = key_material client server csid ssid in
       \<lparr>ClientCipher = take 64 raw, ClientHMAC = take 64 (drop 64 raw),
        ServerCipher = take 64 (drop 128 raw), ServerHMAC = drop 192 raw\<rparr>)"
  by (simp add: deriveOpenVPNKeys_def tls10PRF_eq Let_def copy_at_def master_secret_def [symmetric]
      key_material_def [symmetric])

lemma four_parts: "take 64 raw @ take 64 (drop 64 raw) @ take 64 (drop 128 raw) @ drop 192 raw = raw"
  using take_drop_join [of 64 128 raw] take_drop_join [of 64 64 raw] append_take_drop_id [of 64 raw]
  by simp

section \<open>Properties\<close>

text \<open>
  A string that \<^verbatim>\<open>writeOVPNString\<close> accepts is read back by \<^verbatim>\<open>readOVPNString\<close> unchanged, whatever
  follows it on the stream, as long as its length with the terminator is within the reader's limit.
\<close>

theorem ovpn_string_roundtrip:
  assumes "writeOVPNString [] s = Ok b" "s \<noteq> '''' \<longrightarrow> length s + 1 \<le> m"
  shows "readOVPNString (b @ rest) m = Ok (s, rest)"
proof -
  have "ovpn_ok m s" "b = ovpn_string s"
    using assms by (auto simp: writeOVPNString_Ok_iff ovpn_ok_def)
  then show ?thesis by (simp add: read_ovpn_string)
qed

theorem ovpn_string_roundtrip_witness:
  "writeOVPNString [] ''abc'' = Ok [0, 4, 97, 98, 99, 0]
   \<and> readOVPNString ([0, 4, 97, 98, 99, 0] @ [7]) 20 = Ok (''abc'', [7])"
proof -
  have w: "writeOVPNString [] ''abc'' = Ok [0, 4, 97, 98, 99, 0]"
    by (simp add: writeOVPNString_Ok_iff ovpn_ok_def ovpn_string_def bytes_of_string_def put16_be_def)
  show ?thesis using ovpn_string_roundtrip [OF w, of 20 "[7]"] w by simp
qed

text \<open>
  \<^verbatim>\<open>readServerKeyMethod\<close> reads every well-formed server half of the key exchange exactly, leaves
  the bytes after it on the stream, and panics on no input.
\<close>

theorem server_key_method_roundtrip:
  "no_panic (readServerKeyMethod r)
   \<and> (server_half_ok rec \<longrightarrow> readServerKeyMethod (server_half rec @ rest) = Ok (rec, rest))"
  using readServerKeyMethod_total read_server_half by blast

theorem server_key_method_roundtrip_witness:
  "no_panic (readServerKeyMethod [1, 2]) \<and>
   (let rec = \<lparr>Source = zero_source, Options = ''V4'', Username = '''', Password = '''', PeerInfo = ''''\<rparr>
    in readServerKeyMethod (server_half rec @ [5]) = Ok (rec, [5]))"
  using server_key_method_roundtrip [of "[1, 2]"
      "\<lparr>Source = zero_source, Options = ''V4'', Username = '''', Password = '''', PeerInfo = ''''\<rparr>" "[5]"]
  by (simp add: server_half_ok_def wf_source_def zero_source_def ovpn_ok_def)

text \<open>
  \<^verbatim>\<open>marshalClientKeyMethod\<close> always succeeds, and a server that reads the prefix, the method byte,
  the three random fields and the four strings gets the client's key source, its option string,
  two empty strings and its peer info, with nothing left over.
\<close>

theorem client_key_method_layout:
  assumes "wf_source src"
  shows "\<exists>raw r1 r2 r3. marshalClientKeyMethod src ep = Ok raw
    \<and> take 5 raw = [0, 0, 0, 0, 2] \<and> take 48 (drop 5 raw) = PreMaster src
    \<and> take 32 (drop 53 raw) = Random1 src \<and> take 32 (drop 85 raw) = Random2 src
    \<and> readOVPNString (drop 117 raw) 0xffff = Ok (clientOptionsString ep, r1)
    \<and> readOVPNString r1 0xffff = Ok ('''', r2) \<and> readOVPNString r2 0xffff = Ok ('''', r3)
    \<and> readOVPNString r3 0xffff = Ok (clientPeerInfo, [])"
proof -
  have len: "length (PreMaster src) = 48" "length (Random1 src) = 32" "length (Random2 src) = 32"
    using assms by (auto simp: wf_source_def)
  let ?r3 = "ovpn_string clientPeerInfo"
  let ?r2 = "ovpn_string '''' @ ?r3"
  let ?r1 = "ovpn_string '''' @ ?r2"
  have e: "ovpn_ok 0xffff ''''" by (simp add: ovpn_ok_def)
  have "readOVPNString (ovpn_string (clientOptionsString ep) @ ?r1) 0xffff = Ok (clientOptionsString ep, ?r1)"
    "readOVPNString ?r1 0xffff = Ok ('''', ?r2)" "readOVPNString ?r2 0xffff = Ok ('''', ?r3)"
    by (rule read_ovpn_string, simp_all add: client_strings_ok e)+
  moreover have "readOVPNString ?r3 0xffff = Ok (clientPeerInfo, [])"
    using read_ovpn_string [OF client_strings_ok(2), of "[]"] by simp
  ultimately show ?thesis
    using len by (simp add: marshalClientKeyMethod_eq put32_be_def)
qed

theorem client_key_method_layout_witness:
  "\<exists>raw. marshalClientKeyMethod zero_source
      \<lparr>Host = ''h'', IP = ''10.0.0.1'', Location = ''x'', Protocol = ''udp'', Port = 53\<rparr> = Ok raw
    \<and> take 5 raw = [0, 0, 0, 0, 2] \<and> take 48 (drop 5 raw) = replicate 48 0"
  using client_key_method_layout [of zero_source
      "\<lparr>Host = ''h'', IP = ''10.0.0.1'', Location = ''x'', Protocol = ''udp'', Port = 53\<rparr>"]
  by (auto simp: wf_source_def zero_source_def)

text \<open>
  C31. \<^verbatim>\<open>tls10PRF\<close> never panics and is the PRF of RFC 2246: the XOR of P_MD5 over the first half of
  the secret and P_SHA1 over the second half, the halves sharing the middle byte of an odd secret,
  each cut off after \<open>n\<close> bytes; a shorter request yields a prefix of a longer one.
\<close>

theorem tls10PRF_rfc2246:
  "\<exists>out. tls10PRF secret seed n = Ok out \<and> length out = n
    \<and> (\<forall>i < n. out ! i =
         p_blocks (hmac_Sum md5_Sum) (take ((length secret + 1) div 2) secret) seed n ! i
         XOR p_blocks (hmac_Sum sha1_Sum) (drop (length secret div 2) secret) seed n ! i)
    \<and> (\<forall>m \<le> n. tls10PRF secret seed m = Ok (take m out))"
proof -
  have "length secret - (length secret + 1) div 2 = length secret div 2" by linarith
  then have "\<forall>i < n. prf_bytes secret seed n ! i =
         p_blocks (hmac_Sum md5_Sum) (take ((length secret + 1) div 2) secret) seed n ! i
         XOR p_blocks (hmac_Sum sha1_Sum) (drop (length secret div 2) secret) seed n ! i"
    by (simp add: prf_bytes_def Let_def xor_bytes_def hmac_md5.length_p_blocks hmac_sha1.length_p_blocks)
  moreover have "\<forall>m \<le> n. tls10PRF secret seed m = Ok (take m (prf_bytes secret seed n))"
    unfolding tls10PRF_eq using prf_prefix by metis
  ultimately show ?thesis using tls10PRF_eq [of secret seed n] length_prf by blast
qed

theorem tls10PRF_rfc2246_witness:
  "\<exists>out. tls10PRF [1, 2, 3] [9] 4 = Ok out \<and> length out = 4 \<and> tls10PRF [1, 2, 3] [9] 2 = Ok (take 2 out)"
proof -
  have "(2 :: nat) \<le> 4" by simp
  then show ?thesis using tls10PRF_rfc2246 [of "[1, 2, 3]" "[9]" 4] by blast
qed

text \<open>
  \<^verbatim>\<open>deriveOpenVPNKeys\<close> never panics; the master secret has 48 bytes, the four keys have 64 bytes
  each and, in the order client cipher, client HMAC, server cipher, server HMAC, are exactly the
  256 bytes the PRF expands from the master secret, both randoms and both session ids.
\<close>

theorem deriveOpenVPNKeys_layout:
  "\<exists>master keys. deriveOpenVPNKeys client server csid ssid = Ok (master, keys)
    \<and> length master = 48 \<and> length (ClientCipher keys) = 64 \<and> length (ClientHMAC keys) = 64
    \<and> length (ServerCipher keys) = 64 \<and> length (ServerHMAC keys) = 64
    \<and> tls10PRF (PreMaster client)
        (bytes_of_string ''OpenVPN master secret'' @ Random1 client @ Random1 server) 48 = Ok master
    \<and> tls10PRF master
        (bytes_of_string ''OpenVPN key expansion'' @ Random2 client @ Random2 server @ csid @ ssid) 256
      = Ok (ClientCipher keys @ ClientHMAC keys @ ServerCipher keys @ ServerHMAC keys)"
  by (simp add: deriveOpenVPNKeys_eq tls10PRF_eq Let_def four_parts master_secret_def [symmetric]
      key_material_def [symmetric])

end
