(* ===== verification/Go_Net.thy ===== *)
theory Go_Net
  imports Go_Strings
begin

text \<open>
  The part of package \<^verbatim>\<open>net\<close> the program uses on values: an \<^verbatim>\<open>net.IP\<close> is a
  byte slice of length 4 or 16, and nil is the empty slice.  \<open>ParseIP\<close> follows
  \<^verbatim>\<open>net/netip\<close>: dotted IPv4, IPv6 with one ellipsis and an optional embedded IPv4 tail,
  and no zone.
\<close>

section \<open>IP values\<close>

definition v4InV6Prefix :: bytes where
  "v4InV6Prefix = replicate 10 0 @ [255, 255]"

definition To4 :: "bytes \<Rightarrow> bytes option" where
  "To4 ip =
     (if length ip = 4 then Some ip
      else if length ip = 16 \<and> take 12 ip = v4InV6Prefix then Some (drop 12 ip)
      else None)"

definition IPv4 :: "byte \<Rightarrow> byte \<Rightarrow> byte \<Rightarrow> byte \<Rightarrow> bytes" where
  "IPv4 a b c d = v4InV6Prefix @ [a, b, c, d]"

definition IsUnspecified :: "bytes \<Rightarrow> bool" where
  "IsUnspecified ip \<longleftrightarrow> To4 ip = Some [0, 0, 0, 0] \<or> ip = replicate 16 0"

lemma To4_IPv4 [simp]: "To4 (IPv4 a b c d) = Some [a, b, c, d]"
  by (simp add: To4_def IPv4_def v4InV6Prefix_def)

lemma To4_length: "To4 ip = Some v \<Longrightarrow> length v = 4"
  by (auto simp: To4_def split: if_splits)

lemma To4_of_length4 [simp]: "length ip = 4 \<Longrightarrow> To4 ip = Some ip"
  by (simp add: To4_def)

section \<open>ParseIP\<close>

text \<open>
  \<^verbatim>\<open>parseIPv4Fields\<close>: \<open>val\<close> and \<open>digs\<close> are the value and the number of digits of the
  octet being read, \<open>fields\<close> the octets already read, \<open>dot\<close> whether a dot (or the start) comes
  right before.
\<close>

fun parseIPv4Fields :: "string \<Rightarrow> bool \<Rightarrow> nat \<Rightarrow> nat \<Rightarrow> bytes \<Rightarrow> bytes option" where
  "parseIPv4Fields [] dot val digs fields =
     (if length fields < 3 then None else Some (fields @ [of_nat val]))"
| "parseIPv4Fields (c # cs) dot val digs fields =
     (case digit_val c of
        Some d \<Rightarrow>
          (if digs = 1 \<and> val = 0 then None
           else if 255 < 10 * val + d then None
           else parseIPv4Fields cs False (10 * val + d) (Suc digs) fields)
      | None \<Rightarrow>
          (if c = CHR ''.'' then
             (if dot \<or> cs = [] then None
              else if length fields = 3 then None
              else parseIPv4Fields cs True 0 0 (fields @ [of_nat val]))
           else None))"

definition hex_val :: "char \<Rightarrow> nat option" where
  "hex_val c =
     (let n = (of_char c :: nat) in
      if 48 \<le> n \<and> n \<le> 57 then Some (n - 48)
      else if 97 \<le> n \<and> n \<le> 102 then Some (n - 87)
      else if 65 \<le> n \<and> n \<le> 70 then Some (n - 55)
      else None)"

text \<open>The hexadecimal digits at the front: how many, their value, and what follows.\<close>

fun hex_run :: "string \<Rightarrow> nat \<Rightarrow> nat \<Rightarrow> nat \<times> nat \<times> string" where
  "hex_run [] off acc = (off, acc, [])"
| "hex_run (c # cs) off acc =
     (case hex_val c of
        Some d \<Rightarrow> hex_run cs (Suc off) (16 * acc + d)
      | None \<Rightarrow> (off, acc, c # cs))"

text \<open>
  The loop of \<^verbatim>\<open>parseIPv6\<close>.  It stores two bytes per round and stops at sixteen, so eight
  rounds of fuel are enough; \<open>ip\<close> holds the bytes stored so far, and the result carries the
  string that is left.
\<close>

fun parseIPv6_loop :: "nat \<Rightarrow> string \<Rightarrow> bytes \<Rightarrow> nat option \<Rightarrow> (string \<times> bytes \<times> nat option) option" where
  "parseIPv6_loop 0 s ip ell = Some (s, ip, ell)"
| "parseIPv6_loop (Suc k) s ip ell =
     (case hex_run s 0 0 of (off, acc, rest) \<Rightarrow>
        if 4 < off then None
        else if off = 0 then None
        else if rest \<noteq> [] \<and> hd rest = CHR ''.'' then
          (if ell = None \<and> length ip \<noteq> 12 then None
           else if 16 < length ip + 4 then None
           else case parseIPv4Fields s True 0 0 [] of
                  None \<Rightarrow> None
                | Some v4 \<Rightarrow> Some ([], ip @ v4, ell))
        else
          (let ip' = ip @ [of_nat (acc div 256), of_nat (acc mod 256)] in
           if rest = [] then Some ([], ip', ell)
           else if hd rest \<noteq> CHR '':'' then None
           else if tl rest = [] then None
           else if hd (tl rest) = CHR '':'' then
             (if ell \<noteq> None then None
              else if tl (tl rest) = [] then Some ([], ip', Some (length ip'))
              else parseIPv6_loop k (tl (tl rest)) ip' (Some (length ip')))
           else parseIPv6_loop k (tl rest) ip' ell))"

definition parseIPv6 :: "string \<Rightarrow> bytes option" where
  "parseIPv6 s =
     (if CHR ''%'' \<in> set s then None
      else if s = ''::'' then Some (replicate 16 0)
      else case (if HasPrefix s ''::'' then parseIPv6_loop 8 (drop 2 s) [] (Some 0)
                 else parseIPv6_loop 8 s [] None) of
             None \<Rightarrow> None
           | Some (rest, ip, ell) \<Rightarrow>
               (if rest \<noteq> [] then None
                else if length ip < 16 then
                  (case ell of
                     None \<Rightarrow> None
                   | Some e \<Rightarrow> Some (take e ip @ replicate (16 - length ip) 0 @ drop e ip))
                else if ell \<noteq> None then None
                else Some ip))"

text \<open>The first of the three separators decides the address family.\<close>

fun ParseIP_scan :: "string \<Rightarrow> string \<Rightarrow> bytes option" where
  "ParseIP_scan whole [] = None"
| "ParseIP_scan whole (c # cs) =
     (if c = CHR ''.'' then
        (case parseIPv4Fields whole True 0 0 [] of
           None \<Rightarrow> None | Some v \<Rightarrow> Some (v4InV6Prefix @ v))
      else if c = CHR '':'' then parseIPv6 whole
      else if c = CHR ''%'' then None
      else ParseIP_scan whole cs)"

definition ParseIP :: "string \<Rightarrow> bytes" where
  "ParseIP s = (case ParseIP_scan s s of None \<Rightarrow> [] | Some ip \<Rightarrow> ip)"

text \<open>\<^verbatim>\<open>net.ParseIP(s).To4()\<close>, the form the program uses everywhere.\<close>

definition ParseIP4 :: "string \<Rightarrow> bytes option" where
  "ParseIP4 s = To4 (ParseIP s)"

lemma ParseIP4_length: "ParseIP4 s = Some v \<Longrightarrow> length v = 4"
  by (simp add: ParseIP4_def To4_length)

section \<open>Printing addresses\<close>

definition dotted :: "bytes \<Rightarrow> string" where
  "dotted v =
     (case v of
        a # b # c # d # _ \<Rightarrow>
          Itoa_nat (unat a) @ ''.'' @ Itoa_nat (unat b) @ ''.'' @ Itoa_nat (unat c) @ ''.''
            @ Itoa_nat (unat d)
      | _ \<Rightarrow> [])"

lemma parseIPv4Fields_octet:
  assumes "n < 256" "cs = [] \<or> (\<exists>ds. cs = CHR ''.'' # ds)"
  shows "parseIPv4Fields (Itoa_nat n @ cs) dot 0 0 fs =
    (if cs = [] then if length fs < 3 then None else Some (fs @ [of_nat n])
     else if tl cs = [] then None else if length fs = 3 then None
     else parseIPv4Fields (tl cs) True 0 0 (fs @ [of_nat n]))"
proof -
  have dot: "digit_val (CHR ''.'') = None" by (simp add: digit_val_def Let_def)
  consider "n < 10" | "10 \<le> n" "n < 100" | "100 \<le> n" by linarith
  then show ?thesis
  proof cases
    case 1
    with assms(2) dot show ?thesis by (auto simp: Itoa_nat.simps [of n])
  next
    case 2
    then have "n div 10 < 10" "n div 10 \<noteq> 0" by auto
    with 2 assms dot show ?thesis
      by (auto simp: Itoa_nat.simps [of n] Itoa_nat.simps [of "n div 10"])
  next
    case 3
    define t where "t = n div 10"
    define h where "h = t div 10"
    have n: "n = 10 * t + n mod 10" and t: "t = 10 * h + t mod 10"
      by (simp_all add: t_def h_def)
    have "t mod 10 < 10" "n mod 10 < 10" by simp_all
    with 3 assms(1) n t have "h < 10" "h \<noteq> 0" "\<not> n < 10" "\<not> t < 10" "t \<le> 255" by linarith+
    then have "Itoa_nat n = [char_of (48 + h), char_of (48 + t mod 10), char_of (48 + n mod 10)]"
      by (simp add: Itoa_nat.simps [of n] Itoa_nat.simps [of t] Itoa_nat.simps [of h]
          flip: t_def h_def)
    moreover have "10 * h + t mod 10 = t" "10 * t + n mod 10 = n" using n t by simp_all
    ultimately show ?thesis using \<open>h < 10\<close> \<open>h \<noteq> 0\<close> \<open>t \<le> 255\<close> \<open>\<not> t < 10\<close> assms dot by auto
  qed
qed

lemma Itoa_nat_digits: "c \<in> set (Itoa_nat m) \<Longrightarrow> digit_val c \<noteq> None"
proof (induction m rule: Itoa_nat.induct)
  case (1 m)
  then show ?case by (auto simp: Itoa_nat.simps [of m] split: if_splits)
qed

lemma ParseIP_scan_skip:
  "(\<And>c. c \<in> set xs \<Longrightarrow> digit_val c \<noteq> None) \<Longrightarrow> ParseIP_scan w (xs @ ys) = ParseIP_scan w ys"
proof (induction xs)
  case (Cons c cs)
  have "digit_val c \<noteq> None" using Cons.prems by simp
  then have "c \<noteq> CHR ''.''" "c \<noteq> CHR '':''" "c \<noteq> CHR ''%''"
    by (auto simp: digit_val_def Let_def)
  with Cons show ?case by simp
qed simp

lemma ParseIP_scan_digits:
  "ParseIP_scan w (Itoa_nat n @ CHR ''.'' # cs) = ParseIP_scan w (CHR ''.'' # cs)"
  by (rule ParseIP_scan_skip) (rule Itoa_nat_digits)

text \<open>Printing a four-byte address and parsing it again gives the address back.\<close>

lemma ParseIP4_dotted: "length v = 4 \<Longrightarrow> ParseIP4 (dotted v) = Some v"
proof -
  assume "length v = 4"
  then obtain a b c d where v: "v = [a, b, c, d]"
    by (auto simp: numeral_eq_Suc length_Suc_conv)
  have "parseIPv4Fields (dotted v) True 0 0 [] = Some v"
    by (simp add: dotted_def v parseIPv4Fields_octet unat_byte
        parseIPv4Fields_octet [where cs = "[]", simplified])
  then have "ParseIP (dotted v) = v4InV6Prefix @ v"
    by (simp add: ParseIP_def v ParseIP_scan_digits unat_byte dotted_def)
  then show ?thesis by (simp add: ParseIP4_def To4_def v v4InV6Prefix_def)
qed

text \<open>
  \<^verbatim>\<open>net.IP.String\<close>: dotted for an IPv4 address in either form, otherwise the groups in hexadecimal
  with the first longest run of at least two zero groups elided, as \<^verbatim>\<open>netip.Addr.appendTo6\<close> prints it.
\<close>

fun hex_nat :: "nat \<Rightarrow> string" where
  "hex_nat n = (if n < 16 then [''0123456789abcdef'' ! n] else hex_nat (n div 16) @ [''0123456789abcdef'' ! (n mod 16)])"

declare hex_nat.simps [simp del]

definition hex_bytes :: "bytes \<Rightarrow> string" where
  "hex_bytes b = concat (map (\<lambda>x. [''0123456789abcdef'' ! (unat x div 16), ''0123456789abcdef'' ! (unat x mod 16)]) b)"

definition group16 :: "bytes \<Rightarrow> nat \<Rightarrow> nat" where
  "group16 ip i = 256 * unat (ip ! (2 * i)) + unat (ip ! (2 * i + 1))"

definition zero_run :: "bytes \<Rightarrow> nat \<Rightarrow> nat" where
  "zero_run ip i = length (takeWhile (\<lambda>j. group16 ip j = 0) [i ..< 8])"

definition elided :: "bytes \<Rightarrow> nat \<times> nat" where
  "elided ip = fold (\<lambda>i (s, l). if zero_run ip i \<ge> 2 \<and> zero_run ip i > l then (i, zero_run ip i) else (s, l)) [0 ..< 8] (255, 0)"

definition groups_text :: "bytes \<Rightarrow> nat \<Rightarrow> nat \<Rightarrow> string" where
  "groups_text ip s l =
     concat (map (\<lambda>i. if i = s then (if s + l \<ge> 8 then ''::'' else [])
                      else if s < i \<and> i < s + l then []
                      else (if l > 0 \<and> i = s + l then ''::'' else if i > 0 then '':'' else []) @ hex_nat (group16 ip i))
       [0 ..< 8])"

definition IP_String :: "bytes \<Rightarrow> string" where
  "IP_String ip =
     (if length ip = 0 then ''<nil>''
      else if length ip \<noteq> 4 \<and> length ip \<noteq> 16 then ''?'' @ hex_bytes ip
      else case To4 ip of Some v \<Rightarrow> dotted v | None \<Rightarrow> (let (s, l) = elided ip in groups_text ip s l))"

lemma IP_String_IPv4 [simp]: "IP_String (IPv4 a b c d) = dotted [a, b, c, d]"
  by (simp add: IP_String_def) (simp add: IPv4_def v4InV6Prefix_def)

lemma dotted_inject: "length u = 4 \<Longrightarrow> length v = 4 \<Longrightarrow> dotted u = dotted v \<longleftrightarrow> u = v"
  using ParseIP4_dotted by (metis option.inject)

lemma dotted_chars: "c \<in> set (dotted v) \<Longrightarrow> digit_val c \<noteq> None \<or> c = CHR ''.''"
  by (auto simp: dotted_def dest: Itoa_nat_digits split: list.splits)

end
