(* ===== verification/PushReply.thy ===== *)
theory PushReply
  imports KeyMethod Go_Net Go_Sort
begin

text \<open>
  The configuration a server pushes (\<^verbatim>\<open>pushprobe.go\<close> and \<^verbatim>\<open>parsePushedSession\<close> of \<^verbatim>\<open>dataprobe.go\<close>):
  reading NUL-terminated control messages, collecting the parts of a PUSH_REPLY, splitting them
  into options, and extracting the session parameters.  A reader is the list of bytes it still
  delivers; \<open>endErr\<close> is the error it returns once they are used up.
\<close>

section \<open>Control messages\<close>

fun readNUL_loop :: "go_error \<Rightarrow> nat \<Rightarrow> string \<Rightarrow> bytes \<Rightarrow> (string \<times> bytes) result" where
  "readNUL_loop endErr maxLen b r =
     (if length b \<le> maxLen then
        (case r of
           [] \<Rightarrow> Error endErr
         | c # r' \<Rightarrow>
             (if c = 0 then Ok (b, r')
              else readNUL_loop endErr maxLen (b @ string_of_bytes [c]) r'))
      else Error (Errorf ''control message exceeded %d bytes'' [ArgN maxLen]))"

declare readNUL_loop.simps [simp del]

definition readNULControlMessage :: "go_error \<Rightarrow> bytes \<Rightarrow> nat \<Rightarrow> (string \<times> bytes) result" where
  "readNULControlMessage endErr r maxLen = readNUL_loop endErr maxLen '''' r"

text \<open>\<open>n\<close> iterations of the loop are left; \<open>parts\<close> are the PUSH_REPLY messages seen so far.\<close>

primrec readPush_loop ::
  "go_error \<Rightarrow> nat \<Rightarrow> string list \<Rightarrow> bytes \<Rightarrow> (string list \<times> bytes) result" where
  "readPush_loop endErr 0 parts r = Error (ErrorsNew ''too many control messages before PUSH_REPLY'')"
| "readPush_loop endErr (Suc n) parts r =
     then_do (readNULControlMessage endErr r (256 * 1024)) (\<lambda>(msg, r).
     if HasPrefix msg ''AUTH_FAILED'' then
       Error (Errorf ''server authentication failed: %s'' [ArgS (sanitizeOneLine msg 220)])
     else if HasPrefix msg ''RESTART'' \<or> HasPrefix msg ''HALT'' then
       Error (Errorf ''server requested %s'' [ArgS (sanitizeOneLine msg 220)])
     else if HasPrefix msg ''PUSH_REPLY'' then
       (if Contains msg '',push-continuation 2'' then readPush_loop endErr n (parts @ [msg]) r
        else Ok (parts @ [msg], r))
     else readPush_loop endErr n parts r)"

definition readPushReply :: "go_error \<Rightarrow> bytes \<Rightarrow> (string list \<times> bytes) result" where
  "readPushReply endErr r = readPush_loop endErr 16 [] r"

section \<open>Options\<close>

definition flattenMessage :: "string \<Rightarrow> string list" where
  "flattenMessage msg =
     (let body = TrimPrefix (TrimPrefix msg ''PUSH_REPLY'') '','' in
      filter (\<lambda>item. \<not> (item = '''' \<or> HasPrefix item ''push-continuation ''))
        (map TrimSpace (Split_char body (CHR '',''))))"

definition flattenPushOptions :: "string list \<Rightarrow> string list" where
  "flattenPushOptions messages = concat (map flattenMessage messages)"

primrec findPushOption :: "string list \<Rightarrow> string \<Rightarrow> string" where
  "findPushOption [] name = ''''"
| "findPushOption (opt # opts) name =
     (if opt = name then ''''
      else if HasPrefix opt (name @ '' '') then TrimSpace (TrimPrefix opt (name @ '' ''))
      else findPushOption opts name)"

text \<open>
  \<^verbatim>\<open>summarizePushOptions\<close> as the list of lines it prints.  The map \<^verbatim>\<open>categories\<close> is only read back
  through its sorted keys, so the order Go iterates a map in does not matter.
\<close>

definition string_less :: "string \<Rightarrow> string \<Rightarrow> bool" where
  "string_less a b \<longleftrightarrow> lexordp (\<lambda>x y. (of_char x :: nat) < of_char y) a b"

definition summary_line :: "string \<Rightarrow> string \<Rightarrow> string list" where
  "summary_line label value = (if value \<noteq> '''' then [label @ value] else [])"

definition option_class :: "string \<Rightarrow> string list" where
  "option_class opt = take 1 (Fields opt)"

definition summarizePushOptions :: "string list \<Rightarrow> string list" where
  "summarizePushOptions opts =
     (let classes = concat (map option_class opts);
          routes = length (filter (\<lambda>c. c = ''route'' \<or> c = ''route-ipv6'') classes);
          dns = length (filter (\<lambda>c. c = ''dhcp-option'' \<or> c = ''dns'') classes);
          keys = SliceStable string_less (remdups classes);
          compact = map (\<lambda>k. k @ ''='' @ Itoa_nat (length (filter ((=) k) classes))) keys
      in summary_line ''IPv4 assignment:  '' (findPushOption opts ''ifconfig'')
         @ summary_line ''IPv6 assignment:  '' (findPushOption opts ''ifconfig-ipv6'')
         @ summary_line ''Peer ID:          '' (findPushOption opts ''peer-id'')
         @ summary_line ''Cipher selected:  '' (findPushOption opts ''cipher'')
         @ summary_line ''TUN MTU:          '' (findPushOption opts ''tun-mtu'')
         @ summary_line ''Topology:         '' (findPushOption opts ''topology'')
         @ [''Pushed options:   '' @ Itoa_nat (length opts) @ '' ('' @ Itoa_nat routes
              @ '' route-related, '' @ Itoa_nat dns @ '' DNS-related)'',
            ''Option classes:   '' @ (case compact of [] \<Rightarrow> '''' | k # ks \<Rightarrow>
              k @ concat (map (\<lambda>x. '', '' @ x) ks))])"

section \<open>The pushed session\<close>

record pushedSession =
  psIPv4 :: "bytes option"
  psNetmask :: "bytes option"
  psDNS :: "bytes option"
  psPeerID :: u32
  psCipher :: string

definition dnsOption :: "string \<Rightarrow> bytes option" where
  "dnsOption opt =
     (let f = Fields opt in
      if length f \<ge> 3 \<and> f ! 0 = ''dhcp-option'' \<and> EqualFold (f ! 1) ''DNS'' then ParseIP4 (f ! 2)
      else None)"

primrec firstDNS :: "string list \<Rightarrow> bytes option" where
  "firstDNS [] = None"
| "firstDNS (opt # opts) =
     (case dnsOption opt of None \<Rightarrow> firstDNS opts | Some ip \<Rightarrow> Some ip)"

definition parsePushedSession :: "string list \<Rightarrow> pushedSession result" where
  "parsePushedSession opts =
     (let ifcfg = Fields (findPushOption opts ''ifconfig'');
          two = length ifcfg \<ge> 2;
          s = \<lparr>psIPv4 = (if two then ParseIP4 (ifcfg ! 0) else None),
               psNetmask = (if two then ParseIP4 (ifcfg ! 1) else None),
               psDNS = firstDNS opts, psPeerID = 0, psCipher = ''''\<rparr>;
          peer = findPushOption opts ''peer-id'' in
      then_do
        (if peer \<noteq> '''' then
           then_do (on_error (ParseUint (TrimSpace peer) 24) (\<lambda>e. Wrapf ''peer-id: %w'' e)) (\<lambda>v.
           Ok (s\<lparr>psPeerID := of_nat v\<rparr>))
         else Ok s) (\<lambda>s.
      let s = s\<lparr>psCipher := findPushOption opts ''cipher''\<rparr> in
      if psIPv4 s = None then Error (ErrorsNew ''PUSH_REPLY has no usable IPv4 ifconfig'')
      else if psDNS s = None then Error (ErrorsNew ''PUSH_REPLY has no IPv4 DNS server'')
      else if peer = '''' then Error (ErrorsNew ''PUSH_REPLY has no peer-id'')
      else if psCipher s \<noteq> ''AES-256-GCM'' then
        Error (Errorf ''unsupported negotiated cipher %q'' [ArgS (psCipher s)])
      else Ok s))"

section \<open>Reading messages\<close>

definition nul_message :: "string \<Rightarrow> bytes" where
  "nul_message s = bytes_of_string s @ [0]"

lemma of_char_eq_0_iff [simp]: "(of_char c :: byte) = 0 \<longleftrightarrow> c = CHR 0x00"
proof
  assume "(of_char c :: byte) = 0"
  then have "char_of (unat (of_char c :: byte)) = char_of (unat (0 :: byte))" by (rule arg_cong)
  moreover have "char_of (0 :: nat) = CHR 0x00" by (simp add: char_of_def)
  ultimately show "c = CHR 0x00" by (simp only: char_of_byte_of_char unat_0)
qed simp

lemma string_of_one [simp]: "string_of_bytes [of_char c] = [c]"
  using string_of_bytes_of_string [of "[c]"] by (simp add: bytes_of_string_def)

lemma readNUL_loop_message:
  "CHR 0x00 \<notin> set s \<Longrightarrow> length b + length s \<le> m \<Longrightarrow>
   readNUL_loop e m b (nul_message s @ r) = Ok (b @ s, r)"
proof (induction s arbitrary: b)
  case Nil
  then show ?case by (simp add: readNUL_loop.simps nul_message_def bytes_of_string_def)
next
  case (Cons c s)
  then show ?case
    using Cons.IH [of "b @ [c]"]
    by (subst readNUL_loop.simps) (auto simp: nul_message_def bytes_of_string_def)
qed

lemma read_nul_message:
  "CHR 0x00 \<notin> set s \<Longrightarrow> length s \<le> m \<Longrightarrow> readNULControlMessage e (nul_message s @ r) m = Ok (s, r)"
  by (simp add: readNULControlMessage_def readNUL_loop_message)

lemma readNUL_loop_total: "no_panic (readNUL_loop e m b r)"
  by (induction r arbitrary: b; subst readNUL_loop.simps) auto

lemma readPush_loop_total: "no_panic (readPush_loop e n parts r)"
  by (induction n arbitrary: parts r)
    (auto simp: readNULControlMessage_def readNUL_loop_total split: prod.split intro!: no_panic_then_do)

text \<open>The message classes of the switch in \<^verbatim>\<open>readPushReply\<close>.\<close>

definition fatal_message :: "string \<Rightarrow> bool" where
  "fatal_message m \<longleftrightarrow> HasPrefix m ''AUTH_FAILED'' \<or> HasPrefix m ''RESTART'' \<or> HasPrefix m ''HALT''"

definition push_message :: "string \<Rightarrow> bool" where
  "push_message m \<longleftrightarrow> HasPrefix m ''PUSH_REPLY''"

definition final_push :: "string \<Rightarrow> bool" where
  "final_push m \<longleftrightarrow> push_message m \<and> \<not> Contains m '',push-continuation 2''"

definition sendable :: "string \<Rightarrow> bool" where
  "sendable m \<longleftrightarrow> CHR 0x00 \<notin> set m \<and> length m \<le> 256 * 1024"

lemma push_not_fatal: "push_message m \<Longrightarrow> \<not> fatal_message m"
  by (cases m) (auto simp: push_message_def fatal_message_def HasPrefix_def)

lemma readPush_loop_messages:
  "\<forall>m \<in> set ms. sendable m \<and> \<not> fatal_message m \<and> \<not> final_push m \<Longrightarrow> sendable final \<Longrightarrow> final_push final \<Longrightarrow>
   length ms < n \<Longrightarrow>
   readPush_loop e n parts (concat (map nul_message (ms @ [final])) @ rest) =
     Ok (parts @ filter push_message ms @ [final], rest)"
proof (induction ms arbitrary: n parts)
  case Nil
  then obtain k where "n = Suc k" by (cases n) auto
  with Nil push_not_fatal [of final] show ?case
    by (simp add: read_nul_message sendable_def final_push_def fatal_message_def push_message_def)
next
  case (Cons m ms)
  then obtain k where n: "n = Suc k" by (cases n) auto
  have "readNULControlMessage e (nul_message m @ r) (256 * 1024) = Ok (m, r)" for r
    using Cons.prems(1) by (intro read_nul_message) (auto simp: sendable_def)
  then show ?case
    using Cons.prems Cons.IH [of k parts] Cons.IH [of k "parts @ [m]"]
    by (simp add: n fatal_message_def final_push_def push_message_def)
qed

section \<open>A pushed configuration on the wire\<close>

definition option_ok :: "string \<Rightarrow> bool" where
  "option_ok opt \<longleftrightarrow> opt \<noteq> [] \<and> plain_char (hd opt) \<and> plain_char (last opt)
     \<and> CHR '','' \<notin> set opt \<and> CHR 0x00 \<notin> set opt"

definition marker :: "string \<Rightarrow> bool" where
  "marker opt \<longleftrightarrow> HasPrefix opt ''push-continuation ''"

definition render_push :: "string list \<Rightarrow> string" where
  "render_push opts = ''PUSH_REPLY'' @ concat (map (\<lambda>v. CHR '','' # v) opts)"

text \<open>The messages of a reply split into chunks; \<open>mark\<close> is what ends the last of them.\<close>

fun push_messages :: "string list \<Rightarrow> string list list \<Rightarrow> string list" where
  "push_messages mark [] = []"
| "push_messages mark [c] = [render_push (c @ mark)]"
| "push_messages mark (c # cs) = render_push (c @ [''push-continuation 2'']) # push_messages mark cs"

lemma flatten_render:
  assumes "\<forall>opt \<in> set opts. option_ok opt"
  shows "flattenMessage (render_push opts) = filter (\<lambda>opt. \<not> marker opt) opts"
proof (cases opts)
  case Nil
  have "TrimSpace [] = []" by (simp add: TrimSpace_def TrimLeftSpace.simps TrimRightSpace.simps)
  with Nil show ?thesis
    by (simp add: flattenMessage_def render_push_def TrimPrefix_def HasPrefix_def)
next
  case (Cons opt os)
  have "map TrimSpace opts = opts"
    using assms by (intro map_idI) (auto simp: option_ok_def TrimSpace_plain_ends)
  moreover have "Split_char (opt @ concat (map (\<lambda>v. CHR '','' # v) os)) (CHR '','') = opts"
    using assms Cons by (simp add: Split_char_join option_ok_def)
  moreover have "TrimPrefix (TrimPrefix (render_push opts) ''PUSH_REPLY'') '',''
      = opt @ concat (map (\<lambda>v. CHR '','' # v) os)"
    using Cons by (simp add: render_push_def TrimPrefix_def HasPrefix_def)
  ultimately show ?thesis
    using assms by (simp add: flattenMessage_def Let_def marker_def option_ok_def cong: filter_cong)
qed

lemma HasPrefix_weaken: "HasPrefix s (p @ q) \<Longrightarrow> HasPrefix s p"
  by (metis HasPrefix_def append_eq_conv_conj append_take_drop_id append.assoc)

lemma HasPrefix_before: "HasPrefix (s @ c # r) x \<Longrightarrow> c \<notin> set x \<Longrightarrow> HasPrefix s x"
  by (cases "length x \<le> length s")
    (auto simp: HasPrefix_def take_Cons' split: if_splits, metis in_set_conv_decomp)

lemma Contains_free: "c \<notin> set s \<Longrightarrow> Contains (s @ r) (c # x) = Contains r (c # x)"
  by (induction s) (auto simp: HasPrefix_def)

lemma Contains_options:
  assumes "\<forall>v \<in> set opts. CHR '','' \<notin> set v \<and> \<not> HasPrefix v x" "CHR '','' \<notin> set x"
  shows "\<not> Contains (concat (map (\<lambda>v. CHR '','' # v) opts)) (CHR '','' # x)"
  using assms
proof (induction opts)
  case (Cons v opts)
  have "\<not> HasPrefix (v @ concat (map (\<lambda>v. CHR '','' # v) opts)) x"
    using Cons.prems HasPrefix_before [of v "CHR '',''" _ x] by (cases opts) auto
  with Cons show ?case by (auto simp: Contains_free HasPrefix_def)
qed simp

lemma Contains_middle: "Contains (a @ x @ b) x"
proof (induction a)
  case Nil
  have "HasPrefix (x @ b) x" by (simp add: HasPrefix_def)
  then show ?case by (cases "x @ b") (simp_all only: Contains.simps append_Nil append_is_Nil_conv simp_thms)
next
  case (Cons c a)
  then show ?case by simp
qed

lemma render_final:
  assumes "\<forall>opt \<in> set opts. option_ok opt \<and> \<not> HasPrefix opt ''push-continuation 2''"
  shows "final_push (render_push opts)"
proof -
  have "\<not> Contains (concat (map (\<lambda>v. CHR '','' # v) opts)) (CHR '','' # ''push-continuation 2'')"
    using assms by (intro Contains_options) (auto simp: option_ok_def)
  then show ?thesis
    using Contains_free [of "CHR '',''" "''PUSH_REPLY''" _ "''push-continuation 2''"]
    by (simp add: final_push_def push_message_def render_push_def HasPrefix_def)
qed

lemma render_continued:
  "push_message (render_push opts)"
  "Contains (render_push (opts @ [''push-continuation 2''])) '',push-continuation 2''"
  using Contains_middle [of "''PUSH_REPLY'' @ concat (map (\<lambda>v. CHR '','' # v) opts)" "'',push-continuation 2''" "[]"]
  by (simp_all add: push_message_def render_push_def HasPrefix_def)

lemma render_sendable:
  "\<forall>opt \<in> set opts. option_ok opt \<Longrightarrow> CHR 0x00 \<notin> set (render_push opts)"
  by (auto simp: render_push_def option_ok_def)

lemma marker_2: "option_ok ''push-continuation 2''" "marker ''push-continuation 2''"
  by (simp_all add: option_ok_def marker_def HasPrefix_def plain_char_def)

lemma push_messages_shape:
  assumes "cs \<noteq> []" "\<forall>c \<in> set cs. \<forall>opt \<in> set c. option_ok opt \<and> \<not> marker opt"
    "mark = [] \<or> mark = [''push-continuation 1'']"
  shows "\<exists>ms final. push_messages mark cs = ms @ [final] \<and> final_push final
    \<and> (\<forall>m \<in> set ms. push_message m \<and> \<not> final_push m)
    \<and> (\<forall>m \<in> set (ms @ [final]). CHR 0x00 \<notin> set m)
    \<and> length ms + 1 = length cs \<and> flattenPushOptions (ms @ [final]) = concat cs"
  using assms
proof (induction cs rule: list_nonempty_induct)
  case (single c)
  have m: "\<forall>opt \<in> set (c @ mark). option_ok opt"
    using single by (auto simp: option_ok_def plain_char_def)
  have "\<forall>opt \<in> set (c @ mark). \<not> HasPrefix opt ''push-continuation 2''"
  proof
    fix opt assume "opt \<in> set (c @ mark)"
    then have "\<not> marker opt \<or> opt = ''push-continuation 1''" using single by auto
    then show "\<not> HasPrefix opt ''push-continuation 2''"
      using HasPrefix_weaken [of opt "''push-continuation ''" "''2''"]
      by (auto simp: marker_def HasPrefix_def)
  qed
  then have "final_push (render_push (c @ mark))" using m by (intro render_final) auto
  moreover have "filter (\<lambda>opt. \<not> marker opt) (c @ mark) = c"
    using single by (auto simp: filter_id_conv marker_def HasPrefix_def)
  ultimately show ?case
    using flatten_render [OF m] render_sendable [OF m]
    by (intro exI [of _ "[]"] exI [of _ "render_push (c @ mark)"]) (simp add: flattenPushOptions_def)
next
  case (cons c cs)
  let ?m = "render_push (c @ [''push-continuation 2''])"
  obtain ms final where IH: "push_messages mark cs = ms @ [final]" "final_push final"
    "\<forall>m \<in> set ms. push_message m \<and> \<not> final_push m" "\<forall>m \<in> set (ms @ [final]). CHR 0x00 \<notin> set m"
    "length ms + 1 = length cs" "flattenPushOptions (ms @ [final]) = concat cs"
    using cons by auto
  have ok: "\<forall>opt \<in> set (c @ [''push-continuation 2'']). option_ok opt"
    using cons.prems marker_2 by auto
  have "filter (\<lambda>opt. \<not> marker opt) (c @ [''push-continuation 2'']) = c"
    using cons.prems marker_2 by (auto simp: filter_id_conv)
  then have "flattenMessage ?m = c" using flatten_render [OF ok] by simp
  moreover have "push_message ?m \<and> \<not> final_push ?m" using render_continued by (auto simp: final_push_def)
  moreover have "push_messages mark (c # cs) = ?m # push_messages mark cs"
    using cons.hyps by (cases cs) auto
  ultimately show ?case
    using IH render_sendable [OF ok]
    by (intro exI [of _ "?m # ms"] exI [of _ final]) (auto simp: flattenPushOptions_def)
qed

section \<open>The session parameters\<close>

definition other_option :: "string \<Rightarrow> bool" where
  "other_option opt \<longleftrightarrow> (\<forall>name \<in> {''ifconfig'', ''peer-id'', ''cipher''}.
     opt \<noteq> name \<and> \<not> HasPrefix opt (name @ '' '')) \<and> dnsOption opt = None"

lemma find_skip:
  "\<forall>opt \<in> set pre. opt \<noteq> name \<and> \<not> HasPrefix opt (name @ '' '') \<Longrightarrow>
   findPushOption (pre @ opts) name = findPushOption opts name"
  by (induction pre) auto

lemma firstDNS_skip:
  "\<forall>opt \<in> set pre. dnsOption opt = None \<Longrightarrow> firstDNS (pre @ opts) = firstDNS opts"
  by (induction pre) auto

lemma find_here:
  assumes "v \<noteq> []" "plain_char (hd v)" "plain_char (last v)"
  shows "findPushOption ((name @ '' '' @ v) # opts) name = v"
proof -
  have "name @ '' '' @ v \<noteq> name" by simp
  then show ?thesis
    using TrimSpace_plain_ends [OF assms] by (simp add: TrimPrefix_def HasPrefix_def)
qed

lemma plain_append [simp]: "plain v \<Longrightarrow> plain w \<Longrightarrow> plain (v @ w)"
  by (auto simp: plain_def)

lemma plain_ends: "plain v \<Longrightarrow> v \<noteq> [] \<and> plain_char (hd v) \<and> plain_char (last v)"
  by (auto simp: plain_def)

lemma plain_Itoa: "plain (Itoa_nat n)"
proof -
  have "plain_char c" if "digit_val c \<noteq> None" for c
    using that by (auto simp: digit_val_def plain_char_def Let_def split: if_splits)
  then show ?thesis using Itoa_nat_digits by (auto simp: plain_def)
qed

lemma plain_dotted: "length v = 4 \<Longrightarrow> plain (dotted v)"
  using plain_Itoa by (auto simp: dotted_def numeral_eq_Suc length_Suc_conv plain_def plain_char_def)

lemma parsePushedSession_Ok:
  assumes "parsePushedSession opts = Ok s"
  shows "\<exists>ip dns. psIPv4 s = Some ip \<and> psDNS s = Some dns \<and> length ip = 4 \<and> length dns = 4
    \<and> psPeerID s < 2 ^ 24 \<and> psCipher s = ''AES-256-GCM''
    \<and> (\<forall>m. psNetmask s = Some m \<longrightarrow> length m = 4)"
proof -
  have dns: "firstDNS os = Some d \<Longrightarrow> length d = 4" for os d
    by (induction os)
      (auto simp: dnsOption_def Let_def split: option.splits if_splits dest: ParseIP4_length)
  have peer: "(of_nat v :: u32) < 2 ^ 24" if "ParseUint p 24 = Ok v" for p v
    using ParseUint_bound [OF that] by (simp add: word_less_nat_alt unat_of_nat)
  show ?thesis
    using assms unfolding parsePushedSession_def Let_def
    by (auto simp: then_do_Ok_iff split: if_splits dest!: ParseIP4_length dns peer)
qed

section \<open>Properties\<close>

lemma read_pushed:
  assumes "cs \<noteq> []" "length cs \<le> 16"
    and "\<forall>c \<in> set cs. \<forall>opt \<in> set c. option_ok opt \<and> \<not> marker opt"
    and "mark = [] \<or> mark = [''push-continuation 1'']"
    and "\<forall>m \<in> set (push_messages mark cs). length m \<le> 256 * 1024"
  shows "\<exists>parts. readPushReply e (concat (map nul_message (push_messages mark cs)) @ rest) = Ok (parts, rest)
    \<and> flattenPushOptions parts = concat cs"
proof -
  obtain ms final where s: "push_messages mark cs = ms @ [final]" "final_push final"
    "\<forall>m \<in> set ms. push_message m \<and> \<not> final_push m" "\<forall>m \<in> set (ms @ [final]). CHR 0x00 \<notin> set m"
    "length ms + 1 = length cs" "flattenPushOptions (ms @ [final]) = concat cs"
    using push_messages_shape [OF assms(1,3,4)] by blast
  have send: "\<forall>m \<in> set (ms @ [final]). sendable m" using s(1,4) assms(5) by (auto simp: sendable_def)
  have "readPushReply e (concat (map nul_message (ms @ [final])) @ rest) = Ok ([] @ filter push_message ms @ [final], rest)"
    unfolding readPushReply_def
    using send s(2,3,5) assms(2) push_not_fatal by (intro readPush_loop_messages) auto
  moreover have "filter push_message ms = ms" using s(3) by (auto simp: filter_id_conv)
  ultimately show ?thesis using s(1,6) by auto
qed

text \<open>
  A configuration a server pushes in any number of chunks up to 16 (every message but the last
  marked as continued) is read back by \<^verbatim>\<open>readPushReply\<close> and \<^verbatim>\<open>flattenPushOptions\<close> as exactly the options
  pushed, in order, with the bytes after the last message left on the stream; and reading panics
  on no input.
\<close>

theorem push_reply_roundtrip:
  assumes "cs \<noteq> []" "length cs \<le> 16"
    and "\<forall>c \<in> set cs. \<forall>opt \<in> set c. option_ok opt \<and> \<not> marker opt"
    and "mark = [] \<or> mark = [''push-continuation 1'']"
    and "\<forall>m \<in> set (push_messages mark cs). length m \<le> 256 * 1024"
  shows "\<exists>parts. readPushReply e (concat (map nul_message (push_messages mark cs)) @ rest) = Ok (parts, rest)
    \<and> flattenPushOptions parts = concat cs"
  using assms by (rule read_pushed)

theorem push_reply_roundtrip_witness:
  "\<exists>parts. readPushReply EOF (concat (map nul_message
      (push_messages [] [[''peer-id 7'', ''cipher AES-256-GCM''], [''tun-mtu 1500'']])) @ [9]) = Ok (parts, [9])
    \<and> flattenPushOptions parts = [''peer-id 7'', ''cipher AES-256-GCM'', ''tun-mtu 1500'']"
  using push_reply_roundtrip [of "[[''peer-id 7'', ''cipher AES-256-GCM''], [''tun-mtu 1500'']]" "[]" EOF "[9]"]
  by (simp add: option_ok_def marker_def plain_char_def HasPrefix_def render_push_def)

lemma parse_pushed:
  assumes "length ip = 4" "length netmask = 4" "length dns = 4" "peer < 2 ^ 24"
    and "\<forall>opt \<in> set pre. other_option opt"
  shows "parsePushedSession (pre @ [''ifconfig '' @ dotted ip @ '' '' @ dotted netmask,
      ''dhcp-option DNS '' @ dotted dns, ''peer-id '' @ Itoa_nat peer, ''cipher AES-256-GCM'']) =
    Ok \<lparr>psIPv4 = Some ip, psNetmask = Some netmask, psDNS = Some dns, psPeerID = of_nat peer,
       psCipher = ''AES-256-GCM''\<rparr>"
proof -
  let ?cfg = "dotted ip @ '' '' @ dotted netmask"
  let ?opts = "[''ifconfig '' @ ?cfg, ''dhcp-option DNS '' @ dotted dns, ''peer-id '' @ Itoa_nat peer,
      ''cipher AES-256-GCM'']"
  note pl = plain_dotted [OF assms(1)] plain_dotted [OF assms(2)] plain_dotted [OF assms(3)] plain_Itoa [of peer]
  have skip: "findPushOption (pre @ ?opts) name = findPushOption ?opts name"
    if "name \<in> {''ifconfig'', ''peer-id'', ''cipher''}" for name
    by (rule find_skip) (use assms(5) that in \<open>unfold other_option_def, blast\<close>)
  have ifc: "findPushOption (pre @ ?opts) ''ifconfig'' = ?cfg"
    using find_here [of ?cfg "''ifconfig''"] plain_ends [OF pl(1)] plain_ends [OF pl(2)] skip by simp
  have peer: "findPushOption (pre @ ?opts) ''peer-id'' = Itoa_nat peer"
    using find_here [of "Itoa_nat peer" "''peer-id''"] plain_ends [OF pl(4)] skip
    by (simp add: HasPrefix_def)
  have ciph: "findPushOption (pre @ ?opts) ''cipher'' = ''AES-256-GCM''"
    using find_here [of "''AES-256-GCM''" "''cipher''" "[]"] skip
    by (simp add: HasPrefix_def plain_char_def)
  have cfg: "Fields ?cfg = [dotted ip, dotted netmask]"
    using Fields_unwords [of "[dotted ip, dotted netmask]"] pl by simp
  have "Fields (''dhcp-option DNS '' @ dotted dns) = [''dhcp-option'', ''DNS'', dotted dns]"
    using Fields_unwords [of "[''dhcp-option'', ''DNS'', dotted dns]"] pl by (simp add: plain_def plain_char_def)
  then have dns: "dnsOption (''dhcp-option DNS '' @ dotted dns) = Some dns"
    unfolding dnsOption_def Let_def using ParseIP4_dotted [OF assms(3)] by (simp add: EqualFold_def)
  have "dnsOption (''ifconfig '' @ ?cfg) = None"
    using Fields_unwords [of "[''ifconfig'', dotted ip, dotted netmask]"] pl
    by (simp add: dnsOption_def plain_def plain_char_def)
  then have "firstDNS ?opts = Some dns" using dns by (simp only: firstDNS.simps option.case)
  moreover have "firstDNS (pre @ ?opts) = firstDNS ?opts"
    by (rule firstDNS_skip) (use assms(5) in \<open>unfold other_option_def, blast\<close>)
  ultimately have dnsr: "firstDNS (pre @ ?opts) = Some dns" by simp
  have "ParseUint (TrimSpace (Itoa_nat peer)) 24 = Ok peer" "Itoa_nat peer \<noteq> []"
    using TrimSpace_plain_ends plain_ends [OF pl(4)] ParseUint_Itoa [OF assms(4)] by simp_all
  then show ?thesis
    using ParseIP4_dotted assms(1,2) unfolding parsePushedSession_def ifc peer ciph dnsr cfg Let_def by simp
qed

text \<open>
  The addresses, peer id and cipher a server pushes in the usual options, with unrelated options
  in front of them, are exactly what \<^verbatim>\<open>parsePushedSession\<close> returns.
\<close>

theorem parsePushedSession_roundtrip:
  assumes "length ip = 4" "length netmask = 4" "length dns = 4" "peer < 2 ^ 24"
    and "\<forall>opt \<in> set pre. other_option opt"
  shows "parsePushedSession (pre @ [''ifconfig '' @ dotted ip @ '' '' @ dotted netmask,
      ''dhcp-option DNS '' @ dotted dns, ''peer-id '' @ Itoa_nat peer, ''cipher AES-256-GCM'']) =
    Ok \<lparr>psIPv4 = Some ip, psNetmask = Some netmask, psDNS = Some dns, psPeerID = of_nat peer,
       psCipher = ''AES-256-GCM''\<rparr>"
  using assms by (rule parse_pushed)

theorem parsePushedSession_roundtrip_witness:
  "parsePushedSession ([''tun-mtu 1500''] @ [''ifconfig '' @ dotted [10, 8, 0, 2] @ '' '' @ dotted [255, 255, 0, 0],
      ''dhcp-option DNS '' @ dotted [10, 8, 0, 1], ''peer-id '' @ Itoa_nat 327, ''cipher AES-256-GCM'']) =
    Ok \<lparr>psIPv4 = Some [10, 8, 0, 2], psNetmask = Some [255, 255, 0, 0], psDNS = Some [10, 8, 0, 1],
       psPeerID = 327, psCipher = ''AES-256-GCM''\<rparr>"
proof -
  have "Fields ''tun-mtu 1500'' = [''tun-mtu'', ''1500'']"
    using Fields_unwords [of "[''tun-mtu'', ''1500'']"] by (simp add: plain_def plain_char_def)
  then have "other_option ''tun-mtu 1500''"
    by (simp add: other_option_def HasPrefix_def dnsOption_def)
  then show ?thesis
    using parsePushedSession_roundtrip [of "[10, 8, 0, 2]" "[255, 255, 0, 0]" "[10, 8, 0, 1]" 327 "[''tun-mtu 1500'']"]
    by simp
qed

text \<open>
  C39. A session \<^verbatim>\<open>parsePushedSession\<close> returns has a 4-byte address and DNS server, a peer id of 24 bits
  and the cipher AES-256-GCM, whatever the server pushed.
\<close>

theorem parsePushedSession_sound:
  "returns_only (\<lambda>s. (\<exists>ip dns. psIPv4 s = Some ip \<and> psDNS s = Some dns \<and> length ip = 4 \<and> length dns = 4)
     \<and> psPeerID s < 2 ^ 24 \<and> psCipher s = ''AES-256-GCM'')
   (parsePushedSession opts)"
  unfolding returns_only_def using parsePushedSession_Ok by fast

end
