(* ===== verification/Inet_Checksum.thy ===== *)
theory Inet_Checksum
  imports Go_Prelude
begin

text \<open>
  The Internet checksum of \<^verbatim>\<open>packetnat.go\<close> (\<open>checksumWords\<close>, \<open>finishChecksum\<close>) and of
  \<^verbatim>\<open>dataprobe.go\<close> (\<open>checksum16\<close>), on 32-bit words with Go's wrap-around.  The lemmas relate
  both to the ones-complement sum over natural numbers, show that the folding loop ends, and
  give the law a checksum field has to obey: a field that holds the finished sum of the data
  with the field zeroed makes the finished sum of the whole data zero.
\<close>

section \<open>The routines\<close>

fun checksumWords :: "bytes \<Rightarrow> u32 \<Rightarrow> u32" where
  "checksumWords (a # b # data) acc = checksumWords data (acc + ucast (word16_be a b))"
| "checksumWords [a] acc = acc + push_bit 8 (ucast a)"
| "checksumWords [] acc = acc"

lemma fold_step_nat: "unat ((s :: u32) AND 0xffff) = unat s mod 65536" "unat (drop_bit 16 s) = unat s div 65536"
proof -
  have "(0xffff :: u32) = mask 16" by (simp add: mask_eq_exp_minus_1)
  then have "s AND 0xffff = take_bit 16 s" by (simp only: take_bit_eq_mask)
  then have "unat (s AND 0xffff) = take_bit 16 (unat s)"
    by (simp only: unsigned_take_bit_eq)
  then show "unat (s AND 0xffff) = unat s mod 65536" by (simp add: take_bit_eq_mod)
  show "unat (drop_bit 16 s) = unat s div 65536" by (simp add: unat_drop_bit)
qed

lemma unat_u32_bound: "unat (s :: u32) < 4294967296"
proof -
  have "unat s < 2 ^ LENGTH(32)" by (rule unsigned_less)
  then show ?thesis by simp
qed

lemma fold_step: "unat ((s AND 0xffff) + drop_bit 16 (s :: u32)) = unat s mod 65536 + unat s div 65536"
proof -
  have "unat s div 65536 < 65536" using unat_u32_bound [of s] by (simp add: less_mult_imp_div_less)
  then show ?thesis by (simp add: unat_word_ariths fold_step_nat)
qed

function fold_carries :: "u32 \<Rightarrow> u32" where
  "fold_carries s = (if drop_bit 16 s \<noteq> 0 then fold_carries ((s AND 0xffff) + drop_bit 16 s) else s)"
  by pat_completeness auto
termination
proof (relation "measure unat")
  fix s :: u32
  assume "drop_bit 16 s \<noteq> 0"
  then have "unat s div 65536 \<noteq> 0" by (simp add: fold_step_nat(2) [symmetric] unat_eq_zero)
  then show "((s AND 0xffff) + drop_bit 16 s, s) \<in> measure unat"
    using mult_div_mod_eq [of 65536 "unat s"] by (simp only: in_measure fold_step)
qed simp

declare fold_carries.simps [simp del]

definition finishChecksum :: "u32 \<Rightarrow> u16" where
  "finishChecksum acc = NOT (ucast (fold_carries acc))"

definition checksum16 :: "bytes \<Rightarrow> u16" where
  "checksum16 b = NOT (ucast (fold_carries (checksumWords b 0)))"

section \<open>Ones-complement arithmetic\<close>

text \<open>The sum of the 16-bit words of the data, an odd last byte counting as the high half.\<close>

fun word_sum :: "bytes \<Rightarrow> nat" where
  "word_sum (a # b # data) = 256 * unat a + unat b + word_sum data"
| "word_sum [a] = 256 * unat a"
| "word_sum [] = 0"

lemma word_sum_append: "even (length xs) \<Longrightarrow> word_sum (xs @ ys) = word_sum xs + word_sum ys"
  by (induction xs rule: word_sum.induct) auto

lemma word_sum_bound: "word_sum xs \<le> 65535 * ((length xs + 1) div 2)"
proof (induction xs rule: word_sum.induct)
  case (1 a b data)
  then show ?case using unat_byte [of a] unat_byte [of b] by simp
next
  case (2 a)
  then show ?case using unat_byte [of a] by simp
qed simp

lemma unat_push8: "unat (push_bit 8 (ucast a :: u32)) = 256 * unat (a :: byte)"
  using unat_byte [of a] by (simp add: push_bit_eq_mult unat_word_ariths)

text \<open>Without overflow, the 32-bit accumulator is the exact sum.\<close>

lemma checksumWords_exact:
  "unat s + word_sum xs < 2 ^ 32 \<Longrightarrow> unat (checksumWords xs s) = unat s + word_sum xs"
proof (induction xs s rule: checksumWords.induct)
  case (1 a b data s)
  have "unat (s + ucast (word16_be a b)) = unat s + (256 * unat a + unat b)"
    using "1.prems" by (simp add: unat_word_ariths unat_word16_be)
  with 1 show ?case by simp
next
  case (2 a s)
  then show ?case by (simp add: unat_word_ariths unat_push8)
qed simp

text \<open>What folding computes: the representative of the sum modulo 65535, with 0 for 0 only.\<close>

lemma fold_carries_spec:
  "unat (fold_carries s) \<le> 65535 \<and> unat (fold_carries s) mod 65535 = unat s mod 65535
   \<and> (unat (fold_carries s) = 0 \<longleftrightarrow> unat s = 0)"
proof (induction s rule: fold_carries.induct)
  case (1 s)
  let ?h = "unat s div 65536" and ?l = "unat s mod 65536"
  show ?case
  proof (cases "drop_bit 16 s = 0")
    case True
    then have "?h = 0" by (simp add: fold_step_nat(2) [symmetric])
    then have "unat s \<le> 65535" by simp
    with True show ?thesis by (simp add: fold_carries.simps [of s])
  next
    case False
    then have h: "?h \<noteq> 0" by (simp add: fold_step_nat(2) [symmetric] unat_eq_zero)
    have "unat s = 65535 * ?h + (?l + ?h)" by simp
    then have "unat s mod 65535 = (?l + ?h) mod 65535" by (metis mod_mult_self4)
    moreover have "unat s \<noteq> 0" "?l + ?h \<noteq> 0" using h by auto
    ultimately show ?thesis
      using False "1.IH" by (simp add: fold_carries.simps [of s] fold_step)
  qed
qed

lemma unat_finishChecksum: "unat (finishChecksum s) = 65535 - unat (fold_carries s)"
proof -
  let ?f = "fold_carries s"
  have f: "unat (ucast ?f :: u16) = unat ?f"
    using fold_carries_spec [of s] by (simp add: unat_ucast_mod)
  have "(NOT (ucast ?f) :: u16) = 65535 - ucast ?f"
    by (simp add: not_eq_complement)
  moreover have "unat ((65535 :: u16) - ucast ?f) = 65535 - unat ?f"
    using fold_carries_spec [of s] f by (simp add: unat_sub word_le_nat_alt)
  ultimately show ?thesis by (simp add: finishChecksum_def)
qed

text \<open>The receiver's test: the finished sum is zero exactly for non-zero multiples of 65535.\<close>

lemma finishChecksum_zero_iff: "finishChecksum s = 0 \<longleftrightarrow> unat s \<noteq> 0 \<and> unat s mod 65535 = 0"
proof -
  have "finishChecksum s = 0 \<longleftrightarrow> unat (finishChecksum s) = 0" by (simp add: unat_eq_zero)
  also have "\<dots> \<longleftrightarrow> unat (fold_carries s) = 65535"
    using fold_carries_spec [of s] by (auto simp: unat_finishChecksum)
  also have "\<dots> \<longleftrightarrow> unat s \<noteq> 0 \<and> unat s mod 65535 = 0"
    using fold_carries_spec [of s] by (cases "unat (fold_carries s) = 65535") (auto simp: mod_eq_0_iff_dvd dvd_imp_le)
  finally show ?thesis .
qed

lemma finishChecksum_complement:
  "(unat s + unat (finishChecksum s)) mod 65535 = 0 \<and> unat s + unat (finishChecksum s) \<noteq> 0"
proof -
  let ?f = "unat (fold_carries s)"
  note f = fold_carries_spec [of s]
  have "(unat s + (65535 - ?f)) mod 65535 = (unat s mod 65535 + (65535 - ?f)) mod 65535"
    by (simp add: mod_add_left_eq)
  also have "\<dots> = (?f mod 65535 + (65535 - ?f)) mod 65535" using f by simp
  also have "\<dots> = (?f + (65535 - ?f)) mod 65535" by (simp add: mod_add_left_eq)
  also have "\<dots> = 0" using f by simp
  finally show ?thesis using f by (auto simp: unat_finishChecksum)
qed

section \<open>The checksum field\<close>

definition set16 :: "bytes \<Rightarrow> nat \<Rightarrow> u16 \<Rightarrow> bytes" where
  "set16 p a v = p[a := ucast (drop_bit 8 v), Suc a := ucast v]"

lemma length_set16 [simp]: "length (set16 p a v) = length p"
  by (simp add: set16_def)

lemma nth_set16: "i \<noteq> a \<Longrightarrow> i \<noteq> Suc a \<Longrightarrow> set16 p a v ! i = p ! i"
  by (simp add: set16_def)

lemma set16_set16 [simp]: "set16 (set16 p a v) a w = set16 p a w"
  by (simp add: set16_def list_update_swap)

lemma set16_split:
  "a + 2 \<le> length p \<Longrightarrow> set16 p a v = take a p @ put16_be v @ drop (a + 2) p"
  by (simp add: set16_def put16_be_def upd_conv_take_nth_drop take_Suc_conv_app_nth
      Cons_nth_drop_Suc [symmetric] list_update_append)

lemma word_sum_put16: "word_sum (put16_be v @ xs) = unat v + word_sum xs"
  by (simp add: put16_be_def) (metis unat_word16_be word16_be_put)

lemma word_sum_set16:
  assumes "even a" "a + 2 \<le> length p"
  shows "word_sum (set16 p a v) = word_sum (set16 p a 0) + unat v"
proof -
  have "even (length (take a p))" using assms by simp
  then show ?thesis
    using assms by (simp add: set16_split word_sum_append word_sum_put16 del: length_take)
qed

text \<open>
  Filling the field with the finished sum of everything else (and an extra addend \<open>s\<close>, the
  pseudo header) makes the receiver's test succeed.
\<close>

lemma checksum_field_valid:
  assumes "even a" "a + 2 \<le> length p" "unat s + 65535 * ((length p + 1) div 2) < 2 ^ 32"
    and v: "v = finishChecksum (checksumWords (set16 p a 0) s)"
  shows "finishChecksum (checksumWords (set16 p a v) s) = 0"
proof -
  have exact: "unat (checksumWords (set16 p a w) s) = unat s + word_sum (set16 p a w)" for w
    using assms(3) word_sum_bound [of "set16 p a w"] by (intro checksumWords_exact) simp
  have "unat (checksumWords (set16 p a v) s) = unat (checksumWords (set16 p a 0) s) + unat v"
    using word_sum_set16 [OF assms(1,2), of v] by (simp add: exact)
  then show ?thesis
    using finishChecksum_complement [of "checksumWords (set16 p a 0) s"]
    by (simp add: finishChecksum_zero_iff v)
qed

text \<open>RFC 768: a computed zero is sent as all ones, which the test accepts as well.\<close>

lemma checksum_field_valid_ones:
  assumes "even a" "a + 2 \<le> length p" "unat s + 65535 * ((length p + 1) div 2) < 2 ^ 32"
    and zero: "finishChecksum (checksumWords (set16 p a 0) s) = 0"
  shows "finishChecksum (checksumWords (set16 p a 0xffff) s) = 0"
proof -
  have exact: "unat (checksumWords (set16 p a w) s) = unat s + word_sum (set16 p a w)" for w
    using assms(3) word_sum_bound [of "set16 p a w"] by (intro checksumWords_exact) simp
  have "unat (checksumWords (set16 p a 0xffff) s) = unat (checksumWords (set16 p a 0) s) + 65535"
    using word_sum_set16 [OF assms(1,2), of "0xffff"] by (simp add: exact)
  with zero show ?thesis by (simp add: finishChecksum_zero_iff)
qed

end
