(* ===== verification/PacketNAT.thy ===== *)
theory PacketNAT
  imports Inet_Checksum Go_Net
begin

text \<open>
  The packet rewriting of \<^verbatim>\<open>packetnat.go\<close>: flow keys, source and destination rewriting with
  checksum repair, and the TCP MSS clamp.  The source writes into the packet and may still
  return an error afterwards, so an operation here returns the packet as it is left behind
  together with the error, and a Go panic is a separate outcome.
\<close>

section \<open>Flow keys\<close>

record ipv4FlowKey =
  fkProtocol :: byte
  LocalIP :: bytes
  RemoteIP :: bytes
  LocalPort :: u16
  RemotePort :: u16

definition ip4Array :: "bytes \<Rightarrow> bytes result" where
  "ip4Array ip = (case To4 ip of None \<Rightarrow> Error (ErrorsNew ''not IPv4'') | Some v \<Rightarrow> Ok v)"

definition ipv4FromArray :: "bytes \<Rightarrow> bytes" where
  "ipv4FromArray a = IPv4 (a ! 0) (a ! 1) (a ! 2) (a ! 3)"

definition ihl_of :: "byte \<Rightarrow> nat" where
  "ihl_of b0 = unat (b0 AND 0x0f) * 4"

definition parseIPv4Flow :: "bytes \<Rightarrow> bool \<Rightarrow> ipv4FlowKey result" where
  "parseIPv4Flow packet outbound =
     (if length packet < 20 then Error (ErrorsNew ''not IPv4'')
      else
        then_do (index_go packet 0) (\<lambda>b0.
        if drop_bit 4 b0 \<noteq> 4 then Error (ErrorsNew ''not IPv4'')
        else
          let ihl = ihl_of b0 in
          if ihl < 20 \<or> length packet < ihl + 4 then Error (ErrorsNew ''short IPv4 packet'')
          else
            then_do (index_go packet 9) (\<lambda>proto.
            if proto \<noteq> 6 \<and> proto \<noteq> 17 then
              Error (Errorf ''unsupported protocol %d'' [ArgN (unat proto)])
            else
              then_do (slice_go packet 12 16) (\<lambda>src.
              then_do (slice_go packet 16 20) (\<lambda>dst.
              then_do (slice_go packet ihl (ihl + 2)) (\<lambda>w1.
              then_do (uint16_be w1) (\<lambda>sp.
              then_do (slice_go packet (ihl + 2) (ihl + 4)) (\<lambda>w2.
              then_do (uint16_be w2) (\<lambda>dp.
              if outbound then
                Ok \<lparr>fkProtocol = proto, LocalIP = src, RemoteIP = dst, LocalPort = sp, RemotePort = dp\<rparr>
              else
                Ok \<lparr>fkProtocol = proto, LocalIP = dst, RemoteIP = src, LocalPort = dp,
                    RemotePort = sp\<rparr>)))))))))"

section \<open>Checksum repair\<close>

text \<open>
  The transport half of \<^verbatim>\<open>recalcIPv4TransportChecksums\<close>, lines 112 to 138: \<^verbatim>\<open>l4\<close> is the
  slice from \<open>ihl\<close> to \<open>totalLen\<close> of the packet and shares its memory, so index \<open>k\<close> of it is index
  \<open>ihl + k\<close> of the packet.
\<close>

definition recalcTransport :: "bytes \<Rightarrow> nat \<Rightarrow> nat \<Rightarrow> byte \<Rightarrow> (bytes \<times> go_error option) result" where
  "recalcTransport p ihl totalLen proto =
     then_do (slice_go p ihl totalLen) (\<lambda>l4.
     if proto = 6 \<and> length l4 < 20 then Ok (p, Some (ErrorsNew ''short TCP packet''))
     else if proto \<noteq> 6 \<and> length l4 < 8 then Ok (p, Some (ErrorsNew ''short UDP packet''))
     else
       let at = ihl + (if proto = 6 then 16 else 6) in
       then_do (set_go p at 0) (\<lambda>p.
       then_do (set_go p (at + 1) 0) (\<lambda>p.
       then_do (slice_go p 12 20) (\<lambda>addrs.
       then_do (slice_go p ihl totalLen) (\<lambda>l4.
       let acc = checksumWords addrs 0;
           acc = acc + ucast proto;
           acc = acc + of_nat (length l4);
           acc = checksumWords l4 acc;
           csum = finishChecksum acc;
           csum = (if proto \<noteq> 6 \<and> csum = 0 then 0xffff else csum)
       in then_do (put16_at p at csum) (\<lambda>p. Ok (p, None)))))))"

definition recalcIPv4TransportChecksums :: "bytes \<Rightarrow> (bytes \<times> go_error option) result" where
  "recalcIPv4TransportChecksums packet =
     (if length packet < 20 then Ok (packet, Some (ErrorsNew ''invalid IPv4 packet''))
      else
        then_do (index_go packet 0) (\<lambda>b0.
        if drop_bit 4 b0 \<noteq> 4 then Ok (packet, Some (ErrorsNew ''invalid IPv4 packet''))
        else
          let ihl = ihl_of b0 in
          if ihl < 20 \<or> length packet < ihl then
            Ok (packet, Some (ErrorsNew ''invalid IPv4 header length''))
          else
            then_do (slice_go packet 2 4) (\<lambda>w.
            then_do (uint16_be w) (\<lambda>t.
            let totalLen = (if unat t = 0 \<or> unat t > length packet then length packet else unat t) in
            then_do (set_go packet 10 0) (\<lambda>p.
            then_do (set_go p 11 0) (\<lambda>p.
            then_do (slice_go p 0 ihl) (\<lambda>hdr.
            then_do (put16_at p 10 (finishChecksum (checksumWords hdr 0))) (\<lambda>p.
            then_do (index_go p 9) (\<lambda>proto.
            if proto \<noteq> 6 \<and> proto \<noteq> 17 then Ok (p, None)
            else recalcTransport p ihl totalLen proto)))))))))"

definition rewriteIPv4Source :: "bytes \<Rightarrow> bytes \<Rightarrow> (bytes \<times> go_error option) result" where
  "rewriteIPv4Source packet ip =
     (case To4 ip of
        None \<Rightarrow> Ok (packet, Some (ErrorsNew ''invalid IPv4 source rewrite''))
      | Some v \<Rightarrow>
          (if length packet < 20 then Ok (packet, Some (ErrorsNew ''invalid IPv4 source rewrite''))
           else
             then_do (index_go packet 0) (\<lambda>b0.
             if drop_bit 4 b0 \<noteq> 4 then
               Ok (packet, Some (ErrorsNew ''invalid IPv4 source rewrite''))
             else recalcIPv4TransportChecksums (copy_at packet 12 v))))"

definition rewriteIPv4Destination :: "bytes \<Rightarrow> bytes \<Rightarrow> (bytes \<times> go_error option) result" where
  "rewriteIPv4Destination packet ip =
     (case To4 ip of
        None \<Rightarrow> Ok (packet, Some (ErrorsNew ''invalid IPv4 destination rewrite''))
      | Some v \<Rightarrow>
          (if length packet < 20 then
             Ok (packet, Some (ErrorsNew ''invalid IPv4 destination rewrite''))
           else
             then_do (index_go packet 0) (\<lambda>b0.
             if drop_bit 4 b0 \<noteq> 4 then
               Ok (packet, Some (ErrorsNew ''invalid IPv4 destination rewrite''))
             else recalcIPv4TransportChecksums (copy_at packet 16 v))))"

section \<open>The MSS clamp\<close>

text \<open>
  The walk over the TCP options: \<open>tcp\<close> starts at index \<open>ihl\<close> of the packet, \<open>i\<close> is the position
  of the option in \<open>tcp\<close>.
\<close>

function clamp_loop ::
  "u16 \<Rightarrow> nat \<Rightarrow> nat \<Rightarrow> nat \<Rightarrow> bytes \<Rightarrow> bool \<Rightarrow> (bytes \<times> bool) result" where
  "clamp_loop maxMSS ihl hdrLen i p changed =
     (if i < hdrLen then
        then_do (index_go p (ihl + i)) (\<lambda>kind.
        if kind = 0 then Ok (p, changed)
        else if kind = 1 then clamp_loop maxMSS ihl hdrLen (i + 1) p changed
        else if i + 1 \<ge> hdrLen then Ok (p, changed)
        else
          then_do (index_go p (ihl + i + 1)) (\<lambda>nb.
          let n = unat nb in
          if n < 2 \<or> i + n > hdrLen then Ok (p, changed)
          else if kind = 2 \<and> n = 4 then
            then_do (slice_go p (ihl + i + 2) (ihl + i + 4)) (\<lambda>w.
            then_do (uint16_be w) (\<lambda>cur.
            if cur > maxMSS then
              then_do (put16_at p (ihl + i + 2) maxMSS) (\<lambda>p.
                clamp_loop maxMSS ihl hdrLen (i + n) p True)
            else clamp_loop maxMSS ihl hdrLen (i + n) p changed))
          else clamp_loop maxMSS ihl hdrLen (i + n) p changed))
      else Ok (p, changed))"
  by pat_completeness auto
termination
  by (relation "measure (\<lambda>(m, ihl, hdrLen, i, p, c). hdrLen - i)") auto

declare clamp_loop.simps [simp del]

definition clampTCPMSS :: "bytes \<Rightarrow> u16 \<Rightarrow> (bytes \<times> bool \<times> go_error option) result" where
  "clampTCPMSS packet maxMSS =
     (if length packet < 20 then Ok (packet, False, None)
      else
        then_do (index_go packet 0) (\<lambda>b0.
        then_do (index_go packet 9) (\<lambda>proto.
        if drop_bit 4 b0 \<noteq> 4 \<or> proto \<noteq> 6 then Ok (packet, False, None)
        else
          let ihl = ihl_of b0 in
          if ihl < 20 \<or> length packet < ihl + 20 then
            Ok (packet, False, Some (ErrorsNew ''short TCP packet''))
          else
            then_do (index_go packet (ihl + 12)) (\<lambda>b12.
            let hdrLen = unat (drop_bit 4 b12) * 4 in
            if hdrLen < 20 \<or> length packet - ihl < hdrLen then
              Ok (packet, False, Some (ErrorsNew ''invalid TCP header length''))
            else
              then_do (index_go packet (ihl + 13)) (\<lambda>b13.
              if b13 AND 0x02 = 0 then Ok (packet, False, None)
              else
                then_do (clamp_loop maxMSS ihl hdrLen 20 packet False) (\<lambda>(p, changed).
                if changed then
                  then_do (recalcIPv4TransportChecksums p) (\<lambda>(p, err). Ok (p, True, err))
                else Ok (p, False, None)))))))"

section \<open>Closed forms\<close>

definition valid_header :: "bytes \<Rightarrow> bool" where
  "valid_header p \<longleftrightarrow> 20 \<le> length p \<and> drop_bit 4 (p ! 0) = 4 \<and> 20 \<le> ihl_of (p ! 0)
     \<and> ihl_of (p ! 0) \<le> length p"

definition flow_of :: "bytes \<Rightarrow> bool \<Rightarrow> ipv4FlowKey" where
  "flow_of p outbound =
     (let ihl = ihl_of (p ! 0); src = take 4 (drop 12 p); dst = take 4 (drop 16 p) in
      if outbound then
        \<lparr>fkProtocol = p ! 9, LocalIP = src, RemoteIP = dst, LocalPort = u16_at p ihl,
         RemotePort = u16_at p (ihl + 2)\<rparr>
      else
        \<lparr>fkProtocol = p ! 9, LocalIP = dst, RemoteIP = src, LocalPort = u16_at p (ihl + 2),
         RemotePort = u16_at p ihl\<rparr>)"

lemma parseIPv4Flow_eq:
  "parseIPv4Flow p outbound =
     (if length p < 20 \<or> drop_bit 4 (p ! 0) \<noteq> 4 then Error (ErrorsNew ''not IPv4'')
      else if ihl_of (p ! 0) < 20 \<or> length p < ihl_of (p ! 0) + 4 then
        Error (ErrorsNew ''short IPv4 packet'')
      else if p ! 9 \<noteq> 6 \<and> p ! 9 \<noteq> 17 then
        Error (Errorf ''unsupported protocol %d'' [ArgN (unat (p ! 9))])
      else Ok (flow_of p outbound))"
proof (cases "length p < 20")
  case False
  then have len: "20 \<le> length p" "p \<noteq> []" by auto
  show ?thesis
  proof (cases "20 \<le> ihl_of (p ! 0) \<and> ihl_of (p ! 0) + 4 \<le> length p")
    case True
    then have ihl: "20 \<le> ihl_of (p ! 0)" "ihl_of (p ! 0) + 4 \<le> length p" by blast+
    show ?thesis
      using len ihl by (simp add: parseIPv4Flow_def flow_of_def Let_def uint_be_at)
  next
    case False
    then have "ihl_of (p ! 0) < 20 \<or> length p < ihl_of (p ! 0) + 4" by linarith
    with len show ?thesis by (simp add: parseIPv4Flow_def Let_def)
  qed
qed (simp add: parseIPv4Flow_def)

definition effective_total :: "bytes \<Rightarrow> nat" where
  "effective_total p =
     (let t = unat (u16_at p 2) in if t = 0 \<or> t > length p then length p else t)"

definition header_repaired :: "bytes \<Rightarrow> bytes" where
  "header_repaired p =
     set16 p 10 (finishChecksum (checksumWords (take (ihl_of (p ! 0)) (set16 p 10 0)) 0))"

definition sum_offset :: "byte \<Rightarrow> nat" where
  "sum_offset proto = (if proto = 6 then 16 else 6)"

definition min_l4 :: "byte \<Rightarrow> nat" where
  "min_l4 proto = (if proto = 6 then 20 else 8)"

definition pseudo_sum :: "bytes \<Rightarrow> byte \<Rightarrow> nat \<Rightarrow> u32" where
  "pseudo_sum p proto n = checksumWords (take 8 (drop 12 p)) 0 + ucast proto + of_nat n"

definition l4_of :: "bytes \<Rightarrow> bytes" where
  "l4_of p = take (effective_total p - ihl_of (p ! 0)) (drop (ihl_of (p ! 0)) p)"

lemma effective_total_le: "effective_total p \<le> length p"
  by (auto simp: effective_total_def Let_def)

lemma recalcIPv4_invalid:
  assumes "\<not> valid_header p"
  shows "recalcIPv4TransportChecksums p = Ok (p, Some (ErrorsNew
     (if length p < 20 \<or> drop_bit 4 (p ! 0) \<noteq> 4 then ''invalid IPv4 packet''
      else ''invalid IPv4 header length'')))"
proof (cases "length p < 20")
  case False
  then have "0 < length p" "20 \<le> length p" by linarith+
  moreover have "ihl_of (p ! 0) < 20 \<or> length p < ihl_of (p ! 0)" if "drop_bit 4 (p ! 0) = 4"
    using assms that False by (auto simp: valid_header_def)
  ultimately show ?thesis
    by (cases "drop_bit 4 (p ! 0) = 4") (simp_all add: recalcIPv4TransportChecksums_def Let_def)
qed (simp add: recalcIPv4TransportChecksums_def)

lemma update_pair_again: "a \<noteq> b \<Longrightarrow> p[a := x, b := y, a := z, b := w] = p[a := z, b := w]"
  by (metis list_update_overwrite list_update_swap)

lemma header_repaired_Ok:
  assumes "valid_header p"
  shows "recalcIPv4TransportChecksums p =
     (if p ! 9 \<noteq> 6 \<and> p ! 9 \<noteq> 17 then Ok (header_repaired p, None)
      else recalcTransport (header_repaired p) (ihl_of (p ! 0)) (effective_total p) (p ! 9))"
proof -
  have "20 \<le> length p" "p \<noteq> []" "drop_bit 4 (p ! 0) = 4" "20 \<le> ihl_of (p ! 0)"
      "ihl_of (p ! 0) \<le> length p"
    using assms by (auto simp: valid_header_def)
  then show ?thesis
    by (simp add: recalcIPv4TransportChecksums_def effective_total_def Let_def
        uint_be_at header_repaired_def set16_def update_pair_again)
qed

lemma transport_short:
  assumes "ihl \<le> t" "t \<le> length p" "t - ihl < min_l4 proto"
  shows "\<exists>e. recalcTransport p ihl t proto = Ok (p, Some e)"
  using assms by (auto simp: recalcTransport_def min_l4_def split: if_splits)

lemma transport_repaired:
  assumes "20 \<le> ihl" "ihl \<le> t" "t \<le> length p" "min_l4 proto \<le> t - ihl"
  shows "recalcTransport p ihl t proto =
     (let off = sum_offset proto;
          v = finishChecksum (checksumWords (set16 (take (t - ihl) (drop ihl p)) off 0)
                (pseudo_sum p proto (t - ihl)))
      in Ok (set16 p (ihl + off) (if proto \<noteq> 6 \<and> v = 0 then 0xffff else v), None))"
proof -
  have at: "off + 2 \<le> t - ihl \<Longrightarrow> take (t - ihl) (drop ihl (p[ihl + off := 0, Suc (ihl + off) := 0]))
      = set16 (take (t - ihl) (drop ihl p)) off 0" for off
    using assms by (simp add: set16_def drop_update_swap take_update_swap)
  have ps: "take 8 (drop 12 (p[ihl + off := x, Suc (ihl + off) := y])) = take 8 (drop 12 p)" for off x y
    using assms by (simp add: drop_update_swap take_update_cancel)
  show ?thesis
    using assms at [of 16] at [of 6] ps [of 16 0 0] ps [of 6 0 0]
    by (auto simp: recalcTransport_def min_l4_def sum_offset_def pseudo_sum_def Let_def set16_def
        update_pair_again)
qed

section \<open>The repaired checksums\<close>

definition is_l4 :: "bytes \<Rightarrow> bool" where
  "is_l4 p \<longleftrightarrow> p ! 9 = 6 \<or> p ! 9 = 17"

text \<open>The two tests a receiver makes: over the header, and over pseudo header and segment.\<close>

definition checksums_valid :: "bytes \<Rightarrow> bool" where
  "checksums_valid q \<longleftrightarrow>
     finishChecksum (checksumWords (take (ihl_of (q ! 0)) q) 0) = 0
     \<and> (is_l4 q \<longrightarrow>
        finishChecksum (checksumWords (l4_of q) (pseudo_sum q (q ! 9) (length (l4_of q)))) = 0)"

text \<open>The places \<^verbatim>\<open>recalcIPv4TransportChecksums\<close> may write to.\<close>

definition checksum_bytes :: "bytes \<Rightarrow> nat set" where
  "checksum_bytes p =
     {10, 11} \<union> (if is_l4 p then
       {ihl_of (p ! 0) + sum_offset (p ! 9), Suc (ihl_of (p ! 0) + sum_offset (p ! 9))} else {})"

definition same_but_sums :: "bytes \<Rightarrow> bytes \<Rightarrow> bool" where
  "same_but_sums p q \<longleftrightarrow>
     length q = length p \<and> (\<forall>i < length p. i \<notin> checksum_bytes p \<longrightarrow> q ! i = p ! i)"

definition repaired_l4 :: "bytes \<Rightarrow> u16" where
  "repaired_l4 p =
     (let v = finishChecksum (checksumWords (set16 (l4_of p) (sum_offset (p ! 9)) 0)
                (pseudo_sum p (p ! 9) (length (l4_of p))))
      in if p ! 9 \<noteq> 6 \<and> v = 0 then 0xffff else v)"

lemma set16_pos_same [simp]:
  "20 \<le> n \<Longrightarrow> drop n (set16 p 10 v) = drop n p"
  "drop 12 (set16 p 10 v) = drop 12 p"
  "set16 p 10 v ! 0 = p ! 0" "set16 p 10 v ! 9 = p ! 9"
  "set16 p 10 v ! 2 = p ! 2" "set16 p 10 v ! 3 = p ! 3"
  by (simp_all add: set16_def)

lemma set16_high_same [simp]:
  "20 \<le> n \<Longrightarrow> set16 p n v ! 0 = p ! 0" "20 \<le> n \<Longrightarrow> set16 p n v ! 9 = p ! 9"
  "20 \<le> n \<Longrightarrow> set16 p n v ! 2 = p ! 2" "20 \<le> n \<Longrightarrow> set16 p n v ! 3 = p ! 3"
  "20 \<le> n \<Longrightarrow> take 8 (drop 12 (set16 p n v)) = take 8 (drop 12 p)"
  "m \<le> n \<Longrightarrow> take m (set16 p n v) = take m p"
  by (simp_all add: set16_def drop_update_swap)

lemma take_drop_set16:
  "a + 2 \<le> n \<Longrightarrow> take n (drop k (set16 p (k + a) v)) = set16 (take n (drop k p)) a v"
  by (simp add: set16_def drop_update_swap take_update_swap)

lemma length_l4_of [simp]: "length (l4_of p) = effective_total p - ihl_of (p ! 0)"
  using effective_total_le [of p] by (simp add: l4_of_def)

lemma effective_total_cong:
  "length q = length p \<Longrightarrow> q ! 2 = p ! 2 \<Longrightarrow> q ! 3 = p ! 3 \<Longrightarrow> effective_total q = effective_total p"
  by (simp add: effective_total_def u16_at_def numeral_eq_Suc Let_def)

lemma header_repaired_same:
  "length (header_repaired p) = length p" "header_repaired p ! 0 = p ! 0"
  "header_repaired p ! 9 = p ! 9" "effective_total (header_repaired p) = effective_total p"
  "take 8 (drop 12 (header_repaired p)) = take 8 (drop 12 p)"
  "20 \<le> n \<Longrightarrow> drop n (header_repaired p) = drop n p"
  by (auto simp: header_repaired_def intro: effective_total_cong)

lemma recalc_transport_eq:
  assumes "valid_header p" "is_l4 p" "ihl_of (p ! 0) + min_l4 (p ! 9) \<le> effective_total p"
  shows "recalcIPv4TransportChecksums p =
     Ok (set16 (header_repaired p) (ihl_of (p ! 0) + sum_offset (p ! 9)) (repaired_l4 p), None)"
proof -
  have ihl: "20 \<le> ihl_of (p ! 0)" using assms by (simp add: valid_header_def)
  have "recalcIPv4TransportChecksums p =
      recalcTransport (header_repaired p) (ihl_of (p ! 0)) (effective_total p) (p ! 9)"
    using header_repaired_Ok [OF assms(1)] assms(2) by (auto simp: is_l4_def)
  also have "\<dots> = Ok (set16 (header_repaired p) (ihl_of (p ! 0) + sum_offset (p ! 9)) (repaired_l4 p), None)"
    using assms ihl effective_total_le [of p]
    by (subst transport_repaired)
      (auto simp: header_repaired_same repaired_l4_def l4_of_def pseudo_sum_def Let_def min_absorb2)
  finally show ?thesis .
qed

lemma recalc_success:
  assumes "recalcIPv4TransportChecksums p = Ok (q, None)"
  obtains "valid_header p" "\<not> is_l4 p" "q = header_repaired p"
  | "valid_header p" "is_l4 p" "ihl_of (p ! 0) + min_l4 (p ! 9) \<le> effective_total p"
    "q = set16 (header_repaired p) (ihl_of (p ! 0) + sum_offset (p ! 9)) (repaired_l4 p)"
proof -
  have v: "valid_header p" using assms recalcIPv4_invalid [of p] by (cases "valid_header p") auto
  show thesis
  proof (cases "is_l4 p")
    case False
    with v assms that(1) show thesis by (auto simp: header_repaired_Ok is_l4_def)
  next
    case True
    then have tr: "recalcTransport (header_repaired p) (ihl_of (p ! 0)) (effective_total p) (p ! 9)
        = Ok (q, None)"
      using v assms by (auto simp: header_repaired_Ok is_l4_def)
    have le: "ihl_of (p ! 0) \<le> effective_total p"
      using tr by (cases "ihl_of (p ! 0) \<le> effective_total p")
        (auto simp: recalcTransport_def slice_go_panic)
    have "ihl_of (p ! 0) + min_l4 (p ! 9) \<le> effective_total p"
      using tr transport_short [OF le, of "header_repaired p" "p ! 9"] effective_total_le [of p] le
      by (fastforce simp: header_repaired_same)
    with v True assms show thesis by (intro that(2)) (auto simp: recalc_transport_eq)
  qed
qed

lemma recalc_same_but_sums:
  assumes "recalcIPv4TransportChecksums p = Ok (q, None)"
  shows "same_but_sums p q"
  using assms
  by (cases rule: recalc_success)
    (auto simp: same_but_sums_def checksum_bytes_def header_repaired_def nth_set16)

lemma header_sum_valid:
  assumes "valid_header p"
  shows "finishChecksum (checksumWords (take (ihl_of (p ! 0)) (header_repaired p)) 0) = 0"
proof -
  have b: "20 \<le> ihl_of (p ! 0)" "ihl_of (p ! 0) \<le> length p"
    using assms by (auto simp: valid_header_def)
  have "ihl_of (p ! 0) \<le> 60"
  proof -
    have "unat (p ! 0 AND 0x0f) \<le> unat (0x0f :: byte)" by (metis word_and_le1 word_le_nat_alt)
    then show ?thesis by (simp add: ihl_of_def)
  qed
  moreover have t: "take (ihl_of (p ! 0)) (set16 p 10 v) = set16 (take (ihl_of (p ! 0)) p) 10 v" for v
    using b take_drop_set16 [of 10 "ihl_of (p ! 0)" 0 p v] by simp
  ultimately show ?thesis
    unfolding header_repaired_def t using b by (intro checksum_field_valid) auto
qed

lemma pseudo_sum_bound: "n \<le> 65535 \<Longrightarrow> unat (pseudo_sum p proto n) \<le> 400000"
proof -
  assume n: "n \<le> 65535"
  have "word_sum (take 8 (drop 12 p)) \<le> 65535 * ((length (take 8 (drop 12 p)) + 1) div 2)"
    by (rule word_sum_bound)
  also have "\<dots> \<le> 65535 * 4" by (intro mult_le_mono2) (auto simp: min_def)
  finally have w: "word_sum (take 8 (drop 12 p)) \<le> 262140" by simp
  then have "unat (checksumWords (take 8 (drop 12 p)) 0) = word_sum (take 8 (drop 12 p))"
    by (subst checksumWords_exact) auto
  then show ?thesis
    using w n unat_byte [of proto]
    by (simp add: pseudo_sum_def unat_word_ariths unat_of_nat)
qed

lemma l4_sum_valid:
  assumes "even off" "off + 2 \<le> length l4" "length l4 \<le> 65535"
    and v: "v = finishChecksum (checksumWords (set16 l4 off 0) (pseudo_sum p proto (length l4)))"
    and w: "w = (if proto \<noteq> 6 \<and> v = 0 then 0xffff else v)"
  shows "finishChecksum (checksumWords (set16 l4 off w) (pseudo_sum p proto (length l4))) = 0"
proof -
  have bound: "unat (pseudo_sum p proto (length l4)) + 65535 * ((length l4 + 1) div 2) < 2 ^ 32"
    using pseudo_sum_bound [OF assms(3), of p proto] assms(3) by simp
  show ?thesis
  proof (cases "proto \<noteq> 6 \<and> v = 0")
    case True
    then show ?thesis
      using checksum_field_valid_ones [OF assms(1,2) bound] v w by simp
  next
    case False
    then show ?thesis
      using checksum_field_valid [OF assms(1,2) bound v] w by auto
  qed
qed

lemma l4_of_set16:
  assumes "20 \<le> ihl_of (p ! 0)" "off + 2 \<le> effective_total p - ihl_of (p ! 0)"
  shows "l4_of (set16 p (ihl_of (p ! 0) + off) v) = set16 (l4_of p) off v"
proof -
  have "effective_total (set16 p (ihl_of (p ! 0) + off) v) = effective_total p"
    using assms by (intro effective_total_cong) auto
  then show ?thesis using assms by (simp add: l4_of_def take_drop_set16)
qed

lemma recalc_checksums_valid:
  assumes "recalcIPv4TransportChecksums p = Ok (q, None)" "length p \<le> 65535"
  shows "checksums_valid q"
  using assms(1)
proof (cases rule: recalc_success)
  case 1
  then show ?thesis
    using header_sum_valid [of p] by (simp add: checksums_valid_def header_repaired_same is_l4_def)
next
  case 2
  let ?h = "header_repaired p" and ?ihl = "ihl_of (p ! 0)" and ?off = "sum_offset (p ! 9)"
  have ihl: "20 \<le> ?ihl" using 2 by (simp add: valid_header_def)
  have off: "even ?off" "?off + 2 \<le> effective_total p - ?ihl"
    using 2 by (auto simp: sum_offset_def min_l4_def is_l4_def split: if_splits)
  have l4h: "l4_of ?h = l4_of p" using ihl by (simp add: l4_of_def header_repaired_same)
  have l4q: "l4_of q = set16 (l4_of p) ?off (repaired_l4 p)"
    using l4_of_set16 [of ?h ?off] 2 ihl off l4h by (simp add: header_repaired_same)
  have ps: "pseudo_sum q pr n = pseudo_sum p pr n" for pr n
    using 2 ihl by (simp add: pseudo_sum_def header_repaired_same)
  have "length (l4_of p) \<le> 65535" using assms(2) effective_total_le [of p] by simp
  moreover have "?off + 2 \<le> length (l4_of p)" using off(2) by simp
  ultimately have "finishChecksum (checksumWords (set16 (l4_of p) ?off (repaired_l4 p))
      (pseudo_sum p (p ! 9) (length (l4_of p)))) = 0"
    using off(1) by (intro l4_sum_valid [OF _ _ _ refl]) (auto simp only: repaired_l4_def Let_def)
  then have "finishChecksum (checksumWords (l4_of q)
      (pseudo_sum q (p ! 9) (effective_total p - ?ihl))) = 0"
    by (simp add: l4q ps)
  moreover have "take ?ihl q = take ?ihl ?h" "q ! 0 = p ! 0" "q ! 9 = p ! 9"
    using 2 ihl by (simp_all add: header_repaired_same)
  moreover have "length (l4_of q) = effective_total p - ?ihl"
    by (simp only: l4q length_set16 length_l4_of)
  ultimately show ?thesis
    using header_sum_valid [of p] 2 by (simp add: checksums_valid_def)
qed


section \<open>When the repair panics\<close>

lemma recalc_panic_iff:
  "no_panic (recalcIPv4TransportChecksums p) \<longleftrightarrow>
     \<not> (valid_header p \<and> is_l4 p \<and> effective_total p < ihl_of (p ! 0))"
proof (cases "valid_header p \<and> is_l4 p")
  case False
  then show ?thesis
    using recalcIPv4_invalid [of p] header_repaired_Ok [of p]
    by (cases "valid_header p") (auto simp: is_l4_def)
next
  case True
  then have eq: "recalcIPv4TransportChecksums p =
      recalcTransport (header_repaired p) (ihl_of (p ! 0)) (effective_total p) (p ! 9)"
    by (auto simp: header_repaired_Ok is_l4_def)
  show ?thesis
  proof (cases "effective_total p < ihl_of (p ! 0)")
    case True
    then show ?thesis using eq \<open>valid_header p \<and> is_l4 p\<close>
      by (simp add: recalcTransport_def slice_go_panic)
  next
    case False
    have "\<exists>r. recalcIPv4TransportChecksums p = Ok r"
    proof (cases "ihl_of (p ! 0) + min_l4 (p ! 9) \<le> effective_total p")
      case True
      then show ?thesis using recalc_transport_eq [of p] \<open>valid_header p \<and> is_l4 p\<close> by blast
    next
      case short: False
      then have "effective_total p - ihl_of (p ! 0) < min_l4 (p ! 9)" using False by linarith
      then show ?thesis
        using transport_short [of "ihl_of (p ! 0)" "effective_total p" "header_repaired p" "p ! 9"]
          eq False effective_total_le [of p] by (auto simp: header_repaired_same)
    qed
    with False show ?thesis by auto
  qed
qed

lemma recalc_panic_kind:
  "recalcIPv4TransportChecksums p = Panicked e \<Longrightarrow> e = SliceOutOfRange"
proof -
  assume r: "recalcIPv4TransportChecksums p = Panicked e"
  then have v: "valid_header p" "is_l4 p" "effective_total p < ihl_of (p ! 0)"
    using recalc_panic_iff [of p] by auto
  then have "recalcIPv4TransportChecksums p =
      recalcTransport (header_repaired p) (ihl_of (p ! 0)) (effective_total p) (p ! 9)"
    by (auto simp: header_repaired_Ok is_l4_def)
  with r v show ?thesis by (simp add: recalcTransport_def slice_go_panic)
qed

section \<open>Rewriting addresses\<close>

lemma same_but_sums_nth:
  assumes "same_but_sums p q" "i < length p" "i < 10 \<or> 12 \<le> i"
    "20 \<le> ihl_of (p ! 0)" "i < ihl_of (p ! 0) + 6"
  shows "q ! i = p ! i"
  using assms by (auto simp: same_but_sums_def checksum_bytes_def sum_offset_def split: if_splits)

lemma parseIPv4Flow_Ok_iff:
  "parseIPv4Flow p outbound = Ok k \<longleftrightarrow>
     valid_header p \<and> ihl_of (p ! 0) + 4 \<le> length p \<and> is_l4 p \<and> k = flow_of p outbound"
  by (auto simp: parseIPv4Flow_eq valid_header_def is_l4_def)

lemma flow_same_but_sums:
  assumes "same_but_sums p q" "parseIPv4Flow p outbound = Ok k"
  shows "parseIPv4Flow q outbound = Ok k"
proof -
  have p: "valid_header p" "ihl_of (p ! 0) + 4 \<le> length p" "is_l4 p" "k = flow_of p outbound"
    using assms(2) by (auto simp: parseIPv4Flow_Ok_iff)
  have ihl: "20 \<le> ihl_of (p ! 0)" and len: "length q = length p" "20 \<le> length p"
    using p assms(1) by (auto simp: valid_header_def same_but_sums_def)
  note same = same_but_sums_nth [OF assms(1) _ _ ihl]
  have b: "q ! 0 = p ! 0" "q ! 9 = p ! 9" by (rule same; use len ihl in linarith)+
  have a: "take 4 (drop 12 q) = take 4 (drop 12 p)" "take 4 (drop 16 q) = take 4 (drop 16 p)"
    using len ihl by (simp_all add: take4_drop same)
  have "u16_at q (ihl_of (p ! 0)) = u16_at p (ihl_of (p ! 0))"
    "u16_at q (ihl_of (p ! 0) + 2) = u16_at p (ihl_of (p ! 0) + 2)"
    using ihl p(2) by (simp_all add: u16_at_def same)
  with a b len p show ?thesis
    by (simp add: parseIPv4Flow_Ok_iff valid_header_def is_l4_def flow_of_def Let_def)
qed

lemma copy_source_same:
  assumes "length v = 4" "20 \<le> length p"
  shows "i < 12 \<or> 16 \<le> i \<Longrightarrow> i < length p \<Longrightarrow> copy_at p 12 v ! i = p ! i"
    and "i < 16 \<or> 20 \<le> i \<Longrightarrow> i < length p \<Longrightarrow> copy_at p 16 v ! i = p ! i"
  using assms by (auto simp: nth_copy_at)

lemma flow_copy_source:
  assumes "parseIPv4Flow p True = Ok k" "length v = 4"
  shows "parseIPv4Flow (copy_at p 12 v) True = Ok (k\<lparr>LocalIP := v\<rparr>)"
proof -
  have p: "valid_header p" "ihl_of (p ! 0) + 4 \<le> length p" "is_l4 p" "k = flow_of p True"
    and ihl: "20 \<le> ihl_of (p ! 0)" and len: "20 \<le> length p"
    using assms(1) by (auto simp: parseIPv4Flow_Ok_iff valid_header_def)
  note same = copy_source_same(1) [OF assms(2) len]
  have "take 4 (drop 12 (copy_at p 12 v)) = v"
    using take_drop_copy_at [of 12 v p] assms(2) len by simp
  moreover have "take 4 (drop 16 (copy_at p 12 v)) = take 4 (drop 16 p)"
    using len by (simp add: take4_drop same)
  moreover have "copy_at p 12 v ! 0 = p ! 0" "copy_at p 12 v ! 9 = p ! 9"
    by (rule same; use len in linarith)+
  moreover have "u16_at (copy_at p 12 v) (ihl_of (p ! 0)) = u16_at p (ihl_of (p ! 0))"
    "u16_at (copy_at p 12 v) (ihl_of (p ! 0) + 2) = u16_at p (ihl_of (p ! 0) + 2)"
    using ihl p(2) by (simp_all add: u16_at_def same)
  ultimately show ?thesis
    using p len by (simp add: parseIPv4Flow_Ok_iff valid_header_def is_l4_def flow_of_def Let_def)
qed

lemma flow_copy_destination:
  assumes "parseIPv4Flow p False = Ok k" "length v = 4"
  shows "parseIPv4Flow (copy_at p 16 v) False = Ok (k\<lparr>LocalIP := v\<rparr>)"
proof -
  have p: "valid_header p" "ihl_of (p ! 0) + 4 \<le> length p" "is_l4 p" "k = flow_of p False"
    and ihl: "20 \<le> ihl_of (p ! 0)" and len: "20 \<le> length p"
    using assms(1) by (auto simp: parseIPv4Flow_Ok_iff valid_header_def)
  note same = copy_source_same(2) [OF assms(2) len]
  have "take 4 (drop 16 (copy_at p 16 v)) = v"
    using take_drop_copy_at [of 16 v p] assms(2) len by simp
  moreover have "take 4 (drop 12 (copy_at p 16 v)) = take 4 (drop 12 p)"
    using len by (simp add: take4_drop same)
  moreover have "copy_at p 16 v ! 0 = p ! 0" "copy_at p 16 v ! 9 = p ! 9"
    by (rule same; use len in linarith)+
  moreover have "u16_at (copy_at p 16 v) (ihl_of (p ! 0)) = u16_at p (ihl_of (p ! 0))"
    "u16_at (copy_at p 16 v) (ihl_of (p ! 0) + 2) = u16_at p (ihl_of (p ! 0) + 2)"
    using ihl p(2) by (simp_all add: u16_at_def same)
  ultimately show ?thesis
    using p len by (simp add: parseIPv4Flow_Ok_iff valid_header_def is_l4_def flow_of_def Let_def)
qed

lemma rewrite_success:
  "rewriteIPv4Source p ip = Ok (q, None) \<longleftrightarrow>
     (\<exists>v. To4 ip = Some v \<and> 20 \<le> length p \<and> drop_bit 4 (p ! 0) = 4
        \<and> recalcIPv4TransportChecksums (copy_at p 12 v) = Ok (q, None))"
  "rewriteIPv4Destination p ip = Ok (q, None) \<longleftrightarrow>
     (\<exists>v. To4 ip = Some v \<and> 20 \<le> length p \<and> drop_bit 4 (p ! 0) = 4
        \<and> recalcIPv4TransportChecksums (copy_at p 16 v) = Ok (q, None))"
  by (cases "length p < 20";
      auto simp: rewriteIPv4Source_def rewriteIPv4Destination_def index_go_def split: option.splits)+


section \<open>What the clamp changes\<close>

text \<open>The positions of the MSS values a walk over the options meets, as RFC 9293 lays them out.\<close>

function mss_offsets :: "bytes \<Rightarrow> nat \<Rightarrow> nat \<Rightarrow> nat \<Rightarrow> nat list" where
  "mss_offsets p ihl hdrLen i =
     (if i < hdrLen \<and> p ! (ihl + i) \<noteq> 0 then
        if p ! (ihl + i) = 1 then mss_offsets p ihl hdrLen (i + 1)
        else if i + 1 < hdrLen \<and> 2 \<le> unat (p ! (ihl + i + 1))
            \<and> i + unat (p ! (ihl + i + 1)) \<le> hdrLen then
          (if p ! (ihl + i) = 2 \<and> unat (p ! (ihl + i + 1)) = 4 then [ihl + i + 2] else [])
          @ mss_offsets p ihl hdrLen (i + unat (p ! (ihl + i + 1)))
        else []
      else [])"
  by pat_completeness auto
termination
  by (relation "measure (\<lambda>(p, ihl, hdrLen, i). hdrLen - i)") auto

declare mss_offsets.simps [simp del]

text \<open>The four ways a step of the walk goes.\<close>

definition at_end :: "bytes \<Rightarrow> nat \<Rightarrow> nat \<Rightarrow> nat \<Rightarrow> bool" where
  "at_end p ihl hdrLen i \<longleftrightarrow> hdrLen \<le> i \<or> p ! (ihl + i) = 0 \<or> p ! (ihl + i) \<noteq> 1
     \<and> (hdrLen \<le> i + 1 \<or> unat (p ! (ihl + i + 1)) < 2 \<or> hdrLen < i + unat (p ! (ihl + i + 1)))"

definition at_option :: "bytes \<Rightarrow> nat \<Rightarrow> nat \<Rightarrow> nat \<Rightarrow> bool" where
  "at_option p ihl hdrLen i \<longleftrightarrow> i + 1 < hdrLen \<and> p ! (ihl + i) \<noteq> 0 \<and> p ! (ihl + i) \<noteq> 1
     \<and> 2 \<le> unat (p ! (ihl + i + 1)) \<and> i + unat (p ! (ihl + i + 1)) \<le> hdrLen"

definition at_mss :: "bytes \<Rightarrow> nat \<Rightarrow> nat \<Rightarrow> bool" where
  "at_mss p ihl i \<longleftrightarrow> p ! (ihl + i) = 2 \<and> unat (p ! (ihl + i + 1)) = 4"

lemma walk_cases:
  obtains (stop) "at_end p ihl hdrLen i" | (nop) "i < hdrLen" "p ! (ihl + i) = 1"
  | (opt) "at_option p ihl hdrLen i"
  unfolding at_end_def at_option_def by (metis not_le)

lemma mss_offsets_step:
  "at_end p ihl hdrLen i \<Longrightarrow> mss_offsets p ihl hdrLen i = []"
  "i < hdrLen \<Longrightarrow> p ! (ihl + i) = 1 \<Longrightarrow>
     mss_offsets p ihl hdrLen i = mss_offsets p ihl hdrLen (i + 1)"
  "at_option p ihl hdrLen i \<Longrightarrow>
     mss_offsets p ihl hdrLen i = (if at_mss p ihl i then [ihl + i + 2] else [])
       @ mss_offsets p ihl hdrLen (i + unat (p ! (ihl + i + 1)))"
  by (subst mss_offsets.simps; auto simp: at_end_def at_option_def at_mss_def)+

lemma walk_induct [case_names stop nop opt]:
  assumes "\<And>i. at_end p ihl hdrLen i \<Longrightarrow> P i"
    and "\<And>i. i < hdrLen \<Longrightarrow> p ! (ihl + i) = 1 \<Longrightarrow> P (i + 1) \<Longrightarrow> P i"
    and "\<And>i. at_option p ihl hdrLen i \<Longrightarrow> P (i + unat (p ! (ihl + i + 1))) \<Longrightarrow> P i"
  shows "P i"
proof (induction "hdrLen - i" arbitrary: i rule: less_induct)
  case less
  show ?case
  proof (cases rule: walk_cases [of p ihl hdrLen i])
    case opt
    then have "hdrLen - (i + unat (p ! (ihl + i + 1))) < hdrLen - i" by (auto simp: at_option_def)
    with less opt assms(3) show ?thesis by blast
  qed (use less assms in auto)
qed

lemma mss_offsets_range:
  "x \<in> set (mss_offsets p ihl hdrLen i) \<Longrightarrow> ihl + i + 2 \<le> x \<and> x + 2 \<le> ihl + hdrLen"
proof (induction i rule: walk_induct [where p = p and ihl = ihl and hdrLen = hdrLen])
  case (opt i)
  then show ?case
    by (auto simp: mss_offsets_step(3) at_option_def at_mss_def split: if_splits)
qed (auto simp: mss_offsets_step)

lemma mss_offsets_cong:
  "(\<And>j. ihl + i \<le> j \<Longrightarrow> j < ihl + hdrLen \<Longrightarrow> q ! j = p ! j) \<Longrightarrow>
   mss_offsets q ihl hdrLen i = mss_offsets p ihl hdrLen i"
proof (induction i rule: walk_induct [where p = p and ihl = ihl and hdrLen = hdrLen])
  case (stop i)
  then have "at_end q ihl hdrLen i" by (simp add: at_end_def) (metis add.right_neutral le_add1 nat_add_left_cancel_less add_Suc_right linorder_not_less le_SucI)
  with stop show ?case by (simp add: mss_offsets_step)
next
  case (nop i)
  then show ?case by (simp add: mss_offsets_step(2))
next
  case (opt i)
  have eq: "q ! (ihl + i) = p ! (ihl + i)" "q ! (ihl + i + 1) = p ! (ihl + i + 1)"
    using opt.prems opt.hyps by (auto simp: at_option_def)
  then have "at_option q ihl hdrLen i" "at_mss q ihl i = at_mss p ihl i"
    using opt.hyps by (simp_all add: at_option_def at_mss_def)
  then show ?case using opt eq by (simp add: mss_offsets_step(3))
qed

text \<open>Clamping at the listed positions only, one after the other.\<close>

definition clamp_at :: "u16 \<Rightarrow> nat \<Rightarrow> bytes \<Rightarrow> bytes" where
  "clamp_at m x p = (if u16_at p x > m then set16 p x m else p)"

lemma clamp_loop_step:
  assumes "ihl + hdrLen \<le> length p"
  shows "at_end p ihl hdrLen i \<Longrightarrow> clamp_loop m ihl hdrLen i p c = Ok (p, c)"
    and "i < hdrLen \<Longrightarrow> p ! (ihl + i) = 1 \<Longrightarrow>
      clamp_loop m ihl hdrLen i p c = clamp_loop m ihl hdrLen (i + 1) p c"
    and "at_option p ihl hdrLen i \<Longrightarrow>
      clamp_loop m ihl hdrLen i p c =
        clamp_loop m ihl hdrLen (i + unat (p ! (ihl + i + 1)))
          (if at_mss p ihl i then clamp_at m (ihl + i + 2) p else p)
          (c \<or> at_mss p ihl i \<and> u16_at p (ihl + i + 2) > m)"
proof -
  note unfold = clamp_loop.simps [of m ihl hdrLen i p c]
  show "at_end p ihl hdrLen i \<Longrightarrow> clamp_loop m ihl hdrLen i p c = Ok (p, c)"
    using assms by (auto simp: unfold at_end_def Let_def)
  show "i < hdrLen \<Longrightarrow> p ! (ihl + i) = 1 \<Longrightarrow>
      clamp_loop m ihl hdrLen i p c = clamp_loop m ihl hdrLen (i + 1) p c"
    using assms by (simp add: unfold)
  show "at_option p ihl hdrLen i \<Longrightarrow>
      clamp_loop m ihl hdrLen i p c =
        clamp_loop m ihl hdrLen (i + unat (p ! (ihl + i + 1)))
          (if at_mss p ihl i then clamp_at m (ihl + i + 2) p else p)
          (c \<or> at_mss p ihl i \<and> u16_at p (ihl + i + 2) > m)"
    using assms
    by (auto simp: unfold at_option_def at_mss_def Let_def uint_be_at clamp_at_def set16_def)
qed

lemma clamp_at_same:
  "length (clamp_at m x p) = length p"
  "j \<noteq> x \<Longrightarrow> j \<noteq> x + 1 \<Longrightarrow> clamp_at m x p ! j = p ! j"
  by (simp_all add: clamp_at_def nth_set16)

lemma u16_at_set16: "x + 2 \<le> length p \<Longrightarrow> u16_at (set16 p x v) x = v"
  by (simp add: u16_at_def set16_def)

text \<open>
  The loop is total, and leaves every byte alone that no option of kind 2 and length 4 owns; the
  value of each such option becomes the minimum of what it was and the limit.
\<close>

lemma clamp_loop_spec:
  assumes "ihl + hdrLen \<le> length p"
  shows "\<exists>q. clamp_loop m ihl hdrLen i p c =
        Ok (q, c \<or> (\<exists>x \<in> set (mss_offsets p ihl hdrLen i). u16_at p x > m))
      \<and> length q = length p
      \<and> (\<forall>x \<in> set (mss_offsets p ihl hdrLen i). u16_at q x = min (u16_at p x) m)
      \<and> (\<forall>j. (\<forall>x \<in> set (mss_offsets p ihl hdrLen i). j \<noteq> x \<and> j \<noteq> x + 1) \<longrightarrow> q ! j = p ! j)
      \<and> ((\<forall>x \<in> set (mss_offsets p ihl hdrLen i). u16_at p x \<le> m) \<longrightarrow> q = p)"
  using assms
proof (induction "hdrLen - i" arbitrary: i p c rule: less_induct)
  case less
  show ?case
  proof (cases rule: walk_cases [of p ihl hdrLen i])
    case stop
    then show ?thesis by (simp add: clamp_loop_step [OF less.prems] mss_offsets_step)
  next
    case nop
    then show ?thesis
      using less.hyps [of "i + 1" p c] less.prems
      by (simp add: clamp_loop_step [OF less.prems] mss_offsets_step)
  next
    case opt
    let ?n = "unat (p ! (ihl + i + 1))" and ?x = "ihl + i + 2"
    define p' where "p' = (if at_mss p ihl i then clamp_at m ?x p else p)"
    let ?c = "c \<or> at_mss p ihl i \<and> u16_at p ?x > m"
    let ?offs = "mss_offsets p ihl hdrLen (i + ?n)"
    have n: "2 \<le> ?n" "i + ?n \<le> hdrLen" "at_mss p ihl i \<Longrightarrow> ?n = 4"
      using opt by (auto simp: at_option_def at_mss_def)
    have offs: "mss_offsets p' ihl hdrLen (i + ?n) = ?offs"
      using n by (intro mss_offsets_cong) (auto simp: p'_def clamp_at_same)
    have above: "ihl + i + ?n + 2 \<le> x" if "x \<in> set ?offs" for x
      using mss_offsets_range [OF that] by simp
    have val: "u16_at p' x = u16_at p x" if "x \<in> set ?offs" for x
      using above [OF that] n by (auto simp: p'_def u16_at_def clamp_at_same)
    have len: "length p' = length p" by (simp add: p'_def clamp_at_same)
    have old: "(\<exists>x \<in> set ?offs. u16_at p' x > m) = (\<exists>x \<in> set ?offs. u16_at p x > m)"
      "(\<forall>x \<in> set ?offs. u16_at q x = min (u16_at p' x) m) =
       (\<forall>x \<in> set ?offs. u16_at q x = min (u16_at p x) m)"
      "(\<forall>x \<in> set ?offs. u16_at p' x \<le> m) = (\<forall>x \<in> set ?offs. u16_at p x \<le> m)" for q
      using val by auto
    have pre: "hdrLen - (i + ?n) < hdrLen - i" "ihl + hdrLen \<le> length p'"
      using n less.prems by (simp_all add: len)
    obtain q where q: "clamp_loop m ihl hdrLen (i + ?n) p' ?c =
        Ok (q, ?c \<or> (\<exists>x \<in> set ?offs. u16_at p x > m))" "length q = length p"
      "\<forall>x \<in> set ?offs. u16_at q x = min (u16_at p x) m"
      "\<forall>j. (\<forall>x \<in> set ?offs. j \<noteq> x \<and> j \<noteq> x + 1) \<longrightarrow> q ! j = p' ! j"
      "(\<forall>x \<in> set ?offs. u16_at p x \<le> m) \<longrightarrow> q = p'"
      using less.hyps [OF pre, of ?c] unfolding offs len old
      by (elim exE conjE) (rule that)
    have here: "u16_at q ?x = min (u16_at p ?x) m" if mss: "at_mss p ihl i"
    proof -
      have "\<forall>x \<in> set ?offs. j \<noteq> x \<and> j \<noteq> x + 1" if "j \<le> ?x + 1" for j
        using above n(3) [OF mss] that by fastforce
      then have "q ! ?x = p' ! ?x" "q ! (?x + 1) = p' ! (?x + 1)" using q(4) by simp_all
      then have "u16_at q ?x = u16_at (clamp_at m ?x p) ?x" using mss by (simp add: u16_at_def p'_def)
      then show ?thesis
        using less.prems n(2) n(3) [OF mss]
        by (auto simp: clamp_at_def u16_at_set16 min_def)
    qed
    show ?thesis
      using q here
      by (intro exI [of _ q])
        (auto simp: clamp_loop_step(3) [OF less.prems opt] mss_offsets_step(3) [OF opt] p'_def
          clamp_at_def nth_set16)
  qed
qed


definition tcp_header_len :: "bytes \<Rightarrow> nat" where
  "tcp_header_len p = unat (drop_bit 4 (p ! (ihl_of (p ! 0) + 12))) * 4"

definition tcp_syn :: "bytes \<Rightarrow> bool" where
  "tcp_syn p \<longleftrightarrow> 20 \<le> length p \<and> drop_bit 4 (p ! 0) = 4 \<and> p ! 9 = 6 \<and> 20 \<le> ihl_of (p ! 0)
     \<and> 20 \<le> tcp_header_len p \<and> ihl_of (p ! 0) + tcp_header_len p \<le> length p
     \<and> p ! (ihl_of (p ! 0) + 13) AND 0x02 \<noteq> 0"

abbreviation syn_mss :: "bytes \<Rightarrow> nat list" where
  "syn_mss p \<equiv> mss_offsets p (ihl_of (p ! 0)) (tcp_header_len p) 20"

lemma clampTCPMSS_syn:
  assumes "tcp_syn p"
  shows "clampTCPMSS p m =
     then_do (clamp_loop m (ihl_of (p ! 0)) (tcp_header_len p) 20 p False) (\<lambda>(q, changed).
       if changed then then_do (recalcIPv4TransportChecksums q) (\<lambda>(q, err). Ok (q, True, err))
       else Ok (q, False, None))"
proof -
  have "20 \<le> length p" "p \<noteq> []" "drop_bit 4 (p ! 0) = 4" "p ! 9 = 6" "20 \<le> ihl_of (p ! 0)"
    "ihl_of (p ! 0) + 20 \<le> length p" "20 \<le> tcp_header_len p"
    "tcp_header_len p \<le> length p - ihl_of (p ! 0)" "p ! (ihl_of (p ! 0) + 13) AND 0x02 \<noteq> 0"
    using assms by (auto simp: tcp_syn_def)
  then show ?thesis
    by (simp add: clampTCPMSS_def Let_def tcp_header_len_def)
qed

lemma clampTCPMSS_not_syn:
  "\<not> tcp_syn p \<Longrightarrow> \<exists>e. clampTCPMSS p m = Ok (p, False, e)"
proof (cases "length p < 20")
  case False
  assume n: "\<not> tcp_syn p"
  have len: "p \<noteq> []" "20 \<le> length p" using False by auto
  show ?thesis
  proof (cases "20 \<le> ihl_of (p ! 0) \<and> ihl_of (p ! 0) + 20 \<le> length p")
    case True
    then have "20 \<le> ihl_of (p ! 0)" "ihl_of (p ! 0) + 20 \<le> length p" by blast+
    with len n show ?thesis
      by (auto simp: clampTCPMSS_def Let_def tcp_syn_def tcp_header_len_def)
  next
    case False
    then have "ihl_of (p ! 0) < 20 \<or> length p < ihl_of (p ! 0) + 20" by linarith
    with len show ?thesis by (auto simp: clampTCPMSS_def Let_def)
  qed
qed (simp add: clampTCPMSS_def)

lemma clamped_mss:
  assumes "tcp_syn p" "clampTCPMSS p m = Ok (q, c, None)" "length p \<le> 65535"
  shows "c = (\<exists>x \<in> set (syn_mss p). u16_at p x > m)"
    and "\<forall>x \<in> set (syn_mss p). u16_at q x = min (u16_at p x) m"
    and "\<forall>j < length p. j \<notin> checksum_bytes p \<longrightarrow> (\<forall>x \<in> set (syn_mss p). j \<noteq> x \<and> j \<noteq> x + 1)
      \<longrightarrow> q ! j = p ! j"
    and "if c then checksums_valid q \<and> length q = length p else q = p"
proof -
  let ?ihl = "ihl_of (p ! 0)" and ?offs = "syn_mss p"
  have b: "?ihl + tcp_header_len p \<le> length p" "p ! 9 = 6" "20 \<le> ?ihl" "20 \<le> length p"
    using assms(1) by (auto simp: tcp_syn_def)
  obtain r where r: "clamp_loop m ?ihl (tcp_header_len p) 20 p False =
      Ok (r, \<exists>x \<in> set ?offs. u16_at p x > m)" "length r = length p"
    "\<forall>x \<in> set ?offs. u16_at r x = min (u16_at p x) m"
    "\<forall>j. (\<forall>x \<in> set ?offs. j \<noteq> x \<and> j \<noteq> x + 1) \<longrightarrow> r ! j = p ! j"
    "(\<forall>x \<in> set ?offs. u16_at p x \<le> m) \<longrightarrow> r = p"
    using clamp_loop_spec [OF b(1), of m 20 False] by auto
  have out: "\<forall>x \<in> set ?offs. ?ihl + 22 \<le> x \<and> x + 2 \<le> length p"
    using mss_offsets_range [of _ p ?ihl "tcp_header_len p" 20] b(1) by fastforce
  have low: "r ! j = p ! j" if "j < ?ihl + 22" for j
  proof -
    have "\<forall>x \<in> set ?offs. j \<noteq> x \<and> j \<noteq> x + 1" using out that by fastforce
    then show ?thesis using r(4) by blast
  qed
  have r09: "r ! 0 = p ! 0" "r ! 9 = p ! 9" using low b by simp_all
  then have sums: "checksum_bytes r = checksum_bytes p" by (simp add: checksum_bytes_def is_l4_def)
  have c: "c = (\<exists>x \<in> set ?offs. u16_at p x > m) \<and>
      (if c then recalcIPv4TransportChecksums r = Ok (q, None) else q = r)"
    using assms(2) clampTCPMSS_syn [OF assms(1), of m] r(1)
    by (auto simp: then_do_Ok_iff split: if_splits)
  then show "c = (\<exists>x \<in> set ?offs. u16_at p x > m)" by blast
  have same: "same_but_sums r q" using c recalc_same_but_sums by (cases c) (auto simp: same_but_sums_def)
  have val: "u16_at q x = u16_at r x" if "x \<in> set ?offs" for x
  proof -
    have "x \<notin> checksum_bytes p" "x + 1 \<notin> checksum_bytes p" "x + 1 < length r"
      using bspec [OF out that] b(2,3) r(2)
      by (auto simp: checksum_bytes_def sum_offset_def split: if_splits)
    then show ?thesis using same by (simp add: same_but_sums_def sums u16_at_def)
  qed
  show "\<forall>x \<in> set ?offs. u16_at q x = min (u16_at p x) m" using r(3) val by auto
  show "\<forall>j < length p. j \<notin> checksum_bytes p \<longrightarrow> (\<forall>x \<in> set ?offs. j \<noteq> x \<and> j \<noteq> x + 1)
      \<longrightarrow> q ! j = p ! j"
    using same r(2,4) by (simp add: same_but_sums_def sums)
  show "if c then checksums_valid q \<and> length q = length p else q = p"
    using c r(2,5) same recalc_checksums_valid [of r q] assms(3)
    by (auto simp: same_but_sums_def not_less)
qed


section \<open>Properties\<close>

definition udp_sample :: bytes where
  "udp_sample = [0x45, 0, 0, 29, 0, 0, 0, 0, 64, 17, 0, 0, 192, 168, 1, 5, 8, 8, 8, 8,
     0xd4, 0x31, 0, 53, 0, 9, 0, 0, 0x2a]"

definition udp_repaired :: bytes where
  "udp_repaired = [0x45, 0, 0, 29, 0, 0, 0, 0, 64, 17, 169, 19, 192, 168, 1, 5, 8, 8, 8, 8,
     0xd4, 0x31, 0, 53, 0, 9, 47, 184, 0x2a]"

definition udp_renamed :: bytes where
  "udp_renamed = (case rewriteIPv4Source udp_sample [10, 8, 0, 2] of Ok (q, _) \<Rightarrow> q | _ \<Rightarrow> [])"

definition syn_sample :: bytes where
  "syn_sample = [0x45, 0, 0, 48, 0, 0, 0, 0, 64, 6, 0, 0, 192, 168, 1, 5, 8, 8, 8, 8,
     0xd4, 0x31, 1, 187, 0, 0, 0, 1, 0, 0, 0, 0, 0x70, 2, 0xff, 0xff, 0, 0, 0, 0,
     2, 4, 5, 0xb4, 1, 1, 4, 2]"

definition syn_clamped :: bytes where
  "syn_clamped = [0x45, 0, 0, 48, 0, 0, 0, 0, 64, 6, 169, 11, 192, 168, 1, 5, 8, 8, 8, 8,
     0xd4, 0x31, 1, 187, 0, 0, 0, 1, 0, 0, 0, 0, 0x70, 2, 0xff, 0xff, 220, 20, 0, 0,
     2, 4, 5, 20, 1, 1, 4, 2]"

text \<open>
  C3. When \<^verbatim>\<open>recalcIPv4TransportChecksums\<close> returns no error on a packet of at most 65535 bytes,
  the header checksum and, for TCP and UDP, the checksum over pseudo header and segment pass the
  receiver's test, and no byte outside the two checksum fields has changed.
\<close>

theorem recalc_repairs_checksums:
  assumes "recalcIPv4TransportChecksums p = Ok (q, None)" "length p \<le> 65535"
  shows "checksums_valid q \<and> same_but_sums p q"
  using recalc_checksums_valid [OF assms] recalc_same_but_sums [OF assms(1)] by blast

theorem recalc_repairs_checksums_witness:
  "recalcIPv4TransportChecksums udp_sample = Ok (udp_repaired, None)
   \<and> checksums_valid udp_repaired \<and> same_but_sums udp_sample udp_repaired"
proof -
  have "recalcIPv4TransportChecksums udp_sample = Ok (udp_repaired, None)" by code_simp
  moreover have "length udp_sample \<le> 65535" by (simp add: udp_sample_def)
  ultimately show ?thesis using recalc_repairs_checksums by blast
qed

text \<open>
  C38. \<^verbatim>\<open>recalcIPv4TransportChecksums\<close> panics exactly on TCP and UDP packets with an acceptable
  header whose total length field is not zero and smaller than the header length: the slice
  \<^verbatim>\<open>packet[ihl:total]\<close> is then out of range.  On every other input it returns.
\<close>

theorem recalc_panics_exactly:
  "(recalcIPv4TransportChecksums p = Panicked SliceOutOfRange \<longleftrightarrow>
     valid_header p \<and> is_l4 p \<and> u16_at p 2 \<noteq> 0 \<and> unat (u16_at p 2) < ihl_of (p ! 0))
   \<and> (no_panic (recalcIPv4TransportChecksums p) \<longleftrightarrow> recalcIPv4TransportChecksums p \<noteq> Panicked SliceOutOfRange)"
proof -
  have "effective_total p < ihl_of (p ! 0) \<longleftrightarrow> u16_at p 2 \<noteq> 0 \<and> unat (u16_at p 2) < ihl_of (p ! 0)"
    if "valid_header p"
    using that by (auto simp: effective_total_def Let_def valid_header_def unat_eq_zero)
  moreover have "no_panic (recalcIPv4TransportChecksums p) \<longleftrightarrow>
      recalcIPv4TransportChecksums p \<noteq> Panicked SliceOutOfRange"
    using recalc_panic_kind [of p] by (cases "recalcIPv4TransportChecksums p") auto
  ultimately show ?thesis using recalc_panic_iff [of p] by blast
qed

text \<open>
  C23. A successful \<^verbatim>\<open>rewriteIPv4Source\<close> of a TCP or UDP packet gives the packet the new local
  address, keeps the remote address, both ports and the protocol of its flow key, and leaves both
  checksums valid.
\<close>

theorem rewriteIPv4Source_flow:
  assumes "rewriteIPv4Source p ip = Ok (q, None)" "parseIPv4Flow p True = Ok k"
    "length p \<le> 65535"
  shows "parseIPv4Flow q True = Ok (k\<lparr>LocalIP := the (To4 ip)\<rparr>) \<and> length q = length p
    \<and> checksums_valid q"
proof -
  obtain v where v: "To4 ip = Some v" "20 \<le> length p"
    "recalcIPv4TransportChecksums (copy_at p 12 v) = Ok (q, None)"
    using assms(1) by (auto simp: rewrite_success)
  have len: "length v = 4" "length (copy_at p 12 v) = length p"
    using v To4_length [of ip v] by simp_all
  have s: "same_but_sums (copy_at p 12 v) q" using v(3) by (rule recalc_same_but_sums)
  then show ?thesis
    using flow_same_but_sums [OF s flow_copy_source [OF assms(2) len(1)]] v len assms(3)
      recalc_checksums_valid [OF v(3)]
    by (simp add: same_but_sums_def)
qed

theorem rewriteIPv4Source_flow_witness:
  "rewriteIPv4Source udp_sample [10, 8, 0, 2] = Ok (udp_renamed, None)
   \<and> parseIPv4Flow udp_renamed True = Ok \<lparr>fkProtocol = 17, LocalIP = [10, 8, 0, 2],
       RemoteIP = [8, 8, 8, 8], LocalPort = 0xd431, RemotePort = 53\<rparr>
   \<and> checksums_valid udp_renamed"
proof -
  have r: "rewriteIPv4Source udp_sample [10, 8, 0, 2] = Ok (udp_renamed, None)" by code_simp
  have k: "parseIPv4Flow udp_sample True = Ok \<lparr>fkProtocol = 17, LocalIP = [192, 168, 1, 5],
       RemoteIP = [8, 8, 8, 8], LocalPort = 0xd431, RemotePort = 53\<rparr>" by code_simp
  have n: "length udp_sample \<le> 65535" by (simp add: udp_sample_def)
  have t: "the (To4 [10, 8, 0, 2]) = [10, 8, 0, 2]" by code_simp
  show ?thesis using rewriteIPv4Source_flow [OF r k n] r unfolding t by simp
qed

text \<open>
  C24. \<^verbatim>\<open>clampTCPMSS\<close> on a TCP SYN: it reports a change exactly when some MSS option exceeds the
  limit, every MSS option of the result is the minimum of the old value and the limit, every byte
  outside these options and the checksum fields is kept, and a changed packet has valid checksums.
\<close>

theorem clampTCPMSS_clamps:
  assumes "tcp_syn p" "clampTCPMSS p m = Ok (q, c, None)" "length p \<le> 65535"
  shows "c = (\<exists>x \<in> set (syn_mss p). u16_at p x > m)
    \<and> (\<forall>x \<in> set (syn_mss p). u16_at q x = min (u16_at p x) m)
    \<and> (\<forall>j < length p. j \<notin> checksum_bytes p \<longrightarrow> (\<forall>x \<in> set (syn_mss p). j \<noteq> x \<and> j \<noteq> x + 1)
        \<longrightarrow> q ! j = p ! j)
    \<and> (if c then checksums_valid q \<and> length q = length p else q = p)"
  using clamped_mss [OF assms] by blast

theorem clampTCPMSS_clamps_witness:
  "tcp_syn syn_sample \<and> clampTCPMSS syn_sample 1300 = Ok (syn_clamped, True, None)
   \<and> syn_mss syn_sample = [42] \<and> u16_at syn_sample 42 = 1460 \<and> u16_at syn_clamped 42 = 1300
   \<and> checksums_valid syn_clamped"
proof -
  have s: "tcp_syn syn_sample" by code_simp
  have r: "clampTCPMSS syn_sample 1300 = Ok (syn_clamped, True, None)" by code_simp
  have n: "length syn_sample \<le> 65535" by (simp add: syn_sample_def)
  have o42: "syn_mss syn_sample = [42]" "u16_at syn_sample 42 = 1460" by code_simp+
  show ?thesis using clampTCPMSS_clamps [OF s r n] s r o42 by simp
qed

end
