(* ===== verification/DataChannel.thy ===== *)
theory DataChannel
  imports Go_GCM
begin

text \<open>
  The data channel of \<^verbatim>\<open>datachannel.go\<close>: the packet format P_DATA_V2, its header and nonce, and
  sealing and opening a tunnelled packet.  The theorems rest on the interface \<open>aead\<close> of the GCM
  model through its interpretation \<open>gcm\<close>.
\<close>

section \<open>Operations\<close>

abbreviation (input) openVPNDataV2Opcode :: nat where "openVPNDataV2Opcode \<equiv> 9"
abbreviation (input) openVPNGCMTagSize :: nat where "openVPNGCMTagSize \<equiv> 16"

definition dataV2Header :: "u32 \<Rightarrow> byte \<Rightarrow> bytes result" where
  "dataV2Header peerID keyID =
     (if peerID > 0xFFFFFF then
        Error (Errorf ''peer-id %d exceeds 24 bits'' [ArgN (unat peerID)])
      else if keyID > 7 then
        Error (Errorf ''key-id %d exceeds 3 bits'' [ArgN (unat keyID)])
      else
        let v = push_bit 24 (push_bit 3 (of_nat openVPNDataV2Opcode) OR ucast keyID)
                OR (peerID AND 0xFFFFFF)
        in Ok (put32_be v))"

text \<open>
  \<^verbatim>\<open>aes.NewCipher\<close> accepts three key lengths, \<^verbatim>\<open>cipher.NewGCM\<close> wraps any cipher with 16-byte blocks,
  and the AEAD it returns reports a nonce size of 12 and an overhead of 16.  The AEAD value is
  represented by its key.
\<close>

definition aes_NewCipher :: "bytes \<Rightarrow> bytes result" where
  "aes_NewCipher key =
     (if length key \<in> {16, 24, 32} then Ok key
      else Error (Errorf ''crypto/aes: invalid key size '' [ArgN (length key)]))"

definition cipher_NewGCM :: "bytes \<Rightarrow> bytes result" where
  "cipher_NewGCM block = Ok block"

definition gcm_NonceSize :: "bytes \<Rightarrow> nat" where
  "gcm_NonceSize gcm = 12"

definition gcm_Overhead :: "bytes \<Rightarrow> nat" where
  "gcm_Overhead gcm = 16"

definition newOpenVPNGCM :: "bytes \<Rightarrow> bytes result" where
  "newOpenVPNGCM key =
     (if length key \<noteq> 32 then
        Error (Errorf ''AES-256-GCM requires 32-byte key, got %d'' [ArgN (length key)])
      else
        then_do (aes_NewCipher key) (\<lambda>block.
        then_do (cipher_NewGCM block) (\<lambda>gcm.
        if gcm_NonceSize gcm \<noteq> 12 \<or> gcm_Overhead gcm \<noteq> openVPNGCMTagSize then
          Error (Errorf ''unexpected GCM parameters nonce=%d tag=%d''
            [ArgN (gcm_NonceSize gcm), ArgN (gcm_Overhead gcm)])
        else Ok gcm)))"

definition openVPNGCMNonce :: "bytes \<Rightarrow> bytes \<Rightarrow> bytes result" where
  "openVPNGCMNonce packetID hmacKey =
     (if length hmacKey < 8 then Error (ErrorsNew ''implicit-IV source shorter than 8 bytes'')
      else
        then_do (slice_go hmacKey 0 8) (\<lambda>iv.
        Ok (copy_at (copy_at (replicate 12 0) 0 packetID) 4 iv)))"

definition encryptDataV2 ::
  "u32 \<Rightarrow> byte \<Rightarrow> u32 \<Rightarrow> bytes \<Rightarrow> bytes \<Rightarrow> bytes \<Rightarrow> bytes result" where
  "encryptDataV2 peerID keyID packetID aesKey hmacKey plaintext =
     (if packetID = 0 then Error (ErrorsNew ''packet-id 0 is not valid for data channel send'')
      else
        then_do (dataV2Header peerID keyID) (\<lambda>header.
        let pid = put32_be packetID in
        then_do (openVPNGCMNonce pid hmacKey) (\<lambda>nonce.
        then_do (newOpenVPNGCM aesKey) (\<lambda>gcm.
        let aad = header @ pid in
        then_do (gcmSeal gcm nonce plaintext aad) (\<lambda>sealed.
        if length sealed \<noteq> length plaintext + openVPNGCMTagSize then
          Error (ErrorsNew ''unexpected GCM sealed length'')
        else
          then_do (slice_go sealed (length plaintext) (length sealed)) (\<lambda>tag.
          then_do (slice_go sealed 0 (length plaintext)) (\<lambda>ciphertext.
          Ok (header @ pid @ tag @ ciphertext))))))))"

record decryptedDataV2 =
  dPeerID :: u32
  dKeyID :: byte
  dPacketID :: u32
  dPayload :: bytes

definition decryptDataV2 :: "bytes \<Rightarrow> bytes \<Rightarrow> bytes \<Rightarrow> decryptedDataV2 result" where
  "decryptDataV2 packet aesKey hmacKey =
     (if length packet < 4 + 4 + openVPNGCMTagSize + 1 then
        Error (Errorf ''P_DATA_V2 too short: %d'' [ArgN (length packet)])
      else
        then_do (index_go packet 0) (\<lambda>b0.
        if drop_bit 3 b0 \<noteq> of_nat openVPNDataV2Opcode then
          Error (Errorf ''not P_DATA_V2: opcode=%d'' [ArgN (unat (drop_bit 3 b0))])
        else
          then_do (index_go packet 1) (\<lambda>b1.
          then_do (index_go packet 2) (\<lambda>b2.
          then_do (index_go packet 3) (\<lambda>b3.
          let keyID = b0 AND 0x07;
              peerID = push_bit 16 (ucast b1) OR push_bit 8 (ucast b2) OR ucast b3 in
          then_do (slice_go packet 4 8) (\<lambda>pid.
          then_do (uint32_be pid) (\<lambda>packetID.
          if packetID = 0 then Error (ErrorsNew ''received data packet-id 0'')
          else
            then_do (openVPNGCMNonce pid hmacKey) (\<lambda>nonce.
            then_do (newOpenVPNGCM aesKey) (\<lambda>gcm.
            then_do (slice_go packet 0 8) (\<lambda>aad.
            then_do (slice_go packet 8 24) (\<lambda>tag.
            then_do (slice_go packet 24 (length packet)) (\<lambda>ciphertext.
            then_do (on_error (gcmOpen gcm nonce (ciphertext @ tag) aad)
                (\<lambda>err. Wrapf ''AES-GCM authentication: %w'' err)) (\<lambda>plaintext.
            Ok \<lparr>dPeerID = peerID, dKeyID = keyID, dPacketID = packetID,
                dPayload = plaintext\<rparr>)))))))))))))"

section \<open>The header and the nonce\<close>

definition header_word :: "u32 \<Rightarrow> byte \<Rightarrow> u32" where
  "header_word peerID keyID = push_bit 24 (push_bit 3 9 OR ucast keyID) OR (peerID AND 0xFFFFFF)"

lemma dataV2Header_Ok_iff:
  "dataV2Header peerID keyID = Ok h \<longleftrightarrow>
     peerID \<le> 0xFFFFFF \<and> keyID \<le> 7 \<and> h = put32_be (header_word peerID keyID)"
  by (auto simp: dataV2Header_def header_word_def Let_def)

lemma header_bytes:
  "put32_be (header_word peerID keyID) =
     [72 OR keyID, ucast (drop_bit 16 peerID), ucast (drop_bit 8 peerID), ucast peerID]"
proof -
  define c where "c = (72 :: u32) OR ucast keyID"
  have v: "header_word peerID keyID = push_bit 24 c OR take_bit 24 peerID"
    by (simp add: header_word_def c_def take_bit_eq_mask mask_eq_decr_exp)
  have c: "(ucast c :: byte) = 72 OR keyID"
    unfolding c_def by (rule bit_word_eqI) (auto simp: bit_simps bit_numeral_rec)
  have "(ucast (drop_bit 24 (header_word peerID keyID)) :: byte) = ucast c"
    "(ucast (drop_bit 16 (header_word peerID keyID)) :: byte) = ucast (drop_bit 16 peerID)"
    "(ucast (drop_bit 8 (header_word peerID keyID)) :: byte) = ucast (drop_bit 8 peerID)"
    "(ucast (header_word peerID keyID) :: byte) = ucast peerID"
    unfolding v by (rule bit_word_eqI; auto simp: bit_simps)+
  then show ?thesis by (simp add: put32_be_def c)
qed

lemma opcode_of_header:
  assumes "keyID \<le> (7 :: byte)"
  shows "drop_bit 3 (72 OR keyID) = 9" "(72 OR keyID) AND 7 = keyID"
proof -
  have k: "take_bit 3 keyID = keyID"
    using assms by (intro take_bit_word_self) (simp add: word_le_nat_alt)
  have "drop_bit 3 keyID = 0" by (subst k [symmetric]) (simp add: drop_bit_take_bit)
  then show "drop_bit 3 (72 OR keyID) = 9" by (simp add: drop_bit_or)
  have "(72 OR keyID) AND 7 = take_bit 3 (72 OR keyID)" by (simp add: take_bit_eq_mask mask_eq_decr_exp)
  then show "(72 OR keyID) AND 7 = keyID" by (simp add: k)
qed

lemma header_of_opcode:
  assumes "drop_bit 3 b0 = (9 :: byte)"
  shows "b0 = 72 OR (b0 AND 7)" "b0 AND 7 \<le> 7"
proof -
  have "b0 = push_bit 3 (drop_bit 3 b0) OR take_bit 3 b0"
    by (rule bit_word_eqI) (auto simp: bit_simps)
  moreover have "take_bit 3 b0 = b0 AND 7" by (simp add: take_bit_eq_mask mask_eq_decr_exp)
  ultimately show "b0 = 72 OR (b0 AND 7)" using assms by simp
  show "b0 AND 7 \<le> 7" by (rule word_and_le1)
qed

definition peer_of :: "byte \<Rightarrow> byte \<Rightarrow> byte \<Rightarrow> u32" where
  "peer_of b1 b2 b3 = push_bit 16 (ucast b1) OR push_bit 8 (ucast b2) OR ucast b3"

lemma peer_of_split:
  assumes "peerID \<le> 0xFFFFFF"
  shows "peer_of (ucast (drop_bit 16 peerID)) (ucast (drop_bit 8 peerID)) (ucast peerID) = peerID"
proof -
  have p: "take_bit 24 peerID = peerID"
    using assms by (intro take_bit_word_self) (simp add: word_le_nat_alt)
  have "peer_of (ucast (drop_bit 16 peerID)) (ucast (drop_bit 8 peerID)) (ucast peerID)
      = take_bit 24 peerID"
  proof (rule bit_word_eqI)
    fix n assume "n < LENGTH(32)"
    then show "bit (peer_of (ucast (drop_bit 16 peerID)) (ucast (drop_bit 8 peerID)) (ucast peerID)) n
        = bit (take_bit 24 peerID) n"
      unfolding peer_of_def by (cases "n < 8"; cases "n < 16"; cases "n < 24") (auto simp: bit_simps)
  qed
  with p show ?thesis by simp
qed

lemma peer_of_inverse:
  "ucast (drop_bit 16 (peer_of b1 b2 b3)) = b1" "ucast (drop_bit 8 (peer_of b1 b2 b3)) = b2"
  "ucast (peer_of b1 b2 b3) = b3"
  unfolding peer_of_def
  by (rule bit_word_eqI; auto simp: bit_simps dest: bit_imp_le_length)+

lemma peer_of_bound: "peer_of b1 b2 b3 \<le> 0xFFFFFF"
proof -
  have "peer_of b1 b2 b3 = take_bit 24 (peer_of b1 b2 b3)"
    unfolding peer_of_def by (rule bit_word_eqI) (auto simp: bit_simps dest: bit_imp_le_length)
  also have "\<dots> = peer_of b1 b2 b3 AND 0xFFFFFF" by (simp add: take_bit_eq_mask mask_eq_decr_exp)
  also have "\<dots> \<le> 0xFFFFFF" by (rule word_and_le1)
  finally show ?thesis .
qed

lemma openVPNGCMNonce_Ok_iff:
  "length pid = 4 \<Longrightarrow> openVPNGCMNonce pid h = Ok n \<longleftrightarrow> 8 \<le> length h \<and> n = pid @ take 8 h"
  by (auto simp: openVPNGCMNonce_def copy_at_def)

lemma newOpenVPNGCM_Ok_iff: "newOpenVPNGCM k = Ok g \<longleftrightarrow> length k = 32 \<and> g = k"
  by (auto simp: newOpenVPNGCM_def aes_NewCipher_def cipher_NewGCM_def gcm_NonceSize_def
      gcm_Overhead_def)

section \<open>Closed forms\<close>

lemma encryptDataV2_Ok_iff:
  "encryptDataV2 peerID keyID packetID k h pt = Ok pkt \<longleftrightarrow>
     packetID \<noteq> 0 \<and> peerID \<le> 0xFFFFFF \<and> keyID \<le> 7 \<and> 8 \<le> length h \<and> length k = 32
     \<and> (\<exists>s. gcmSeal k (put32_be packetID @ take 8 h) pt
              (put32_be (header_word peerID keyID) @ put32_be packetID) = Ok s
          \<and> pkt = put32_be (header_word peerID keyID) @ put32_be packetID
                   @ drop (length pt) s @ take (length pt) s)"
    (is "?l = ?r")
proof
  assume ?r
  then show ?l
    by (auto simp: encryptDataV2_def Let_def then_do_Ok_iff dataV2Header_Ok_iff
        openVPNGCMNonce_Ok_iff newOpenVPNGCM_Ok_iff dest: gcm.sealed_length)
qed (auto simp: encryptDataV2_def Let_def then_do_Ok_iff dataV2Header_Ok_iff
        openVPNGCMNonce_Ok_iff newOpenVPNGCM_Ok_iff split: if_splits)

lemma decryptDataV2_Ok_iff:
  "decryptDataV2 packet k h = Ok d \<longleftrightarrow>
     25 \<le> length packet \<and> drop_bit 3 (packet ! 0) = 9 \<and> u32_at packet 4 \<noteq> 0
     \<and> 8 \<le> length h \<and> length k = 32
     \<and> gcmOpen k (take 4 (drop 4 packet) @ take 8 h) (drop 24 packet @ take 16 (drop 8 packet))
          (take 8 packet) = Ok (dPayload d)
     \<and> d = \<lparr>dPeerID = peer_of (packet ! 1) (packet ! 2) (packet ! 3), dKeyID = packet ! 0 AND 7,
            dPacketID = u32_at packet 4, dPayload = dPayload d\<rparr>"
proof (cases "25 \<le> length packet")
  case True
  then have "packet \<noteq> []" by auto
  with True show ?thesis
    by (auto simp: decryptDataV2_def Let_def then_do_Ok_iff openVPNGCMNonce_Ok_iff
        newOpenVPNGCM_Ok_iff uint_be_at peer_of_def split: if_splits)
qed (auto simp: decryptDataV2_def)


section \<open>Properties\<close>

lemma decryptDataV2_total: "no_panic (decryptDataV2 packet k h)"
proof (cases "25 \<le> length packet")
  case True
  then have "packet \<noteq> []" by auto
  with True show ?thesis
    by (auto simp: decryptDataV2_def openVPNGCMNonce_def newOpenVPNGCM_def aes_NewCipher_def cipher_NewGCM_def
        gcmOpen_def Let_def uint_be_at split: if_splits intro!: no_panic_then_do)
qed (auto simp: decryptDataV2_def)

lemma encrypt_total:
  assumes "packetID \<noteq> 0" "peerID \<le> 0xFFFFFF" "keyID \<le> 7" "8 \<le> length h" "length k = 32"
    "int (length pt) \<le> gcm_max"
  shows "\<exists>pkt. encryptDataV2 peerID keyID packetID k h pt = Ok pkt"
  using gcm.seal_total [of k "put32_be packetID @ take 8 h" pt] assms
  by (fastforce simp: encryptDataV2_Ok_iff)

lemma encrypt_length:
  "encryptDataV2 peerID keyID packetID k h pt = Ok pkt \<Longrightarrow> length pkt = 24 + length pt"
  by (auto simp: encryptDataV2_Ok_iff dest: gcm.sealed_length)

lemma decrypt_encrypt:
  assumes "encryptDataV2 peerID keyID packetID k h pt = Ok pkt" "pt \<noteq> []"
  shows "decryptDataV2 pkt k h =
    Ok \<lparr>dPeerID = peerID, dKeyID = keyID, dPacketID = packetID, dPayload = pt\<rparr>"
proof -
  let ?hd = "put32_be (header_word peerID keyID)" and ?pid = "put32_be packetID"
  obtain s where ok: "packetID \<noteq> 0" "peerID \<le> 0xFFFFFF" "keyID \<le> 7" "8 \<le> length h" "length k = 32"
    and s: "gcmSeal k (?pid @ take 8 h) pt (?hd @ ?pid) = Ok s"
    and pkt: "pkt = ?hd @ ?pid @ drop (length pt) s @ take (length pt) s"
    using assms(1) by (auto simp: encryptDataV2_Ok_iff)
  note fr = gcm.reframe [OF ok(5) s refl refl]
  have b: "pkt ! 0 = 72 OR keyID" "pkt ! 1 = ucast (drop_bit 16 peerID)"
    "pkt ! 2 = ucast (drop_bit 8 peerID)" "pkt ! 3 = ucast peerID"
    by (simp_all add: pkt header_bytes)
  have "length pkt = 24 + length pt" using fr(2,3) by (simp add: pkt)
  moreover have "1 \<le> length pt" using assms(2) by (cases pt) auto
  ultimately have "25 \<le> length pkt" by linarith
  moreover have "take 4 (drop 4 pkt) = ?pid" "take 8 pkt = ?hd @ ?pid"
    "take 16 (drop 8 pkt) = drop (length pt) s" "drop 24 pkt = take (length pt) s"
    using fr(2,3) by (simp_all add: pkt)
  moreover have "u32_at pkt 4 = packetID" unfolding pkt by (rule u32_at_put) simp
  moreover have "drop_bit 3 (pkt ! 0) = 9" "pkt ! 0 AND 7 = keyID"
    "peer_of (pkt ! 1) (pkt ! 2) (pkt ! 3) = peerID"
    by (simp_all only: b opcode_of_header [OF ok(3)] peer_of_split [OF ok(2)])
  ultimately show ?thesis
    unfolding decryptDataV2_Ok_iff using ok fr(1) by simp
qed

lemma encrypt_decrypt:
  assumes "decryptDataV2 pkt k h = Ok d"
  shows "encryptDataV2 (dPeerID d) (dKeyID d) (dPacketID d) k h (dPayload d) = Ok pkt"
proof -
  have len: "25 \<le> length pkt" "8 \<le> length h" "length k = 32" and op: "drop_bit 3 (pkt ! 0) = 9"
    and pid: "u32_at pkt 4 \<noteq> 0"
    and opn: "gcmOpen k (take 4 (drop 4 pkt) @ take 8 h) (drop 24 pkt @ take 16 (drop 8 pkt))
          (take 8 pkt) = Ok (dPayload d)"
    and d: "dPeerID d = peer_of (pkt ! 1) (pkt ! 2) (pkt ! 3)" "dKeyID d = pkt ! 0 AND 7"
      "dPacketID d = u32_at pkt 4"
    using assms unfolding decryptDataV2_Ok_iff by (auto dest: arg_cong [of _ _ dPeerID]
      arg_cong [of _ _ dKeyID] arg_cong [of _ _ dPacketID])
  have pidb: "put32_be (u32_at pkt 4) = take 4 (drop 4 pkt)" using len by (simp add: put_be_at)
  have "put32_be (header_word (dPeerID d) (dKeyID d)) = take 4 (drop 0 pkt)"
    using len header_of_opcode [OF op]
    by (simp add: header_bytes d peer_of_inverse take4_drop [of 0, simplified] numeral_2_eq_2)
  then have hd: "put32_be (header_word (dPeerID d) (dKeyID d)) @ put32_be (u32_at pkt 4) = take 8 pkt"
    using len by (simp add: pidb take_add [of 4 4 pkt, simplified])
  have "length (take 16 (drop 8 pkt)) = 16" using len by simp
  note un = gcm.unframe [OF len(3) opn this]
  have "pkt = take 8 pkt @ take 16 (drop 8 pkt) @ drop 24 pkt"
    using take_drop_join [of 16 8 pkt] append_take_drop_id [of 8 pkt] by simp
  then have "pkt = put32_be (header_word (dPeerID d) (dKeyID d)) @ put32_be (dPacketID d)
      @ take 16 (drop 8 pkt) @ drop 24 pkt"
    unfolding append_assoc [symmetric] d(3) hd .
  then show ?thesis
    using len pid un hd header_of_opcode(2) [OF op]
    unfolding encryptDataV2_Ok_iff d pidb by (auto simp: peer_of_bound)
qed


text \<open>
  C1. Sealing a packet for the tunnel succeeds for every peer id of 24 bits, key id of 3 bits,
  packet id other than 0, 32-byte key, HMAC key of at least 8 bytes and payload GCM accepts, and
  \<^verbatim>\<open>decryptDataV2\<close> with the same keys returns exactly the peer id, key id, packet id and payload.
  An empty payload is the one exception: its 24 bytes are refused as too short.
\<close>

theorem dataV2_roundtrip:
  assumes "packetID \<noteq> 0" "peerID \<le> 0xFFFFFF" "keyID \<le> 7" "8 \<le> length h" "length k = 32"
    "int (length pt) \<le> gcm_max"
  shows "\<exists>pkt. encryptDataV2 peerID keyID packetID k h pt = Ok pkt
    \<and> length pkt = 24 + length pt
    \<and> decryptDataV2 pkt k h =
        (if pt = [] then Error (Errorf ''P_DATA_V2 too short: %d'' [ArgN 24])
         else Ok \<lparr>dPeerID = peerID, dKeyID = keyID, dPacketID = packetID, dPayload = pt\<rparr>)"
proof -
  obtain pkt where pkt: "encryptDataV2 peerID keyID packetID k h pt = Ok pkt"
    using encrypt_total [OF assms] by blast
  have "length pkt = 24 + length pt"
    using encrypt_length [OF pkt] .
  then show ?thesis
    using pkt decrypt_encrypt [OF pkt] by (cases "pt = []") (auto simp: decryptDataV2_def)
qed

theorem dataV2_roundtrip_witness:
  "\<exists>pkt. encryptDataV2 327 0 1 (replicate 32 7) (replicate 64 9) [0x45, 0, 0, 20] = Ok pkt
    \<and> length pkt = 28
    \<and> decryptDataV2 pkt (replicate 32 7) (replicate 64 9) =
        Ok \<lparr>dPeerID = 327, dKeyID = 0, dPacketID = 1, dPayload = [0x45, 0, 0, 20]\<rparr>"
  using dataV2_roundtrip [of 1 327 0 "replicate 64 9" "replicate 32 7" "[0x45, 0, 0, 20]"]
  by (simp add: gcm_max_def)

text \<open>
  \<^verbatim>\<open>decryptDataV2\<close> accepts no second encoding: a packet it accepts is bit for bit the packet
  \<^verbatim>\<open>encryptDataV2\<close> builds from the peer id, key id, packet id and payload it reports.
\<close>

theorem decryptDataV2_canonical:
  assumes "decryptDataV2 pkt k h = Ok d"
  shows "encryptDataV2 (dPeerID d) (dKeyID d) (dPacketID d) k h (dPayload d) = Ok pkt
    \<and> dPacketID d \<noteq> 0 \<and> dPeerID d \<le> 0xFFFFFF \<and> dKeyID d \<le> 7 \<and> dPayload d \<noteq> []"
proof -
  have e: "encryptDataV2 (dPeerID d) (dKeyID d) (dPacketID d) k h (dPayload d) = Ok pkt"
    by (rule encrypt_decrypt [OF assms])
  moreover have "25 \<le> length pkt" using assms by (simp add: decryptDataV2_Ok_iff)
  ultimately show ?thesis
    using encrypt_length [OF e] by (auto simp: encryptDataV2_Ok_iff)
qed

theorem decryptDataV2_canonical_witness:
  "\<exists>pkt d. decryptDataV2 pkt (replicate 32 7) (replicate 64 9) = Ok d
    \<and> d = \<lparr>dPeerID = 327, dKeyID = 0, dPacketID = 1, dPayload = [0x45, 0, 0, 20]\<rparr>
    \<and> encryptDataV2 (dPeerID d) (dKeyID d) (dPacketID d) (replicate 32 7) (replicate 64 9) (dPayload d) = Ok pkt"
proof -
  obtain pkt where "encryptDataV2 327 0 1 (replicate 32 7) (replicate 64 9) [0x45, 0, 0, 20] = Ok pkt"
    using encrypt_total [of 1 327 0 "replicate 64 9" "replicate 32 7" "[0x45, 0, 0, 20]"]
    by (auto simp: gcm_max_def)
  then have d: "decryptDataV2 pkt (replicate 32 7) (replicate 64 9) =
      Ok \<lparr>dPeerID = 327, dKeyID = 0, dPacketID = 1, dPayload = [0x45, 0, 0, 20]\<rparr>"
    by (rule decrypt_encrypt) simp
  then show ?thesis using decryptDataV2_canonical [OF d] by blast
qed

text \<open>
  Under one HMAC key the GCM nonce determines the packet id: two packets with different
  packet ids never share a nonce.
\<close>

theorem openVPNGCMNonce_injective:
  assumes "openVPNGCMNonce (put32_be a) h = Ok n" "openVPNGCMNonce (put32_be b) h = Ok n"
  shows "a = b \<and> length n = 12"
  using assms by (simp add: openVPNGCMNonce_Ok_iff)

theorem openVPNGCMNonce_injective_witness:
  "openVPNGCMNonce (put32_be 5) (replicate 8 1) = Ok [0, 0, 0, 5, 1, 1, 1, 1, 1, 1, 1, 1]
   \<and> length [0, 0, 0, 5, 1, 1, 1, 1, 1, 1, 1, 1 :: byte] = 12"
proof -
  have n: "openVPNGCMNonce (put32_be 5) (replicate 8 1) = Ok [0, 0, 0, 5, 1, 1, 1, 1, 1, 1, 1, 1]"
    by code_simp
  show ?thesis using openVPNGCMNonce_injective [OF n n] n by simp
qed

end
