(* ===== verification/DataProbe.thy ===== *)
theory DataProbe
  imports PushReply PacketNAT DataChannel
begin

text \<open>
  The data-channel probe of \<^verbatim>\<open>dataprobe.go\<close>: building a DNS query and the IPv4/UDP packet around it,
  recognising the reply, and the loop that waits for it among the datagrams of the socket.
\<close>

section \<open>Building the query\<close>

primrec appendLabels :: "string list \<Rightarrow> bytes \<Rightarrow> bytes result" where
  "appendLabels [] msg = Ok msg"
| "appendLabels (label # labels) msg =
     (if length label = 0 \<or> length label > 63 then
        Error (Errorf ''invalid DNS label %q'' [ArgS label])
      else appendLabels labels (msg @ [of_nat (length label)] @ bytes_of_string label))"

definition buildDNSQuery :: "bytes result \<Rightarrow> string \<Rightarrow> (bytes \<times> u16) result" where
  "buildDNSQuery rand name =
     then_do rand (\<lambda>idbuf.
     then_do (uint16_be idbuf) (\<lambda>t.
     let txid = (if t = 0 then 1 else t) in
     then_do (put16_at (replicate 12 0) 0 txid) (\<lambda>msg.
     then_do (put16_at msg 2 0x0100) (\<lambda>msg.
     then_do (put16_at msg 4 1) (\<lambda>msg.
     then_do (appendLabels (Split_char (TrimSuffix name ''.'') (CHR ''.'')) msg) (\<lambda>msg.
     Ok (msg @ [0] @ put16_be 1 @ put16_be 1, txid)))))))"

definition buildIPv4UDP ::
  "bytes \<Rightarrow> bytes \<Rightarrow> u16 \<Rightarrow> u16 \<Rightarrow> bytes \<Rightarrow> u16 \<Rightarrow> bytes result" where
  "buildIPv4UDP src dst srcPort dstPort payload ipID =
     (case (To4 src, To4 dst) of
        (Some src4, Some dst4) \<Rightarrow>
          (let udpLen = 8 + length payload; totalLen = 20 + udpLen in
           if totalLen > 65535 then Error (ErrorsNew ''packet too large'')
           else
             then_do (set_go (replicate totalLen 0) 0 0x45) (\<lambda>pkt.
             then_do (set_go pkt 1 0) (\<lambda>pkt.
             then_do (put16_at pkt 2 (of_nat totalLen)) (\<lambda>pkt.
             then_do (put16_at pkt 4 ipID) (\<lambda>pkt.
             then_do (put16_at pkt 6 0x4000) (\<lambda>pkt.
             then_do (set_go pkt 8 64) (\<lambda>pkt.
             then_do (set_go pkt 9 17) (\<lambda>pkt.
             let pkt = copy_at (copy_at pkt 12 src4) 16 dst4 in
             then_do (slice_go pkt 0 20) (\<lambda>hdr.
             then_do (put16_at pkt 10 (checksum16 hdr)) (\<lambda>pkt.
             then_do (put16_at pkt 20 srcPort) (\<lambda>pkt.
             then_do (put16_at pkt 22 dstPort) (\<lambda>pkt.
             then_do (put16_at pkt 24 (of_nat udpLen)) (\<lambda>pkt.
             then_do (put16_at pkt 26 0) (\<lambda>pkt.
             Ok (copy_at pkt 28 payload)))))))))))))))
      | _ \<Rightarrow> Error (ErrorsNew ''IPv4 packet requires IPv4 addresses''))"

section \<open>Recognising the reply\<close>

record dnsReplyProof =
  SourceIP :: bytes
  SourcePort :: u16
  DestPort :: u16
  TxID :: u16
  RCode :: byte
  Answers :: u16

definition checkDNSReply :: "dnsReplyProof \<Rightarrow> u16 \<Rightarrow> u16 \<Rightarrow> u16 \<Rightarrow> dnsReplyProof result" where
  "checkDNSReply p flags wantTxID wantDestPort =
     (if SourcePort p \<noteq> 53 then
        Error (Errorf ''response source port %d is not DNS'' [ArgN (unat (SourcePort p))])
      else if DestPort p \<noteq> wantDestPort then
        Error (Errorf ''response destination port %d != %d''
          [ArgN (unat (DestPort p)), ArgN (unat wantDestPort)])
      else if TxID p \<noteq> wantTxID then
        Error (Errorf ''DNS transaction %d != %d'' [ArgN (unat (TxID p)), ArgN (unat wantTxID)])
      else if flags AND 0x8000 = 0 then Error (ErrorsNew ''DNS packet is not a response'')
      else Ok p)"

definition parseUDPDNS :: "bytes \<Rightarrow> bytes \<Rightarrow> u16 \<Rightarrow> u16 \<Rightarrow> dnsReplyProof result" where
  "parseUDPDNS sourceIP udp wantTxID wantDestPort =
     then_do (slice_go udp 0 2) (\<lambda>w.
     then_do (uint16_be w) (\<lambda>sourcePort.
     then_do (slice_go udp 2 4) (\<lambda>w.
     then_do (uint16_be w) (\<lambda>destPort.
     then_do (slice_go udp 4 6) (\<lambda>w.
     then_do (uint16_be w) (\<lambda>l.
     let udpLen = unat l in
     if udpLen < 8 + 12 \<or> udpLen > length udp then
       Error (ErrorsNew ''invalid UDP length/DNS payload'')
     else
       then_do (slice_go udp 8 udpLen) (\<lambda>dns.
       then_do (slice_go dns 0 2) (\<lambda>w.
       then_do (uint16_be w) (\<lambda>txid.
       then_do (slice_go dns 2 4) (\<lambda>w.
       then_do (uint16_be w) (\<lambda>flags.
       then_do (slice_go dns 6 8) (\<lambda>w.
       then_do (uint16_be w) (\<lambda>answers.
       checkDNSReply
         \<lparr>SourceIP = sourceIP, SourcePort = sourcePort, DestPort = destPort, TxID = txid,
          RCode = ucast (flags AND 0x0f), Answers = answers\<rparr> flags wantTxID wantDestPort)))))))))))))"

definition parseIPv4DNSReply :: "bytes \<Rightarrow> u16 \<Rightarrow> u16 \<Rightarrow> dnsReplyProof result" where
  "parseIPv4DNSReply pkt wantTxID wantDestPort =
     (if length pkt < 28 then Error (ErrorsNew ''not an IPv4 packet'')
      else
        then_do (index_go pkt 0) (\<lambda>b0.
        if drop_bit 4 b0 \<noteq> 4 then Error (ErrorsNew ''not an IPv4 packet'')
        else
          let ihl = ihl_of b0 in
          if ihl < 20 \<or> length pkt < ihl + 8 then Error (ErrorsNew ''invalid IPv4 header length'')
          else
            then_do (slice_go pkt 2 4) (\<lambda>w.
            then_do (uint16_be w) (\<lambda>t.
            let totalLen = unat t in
            if totalLen < ihl + 8 \<or> totalLen > length pkt then
              Error (ErrorsNew ''invalid IPv4 total length'')
            else
              then_do (index_go pkt 9) (\<lambda>proto.
              if proto \<noteq> 17 then Error (ErrorsNew ''not UDP'')
              else
                then_do (index_go pkt 12) (\<lambda>a.
                then_do (index_go pkt 13) (\<lambda>b.
                then_do (index_go pkt 14) (\<lambda>c.
                then_do (index_go pkt 15) (\<lambda>d.
                then_do (slice_go pkt ihl totalLen) (\<lambda>udp.
                parseUDPDNS (IPv4 a b c d) udp wantTxID wantDestPort))))))))))"

section \<open>Waiting for the reply\<close>

text \<open>
  The receive loop of \<^verbatim>\<open>cmdDataProbe\<close>: \<open>n\<close> of its 40 iterations are left, \<open>reads\<close> is what the following
  reads of the socket return, \<open>failures\<close> counts packets that fail to authenticate.  A reader that
  is used up returns \<open>endErr\<close>.
\<close>

fun awaitReply ::
  "go_error \<Rightarrow> dataKeyBlock \<Rightarrow> u16 \<Rightarrow> u16 \<Rightarrow> nat \<Rightarrow> nat \<Rightarrow> bytes result list
    \<Rightarrow> (decryptedDataV2 \<times> dnsReplyProof) result" where
  "awaitReply endErr keys txid srcPort failures 0 reads =
     Error (Errorf ''no matching DNS reply decrypted (GCM failures=%d)'' [ArgN failures])"
| "awaitReply endErr keys txid srcPort failures (Suc n) [] =
     Error (Wrapf ''wait data-channel DNS reply: %w'' endErr)"
| "awaitReply endErr keys txid srcPort failures (Suc n) (rd # reads) =
     match_err rd (\<lambda>err. Error (Wrapf ''wait data-channel DNS reply: %w'' err)) (\<lambda>dgram.
     let buf = take 65535 dgram in
     if length buf < 1 \<or> drop_bit 3 (buf ! 0) \<noteq> 9 then
       awaitReply endErr keys txid srcPort failures n reads
     else
       match_err (decryptDataV2 buf (take 32 (ServerCipher keys)) (ServerHMAC keys))
         (\<lambda>err. awaitReply endErr keys txid srcPort (failures + 1) n reads) (\<lambda>dec.
       if length (dPayload dec) = 0 \<or> drop_bit 4 (dPayload dec ! 0) \<noteq> 4 then
         awaitReply endErr keys txid srcPort failures n reads
       else
         match_err (parseIPv4DNSReply (dPayload dec) txid srcPort)
           (\<lambda>err. awaitReply endErr keys txid srcPort failures n reads) (\<lambda>p.
         if TxID p = 0 then
           Error (Errorf ''no matching DNS reply decrypted (GCM failures=%d)'' [ArgN failures])
         else Ok (dec, p))))"

section \<open>The packet that is built\<close>

definition udp_header :: "bytes \<Rightarrow> bytes \<Rightarrow> u16 \<Rightarrow> u16 \<Rightarrow> nat \<Rightarrow> bytes" where
  "udp_header src4 dst4 ipID sum0 n =
     [0x45, 0] @ put16_be (of_nat (28 + n)) @ put16_be ipID @ [0x40, 0, 64, 17] @ put16_be sum0
     @ src4 @ dst4"

definition udp_packet :: "bytes \<Rightarrow> bytes \<Rightarrow> u16 \<Rightarrow> u16 \<Rightarrow> bytes \<Rightarrow> u16 \<Rightarrow> bytes" where
  "udp_packet src4 dst4 srcPort dstPort payload ipID =
     udp_header src4 dst4 ipID (checksum16 (udp_header src4 dst4 ipID 0 (length payload))) (length payload)
     @ put16_be srcPort @ put16_be dstPort @ put16_be (of_nat (8 + length payload)) @ [0, 0] @ payload"

lemma list4: "length v = 4 \<Longrightarrow> \<exists>a b c d. v = [a, b, c, d]"
  by (auto simp: numeral_eq_Suc length_Suc_conv)

lemma buildIPv4UDP_eq:
  assumes "To4 src = Some src4" "To4 dst = Some dst4" "length payload \<le> 65507"
  shows "buildIPv4UDP src dst srcPort dstPort payload ipID =
     Ok (udp_packet src4 dst4 srcPort dstPort payload ipID)"
proof -
  obtain a b c d where s: "src4 = [a, b, c, d]" using list4 To4_length [OF assms(1)] by blast
  obtain e f g h where t: "dst4 = [e, f, g, h]" using list4 To4_length [OF assms(2)] by blast
  have "replicate 28 (0 :: byte) =
      [0, 0, 0, 0, 0, 0, 0, 0, 0, 0, 0, 0, 0, 0, 0, 0, 0, 0, 0, 0, 0, 0, 0, 0, 0, 0, 0, 0]"
    by code_simp
  then have z: "replicate (28 + length payload) (0 :: byte) =
      [0, 0, 0, 0, 0, 0, 0, 0, 0, 0, 0, 0, 0, 0, 0, 0, 0, 0, 0, 0, 0, 0, 0, 0, 0, 0, 0, 0]
      @ replicate (length payload) 0"
    by (simp only: replicate_add)
  have sixteen: "(16384 :: byte) = 0" by simp
  have n: "\<not> 20 + (8 + length payload) > 65535" "20 + (8 + length payload) = 28 + length payload"
    using assms(3) by simp_all
  show ?thesis
    unfolding buildIPv4UDP_def assms(1,2) prod.case option.case Let_def n(2)
    using assms(3)
    by (simp add: z s t copy_at_def udp_packet_def udp_header_def put16_be_def sixteen)
qed

lemma header_checksum_pad:
  "even (length a) \<Longrightarrow> a @ put16_be v @ b = set16 (a @ put16_be 0 @ b) (length a) v"
  by (subst set16_split) auto

lemma udp_header_valid:
  assumes "length src4 = 4" "length dst4 = 4"
  shows "finishChecksum (checksumWords
    (udp_header src4 dst4 ipID (checksum16 (udp_header src4 dst4 ipID 0 n)) n) 0) = 0"
proof -
  let ?p = "udp_header src4 dst4 ipID 0 n"
  have shape: "udp_header src4 dst4 ipID v n = set16 ?p 10 v" for v
    using header_checksum_pad [of "[0x45, 0] @ put16_be (of_nat (28 + n)) @ put16_be ipID @ [0x40, 0, 64, 17]" v "src4 @ dst4"]
    by (simp add: udp_header_def)
  have len: "length ?p = 20" using assms by (simp add: udp_header_def)
  have "?p = set16 ?p 10 0" by (rule shape)
  then have "checksum16 ?p = finishChecksum (checksumWords (set16 ?p 10 0) 0)"
    by (simp add: checksum16_def finishChecksum_def)
  then show ?thesis
    unfolding shape [of "checksum16 ?p"] using len by (intro checksum_field_valid) auto
qed

lemma length_udp_packet:
  "length src4 = 4 \<Longrightarrow> length dst4 = 4 \<Longrightarrow> length (udp_packet src4 dst4 sp dp payload ipID) = 28 + length payload"
  by (simp add: udp_packet_def udp_header_def)

lemma udp_packet_fields:
  assumes "length src4 = 4" "length dst4 = 4" "length payload \<le> 65507"
    and pkt_def: "pkt = udp_packet src4 dst4 sp dp payload ipID"
  shows "pkt ! 0 = 0x45" "pkt ! 9 = 17" "take 4 (drop 12 pkt) = src4" "take 4 (drop 16 pkt) = dst4"
    "unat (u16_at pkt 2) = 28 + length payload" "u16_at pkt 20 = sp" "u16_at pkt 22 = dp"
    "unat (u16_at pkt 24) = 8 + length payload" "drop 28 pkt = payload"
proof -
  obtain a b c d where s: "src4 = [a, b, c, d]" using list4 assms(1) by blast
  obtain e f g h where t: "dst4 = [e, f, g, h]" using list4 assms(2) by blast
  note unf = pkt_def udp_packet_def udp_header_def s t put16_be_def u16_at_def
  show "pkt ! 0 = 0x45" "pkt ! 9 = 17" "take 4 (drop 12 pkt) = src4" "take 4 (drop 16 pkt) = dst4"
    "u16_at pkt 20 = sp" "u16_at pkt 22 = dp" "drop 28 pkt = payload"
    by (simp_all add: unf)
  have "unat (of_nat (28 + length payload) :: u16) = 28 + length payload"
    "unat (of_nat (8 + length payload) :: u16) = 8 + length payload"
    using assms(3) by (simp_all add: unat_of_nat del: of_nat_add)
  then show "unat (u16_at pkt 2) = 28 + length payload" "unat (u16_at pkt 24) = 8 + length payload"
    by (simp_all add: unf)
qed

lemma ihl_45: "ihl_of 0x45 = 20" "drop_bit 4 (0x45 :: byte) = 4"
  by (simp_all add: ihl_of_def)

section \<open>Reading replies\<close>

lemma parseUDPDNS_eq:
  assumes "8 \<le> length udp"
  shows "parseUDPDNS ip udp wantTxID wantDestPort =
     (if unat (u16_at udp 4) < 20 \<or> unat (u16_at udp 4) > length udp then
        Error (ErrorsNew ''invalid UDP length/DNS payload'')
      else checkDNSReply
        \<lparr>SourceIP = ip, SourcePort = u16_at udp 0, DestPort = u16_at udp 2, TxID = u16_at udp 8,
         RCode = ucast (u16_at udp 10 AND 0x0f), Answers = u16_at udp 14\<rparr>
        (u16_at udp 10) wantTxID wantDestPort)"
proof -
  have at: "uint16_be (take 2 (drop k (take n (drop 8 udp)))) = Ok (u16_at udp (8 + k))"
    if "k + 2 \<le> n" "8 + n \<le> length udp" for k n
    using that uint_be_at(2) [of "8 + k" udp] by (simp add: drop_take take_take min_absorb1 add.commute)
  have at0: "uint16_be (take 2 udp) = Ok (u16_at udp 0)" using uint_be_at(2) [of 0 udp] assms by simp
  show ?thesis
  proof (cases "unat (u16_at udp 4) < 20 \<or> unat (u16_at udp 4) > length udp")
    case True
    then show ?thesis using assms by (simp add: parseUDPDNS_def uint_be_at at0 Let_def)
  next
    case False
    then have l: "20 \<le> unat (u16_at udp 4)" "unat (u16_at udp 4) \<le> length udp" by linarith+
    have "uint16_be (take 2 (drop k (take (unat (u16_at udp 4) - 8) (drop 8 udp)))) = Ok (u16_at udp (8 + k))"
      if "k \<le> 10" for k
      using at [of k "unat (u16_at udp 4) - 8"] l that by simp
    from this [of 0] this [of 2] this [of 6] l show ?thesis
      using assms by (simp add: parseUDPDNS_def uint_be_at at0 Let_def)
  qed
qed

lemma checkDNSReply_total [simp]: "no_panic (checkDNSReply p flags a b)"
  by (simp add: checkDNSReply_def)

lemma checkDNSReply_Ok_iff:
  "checkDNSReply p flags t d = Ok q \<longleftrightarrow>
     q = p \<and> SourcePort p = 53 \<and> DestPort p = d \<and> TxID p = t \<and> flags AND 0x8000 \<noteq> 0"
  by (auto simp: checkDNSReply_def)

lemma parseIPv4DNSReply_eq:
  "parseIPv4DNSReply pkt t d =
     (if length pkt < 28 \<or> drop_bit 4 (pkt ! 0) \<noteq> 4 then Error (ErrorsNew ''not an IPv4 packet'')
      else if ihl_of (pkt ! 0) < 20 \<or> length pkt < ihl_of (pkt ! 0) + 8 then
        Error (ErrorsNew ''invalid IPv4 header length'')
      else if unat (u16_at pkt 2) < ihl_of (pkt ! 0) + 8 \<or> unat (u16_at pkt 2) > length pkt then
        Error (ErrorsNew ''invalid IPv4 total length'')
      else if pkt ! 9 \<noteq> 17 then Error (ErrorsNew ''not UDP'')
      else parseUDPDNS (IPv4 (pkt ! 12) (pkt ! 13) (pkt ! 14) (pkt ! 15))
             (take (unat (u16_at pkt 2) - ihl_of (pkt ! 0)) (drop (ihl_of (pkt ! 0)) pkt)) t d)"
proof (cases "length pkt < 28")
  case False
  then have "28 \<le> length pkt" "pkt \<noteq> []" by auto
  then show ?thesis
    by (simp add: parseIPv4DNSReply_def Let_def uint_be_at)
qed (simp add: parseIPv4DNSReply_def)

lemma parseIPv4DNSReply_total [simp]: "no_panic (parseIPv4DNSReply pkt t d)"
  by (auto simp: parseIPv4DNSReply_eq parseUDPDNS_eq)

lemma dns_reply_recognised:
  assumes "length src4 = 4" "length dst4 = 4" "length payload \<le> 65507" "12 \<le> length payload"
    "u16_at payload 0 = txid" "u16_at payload 2 AND 0x8000 \<noteq> 0"
  shows "parseIPv4DNSReply (udp_packet src4 dst4 53 dp payload ipID) txid dp =
    Ok \<lparr>SourceIP = IPv4 (src4 ! 0) (src4 ! 1) (src4 ! 2) (src4 ! 3), SourcePort = 53, DestPort = dp,
       TxID = txid, RCode = ucast (u16_at payload 2 AND 0x0f), Answers = u16_at payload 6\<rparr>"
proof -
  let ?pkt = "udp_packet src4 dst4 53 dp payload ipID"
  note f = udp_packet_fields [OF assms(1-3) refl, where sp = 53 and dp = dp and ipID = ipID]
  have len: "length ?pkt = 28 + length payload" by (rule length_udp_packet [OF assms(1,2)])
  have addr: "?pkt ! 12 = src4 ! 0" "?pkt ! 13 = src4 ! 1" "?pkt ! 14 = src4 ! 2" "?pkt ! 15 = src4 ! 3"
    using list4 [OF assms(1)] by (auto simp: udp_packet_def udp_header_def put16_be_def)
  have pay: "?pkt ! (28 + k) = payload ! k" if "k < length payload" for k
    using f(9) len that by (metis le_add1 nth_drop)
  have udp: "take (length ?pkt - 20) (drop 20 ?pkt) = drop 20 ?pkt" by simp
  have at: "u16_at (drop 20 ?pkt) k = u16_at ?pkt (20 + k)" if "k + 2 \<le> 8 + length payload" for k
    using that len by (simp add: u16_at_def)
  have "u16_at ?pkt (28 + k) = u16_at payload k" if "k + 2 \<le> length payload" for k
    using that pay [of k] pay [of "k + 1"] by (simp add: u16_at_def)
  from this [of 0] this [of 2] this [of 6]
  have "parseUDPDNS ip (drop 20 ?pkt) txid dp = checkDNSReply
      \<lparr>SourceIP = ip, SourcePort = 53, DestPort = dp, TxID = txid,
       RCode = ucast (u16_at payload 2 AND 0x0f), Answers = u16_at payload 6\<rparr>
      (u16_at payload 2) txid dp" for ip
    using assms(4,5) f(6-8) by (simp add: parseUDPDNS_eq at len)
  moreover have "checkDNSReply p (u16_at payload 2) txid dp = Ok p"
    if "SourcePort p = 53" "DestPort p = dp" "TxID p = txid" for p
    using assms(6) that by (simp add: checkDNSReply_def)
  ultimately show ?thesis
    using f(1,2,5) len by (simp add: parseIPv4DNSReply_eq ihl_45 addr)
qed

section \<open>The receive loop\<close>

definition matching_reply ::
  "dataKeyBlock \<Rightarrow> u16 \<Rightarrow> u16 \<Rightarrow> bytes \<Rightarrow> decryptedDataV2 \<Rightarrow> dnsReplyProof \<Rightarrow> bool" where
  "matching_reply keys txid srcPort dgram dec p \<longleftrightarrow>
     decryptDataV2 (take 65535 dgram) (take 32 (ServerCipher keys)) (ServerHMAC keys) = Ok dec
     \<and> parseIPv4DNSReply (dPayload dec) txid srcPort = Ok p"

text \<open>What one datagram is to the loop.\<close>

datatype verdict = Skipped | NotAuthentic | Hit decryptedDataV2 dnsReplyProof

definition inspect :: "dataKeyBlock \<Rightarrow> u16 \<Rightarrow> u16 \<Rightarrow> bytes \<Rightarrow> verdict" where
  "inspect keys txid sp dgram =
     (let buf = take 65535 dgram in
      if buf = [] \<or> drop_bit 3 (buf ! 0) \<noteq> 9 then Skipped
      else (case decryptDataV2 buf (take 32 (ServerCipher keys)) (ServerHMAC keys) of
          Ok dec \<Rightarrow>
            (if dPayload dec = [] \<or> drop_bit 4 (dPayload dec ! 0) \<noteq> 4 then Skipped
             else (case parseIPv4DNSReply (dPayload dec) txid sp of Ok p \<Rightarrow> Hit dec p | _ \<Rightarrow> Skipped))
        | _ \<Rightarrow> NotAuthentic))"

lemma awaitReply_step:
  "awaitReply e keys txid sp f (Suc n) (Ok dgram # reads) =
     (case inspect keys txid sp dgram of
        Skipped \<Rightarrow> awaitReply e keys txid sp f n reads
      | NotAuthentic \<Rightarrow> awaitReply e keys txid sp (f + 1) n reads
      | Hit dec p \<Rightarrow>
          (if TxID p = 0 then Error (Errorf ''no matching DNS reply decrypted (GCM failures=%d)'' [ArgN f])
           else Ok (dec, p)))"
proof -
  let ?buf = "take 65535 dgram"
  have never: "decryptDataV2 b k h \<noteq> Panicked q" "parseIPv4DNSReply b t d \<noteq> Panicked q" for b k h t d q
    using decryptDataV2_total [of b k h] parseIPv4DNSReply_total [of b t d] by (auto simp: no_panic_def)
  have len: "length ?buf < 1 \<longleftrightarrow> ?buf = []" by (metis length_0_conv less_one)
  show ?thesis
    by (auto simp: inspect_def Let_def len never simp del: take_eq_Nil nth_take
        split: result.splits)
qed

declare awaitReply.simps(3) [simp del]

lemma inspect_Hit:
  "inspect keys txid sp dgram = Hit dec p \<longleftrightarrow> matching_reply keys txid sp dgram dec p"
proof -
  have "25 \<le> length (take 65535 dgram) \<and> drop_bit 3 (take 65535 dgram ! 0) = 9"
    if "decryptDataV2 (take 65535 dgram) k h = Ok dec" for k h
    using that unfolding decryptDataV2_Ok_iff by blast
  moreover have "28 \<le> length pkt \<and> drop_bit 4 (pkt ! 0) = 4" if "parseIPv4DNSReply pkt txid sp = Ok p" for pkt
    using that by (auto simp: parseIPv4DNSReply_eq split: if_splits)
  ultimately have "take 65535 dgram \<noteq> [] \<and> drop_bit 3 (take 65535 dgram ! 0) = 9 \<and> dPayload dec \<noteq> []
      \<and> drop_bit 4 (dPayload dec ! 0) = 4" if "matching_reply keys txid sp dgram dec p"
    using that unfolding matching_reply_def
    by (metis list.size(3) not_numeral_le_zero)
  then have "matching_reply keys txid sp dgram dec p \<Longrightarrow> inspect keys txid sp dgram = Hit dec p"
    by (simp add: inspect_def matching_reply_def Let_def del: take_eq_Nil nth_take)
  moreover have "inspect keys txid sp dgram = Hit dec p \<Longrightarrow> matching_reply keys txid sp dgram dec p"
    unfolding inspect_def matching_reply_def Let_def by (simp split: result.splits if_splits)
  ultimately show ?thesis by blast
qed

lemma awaitReply_sound:
  "awaitReply e keys txid sp f n reads = Ok (dec, p) \<Longrightarrow>
   \<exists>i dgram. i < n \<and> i < length reads \<and> reads ! i = Ok dgram
     \<and> matching_reply keys txid sp dgram dec p \<and> TxID p \<noteq> 0"
proof (induction n arbitrary: f reads)
  case (Suc n)
  then obtain rd rest where reads: "reads = rd # rest" by (cases reads) auto
  then obtain dgram where rd: "rd = Ok dgram"
    using Suc.prems by (cases rd) (auto simp: awaitReply.simps(3))
  show ?case
  proof (cases "inspect keys txid sp dgram")
    case (Hit dec' p')
    then have "dec' = dec" "p' = p" "TxID p \<noteq> 0"
      using Suc.prems by (auto simp: reads rd awaitReply_step split: if_splits)
    moreover have "matching_reply keys txid sp dgram dec' p'" using Hit by (simp only: inspect_Hit)
    ultimately show ?thesis using reads rd by (intro exI [of _ 0] exI [of _ dgram]) simp
  qed (use Suc.IH [of f rest] Suc.IH [of "f + 1" rest] Suc.prems in
      \<open>fastforce simp: reads rd awaitReply_step\<close>)+
qed simp

lemma awaitReply_complete:
  "i < n \<Longrightarrow> i < length reads \<Longrightarrow> \<forall>j < i. \<exists>d. reads ! j = Ok d \<and> (\<forall>dec p. \<not> matching_reply keys txid sp d dec p) \<Longrightarrow>
   reads ! i = Ok dgram \<Longrightarrow> matching_reply keys txid sp dgram dec p \<Longrightarrow> TxID p \<noteq> 0 \<Longrightarrow>
   awaitReply e keys txid sp f n reads = Ok (dec, p)"
proof (induction i arbitrary: n f reads)
  case 0
  then obtain m rest where "n = Suc m" "reads = Ok dgram # rest" by (cases n; cases reads) auto
  then show ?case using 0 by (simp add: awaitReply_step inspect_Hit [symmetric])
next
  case (Suc i)
  obtain m where n: "n = Suc m" using Suc.prems by (cases n) auto
  obtain d rest where reads: "reads = Ok d # rest" and d: "\<forall>dec p. \<not> matching_reply keys txid sp d dec p"
    using Suc.prems(2,3) by (cases reads) force+
  have "awaitReply e keys txid sp f' m rest = Ok (dec, p)" for f'
    using Suc.prems by (intro Suc.IH) (force simp: n reads)+
  then show ?case
    using d by (cases "inspect keys txid sp d")
      (auto simp: n reads awaitReply_step inspect_Hit)
qed

section \<open>The question\<close>

text \<open>The name of a DNS question as RFC 1035 reads it: length-prefixed labels up to a zero byte.\<close>

function dns_name :: "bytes \<Rightarrow> (string list \<times> bytes) option" where
  "dns_name [] = None"
| "dns_name (b # bs) =
     (if b = 0 then Some ([], bs)
      else if length bs < unat b then None
      else map_option (\<lambda>(ls, r). (string_of_bytes (take (unat b) bs) # ls, r)) (dns_name (drop (unat b) bs)))"
  by pat_completeness auto
termination by (relation "measure length") auto

declare dns_name.simps [simp del]

definition labels_of :: "string \<Rightarrow> string list" where
  "labels_of name = Split_char (TrimSuffix name ''.'') (CHR ''.'')"

definition label_ok :: "string \<Rightarrow> bool" where
  "label_ok l \<longleftrightarrow> 0 < length l \<and> length l \<le> 63"

definition wire_labels :: "string list \<Rightarrow> bytes" where
  "wire_labels ls = concat (map (\<lambda>l. of_nat (length l) # bytes_of_string l) ls)"

lemma appendLabels_eq:
  "appendLabels ls msg =
     (case filter (\<lambda>l. \<not> label_ok l) ls of
        [] \<Rightarrow> Ok (msg @ wire_labels ls)
      | l # _ \<Rightarrow> Error (Errorf ''invalid DNS label %q'' [ArgS l]))"
  by (induction ls arbitrary: msg) (auto simp: label_ok_def wire_labels_def split: list.splits)

lemma dns_name_wire:
  "\<forall>l \<in> set ls. label_ok l \<Longrightarrow> dns_name (wire_labels ls @ 0 # rest) = Some (ls, rest)"
proof (induction ls)
  case Nil
  then show ?case by (simp add: wire_labels_def dns_name.simps)
next
  case (Cons l ls)
  have l: "0 < length l" "length l \<le> 63" using Cons.prems by (auto simp: label_ok_def)
  then have n: "unat (of_nat (length l) :: byte) = length l" by (simp add: unat_of_nat)
  then have "(of_nat (length l) :: byte) \<noteq> 0" using l by (metis unat_0 less_numeral_extra(3))
  then show ?case
    using Cons n by (simp add: wire_labels_def dns_name.simps)
qed

section \<open>Properties\<close>

text \<open>
  \<^verbatim>\<open>buildDNSQuery\<close> succeeds exactly when every label of the name has between 1 and 63 bytes; the
  message then asks one recursive question, for the A record in class IN of exactly these labels,
  under a transaction id that is never 0.
\<close>

theorem buildDNSQuery_question:
  "buildDNSQuery (Ok [a, b]) name =
     (case filter (\<lambda>l. \<not> label_ok l) (labels_of name) of
        l # _ \<Rightarrow> Error (Errorf ''invalid DNS label %q'' [ArgS l])
      | [] \<Rightarrow>
          (let txid = (if word16_be a b = 0 then 1 else word16_be a b) in
           Ok (put16_be txid @ [1, 0, 0, 1, 0, 0, 0, 0, 0, 0] @ wire_labels (labels_of name) @ [0, 0, 1, 0, 1], txid)))
   \<and> ((\<forall>l \<in> set (labels_of name). label_ok l) \<longrightarrow>
      dns_name (wire_labels (labels_of name) @ [0, 0, 1, 0, 1]) = Some (labels_of name, [0, 1, 0, 1]))"
proof -
  have z: "replicate 12 (0 :: byte) = [0, 0, 0, 0, 0, 0, 0, 0, 0, 0, 0, 0]" by code_simp
  have b: "(0x0100 :: byte) = 0" by simp
  show ?thesis
    using dns_name_wire [of "labels_of name" "[0, 1, 0, 1]"]
    by (auto simp: buildDNSQuery_def uint16_be_def Let_def z b put16_at_def appendLabels_eq
        labels_of_def [symmetric] put16_be_def split: list.splits)
qed

theorem buildDNSQuery_question_witness:
  "dns_name (wire_labels (labels_of ''example.com.'') @ [0, 0, 1, 0, 1]) = Some ([''example'', ''com''], [0, 1, 0, 1])"
proof -
  have l: "labels_of ''example.com.'' = [''example'', ''com'']" by code_simp
  then have "\<forall>l \<in> set (labels_of ''example.com.''). label_ok l" by (simp add: label_ok_def)
  then show ?thesis using buildDNSQuery_question [of 1 2 "''example.com.''"] l by simp
qed

text \<open>
  \<^verbatim>\<open>buildIPv4UDP\<close> builds, for IPv4 addresses and a payload of at most 65507 bytes, a packet whose flow
  key has the given addresses, ports and protocol UDP, whose length fields are the true lengths,
  whose header checksum passes the receiver's test, and which ends with the payload; a longer
  payload is refused.
\<close>

theorem buildIPv4UDP_packet:
  assumes "To4 src = Some src4" "To4 dst = Some dst4"
  shows "if length payload \<le> 65507 then
      \<exists>pkt. buildIPv4UDP src dst sp dp payload ipID = Ok pkt
        \<and> parseIPv4Flow pkt True = Ok \<lparr>fkProtocol = 17, LocalIP = src4, RemoteIP = dst4, LocalPort = sp, RemotePort = dp\<rparr>
        \<and> length pkt = 28 + length payload \<and> unat (u16_at pkt 2) = length pkt
        \<and> unat (u16_at pkt 24) = 8 + length payload
        \<and> finishChecksum (checksumWords (take 20 pkt) 0) = 0 \<and> drop 28 pkt = payload
    else buildIPv4UDP src dst sp dp payload ipID = Error (ErrorsNew ''packet too large'')"
proof (cases "length payload \<le> 65507")
  case True
  have l: "length src4 = 4" "length dst4 = 4" using assms To4_length by blast+
  let ?pkt = "udp_packet src4 dst4 sp dp payload ipID"
  note f = udp_packet_fields [OF l True refl, where sp = sp and dp = dp and ipID = ipID]
  have len: "length ?pkt = 28 + length payload" by (rule length_udp_packet [OF l])
  have "parseIPv4Flow ?pkt True =
      Ok \<lparr>fkProtocol = 17, LocalIP = src4, RemoteIP = dst4, LocalPort = sp, RemotePort = dp\<rparr>"
    using f len by (simp add: parseIPv4Flow_eq flow_of_def ihl_45)
  moreover have "take 20 ?pkt = udp_header src4 dst4 ipID
      (checksum16 (udp_header src4 dst4 ipID 0 (length payload))) (length payload)"
    using l by (simp add: udp_packet_def udp_header_def)
  ultimately show ?thesis
    using True buildIPv4UDP_eq [OF assms True] f len udp_header_valid [OF l] by simp
next
  case False
  then show ?thesis using assms by (simp add: buildIPv4UDP_def)
qed

theorem buildIPv4UDP_packet_witness:
  "\<exists>pkt. buildIPv4UDP [10, 8, 0, 2] [10, 8, 0, 1] 40001 53 [1, 2, 3] 7 = Ok pkt
    \<and> length pkt = 31 \<and> finishChecksum (checksumWords (take 20 pkt) 0) = 0 \<and> drop 28 pkt = [1, 2, 3]"
  using buildIPv4UDP_packet [of "[10, 8, 0, 2]" "[10, 8, 0, 2]" "[10, 8, 0, 1]" "[10, 8, 0, 1]" "[1, 2, 3]" 40001 53 7]
  by auto

text \<open>
  \<^verbatim>\<open>parseIPv4DNSReply\<close> reads no byte out of range on any packet, and accepts the reply a DNS server
  sends: any UDP packet from port 53 to the port of the query whose payload is a DNS message of at
  least 12 bytes with the query's transaction id and the response bit.
\<close>

theorem parseIPv4DNSReply_accepts:
  "no_panic (parseIPv4DNSReply pkt txid dp)
   \<and> (length src4 = 4 \<and> length dst4 = 4 \<and> length payload \<le> 65507 \<and> 12 \<le> length payload
      \<and> u16_at payload 0 = txid \<and> u16_at payload 2 AND 0x8000 \<noteq> 0 \<longrightarrow>
      parseIPv4DNSReply (udp_packet src4 dst4 53 dp payload ipID) txid dp =
        Ok \<lparr>SourceIP = IPv4 (src4 ! 0) (src4 ! 1) (src4 ! 2) (src4 ! 3), SourcePort = 53, DestPort = dp,
           TxID = txid, RCode = ucast (u16_at payload 2 AND 0x0f), Answers = u16_at payload 6\<rparr>)"
  using dns_reply_recognised by simp

theorem parseIPv4DNSReply_accepts_witness:
  "parseIPv4DNSReply (udp_packet [10, 8, 0, 1] [10, 8, 0, 2] 53 40001 [0, 9, 0x81, 0x80, 0, 1, 0, 1, 0, 0, 0, 0] 3) 9 40001 =
     Ok \<lparr>SourceIP = IPv4 10 8 0 1, SourcePort = 53, DestPort = 40001, TxID = 9, RCode = 0, Answers = 1\<rparr>"
proof -
  let ?d = "[0, 9, 0x81, 0x80, 0, 1, 0, 1, 0, 0, 0, 0] :: bytes"
  have "u16_at ?d 0 = 9" "u16_at ?d 2 = 0x8180" "u16_at ?d 6 = 1" by code_simp+
  then show ?thesis
    using parseIPv4DNSReply_accepts [of "[]" 9 40001 "[10, 8, 0, 1]" "[10, 8, 0, 2]" ?d 3] by simp
qed

text \<open>
  The receive loop of the data probe reports success exactly for the first datagram, among the
  first 40, that authenticates under the server's keys and carries the awaited DNS reply; a
  datagram that fails in either respect never ends it.
\<close>

theorem awaitReply_first_match:
  assumes "i < 40" "i < length reads" "reads ! i = Ok dgram" "matching_reply keys txid sp dgram dec p"
    "TxID p \<noteq> 0"
    "\<forall>j < i. \<exists>d. reads ! j = Ok d \<and> (\<forall>dec p. \<not> matching_reply keys txid sp d dec p)"
  shows "awaitReply e keys txid sp 0 40 reads = Ok (dec, p)
    \<and> (\<forall>reads' dec' p'. awaitReply e keys txid sp 0 40 reads' = Ok (dec', p') \<longrightarrow>
         (\<exists>j < 40. \<exists>d. reads' ! j = Ok d \<and> j < length reads' \<and> matching_reply keys txid sp d dec' p'))"
proof -
  have "awaitReply e keys txid sp 0 40 reads = Ok (dec, p)"
    using assms by (intro awaitReply_complete [where i = i and dgram = dgram])
  then show ?thesis using awaitReply_sound [of e keys txid sp 0 40] by blast
qed

definition sample_keys :: dataKeyBlock where
  "sample_keys = \<lparr>ClientCipher = replicate 64 1, ClientHMAC = replicate 64 2, ServerCipher = replicate 64 3,
     ServerHMAC = replicate 64 4\<rparr>"

definition sample_reply :: bytes where
  "sample_reply = udp_packet [10, 8, 0, 1] [10, 8, 0, 2] 53 40001 [0, 9, 0x81, 0x80, 0, 1, 0, 1, 0, 0, 0, 0] 3"

theorem awaitReply_first_match_witness:
  "\<exists>dgram dec p. awaitReply EOF sample_keys 9 40001 0 40 [Ok [1], Ok dgram] = Ok (dec, p)
    \<and> dPayload dec = sample_reply \<and> TxID p = 9"
proof -
  let ?d = "[0, 9, 0x81, 0x80, 0, 1, 0, 1, 0, 0, 0, 0] :: bytes"
  have "u16_at ?d 0 = 9" "u16_at ?d 2 = 0x8180" by code_simp+
  then obtain p where p: "parseIPv4DNSReply sample_reply 9 40001 = Ok p" "TxID p = 9"
    using dns_reply_recognised [of "[10, 8, 0, 1]" "[10, 8, 0, 2]" ?d 9 40001 3] by (auto simp: sample_reply_def)
  have len: "length sample_reply = 40" by (simp add: sample_reply_def length_udp_packet)
  obtain dgram where e: "encryptDataV2 327 0 5 (replicate 32 3) (replicate 64 4) sample_reply = Ok dgram"
    using encrypt_total [of 5 327 0 "replicate 64 4" "replicate 32 3" sample_reply]
    by (auto simp: gcm_max_def len)
  have "length dgram = 64" using encrypt_length [OF e] len by simp
  moreover obtain dec where d: "decryptDataV2 dgram (replicate 32 3) (replicate 64 4) = Ok dec" "dPayload dec = sample_reply"
    using decrypt_encrypt [OF e] len by fastforce
  ultimately have hit: "matching_reply sample_keys 9 40001 dgram dec p"
    using p by (simp add: matching_reply_def sample_keys_def)
  have miss: "\<not> matching_reply sample_keys 9 40001 [1] dec' p'" for dec' p'
    by (simp add: matching_reply_def decryptDataV2_def)
  have "awaitReply EOF sample_keys 9 40001 0 40 [Ok [1], Ok dgram] = Ok (dec, p)"
    using awaitReply_first_match [of 1 "[Ok [1], Ok dgram]" dgram sample_keys 9 40001 dec p EOF] hit miss p(2) by simp
  with d(2) p(2) show ?thesis by blast
qed

end
