(* ===== verification/LiveVPN.thy ===== *)
theory LiveVPN
  imports ControlConn KeyMethod PushReply
begin

text \<open>
  The established session of \<^verbatim>\<open>livevpn.go\<close>: its record and its release.
\<close>

record liveVPN =
  vEndpoint :: Endpoint
  vControl :: "controlUDPConn option"
  vSession :: pushedSession
  vKeys :: dataKeyBlock
  vResetLatency :: nat

end
