(* ===== verification/WinDivert.thy ===== *)
theory WinDivert
  imports Go_Net Go_Hash
begin

text \<open>
  The binding to the WinDivert driver, \<^verbatim>\<open>windivert_windows.go\<close>: the address record and its accessors,
  the calls on handles, the addresses of a flow event, and the installation of the embedded driver.
  The exported procedures of the DLL are parameters: a call gives its result or, when it returns 0,
  the \<^verbatim>\<open>callErr\<close> (\<open>None\<close> for errno 0).
\<close>

section \<open>Addresses\<close>

abbreviation (input) wdLayerNetwork :: u32 where "wdLayerNetwork \<equiv> 0"
abbreviation (input) wdLayerFlow :: u32 where "wdLayerFlow \<equiv> 2"
abbreviation (input) wdLayerSocket :: u32 where "wdLayerSocket \<equiv> 3"
abbreviation (input) wdEventPacket :: u32 where "wdEventPacket \<equiv> 0"
abbreviation (input) wdEventFlowEstablished :: byte where "wdEventFlowEstablished \<equiv> 1"
abbreviation (input) wdEventFlowDeleted :: byte where "wdEventFlowDeleted \<equiv> 2"
abbreviation (input) wdEventSocketConnect :: byte where "wdEventSocketConnect \<equiv> 4"
abbreviation (input) wdFlagSniff :: u64 where "wdFlagSniff \<equiv> 1"
abbreviation (input) wdFlagDrop :: u64 where "wdFlagDrop \<equiv> 2"
abbreviation (input) wdFlagRecvOnly :: u64 where "wdFlagRecvOnly \<equiv> 4"

record wdAddress =
  Timestamp :: u64
  Flags :: u32
  Reserved2 :: u32
  Data :: bytes

text \<open>\<^verbatim>\<open>binary.LittleEndian\<close> on a slice of the array.\<close>

definition le_at :: "bytes \<Rightarrow> nat \<Rightarrow> nat \<Rightarrow> 'a :: len word" where
  "le_at b at n = foldr (\<lambda>x acc. push_bit 8 acc OR ucast x) (take n (drop at b)) 0"

definition put32_le_bytes :: "u32 \<Rightarrow> bytes" where
  "put32_le_bytes w = [ucast w, ucast (drop_bit 8 w), ucast (drop_bit 16 w), ucast (drop_bit 24 w)]"

definition wd_layer :: "wdAddress \<Rightarrow> byte" where
  "wd_layer a = ucast (Flags a AND 0xff)"

definition wd_event :: "wdAddress \<Rightarrow> byte" where
  "wd_event a = ucast (drop_bit 8 (Flags a) AND 0xff)"

definition wd_outbound :: "wdAddress \<Rightarrow> bool" where
  "wd_outbound a \<longleftrightarrow> Flags a AND push_bit 17 1 \<noteq> 0"

definition wd_loopback :: "wdAddress \<Rightarrow> bool" where
  "wd_loopback a \<longleftrightarrow> Flags a AND push_bit 18 1 \<noteq> 0"

definition wd_impostor :: "wdAddress \<Rightarrow> bool" where
  "wd_impostor a \<longleftrightarrow> Flags a AND push_bit 19 1 \<noteq> 0"

definition wd_ipv6 :: "wdAddress \<Rightarrow> bool" where
  "wd_ipv6 a \<longleftrightarrow> Flags a AND push_bit 20 1 \<noteq> 0"

definition flowEndpointID :: "wdAddress \<Rightarrow> u64" where
  "flowEndpointID a = le_at (Data a) 0 8"

definition flowPID :: "wdAddress \<Rightarrow> u32" where
  "flowPID a = le_at (Data a) 16 4"

definition flowLocalPort :: "wdAddress \<Rightarrow> u16" where
  "flowLocalPort a = le_at (Data a) 52 2"

definition flowRemotePort :: "wdAddress \<Rightarrow> u16" where
  "flowRemotePort a = le_at (Data a) 54 2"

definition flowProtocol :: "wdAddress \<Rightarrow> byte" where
  "flowProtocol a = Data a ! 56"

definition networkIfIdx :: "wdAddress \<Rightarrow> u32" where
  "networkIfIdx a = le_at (Data a) 0 4"

definition makeInboundWDAddress :: "u32 \<Rightarrow> wdAddress" where
  "makeInboundWDAddress ifIdx =
     \<lparr>Timestamp = 0, Flags = wdLayerNetwork OR push_bit 8 wdEventPacket, Reserved2 = 0,
      Data = copy_at (replicate 64 0) 0 (put32_le_bytes ifIdx)\<rparr>"

lemma le_at_put32 [simp]: "le_at (put32_le_bytes w @ rest) 0 4 = w"
proof -
  have "take 4 (drop 0 (put32_le_bytes w @ rest)) = put32_le_bytes w" by (simp add: put32_le_bytes_def)
  then show ?thesis
    unfolding le_at_def put32_le_bytes_def
  proof (simp only: foldr.simps comp_def id_apply, intro bit_word_eqI)
    fix n :: nat
    assume "n < LENGTH(32)"
    then show "bit (push_bit 8 (push_bit 8 (push_bit 8 (push_bit 8 0 OR ucast (ucast (drop_bit 24 w) :: byte)) OR
        ucast (ucast (drop_bit 16 w) :: byte)) OR ucast (ucast (drop_bit 8 w) :: byte)) OR ucast (ucast w :: byte) :: u32) n = bit w n"
      by (cases "24 \<le> n"; cases "16 \<le> n") (auto simp: bit_simps)
  qed
qed

section \<open>Calls on handles\<close>

text \<open>
  A \<^verbatim>\<open>*winDivertHandle\<close> is a number; \<open>live\<close> holds the objects whose handle field is a valid handle.
  \<^verbatim>\<open>Close\<close> sets the field to the invalid handle, so it acts once.
\<close>

type_synonym handle = nat

record wd_handles =
  next_handle :: nat
  live :: "nat set"

type_synonym 'a proc_out = "'a + go_error option"

definition call_error :: "string \<Rightarrow> go_error option \<Rightarrow> go_error" where
  "call_error msg ce = (case ce of Some e \<Rightarrow> e | None \<Rightarrow> ErrorsNew msg)"

text \<open>\<open>openProc filter layer priority flags\<close> is what \<^verbatim>\<open>WinDivertOpen\<close> does.\<close>

type_synonym open_proc = "string \<Rightarrow> u32 \<Rightarrow> u16 \<Rightarrow> u64 \<Rightarrow> unit proc_out"

definition wd_open :: "open_proc \<Rightarrow> string \<Rightarrow> u32 \<Rightarrow> u16 \<Rightarrow> u64 \<Rightarrow> wd_handles \<Rightarrow> handle result \<times> wd_handles" where
  "wd_open openProc filt layer priority flags hs =
     (if CHR 0x00 \<in> set filt then (Error (SysErr ''EINVAL''), hs)
      else case openProc filt layer priority flags of
        Inr ce \<Rightarrow> (Error (call_error ''WinDivertOpen failed'' ce), hs)
      | Inl _ \<Rightarrow> (Ok (next_handle hs),
          \<lparr>next_handle = Suc (next_handle hs), live = insert (next_handle hs) (live hs)\<rparr>))"

definition wd_recv :: "nat \<Rightarrow> (bytes \<times> wdAddress) proc_out \<Rightarrow> (bytes \<times> wdAddress) result" where
  "wd_recv len out =
     (case out of Inr ce \<Rightarrow> Error (call_error ''WinDivertRecv failed'' ce)
      | Inl (packet, addr) \<Rightarrow> Ok (take len packet, addr))"

text \<open>\<open>sendProc packet addr\<close> gives the number of bytes sent.\<close>

definition wd_send :: "(bytes \<Rightarrow> wdAddress \<Rightarrow> u32 proc_out) \<Rightarrow> bytes \<Rightarrow> wdAddress \<Rightarrow> go_error option" where
  "wd_send sendProc packet addr =
     (if length packet = 0 then Some (ErrorsNew ''empty WinDivert packet'')
      else case sendProc packet addr of
        Inr ce \<Rightarrow> Some (call_error ''WinDivertSend failed'' ce)
      | Inl sent \<Rightarrow>
          (if sent \<noteq> of_nat (length packet) then
             Some (Errorf ''WinDivert short send %d/%d'' [ArgN (unat sent), ArgN (length packet)])
           else None))"

definition wd_Close :: "go_error option \<Rightarrow> handle option \<Rightarrow> wd_handles \<Rightarrow> wd_handles \<times> go_error option" where
  "wd_Close closeErr h hs =
     (case h of
        None \<Rightarrow> (hs, None)
      | Some h \<Rightarrow>
          (if h \<notin> live hs then (hs, None) else (hs\<lparr>live := live hs - {h}\<rparr>, closeErr)))"

section \<open>Addresses of a flow event\<close>

text \<open>\<open>fmtIPv6Proc raw\<close> fills the buffer of 64 bytes.\<close>

definition cString :: "bytes \<Rightarrow> string" where
  "cString out = string_of_bytes (takeWhile (\<lambda>b. b \<noteq> 0) out)"

definition formatFlowIP :: "(bytes \<Rightarrow> bytes proc_out) \<Rightarrow> bytes \<Rightarrow> bytes result" where
  "formatFlowIP fmtIPv6Proc raw =
     (case fmtIPv6Proc raw of
        Inr ce \<Rightarrow> Error (call_error ''WinDivert IPv6 address formatter failed'' ce)
      | Inl out \<Rightarrow>
          (let ip = ParseIP (cString out) in
           if ip = [] then Error (Errorf ''invalid WinDivert address %q'' [ArgS (cString out)]) else Ok ip))"

definition flowIPs :: "(bytes \<Rightarrow> bytes proc_out) \<Rightarrow> wdAddress \<Rightarrow> (bytes \<times> bytes) result" where
  "flowIPs fmtIPv6Proc a =
     (let l = take 16 (drop 20 (Data a)); rr = take 16 (drop 36 (Data a)) in
      then_do (formatFlowIP fmtIPv6Proc l) (\<lambda>local.
      then_do (formatFlowIP fmtIPv6Proc rr) (\<lambda>remote. Ok (local, remote))))"

text \<open>\<open>mem ptr i\<close> is the byte at address \<open>ptr + i\<close>.\<close>

definition cStringFromPointer :: "(nat \<Rightarrow> nat \<Rightarrow> byte) \<Rightarrow> nat \<Rightarrow> int \<Rightarrow> string" where
  "cStringFromPointer mem ptr maxLen =
     (if ptr = 0 \<or> maxLen \<le> 0 then ''''
      else string_of_bytes (takeWhile (\<lambda>b. b \<noteq> 0) (map (mem ptr) [0 ..< nat maxLen])))"

text \<open>
  \<open>compileProc filter layer\<close> gives \<open>None\<close> for an acceptable filter, otherwise the error string's
  address, the error position and the \<^verbatim>\<open>callErr\<close> with its text.
\<close>

definition validateFilter ::
  "(nat \<Rightarrow> nat \<Rightarrow> byte) \<Rightarrow> (string \<Rightarrow> u32 \<Rightarrow> (nat \<times> u32 \<times> string option) option) \<Rightarrow> string \<Rightarrow> u32 \<Rightarrow> go_error option" where
  "validateFilter mem compileProc filt layer =
     (if CHR 0x00 \<in> set filt then Some (SysErr ''EINVAL'')
      else case compileProc filt layer of
        None \<Rightarrow> None
      | Some (errStr, errPos, callErr) \<Rightarrow>
          (let msg = cStringFromPointer mem errStr 256;
               msg = (case callErr of Some t \<Rightarrow> if msg = '''' then t else msg | None \<Rightarrow> msg)
           in Some (Errorf ''invalid WinDivert filter at %d: %s'' [ArgN (unat errPos), ArgS msg])))"

section \<open>Installing the driver\<close>

text \<open>
  The file system is a map from paths to contents.  \<open>fs_env\<close> says which calls fail; a failing
  \<^verbatim>\<open>os.WriteFile\<close> leaves the file as \<open>partial\<close> says.
\<close>

record fs_env =
  readable :: "string \<Rightarrow> bool"
  writeErr :: "string \<Rightarrow> go_error option"
  partial :: "string \<Rightarrow> bytes option"
  renameErr :: "string \<Rightarrow> go_error option"

type_synonym files = "string \<rightharpoonup> bytes"

definition os_ReadFile :: "fs_env \<Rightarrow> files \<Rightarrow> string \<Rightarrow> bytes option" where
  "os_ReadFile fs files path = (if readable fs path then files path else None)"

definition os_WriteFile :: "fs_env \<Rightarrow> files \<Rightarrow> string \<Rightarrow> bytes \<Rightarrow> files \<times> go_error option" where
  "os_WriteFile fs files path data =
     (case writeErr fs path of
        None \<Rightarrow> (files(path \<mapsto> data), None)
      | Some e \<Rightarrow> (files(path := partial fs path), Some e))"

text \<open>\<^verbatim>\<open>filepath.Base\<close> of a Windows path that does not end in a separator.\<close>

definition path_sep :: "char \<Rightarrow> bool" where
  "path_sep c \<longleftrightarrow> c = CHR ''/'' \<or> c = CHR 0x5C"

definition filepath_Base :: "string \<Rightarrow> string" where
  "filepath_Base p = rev (takeWhile (\<lambda>c. \<not> path_sep c) (rev p))"

definition filepath_Join :: "string list \<Rightarrow> string" where
  "filepath_Join parts =
     (case filter (\<lambda>p. p \<noteq> []) parts of [] \<Rightarrow> [] | p # ps \<Rightarrow> p @ concat (map (\<lambda>q. CHR 0x5C # q) ps))"

definition writeEmbeddedVerified :: "fs_env \<Rightarrow> files \<Rightarrow> string \<Rightarrow> bytes \<Rightarrow> string \<Rightarrow> files \<times> go_error option" where
  "writeEmbeddedVerified fs files path data expected =
     (if hex_bytes (sha256_Sum256 data) \<noteq> expected then
        (files, Some (Errorf ''embedded WinDivert asset checksum mismatch for %s'' [ArgS (filepath_Base path)]))
      else if (case os_ReadFile fs files path of
                 Some old \<Rightarrow> hex_bytes (sha256_Sum256 old) = expected | None \<Rightarrow> False) then (files, None)
      else
        let tmp = path @ ''.tmp'' in
        case os_WriteFile fs files tmp data of
          (files, Some e) \<Rightarrow> (files, Some e)
        | (files, None) \<Rightarrow>
            (case renameErr fs tmp of
               Some e \<Rightarrow> (files(tmp := None), Some e)
             | None \<Rightarrow> (files(tmp := None, path := files tmp), None)))"

text \<open>
  \<open>dll_env\<close>: the environment variable, the cache directory, \<^verbatim>\<open>os.MkdirAll\<close>, \<^verbatim>\<open>LoadDLL\<close> and \<^verbatim>\<open>FindProc\<close>.
  The result is the runtime or the error, with whether the DLL is still loaded.
\<close>

record dll_env =
  LOCALAPPDATA :: string
  UserCacheDir :: "string result"
  MkdirAll :: "string \<Rightarrow> go_error option"
  LoadDLL :: "string \<Rightarrow> go_error option"
  FindProc :: "string \<Rightarrow> go_error option"

record winDivertRuntime =
  rt_dir :: string
  rt_procs :: "string list"

definition wd_exports :: "string list" where
  "wd_exports = [''WinDivertOpen'', ''WinDivertRecv'', ''WinDivertSend'', ''WinDivertClose'', ''WinDivertShutdown'',
     ''WinDivertHelperFormatIPv6Address'', ''WinDivertHelperCompileFilter'']"

primrec find_procs :: "dll_env \<Rightarrow> string list \<Rightarrow> string list result" where
  "find_procs env [] = Ok []"
| "find_procs env (name # names) =
     (case FindProc env name of
        Some e \<Rightarrow> Error (Wrapf (''WinDivert export '' @ name) e)
      | None \<Rightarrow> then_do (find_procs env names) (\<lambda>ps. Ok (name # ps)))"

definition dll_hash :: string where
  "dll_hash = ''c1e060ee19444a259b2162f8af0f3fe8c4428a1c6f694dce20de194ac8d7d9a2''"

definition sys_hash :: string where
  "sys_hash = ''8da085332782708d8767bcace5327a6ec7283c17cfb85e40b03cd2323a90ddc2''"

definition loadWinDivertRuntime ::
  "fs_env \<Rightarrow> dll_env \<Rightarrow> bytes \<Rightarrow> bytes \<Rightarrow> bytes \<Rightarrow> files \<Rightarrow> winDivertRuntime result \<times> files \<times> bool" where
  "loadWinDivertRuntime fs env dllData sysData licData files =
     (case (if LOCALAPPDATA env = '''' then UserCacheDir env else Ok (LOCALAPPDATA env)) of
        Error e \<Rightarrow> (Error e, files, False)
      | Panicked p \<Rightarrow> (Panicked p, files, False)
      | Ok base \<Rightarrow>
         let dir = filepath_Join [base, ''DisFree'', ''runtime'', ''windivert-2.2.2''] in
         case MkdirAll env dir of Some e \<Rightarrow> (Error e, files, False) | None \<Rightarrow>
         let dllPath = filepath_Join [dir, ''WinDivert.dll''];
             sysPath = filepath_Join [dir, ''WinDivert64.sys''];
             licPath = filepath_Join [dir, ''WinDivert-LICENSE.txt''] in
         case writeEmbeddedVerified fs files dllPath dllData dll_hash of
           (files, Some e) \<Rightarrow> (Error e, files, False)
         | (files, None) \<Rightarrow>
         case writeEmbeddedVerified fs files sysPath sysData sys_hash of
           (files, Some e) \<Rightarrow> (Error e, files, False)
         | (files, None) \<Rightarrow>
         let (files, _) = os_WriteFile fs files licPath licData in
         case LoadDLL env dllPath of
           Some e \<Rightarrow> (Error (Wrapf ''load WinDivert.dll'' e), files, False)
         | None \<Rightarrow>
         case find_procs env wd_exports of
           Ok ps \<Rightarrow> (Ok \<lparr>rt_dir = dir, rt_procs = ps\<rparr>, files, True)
         | Error e \<Rightarrow> (Error e, files, False)
         | Panicked p \<Rightarrow> (Panicked p, files, True))"

section \<open>What the installation guarantees\<close>

lemma tmp_differs: "path \<noteq> path @ ''.tmp''" "path @ ''.tmp'' \<noteq> path"
  by simp_all

definition holds_asset :: "files \<Rightarrow> string \<Rightarrow> string \<Rightarrow> bool" where
  "holds_asset files path expected \<longleftrightarrow> (\<exists>c. files path = Some c \<and> hex_bytes (sha256_Sum256 c) = expected)"

lemma install_cases:
  assumes "writeEmbeddedVerified fs files path data expected = (files', r)"
  shows "(r = None \<longrightarrow> holds_asset files' path expected) \<and> (r \<noteq> None \<longrightarrow> files' path = files path)
    \<and> (\<forall>q. q \<noteq> path \<longrightarrow> q \<noteq> path @ ''.tmp'' \<longrightarrow> files' q = files q)"
  using assms
  by (auto simp: writeEmbeddedVerified_def os_WriteFile_def os_ReadFile_def holds_asset_def Let_def
      split: if_splits option.splits prod.splits)

text \<open>
  The embedded driver is installed atomically: when \<^verbatim>\<open>writeEmbeddedVerified\<close> reports success the file at
  the path has the pinned SHA-256, when it reports an error the file at the path is what it was
  before, and no file other than the path and its temporary file changes.
\<close>

theorem writeEmbeddedVerified_atomic:
  assumes "writeEmbeddedVerified fs files path data expected = (files', r)"
  shows "(if r = None then \<exists>c. files' path = Some c \<and> hex_bytes (sha256_Sum256 c) = expected
          else files' path = files path)
    \<and> (\<forall>q. q \<noteq> path \<longrightarrow> q \<noteq> path @ ''.tmp'' \<longrightarrow> files' q = files q)"
  using install_cases [OF assms] by (simp add: holds_asset_def)

lemma find_procs_all: "find_procs env names = Ok ps \<Longrightarrow> ps = names"
  by (induction names arbitrary: ps) (auto simp: then_do_Ok_iff split: option.splits)

lemma find_procs_total: "no_panic (find_procs env names)"
  by (induction names) (auto intro!: no_panic_then_do split: option.splits)

lemma license_keeps:
  "os_WriteFile fs files lic data = (files', r) \<Longrightarrow> q \<noteq> lic \<Longrightarrow> files' q = files q"
  by (auto simp: os_WriteFile_def split: option.splits)

lemma asset_kept:
  "holds_asset files path h \<Longrightarrow> files' path = files path \<Longrightarrow> holds_asset files' path h"
  by (simp add: holds_asset_def)

lemma load_success:
  assumes "loadWinDivertRuntime fs env dllData sysData licData files = (Ok rt, files', loaded)"
  shows "\<exists>f1 f2 rl. writeEmbeddedVerified fs files (filepath_Join [rt_dir rt, ''WinDivert.dll'']) dllData dll_hash = (f1, None)
    \<and> writeEmbeddedVerified fs f1 (filepath_Join [rt_dir rt, ''WinDivert64.sys'']) sysData sys_hash = (f2, None)
    \<and> os_WriteFile fs f2 (filepath_Join [rt_dir rt, ''WinDivert-LICENSE.txt'']) licData = (files', rl)
    \<and> rt_procs rt = wd_exports \<and> loaded \<and> rt_dir rt \<noteq> []"
proof -
  have "filepath_Join [base, ''DisFree'', ''runtime'', ''windivert-2.2.2''] \<noteq> []" for base
    by (simp add: filepath_Join_def)
  with assms show ?thesis
    unfolding loadWinDivertRuntime_def Let_def
    by (auto split: result.splits option.splits prod.splits dest: find_procs_all)
qed

lemma load_error:
  assumes "loadWinDivertRuntime fs env dllData sysData licData files = (Error e, files', loaded)"
  shows "\<not> loaded"
  using assms unfolding loadWinDivertRuntime_def Let_def
  by (auto split: result.splits option.splits prod.splits)

lemma load_no_panic:
  assumes "loadWinDivertRuntime fs env dllData sysData licData files = (Panicked p, files', loaded)"
  shows "\<not> no_panic (UserCacheDir env)"
  using assms find_procs_total [of env wd_exports] unfolding loadWinDivertRuntime_def Let_def
  by (auto split: result.splits option.splits prod.splits if_splits)

text \<open>
  \<^verbatim>\<open>loadWinDivertRuntime\<close> hands out a runtime only with both driver files in place under their pinned
  SHA-256, the DLL loaded and all seven exports found; on every error the DLL is not left loaded.
\<close>

theorem loadWinDivertRuntime_verified:
  assumes "loadWinDivertRuntime fs env dllData sysData licData files = (r, files', loaded)"
    and "no_panic (UserCacheDir env)"
  shows "case r of
      Ok rt \<Rightarrow> loaded \<and> rt_procs rt = wd_exports
        \<and> (\<exists>c. files' (filepath_Join [rt_dir rt, ''WinDivert.dll'']) = Some c \<and> hex_bytes (sha256_Sum256 c) = dll_hash)
        \<and> (\<exists>c. files' (filepath_Join [rt_dir rt, ''WinDivert64.sys'']) = Some c \<and> hex_bytes (sha256_Sum256 c) = sys_hash)
    | Error e \<Rightarrow> \<not> loaded
    | Panicked p \<Rightarrow> False"
proof (cases r)
  case (Ok rt)
  let ?p = "\<lambda>name. filepath_Join [rt_dir rt, name]"
  obtain f1 f2 rl where s: "rt_dir rt \<noteq> []" "loaded" "rt_procs rt = wd_exports"
    "writeEmbeddedVerified fs files (?p ''WinDivert.dll'') dllData dll_hash = (f1, None)"
    "writeEmbeddedVerified fs f1 (?p ''WinDivert64.sys'') sysData sys_hash = (f2, None)"
    "os_WriteFile fs f2 (?p ''WinDivert-LICENSE.txt'') licData = (files', rl)"
    using load_success assms(1) Ok by blast
  have ne: "?p ''WinDivert.dll'' \<noteq> ?p ''WinDivert64.sys''" "?p ''WinDivert.dll'' \<noteq> ?p ''WinDivert64.sys'' @ ''.tmp''"
    "?p ''WinDivert.dll'' \<noteq> ?p ''WinDivert-LICENSE.txt''" "?p ''WinDivert64.sys'' \<noteq> ?p ''WinDivert-LICENSE.txt''"
    using s(1) by (simp_all add: filepath_Join_def)
  have "f2 (?p ''WinDivert.dll'') = f1 (?p ''WinDivert.dll'')"
    using install_cases [OF s(5)] ne(1,2) by blast
  moreover have "files' (?p ''WinDivert.dll'') = f2 (?p ''WinDivert.dll'')"
    "files' (?p ''WinDivert64.sys'') = f2 (?p ''WinDivert64.sys'')"
    by (rule license_keeps [OF s(6)], rule ne)+
  ultimately have "holds_asset files' (?p ''WinDivert.dll'') dll_hash" "holds_asset files' (?p ''WinDivert64.sys'') sys_hash"
    using install_cases [OF s(4)] install_cases [OF s(5)] by (auto intro: asset_kept)
  with s(2,3) show ?thesis by (simp add: Ok holds_asset_def)
next
  case (Error e)
  with assms(1) show ?thesis by (auto dest: load_error)
next
  case (Panicked p)
  with assms show ?thesis by (auto dest: load_no_panic)
qed

definition good_fs :: fs_env where
  "good_fs = \<lparr>readable = (\<lambda>_. True), writeErr = (\<lambda>_. None), partial = (\<lambda>_. None), renameErr = (\<lambda>_. None)\<rparr>"

definition good_dll :: dll_env where
  "good_dll = \<lparr>LOCALAPPDATA = ''C:'', UserCacheDir = Error EOF, MkdirAll = (\<lambda>_. None), LoadDLL = (\<lambda>_. None),
     FindProc = (\<lambda>_. None)\<rparr>"

theorem writeEmbeddedVerified_atomic_witness:
  "\<exists>files'. writeEmbeddedVerified good_fs (Map.empty(''d'' \<mapsto> [1])) ''d'' [97] (hex_bytes (sha256_Sum256 [97])) = (files', None)
    \<and> (\<exists>c. files' ''d'' = Some c \<and> hex_bytes (sha256_Sum256 c) = hex_bytes (sha256_Sum256 [97]))"
proof -
  obtain files' r where w: "writeEmbeddedVerified good_fs (Map.empty(''d'' \<mapsto> [1])) ''d'' [97] (hex_bytes (sha256_Sum256 [97]))
      = (files', r)"
    by fastforce
  then have "r = None"
    by (auto simp: writeEmbeddedVerified_def good_fs_def os_WriteFile_def Let_def split: if_splits)
  then show ?thesis using writeEmbeddedVerified_atomic [OF w] w by auto
qed

theorem loadWinDivertRuntime_verified_witness:
  "\<exists>e files'. loadWinDivertRuntime good_fs (good_dll\<lparr>LOCALAPPDATA := []\<rparr>) [] [] [] Map.empty = (Error e, files', False)"
proof -
  let ?env = "good_dll\<lparr>LOCALAPPDATA := []\<rparr>"
  obtain r files' loaded where w: "loadWinDivertRuntime good_fs ?env [] [] [] Map.empty = (r, files', loaded)"
    by (cases "loadWinDivertRuntime good_fs ?env [] [] [] Map.empty")
  then have "\<exists>e. r = Error e" by (auto simp: loadWinDivertRuntime_def good_dll_def)
  then show ?thesis
    using loadWinDivertRuntime_verified [OF w] w by (auto simp: good_dll_def)
qed

end
