(* ===== verification/FlowManager.thy ===== *)
theory FlowManager
  imports LiveVPN WinDivert PacketNAT DataChannel "HOL-Library.AList"
begin

text \<open>
  The Windows flow manager, \<^verbatim>\<open>windows_discord.go\<close>: which flows of Discord are tunneled, the capture and
  injection of their packets, and the life of the WinDivert handles.

  A Go map is an association list (\<^verbatim>\<open>m[k] = v\<close> is \<^term>\<open>AList.update\<close>, \<^verbatim>\<open>delete\<close> is \<^term>\<open>AList.delete\<close>, a
  range loop is a fold).  A flow object never changes after it is built, so the maps hold flow
  values instead of pointers.  Everything between \<^verbatim>\<open>mu.Lock\<close> and \<^verbatim>\<open>mu.Unlock\<close> is one function; a handler
  that takes the lock twice is the composition of its sections, and the step relation interleaves
  the sections of different goroutines.  \<open>wd\<close>, \<open>vpn_sent\<close> and \<open>injected\<close> record the effects on the driver
  and on the sockets.
\<close>

section \<open>State\<close>

record windowsReverseFlowKey =
  rkProtocol :: byte
  rkRemoteIP :: bytes
  rkLocalPort :: u16
  rkRemotePort :: u16

record windowsDiscordFlow =
  fl_id :: string
  fl_key :: ipv4FlowKey
  fl_ifIdx :: u32
  fl_handle :: handle
  ipv6Drop :: bool
  shared :: bool

record windowsFlowManager =
  flows :: "(string \<times> windowsDiscordFlow) list"
  reverse :: "(windowsReverseFlowKey \<times> windowsDiscordFlow) list"
  udpHandles :: "(u16 \<times> handle) list"
  udpPortRefs :: "(u16 \<times> u64 list) list"
  udpEndpointPorts :: "(u64 \<times> u16) list"
  vpnLocalUDPPort :: u16
  packetID :: u32
  errCh :: "go_error list"
  bootstrapActive :: bool
  tcpIntents :: "(string \<times> int) list"
  wd :: wd_handles
  vpn_sent :: "bytes list"
  injected :: "(handle \<times> bytes \<times> wdAddress) list"

text \<open>
  What the manager calls: the address formatter, the process snapshot (\<open>None\<close> when it cannot be
  taken), \<^verbatim>\<open>GetBestInterfaceEx\<close>, the driver's open and send, and the write on the VPN socket.
\<close>

record win_env =
  fmtIPv6 :: "bytes \<Rightarrow> bytes proc_out"
  processes :: "(u32 \<times> string) list option"
  bestInterface :: "bytes \<Rightarrow> u32 + go_error"
  openProc :: open_proc
  sendProc :: "handle \<Rightarrow> bytes \<Rightarrow> wdAddress \<Rightarrow> u32 proc_out"
  udpWrite :: "bytes \<Rightarrow> go_error option"

text \<open>\<open>localPort\<close> is the port of the VPN socket, when its address is a UDP address.\<close>

definition newWindowsFlowManager :: "int option \<Rightarrow> wd_handles \<Rightarrow> windowsFlowManager" where
  "newWindowsFlowManager localPort hs =
     \<lparr>flows = [], reverse = [], udpHandles = [], udpPortRefs = [], udpEndpointPorts = [],
      vpnLocalUDPPort = (case localPort of Some p \<Rightarrow> if p > 0 \<and> p \<le> 65535 then of_int p else 0 | None \<Rightarrow> 0),
      packetID = 0, errCh = [], bootstrapActive = False, tcpIntents = [], wd = hs, vpn_sent = [], injected = []\<rparr>"

definition reportErr :: "go_error \<Rightarrow> windowsFlowManager \<Rightarrow> windowsFlowManager" where
  "reportErr e m = (if length (errCh m) < 8 then m\<lparr>errCh := errCh m @ [e]\<rparr> else m)"

definition closeHandle :: "handle option \<Rightarrow> windowsFlowManager \<Rightarrow> windowsFlowManager" where
  "closeHandle h m = m\<lparr>wd := fst (wd_Close None h (wd m))\<rparr>"

section \<open>Processes and interfaces\<close>

definition windowsProcessName :: "(u32 \<times> string) list option \<Rightarrow> u32 \<Rightarrow> string" where
  "windowsProcessName snap pid =
     (case snap of None \<Rightarrow> ''''
      | Some ps \<Rightarrow> (case filter (\<lambda>(p, exe). p = pid) ps of (p, exe) # _ \<Rightarrow> exe | [] \<Rightarrow> ''''))"

definition isDiscordPIDWindows :: "win_env \<Rightarrow> u32 \<Rightarrow> bool" where
  "isDiscordPIDWindows env pid = EqualFold (windowsProcessName (processes env) pid) ''Discord.exe''"

definition bestWindowsInterfaceIndex :: "win_env \<Rightarrow> bytes \<Rightarrow> u32 result" where
  "bestWindowsInterfaceIndex env remote =
     (case To4 remote of
        None \<Rightarrow> Error (ErrorsNew ''best interface currently requires IPv4'')
      | Some ip \<Rightarrow>
          (case bestInterface env ip of
             Inr e \<Rightarrow> Error e
           | Inl idx \<Rightarrow> if idx = 0 then Error (ErrorsNew ''GetBestInterfaceEx returned interface 0'') else Ok idx))"

section \<open>Identities and filters\<close>

definition windowsFlowIdentity :: "byte \<Rightarrow> bytes \<Rightarrow> u16 \<Rightarrow> bytes \<Rightarrow> u16 \<Rightarrow> string" where
  "windowsFlowIdentity proto local lp remote rp =
     Itoa_nat (unat proto) @ ''|'' @ IP_String local @ ''|'' @ Itoa_nat (unat lp) @ ''|'' @ IP_String remote @ ''|''
       @ Itoa_nat (unat rp)"

definition windowsTCPIntentKey :: "u16 \<Rightarrow> bytes \<Rightarrow> u16 \<Rightarrow> string" where
  "windowsTCPIntentKey lp remote rp =
     Itoa_nat (unat lp) @ ''|'' @ IP_String remote @ ''|'' @ Itoa_nat (unat rp)"

definition windowsTCPRemoteIntentKey :: "bytes \<Rightarrow> u16 \<Rightarrow> string" where
  "windowsTCPRemoteIntentKey remote rp = ''*|'' @ IP_String remote @ ''|'' @ Itoa_nat (unat rp)"

definition reverseKeyFromFlow :: "ipv4FlowKey \<Rightarrow> windowsReverseFlowKey" where
  "reverseKeyFromFlow k =
     \<lparr>rkProtocol = fkProtocol k, rkRemoteIP = RemoteIP k, rkLocalPort = LocalPort k, rkRemotePort = RemotePort k\<rparr>"

definition reverseKeyFromInboundPacket :: "bytes \<Rightarrow> windowsReverseFlowKey result" where
  "reverseKeyFromInboundPacket packet =
     then_do (parseIPv4Flow packet False) (\<lambda>k.
     Ok \<lparr>rkProtocol = fkProtocol k, rkRemoteIP = RemoteIP k, rkLocalPort = LocalPort k, rkRemotePort = RemotePort k\<rparr>)"

definition windowsProtoName :: "byte \<Rightarrow> string option" where
  "windowsProtoName proto = (if proto = 6 then Some ''tcp'' else if proto = 17 then Some ''udp'' else None)"

definition windowsFlowFilter :: "byte \<Rightarrow> bytes \<Rightarrow> u16 \<Rightarrow> bytes \<Rightarrow> u16 \<Rightarrow> string result" where
  "windowsFlowFilter proto local lp remote rp =
     (case windowsProtoName proto of
        None \<Rightarrow> Error (Errorf ''unsupported protocol %d'' [ArgN (unat proto)])
      | Some pn \<Rightarrow>
          (let family = (if To4 local = None \<or> To4 remote = None then ''ipv6'' else ''ip'') in
           Ok (''!impostor and !loopback and '' @ family @ '' and '' @ pn @ '' and localAddr == '' @ IP_String local
             @ '' and localPort == '' @ Itoa_nat (unat lp) @ '' and remoteAddr == '' @ IP_String remote
             @ '' and remotePort == '' @ Itoa_nat (unat rp))))"

section \<open>TCP intents\<close>

text \<open>Times are nanoseconds.\<close>

definition intentKey :: "u16 \<Rightarrow> bytes \<Rightarrow> u16 \<Rightarrow> string" where
  "intentKey lp remote rp =
     (if lp \<noteq> 0 then windowsTCPIntentKey lp remote rp else windowsTCPRemoteIntentKey remote rp)"

definition markTCPIntent :: "win_env \<Rightarrow> int \<Rightarrow> wdAddress \<Rightarrow> windowsFlowManager \<Rightarrow> windowsFlowManager" where
  "markTCPIntent env now a m =
     (if \<not> bootstrapActive m \<or> flowProtocol a \<noteq> 6 \<or> \<not> isDiscordPIDWindows env (flowPID a) then m
      else case flowIPs (fmtIPv6 env) a of
        Ok (local, remote) \<Rightarrow>
          (if To4 remote = None \<or> IsUnspecified remote then m
           else
             let lp = flowLocalPort a; rp = flowRemotePort a in
             if rp = 0 then m
             else m\<lparr>tcpIntents := AList.update (intentKey lp remote rp) (now + 3000000000) (tcpIntents m)\<rparr>)
      | _ \<Rightarrow> m)"

text \<open>The locked section of \<^verbatim>\<open>consumeTCPIntent\<close>.\<close>

primrec poll_intents :: "int \<Rightarrow> string list \<Rightarrow> (string \<times> int) list \<Rightarrow> bool \<times> (string \<times> int) list" where
  "poll_intents now [] intents = (False, intents)"
| "poll_intents now (key # keys) intents =
     (case map_of intents key of
        Some expires \<Rightarrow>
          (if now < expires then (True, AList.delete key intents)
           else poll_intents now keys (AList.delete key intents))
      | None \<Rightarrow> poll_intents now keys intents)"

text \<open>
  \<open>lag i\<close> is the time the \<open>i\<close>-th iteration takes besides its sleep of one millisecond (a sleep lasts at
  least as long as asked for), and \<open>others i\<close> what the other goroutines do to the manager during that
  sleep; \<open>lag 0\<close> lies between the reading the deadline is computed from and the first iteration.
\<close>

function consume_loop ::
  "(nat \<Rightarrow> nat) \<Rightarrow> (nat \<Rightarrow> windowsFlowManager \<Rightarrow> windowsFlowManager) \<Rightarrow> string list \<Rightarrow> int \<Rightarrow> nat \<Rightarrow> int
    \<Rightarrow> windowsFlowManager \<Rightarrow> bool \<times> windowsFlowManager" where
  "consume_loop lag others keys deadline i now m =
     (let (hit, intents) = poll_intents now keys (tcpIntents m); m = m\<lparr>tcpIntents := intents\<rparr> in
      if hit then (True, m)
      else if \<not> bootstrapActive m \<or> \<not> now + int (lag i) < deadline then (False, m)
      else consume_loop lag others keys deadline (Suc i) (now + int (lag i) + 1000000) (others i m))"
  by pat_completeness auto
termination by (relation "measure (\<lambda>(lag, others, keys, deadline, i, now, m). nat (deadline - now))") auto

declare consume_loop.simps [simp del]

definition consumeTCPIntent ::
  "(nat \<Rightarrow> nat) \<Rightarrow> (nat \<Rightarrow> windowsFlowManager \<Rightarrow> windowsFlowManager) \<Rightarrow> int \<Rightarrow> ipv4FlowKey
    \<Rightarrow> windowsFlowManager \<Rightarrow> bool \<times> windowsFlowManager" where
  "consumeTCPIntent lag others now k m =
     (let remote = ipv4FromArray (RemoteIP k) in
      consume_loop lag others
        [windowsTCPIntentKey (LocalPort k) remote (RemotePort k), windowsTCPRemoteIntentKey remote (RemotePort k)]
        (now + 8000000) 1 (now + int (lag 0)) m)"

section \<open>Installing and removing flows\<close>

definition no_flow_key :: ipv4FlowKey where
  "no_flow_key = \<lparr>fkProtocol = 0, LocalIP = replicate 4 0, RemoteIP = replicate 4 0, LocalPort = 0, RemotePort = 0\<rparr>"

text \<open>
  Before its second locked section a handler has either finished or built a flow with a handle of
  its own that the section will commit.
\<close>

datatype 'a plan = Finish 'a | Commit windowsDiscordFlow

definition openHandle ::
  "win_env \<Rightarrow> string \<Rightarrow> u16 \<Rightarrow> u64 \<Rightarrow> windowsFlowManager \<Rightarrow> handle result \<times> windowsFlowManager" where
  "openHandle env filt priority flags m =
     (let (h, hs) = wd_open (openProc env) filt wdLayerNetwork priority flags (wd m) in (h, m\<lparr>wd := hs\<rparr>))"

definition addFromEvent_begin ::
  "win_env \<Rightarrow> wdAddress \<Rightarrow> windowsFlowManager \<Rightarrow> go_error option plan \<times> windowsFlowManager" where
  "addFromEvent_begin env a m =
     (if \<not> bootstrapActive m then (Finish None, m)
      else if \<not> isDiscordPIDWindows env (flowPID a) then (Finish None, m)
      else if flowProtocol a \<noteq> 6 then (Finish None, m)
      else
        case flowIPs (fmtIPv6 env) a of
          Error e \<Rightarrow> (Finish (Some e), m)
        | Panicked p \<Rightarrow> (Finish None, m)
        | Ok (local, remote) \<Rightarrow>
        if IsUnspecified local \<or> IsUnspecified remote then (Finish None, m)
        else
          let proto = flowProtocol a; lp = flowLocalPort a; rp = flowRemotePort a;
              flowId = windowsFlowIdentity proto local lp remote rp in
          if map_of (flows m) flowId \<noteq> None then (Finish None, m)
          else
            case windowsFlowFilter proto local lp remote rp of
              Error e \<Rightarrow> (Finish (Some e), m)
            | Panicked p \<Rightarrow> (Finish None, m)
            | Ok filt \<Rightarrow>
            if To4 local = None \<or> To4 remote = None then
              (case openHandle env filt 200 wdFlagDrop m of
                 (Ok h, m) \<Rightarrow> (Commit \<lparr>fl_id = flowId, fl_key = no_flow_key, fl_ifIdx = 0, fl_handle = h,
                                 ipv6Drop = True, shared = False\<rparr>, m)
               | (Error e, m) \<Rightarrow> (Finish (Some (Wrapf ''open IPv6 kill-switch flow: %w'' e)), m)
               | (Panicked p, m) \<Rightarrow> (Finish None, m))
            else
              let key = \<lparr>fkProtocol = proto, LocalIP = the (To4 local), RemoteIP = the (To4 remote),
                         LocalPort = lp, RemotePort = rp\<rparr> in
              case bestWindowsInterfaceIndex env remote of
                Error e \<Rightarrow> (Finish (Some (Wrapf (''best interface for '' @ IP_String remote @ '': %w'') e)), m)
              | Panicked p \<Rightarrow> (Finish None, m)
              | Ok ifIdx \<Rightarrow>
                  (case openHandle env filt 200 0 m of
                     (Ok h, m) \<Rightarrow> (Commit \<lparr>fl_id = flowId, fl_key = key, fl_ifIdx = ifIdx, fl_handle = h,
                                     ipv6Drop = False, shared = False\<rparr>, m)
                   | (Error e, m) \<Rightarrow> (Finish (Some (Wrapf ''open Discord packet flow: %w'' e)), m)
                   | (Panicked p, m) \<Rightarrow> (Finish None, m)))"

text \<open>
  The second locked section of \<^verbatim>\<open>addFromEvent\<close> and \<^verbatim>\<open>installTCPFlowFromSYN\<close>: when another goroutine has
  installed the flow in between, the new handle is closed again.
\<close>

definition commitFlow :: "windowsDiscordFlow \<Rightarrow> windowsFlowManager \<Rightarrow> windowsDiscordFlow \<times> windowsFlowManager" where
  "commitFlow f m =
     (case map_of (flows m) (fl_id f) of
        Some old \<Rightarrow> (old, closeHandle (Some (fl_handle f)) m)
      | None \<Rightarrow>
          (f, m\<lparr>flows := AList.update (fl_id f) f (flows m),
               reverse := (if ipv6Drop f then reverse m
                           else AList.update (reverseKeyFromFlow (fl_key f)) f (reverse m))\<rparr>))"

definition addFromEvent ::
  "win_env \<Rightarrow> wdAddress \<Rightarrow> windowsFlowManager \<Rightarrow> go_error option \<times> windowsFlowManager" where
  "addFromEvent env a m =
     (case addFromEvent_begin env a m of
        (Finish e, m) \<Rightarrow> (e, m)
      | (Commit f, m) \<Rightarrow> (None, snd (commitFlow f m)))"

definition installTCPFlow_begin ::
  "win_env \<Rightarrow> ipv4FlowKey \<Rightarrow> wdAddress option \<Rightarrow> windowsFlowManager
    \<Rightarrow> windowsDiscordFlow result plan \<times> windowsFlowManager" where
  "installTCPFlow_begin env k addr m =
     (let local = ipv4FromArray (LocalIP k); remote = ipv4FromArray (RemoteIP k);
          flowId = windowsFlowIdentity 6 local (LocalPort k) remote (RemotePort k) in
      case map_of (flows m) flowId of
        Some existing \<Rightarrow> (Finish (Ok existing), m)
      | None \<Rightarrow>
      case windowsFlowFilter 6 local (LocalPort k) remote (RemotePort k) of
        Error e \<Rightarrow> (Finish (Error e), m)
      | Panicked p \<Rightarrow> (Finish (Panicked p), m)
      | Ok filt \<Rightarrow>
      let ifIdx = (case addr of Some a \<Rightarrow> networkIfIdx a | None \<Rightarrow> 0) in
      case (if ifIdx = 0 then bestWindowsInterfaceIndex env remote else Ok ifIdx) of
        Error e \<Rightarrow> (Finish (Error (Wrapf (''best interface for '' @ IP_String remote @ '': %w'') e)), m)
      | Panicked p \<Rightarrow> (Finish (Panicked p), m)
      | Ok ifIdx \<Rightarrow>
          (case openHandle env filt 200 0 m of
             (Ok h, m) \<Rightarrow> (Commit \<lparr>fl_id = flowId, fl_key = k, fl_ifIdx = ifIdx, fl_handle = h,
                             ipv6Drop = False, shared = False\<rparr>, m)
           | (Error e, m) \<Rightarrow> (Finish (Error (Wrapf ''open Discord TCP flow from SYN: %w'' e)), m)
           | (Panicked p, m) \<Rightarrow> (Finish (Panicked p), m)))"

definition installTCPFlowFromSYN ::
  "win_env \<Rightarrow> ipv4FlowKey \<Rightarrow> wdAddress option \<Rightarrow> windowsFlowManager
    \<Rightarrow> windowsDiscordFlow result \<times> windowsFlowManager" where
  "installTCPFlowFromSYN env k addr m =
     (case installTCPFlow_begin env k addr m of
        (Finish r, m) \<Rightarrow> (r, m)
      | (Commit f, m) \<Rightarrow> (let (f', m) = commitFlow f m in (Ok f', m)))"

definition removeFromEvent :: "win_env \<Rightarrow> wdAddress \<Rightarrow> windowsFlowManager \<Rightarrow> windowsFlowManager" where
  "removeFromEvent env a m =
     (case flowIPs (fmtIPv6 env) a of
        Ok (local, remote) \<Rightarrow>
          (let flowId = windowsFlowIdentity (flowProtocol a) local (flowLocalPort a) remote (flowRemotePort a) in
           case map_of (flows m) flowId of
             None \<Rightarrow> m
           | Some f \<Rightarrow>
               (let m = m\<lparr>flows := AList.delete flowId (flows m),
                          reverse := (if ipv6Drop f then reverse m
                                      else AList.delete (reverseKeyFromFlow (fl_key f)) (reverse m))\<rparr>
                in if shared f then m else closeHandle (Some (fl_handle f)) m))
      | _ \<Rightarrow> m)"

section \<open>Protected UDP ports\<close>

definition protectUDPPort :: "win_env \<Rightarrow> wdAddress \<Rightarrow> windowsFlowManager \<Rightarrow> windowsFlowManager" where
  "protectUDPPort env a m =
     (if \<not> bootstrapActive m then m
      else if flowProtocol a \<noteq> 17 \<or> \<not> isDiscordPIDWindows env (flowPID a) then m
      else
        let port = flowLocalPort a; endpointID = flowEndpointID a in
        if port = 0 \<or> endpointID = 0 then m
        else if vpnLocalUDPPort m \<noteq> 0 \<and> port = vpnLocalUDPPort m then m
        else if map_of (udpEndpointPorts m) endpointID \<noteq> None then m
        else case map_of (udpPortRefs m) port of
          Some refs \<Rightarrow>
            m\<lparr>udpPortRefs := AList.update port (List.insert endpointID refs) (udpPortRefs m),
              udpEndpointPorts := AList.update endpointID port (udpEndpointPorts m)\<rparr>
        | None \<Rightarrow>
            (case openHandle env (''!impostor and !loopback and udp and localPort == '' @ Itoa_nat (unat port)) 240 0 m of
               (Ok h, m) \<Rightarrow>
                 m\<lparr>udpHandles := AList.update port h (udpHandles m),
                   udpPortRefs := AList.update port [endpointID] (udpPortRefs m),
                   udpEndpointPorts := AList.update endpointID port (udpEndpointPorts m)\<rparr>
             | (Error e, m) \<Rightarrow>
                 reportErr (Wrapf (''protect Discord UDP port '' @ Itoa_nat (unat port) @ '': %w'') e) m
             | (Panicked p, m) \<Rightarrow> m))"

definition udp_flow_on :: "u16 \<Rightarrow> windowsDiscordFlow \<Rightarrow> bool" where
  "udp_flow_on port f \<longleftrightarrow> fkProtocol (fl_key f) = 17 \<and> LocalPort (fl_key f) = port"

text \<open>The range loop over \<^verbatim>\<open>m.flows\<close> that drops the flows of a port nobody uses any more.\<close>

definition dropPortFlows :: "u16 \<Rightarrow> windowsFlowManager \<Rightarrow> windowsFlowManager" where
  "dropPortFlows port m =
     fold (\<lambda>(flowId, f) m.
         if udp_flow_on port f then
           m\<lparr>flows := AList.delete flowId (flows m),
             reverse := AList.delete (reverseKeyFromFlow (fl_key f)) (reverse m)\<rparr>
         else m) (flows m) m"

definition unprotectUDPSocket :: "wdAddress \<Rightarrow> windowsFlowManager \<Rightarrow> windowsFlowManager" where
  "unprotectUDPSocket a m =
     (let endpointID = flowEndpointID a in
      if endpointID = 0 then m
      else case map_of (udpEndpointPorts m) endpointID of
        None \<Rightarrow> m
      | Some port \<Rightarrow>
          (let m = m\<lparr>udpEndpointPorts := AList.delete endpointID (udpEndpointPorts m)\<rparr> in
           case map_of (udpPortRefs m) port of
             None \<Rightarrow> m
           | Some refs \<Rightarrow>
               (let refs = removeAll endpointID refs in
                if length refs = 0 then
                  let h = map_of (udpHandles m) port;
                      m = m\<lparr>udpPortRefs := AList.delete port (udpPortRefs m),
                            udpHandles := AList.delete port (udpHandles m)\<rparr>
                  in closeHandle h (dropPortFlows port m)
                else m\<lparr>udpPortRefs := AList.update port refs (udpPortRefs m)\<rparr>)))"

definition closeManager :: "windowsFlowManager \<Rightarrow> windowsFlowManager" where
  "closeManager m =
     (let list = map snd (flows m); hs = map snd (udpHandles m);
          m = m\<lparr>flows := [], reverse := [], udpHandles := [], udpPortRefs := [], udpEndpointPorts := []\<rparr>;
          m = fold (\<lambda>f m. if shared f then m else closeHandle (Some (fl_handle f)) m) list m
      in fold (\<lambda>h m. closeHandle (Some h) m) hs m)"

section \<open>Packets into the tunnel\<close>

text \<open>The two \<^verbatim>\<open>atomic.AddUint32\<close> of \<^verbatim>\<open>sendPacketToVPN\<close> and \<^verbatim>\<open>keepalive\<close>: packet id 0 is skipped.\<close>

definition nextPacketID :: "windowsFlowManager \<Rightarrow> u32 \<times> windowsFlowManager" where
  "nextPacketID m =
     (let pid = packetID m + 1; m = m\<lparr>packetID := pid\<rparr> in
      if pid = 0 then (let pid = packetID m + 1 in (pid, m\<lparr>packetID := pid\<rparr>)) else (pid, m))"

definition seal_for :: "liveVPN \<Rightarrow> u32 \<Rightarrow> bytes \<Rightarrow> bytes result" where
  "seal_for vpn pid packet =
     then_do (slice_go (ClientCipher (vKeys vpn)) 0 32) (\<lambda>key.
     encryptDataV2 (psPeerID (vSession vpn)) 0 pid key (ClientHMAC (vKeys vpn)) packet)"

text \<open>\<^verbatim>\<open>vpn.Control.udp.Write\<close>.\<close>

definition writeVPN :: "win_env \<Rightarrow> bytes \<Rightarrow> windowsFlowManager \<Rightarrow> go_error option \<times> windowsFlowManager" where
  "writeVPN env enc m =
     (case udpWrite env enc of Some e \<Rightarrow> (Some e, m) | None \<Rightarrow> (None, m\<lparr>vpn_sent := vpn_sent m @ [enc]\<rparr>))"

definition sendPacketToVPN ::
  "win_env \<Rightarrow> liveVPN \<Rightarrow> bytes \<Rightarrow> windowsFlowManager \<Rightarrow> (go_error option \<times> windowsFlowManager) result" where
  "sendPacketToVPN env vpn packet m =
     (let (pid, m) = nextPacketID m in
      match_err (seal_for vpn pid packet) (\<lambda>e. Ok (Some e, m)) (\<lambda>enc. Ok (writeVPN env enc m)))"

definition pingPayload :: bytes where
  "pingPayload = [0x2a, 0x18, 0x7b, 0xf3, 0x64, 0x1e, 0xb4, 0xcb, 0x07, 0xed, 0x2d, 0x0a, 0x98, 0x1f, 0xc7, 0x48]"

text \<open>One tick of \<^verbatim>\<open>keepalive\<close>.\<close>

definition keepalive_tick :: "win_env \<Rightarrow> liveVPN \<Rightarrow> windowsFlowManager \<Rightarrow> windowsFlowManager result" where
  "keepalive_tick env vpn m =
     (let (pid, m) = nextPacketID m in
      match_err (seal_for vpn pid pingPayload) (\<lambda>e. Ok m) (\<lambda>enc. Ok (snd (writeVPN env enc m))))"

text \<open>\<^verbatim>\<open>h.send\<close> for a handle of the manager.\<close>

definition sendHandle ::
  "win_env \<Rightarrow> handle \<Rightarrow> bytes \<Rightarrow> wdAddress \<Rightarrow> windowsFlowManager \<Rightarrow> go_error option \<times> windowsFlowManager" where
  "sendHandle env h packet addr m =
     (case wd_send (sendProc env h) packet addr of
        Some e \<Rightarrow> (Some e, m)
      | None \<Rightarrow> (None, m\<lparr>injected := injected m @ [(h, packet, addr)]\<rparr>))"

text \<open>
  A goroutine is its loop body on one event, which says whether the loop goes on; \<open>serve\<close> runs it on
  the events that arrive.
\<close>

fun serve :: "('e \<Rightarrow> 's \<Rightarrow> ('s \<times> bool) result) \<Rightarrow> 'e list \<Rightarrow> 's \<Rightarrow> 's result" where
  "serve body [] s = Ok s"
| "serve body (e # es) s = then_do (body e s) (\<lambda>(s, goOn). if goOn then serve body es s else Ok s)"

text \<open>
  \<open>tunnel\<close>: the rewrite of the source address and the send that end every capture loop.  A failed
  rewrite is handled by \<open>onRewrite\<close>, a failed send is reported under \<open>what\<close> and ends the loop.
\<close>

definition tunnel ::
  "win_env \<Rightarrow> liveVPN \<Rightarrow> string \<Rightarrow> (go_error \<Rightarrow> windowsFlowManager \<Rightarrow> windowsFlowManager \<times> bool) \<Rightarrow> bytes
    \<Rightarrow> windowsFlowManager \<Rightarrow> (windowsFlowManager \<times> bool) result" where
  "tunnel env vpn what onRewrite packet m =
     then_do (rewriteIPv4Source packet (case psIPv4 (vSession vpn) of Some ip \<Rightarrow> ip | None \<Rightarrow> [])) (\<lambda>(packet, err).
     case err of
       Some e \<Rightarrow> Ok (onRewrite e m)
     | None \<Rightarrow>
         then_do (sendPacketToVPN env vpn packet m) (\<lambda>(err, m).
         case err of
           Some e \<Rightarrow> Ok (reportErr (Wrapf what e) m, False)
         | None \<Rightarrow> Ok (m, True)))"

text \<open>Clock readings and interference for the wait of \<^verbatim>\<open>consumeTCPIntent\<close>.\<close>

record syn_event =
  se_recv :: "(bytes \<times> wdAddress) proc_out"
  se_now :: int
  se_lag :: "nat \<Rightarrow> nat"
  se_others :: "nat \<Rightarrow> windowsFlowManager \<Rightarrow> windowsFlowManager"

definition captureSYN_tunneled ::
  "win_env \<Rightarrow> liveVPN \<Rightarrow> bytes \<Rightarrow> windowsFlowManager \<Rightarrow> (windowsFlowManager \<times> bool) result" where
  "captureSYN_tunneled env vpn packet m =
     then_do (clampTCPMSS packet 1180) (\<lambda>(packet, changed, err).
     case err of
       Some e \<Rightarrow> Ok (reportErr (Wrapf ''clamp first Discord SYN MSS: %w'' e) m, False)
     | None \<Rightarrow>
         tunnel env vpn ''VPN first SYN write: %w''
           (\<lambda>e m. (reportErr (Wrapf ''rewrite first Discord SYN: %w'' e) m, False)) packet m)"

text \<open>The loop body from line 329 on: \<open>k\<close> is the key of a TCP SYN captured while the bootstrap is active.\<close>

definition captureSYN_flow ::
  "win_env \<Rightarrow> liveVPN \<Rightarrow> handle \<Rightarrow> syn_event \<Rightarrow> bytes \<Rightarrow> wdAddress \<Rightarrow> ipv4FlowKey \<Rightarrow> windowsFlowManager
    \<Rightarrow> (windowsFlowManager \<times> bool) result" where
  "captureSYN_flow env vpn h ev packet addr k m =
     (let flowId = windowsFlowIdentity 6 (ipv4FromArray (LocalIP k)) (LocalPort k)
                     (ipv4FromArray (RemoteIP k)) (RemotePort k) in
      case map_of (flows m) flowId of
        Some existing \<Rightarrow> captureSYN_tunneled env vpn packet m
      | None \<Rightarrow>
          (case consumeTCPIntent (se_lag ev) (se_others ev) (se_now ev) k m of
             (False, m) \<Rightarrow>
               (case sendHandle env h packet addr m of
                  (Some e, m) \<Rightarrow> Ok (reportErr (Wrapf ''reinject non-Discord SYN: %w'' e) m, False)
                | (None, m) \<Rightarrow> Ok (m, True))
           | (True, m) \<Rightarrow>
               (case installTCPFlowFromSYN env k (Some addr) m of
                  (Error e, m) \<Rightarrow> Ok (reportErr e m, False)
                | (Panicked p, m) \<Rightarrow> Panicked p
                | (Ok f, m) \<Rightarrow> captureSYN_tunneled env vpn packet m)))"

definition captureInitialTCPSYN ::
  "win_env \<Rightarrow> liveVPN \<Rightarrow> handle \<Rightarrow> syn_event \<Rightarrow> windowsFlowManager \<Rightarrow> (windowsFlowManager \<times> bool) result" where
  "captureInitialTCPSYN env vpn h ev m =
     match_err (wd_recv 65535 (se_recv ev)) (\<lambda>e. Ok (m, False)) (\<lambda>(packet, addr).
     if length packet \<le> 0 then Ok (m, True)
     else if \<not> bootstrapActive m then
       (case sendHandle env h packet addr m of
          (Some e, m) \<Rightarrow> Ok (reportErr (Wrapf ''reinject pre-bootstrap SYN: %w'' e) m, False)
        | (None, m) \<Rightarrow> Ok (m, True))
     else
       match_err (parseIPv4Flow packet True)
         (\<lambda>e. Ok (snd (sendHandle env h packet addr m), True))
         (\<lambda>k. if fkProtocol k \<noteq> 6 then Ok (snd (sendHandle env h packet addr m), True)
              else captureSYN_flow env vpn h ev packet addr k m))"

definition captureFlow ::
  "win_env \<Rightarrow> liveVPN \<Rightarrow> windowsDiscordFlow \<Rightarrow> (bytes \<times> wdAddress) proc_out \<Rightarrow> windowsFlowManager
    \<Rightarrow> (windowsFlowManager \<times> bool) result" where
  "captureFlow env vpn f out m =
     match_err (wd_recv 65535 out) (\<lambda>e. Ok (m, False)) (\<lambda>(packet, addr).
     if length packet \<le> 0 \<or> \<not> wd_outbound addr then Ok (m, True)
     else
       then_do (clampTCPMSS packet 1180) (\<lambda>(packet, changed, err).
       if err \<noteq> None then Ok (m, True)
       else tunnel env vpn ''VPN data write: %w'' (\<lambda>e m. (m, True)) packet m))"

text \<open>The flow of a packet captured on a protected port, installed when it is new (a locked section).\<close>

definition sharedFlow ::
  "string \<Rightarrow> ipv4FlowKey \<Rightarrow> u32 \<Rightarrow> handle \<Rightarrow> windowsFlowManager \<Rightarrow> windowsFlowManager" where
  "sharedFlow flowId key ifIdx h m =
     (case map_of (flows m) flowId of
        Some existing \<Rightarrow> m
      | None \<Rightarrow>
          (let candidate = \<lparr>fl_id = flowId, fl_key = key, fl_ifIdx = ifIdx, fl_handle = h, ipv6Drop = False,
                            shared = True\<rparr>
           in m\<lparr>flows := AList.update flowId candidate (flows m),
                reverse := AList.update (reverseKeyFromFlow key) candidate (reverse m)\<rparr>))"

definition captureUDPPort ::
  "win_env \<Rightarrow> liveVPN \<Rightarrow> u16 \<Rightarrow> handle \<Rightarrow> (bytes \<times> wdAddress) proc_out \<Rightarrow> windowsFlowManager
    \<Rightarrow> (windowsFlowManager \<times> bool) result" where
  "captureUDPPort env vpn port h out m =
     match_err (wd_recv 65535 out) (\<lambda>e. Ok (m, False)) (\<lambda>(packet, addr).
     if length packet \<le> 0 then Ok (m, True)
     else if \<not> wd_outbound addr then Ok (m, True)
     else if length packet < 20 \<or> drop_bit 4 (packet ! 0) \<noteq> 4 then Ok (m, True)
     else
       match_err (parseIPv4Flow packet True) (\<lambda>e. Ok (m, True)) (\<lambda>key.
       if fkProtocol key \<noteq> 17 \<or> LocalPort key \<noteq> port then Ok (m, True)
       else
         let flowId = windowsFlowIdentity 17 (ipv4FromArray (LocalIP key)) (LocalPort key)
                        (ipv4FromArray (RemoteIP key)) (RemotePort key) in
         match_err
           (if map_of (flows m) flowId \<noteq> None then Ok m
            else
              let ifIdx = networkIfIdx addr in
              then_do (if ifIdx = 0 then bestWindowsInterfaceIndex env (ipv4FromArray (RemoteIP key)) else Ok ifIdx)
                (\<lambda>ifIdx. Ok (sharedFlow flowId key ifIdx h m)))
           (\<lambda>e. Ok (m, True))
           (\<lambda>m. tunnel env vpn ''VPN UDP write: %w'' (\<lambda>e m. (m, True)) packet m)))"

section \<open>Packets out of the tunnel\<close>

datatype vpn_read = CtxDone | ReadTimeout | ReadError go_error | Datagram bytes

definition deliver :: "win_env \<Rightarrow> bytes \<Rightarrow> windowsFlowManager \<Rightarrow> (windowsFlowManager \<times> bool) result" where
  "deliver env payload m =
     match_err (reverseKeyFromInboundPacket payload) (\<lambda>e. Ok (m, True)) (\<lambda>rk.
     case map_of (reverse m) rk of
       None \<Rightarrow> Ok (m, True)
     | Some f \<Rightarrow>
         then_do (rewriteIPv4Destination payload (ipv4FromArray (LocalIP (fl_key f)))) (\<lambda>(packet, err).
         if err \<noteq> None then Ok (m, True)
         else
           then_do (clampTCPMSS packet 1180) (\<lambda>(packet, changed, err).
           case sendHandle env (fl_handle f) packet (makeInboundWDAddress (fl_ifIdx f)) m of
             (Some e, m) \<Rightarrow> Ok (reportErr (Wrapf ''inject Discord response: %w'' e) m, False)
           | (None, m) \<Rightarrow> Ok (m, True))))"

definition receiveVPN ::
  "win_env \<Rightarrow> liveVPN \<Rightarrow> vpn_read \<Rightarrow> windowsFlowManager \<Rightarrow> (windowsFlowManager \<times> bool) result" where
  "receiveVPN env vpn rd m =
     (case rd of
        CtxDone \<Rightarrow> Ok (m, False)
      | ReadTimeout \<Rightarrow> Ok (m, True)
      | ReadError e \<Rightarrow> Ok (reportErr (Wrapf ''VPN UDP read: %w'' e) m, False)
      | Datagram dgram \<Rightarrow>
          (let buf = take 65535 dgram in
           if length buf < 1 \<or> drop_bit 3 (buf ! 0) \<noteq> of_nat openVPNDataV2Opcode then Ok (m, True)
           else
             then_do (slice_go (ServerCipher (vKeys vpn)) 0 32) (\<lambda>key.
             match_err (decryptDataV2 buf key (ServerHMAC (vKeys vpn))) (\<lambda>e. Ok (m, True)) (\<lambda>dec.
             if length (dPayload dec) < 20 \<or> drop_bit 4 (dPayload dec ! 0) \<noteq> 4 then Ok (m, True)
             else deliver env (dPayload dec) m))))"

section \<open>Monitors\<close>

text \<open>An event is \<open>None\<close> when the context is done; otherwise it carries what the driver returned.\<close>

definition monitorWindowsFlowEvents ::
  "win_env \<Rightarrow> (bytes \<times> wdAddress) proc_out option \<Rightarrow> windowsFlowManager \<Rightarrow> (windowsFlowManager \<times> bool) result" where
  "monitorWindowsFlowEvents env ev m =
     (case ev of None \<Rightarrow> Ok (m, False)
      | Some out \<Rightarrow>
          match_err (wd_recv 0 out) (\<lambda>e. Ok (m, False)) (\<lambda>(packet, a).
          if wd_event a = wdEventFlowDeleted then Ok (removeFromEvent env a m, True) else Ok (m, True)))"

definition monitorWindowsSocketEvents ::
  "win_env \<Rightarrow> int \<Rightarrow> (bytes \<times> wdAddress) proc_out option \<Rightarrow> windowsFlowManager \<Rightarrow> (windowsFlowManager \<times> bool) result" where
  "monitorWindowsSocketEvents env now ev m =
     (case ev of None \<Rightarrow> Ok (m, False)
      | Some out \<Rightarrow>
          match_err (wd_recv 0 out) (\<lambda>e. Ok (m, False)) (\<lambda>(packet, a).
          if wd_event a = wdEventSocketConnect \<and> flowProtocol a = 6 then Ok (markTCPIntent env now a m, True)
          else Ok (m, True)))"

end
