(* ===== verification/FlowInvariant.thy ===== *)
theory FlowInvariant
  imports FlowManager "HOL-Library.Multiset"
begin

text \<open>
  The flow manager as a transition system.  A step is a locked section or an atomic effect of one of
  the goroutines; \<open>pend\<close> holds the flows whose handle a goroutine has opened but not yet committed.
  The invariant covers the agreement of the flow tables, the reference counts of the protected UDP
  ports and the ownership of the driver handles.
\<close>

section \<open>Association lists\<close>

lemma update_new: "map_of al k = None \<Longrightarrow> AList.update k v al = al @ [(k, v)]"
  by (induction al) (auto split: if_splits)

lemma alist_split:
  assumes "distinct (map fst al)" "map_of al k = Some v"
  obtains xs ys where "al = xs @ (k, v) # ys" "AList.delete k al = xs @ ys"
proof -
  obtain xs ys where al: "al = xs @ (k, v) # ys"
    using map_of_SomeD [OF assms(2)] by (auto simp: in_set_conv_decomp)
  with assms(1) have "k \<notin> fst ` set xs" "k \<notin> fst ` set ys" by auto
  then have "filter (\<lambda>(k', v). k \<noteq> k') xs = xs" "filter (\<lambda>(k', v). k \<noteq> k') ys = ys"
    by (force simp: filter_id_conv)+
  then have "AList.delete k al = xs @ ys" by (simp add: al AList.delete_eq)
  with al that show thesis by blast
qed

lemma map_of_filter_Some:
  "distinct (map fst al) \<Longrightarrow>
   map_of (filter P al) k = Some v \<longleftrightarrow> map_of al k = Some v \<and> P (k, v)"
  by (induction al) (auto simp: rev_image_eqI weak_map_of_SomeI dest: map_of_SomeD)

lemma delete_fold_filter:
  "fold (\<lambda>k. AList.delete k) ks al = filter (\<lambda>(k, v). k \<notin> set ks) al"
  by (induction ks arbitrary: al) (auto simp: AList.delete_eq intro!: filter_cong)

section \<open>Well-formed tables\<close>

definition flows_agree ::
  "(string \<rightharpoonup> windowsDiscordFlow) \<Rightarrow> (windowsReverseFlowKey \<rightharpoonup> windowsDiscordFlow) \<Rightarrow> bool" where
  "flows_agree F R \<longleftrightarrow>
     (\<forall>i f. F i = Some f \<longrightarrow> fl_id f = i \<and> (\<not> shared f \<longrightarrow> fkProtocol (fl_key f) \<noteq> 17))
     \<and> (\<forall>rk f. R rk = Some f \<longrightarrow> rk = reverseKeyFromFlow (fl_key f) \<and> \<not> ipv6Drop f \<and> F (fl_id f) = Some f)"

definition tables_ok :: "windowsFlowManager \<Rightarrow> bool" where
  "tables_ok m \<longleftrightarrow> distinct (map fst (flows m)) \<and> distinct (map fst (reverse m))
     \<and> flows_agree (map_of (flows m)) (map_of (reverse m))"

definition ports_agree :: "(u64 \<rightharpoonup> u16) \<Rightarrow> (u16 \<rightharpoonup> u64 list) \<Rightarrow> u16 \<Rightarrow> bool" where
  "ports_agree E R own \<longleftrightarrow>
     (\<forall>e p. E e = Some p \<longleftrightarrow> (\<exists>refs. R p = Some refs \<and> e \<in> set refs))
     \<and> (\<forall>p refs. R p = Some refs \<longrightarrow> refs \<noteq> [] \<and> p \<noteq> 0 \<and> p \<noteq> own)"

definition udp_ok :: "windowsFlowManager \<Rightarrow> bool" where
  "udp_ok m \<longleftrightarrow> distinct (map fst (udpHandles m))
     \<and> ports_agree (map_of (udpEndpointPorts m)) (map_of (udpPortRefs m)) (vpnLocalUDPPort m)
     \<and> dom (map_of (udpHandles m)) = dom (map_of (udpPortRefs m))"

text \<open>The handles the manager has to release: those of its own flows, of the ports, and of flows in flight.\<close>

definition own_of :: "(string \<times> windowsDiscordFlow) list \<Rightarrow> handle list" where
  "own_of fs = map (fl_handle \<circ> snd) (filter (\<lambda>(i, f). \<not> shared f) fs)"

definition owned :: "windowsDiscordFlow list \<Rightarrow> windowsFlowManager \<Rightarrow> handle list" where
  "owned pend m = own_of (flows m) @ map snd (udpHandles m) @ map fl_handle pend"

definition ledger :: "handle set \<Rightarrow> handle list \<Rightarrow> wd_handles \<Rightarrow> bool" where
  "ledger base own hs \<longleftrightarrow> distinct own \<and> live hs = base \<union> set own \<and> base \<inter> set own = {}
     \<and> (\<forall>h \<in> live hs. h < next_handle hs)"

definition pend_ok :: "windowsDiscordFlow list \<Rightarrow> bool" where
  "pend_ok pend \<longleftrightarrow> (\<forall>f \<in> set pend. \<not> shared f \<and> fkProtocol (fl_key f) \<noteq> 17)"

definition fm_inv :: "handle set \<Rightarrow> windowsDiscordFlow list \<Rightarrow> windowsFlowManager \<Rightarrow> bool" where
  "fm_inv base pend m \<longleftrightarrow> tables_ok m \<and> udp_ok m \<and> pend_ok pend \<and> ledger base (owned pend m) (wd m)"

lemma ledger_perm: "mset own = mset own' \<Longrightarrow> ledger base own hs \<Longrightarrow> ledger base own' hs"
  by (auto simp: ledger_def dest: mset_eq_imp_distinct_iff mset_eq_setD)

lemma ledger_close:
  assumes "ledger base own hs" "mset own = add_mset h (mset own')"
  shows "ledger base own' (fst (wd_Close e (Some h) hs))"
proof -
  have "ledger base (h # own') hs" using ledger_perm [OF _ assms(1)] assms(2) by simp
  then show ?thesis by (auto simp: ledger_def wd_Close_def)
qed

lemma wd_open_cases:
  assumes "wd_open op filt layer prio flags hs = (r, hs')"
  shows "(\<exists>e. r = Error e \<and> hs' = hs) \<or>
    r = Ok (next_handle hs) \<and> hs' = \<lparr>next_handle = Suc (next_handle hs), live = insert (next_handle hs) (live hs)\<rparr>"
proof (cases "CHR 0x00 \<in> set filt")
  case True
  with assms show ?thesis by (auto simp: wd_open_def)
next
  case False
  show ?thesis
  proof (cases "op filt layer prio flags")
    case (Inl u)
    with assms False show ?thesis by (auto simp: wd_open_def)
  next
    case (Inr ce)
    with assms False have "r = Error (call_error ''WinDivertOpen failed'' ce)" "hs' = hs" by (simp_all add: wd_open_def)
    then show ?thesis by blast
  qed
qed

lemma ledger_open:
  assumes "ledger base own hs" "wd_open op filt layer prio flags hs = (Ok h, hs')" "mset own' = add_mset h (mset own)"
  shows "ledger base own' hs'"
proof -
  have hs: "hs' = \<lparr>next_handle = Suc h, live = insert h (live hs)\<rparr>" and h: "h = next_handle hs"
    using wd_open_cases [OF assms(2)] by blast+
  have "ledger base (h # own) hs'" using assms(1) unfolding hs h by (auto simp: ledger_def less_Suc_eq)
  then show ?thesis by (rule ledger_perm [rotated]) (simp add: assms(3))
qed

lemma own_of_delete:
  assumes "distinct (map fst fs)" "map_of fs i = Some f"
  shows "mset (own_of fs) = (if shared f then mset (own_of (AList.delete i fs))
    else add_mset (fl_handle f) (mset (own_of (AList.delete i fs))))"
proof -
  obtain xs ys where fs: "fs = xs @ (i, f) # ys" and d: "AList.delete i fs = xs @ ys"
    using alist_split [OF assms] .
  show ?thesis unfolding d unfolding fs by (simp add: own_of_def)
qed

lemma own_of_append [simp]: "own_of (xs @ ys) = own_of xs @ own_of ys"
  by (simp add: own_of_def)

section \<open>Every operation keeps the tables\<close>

lemma agree_insert:
  assumes "flows_agree F R" "F (fl_id f) = None" "\<not> shared f \<longrightarrow> fkProtocol (fl_key f) \<noteq> 17"
  shows "flows_agree (F(fl_id f \<mapsto> f)) (if ipv6Drop f then R else R(reverseKeyFromFlow (fl_key f) \<mapsto> f))"
proof -
  have "fl_id g \<noteq> fl_id f" if "R rk = Some g" for rk g
    using assms(1,2) that unfolding flows_agree_def by (metis option.distinct(1))
  with assms show ?thesis by (auto simp: flows_agree_def)
qed

lemma agree_delete:
  assumes "flows_agree F R" "F i = Some f"
  shows "flows_agree (F(i := None)) (if ipv6Drop f then R else R(reverseKeyFromFlow (fl_key f) := None))"
  using assms by (fastforce simp: flows_agree_def)

lemma agree_drop:
  assumes "flows_agree F R"
    and "\<And>i f. F' i = Some f \<longleftrightarrow> F i = Some f \<and> \<not> P f"
    and "\<And>rk f. R' rk = Some f \<longleftrightarrow> R rk = Some f \<and> (\<forall>i g. F i = Some g \<longrightarrow> P g \<longrightarrow> rk \<noteq> reverseKeyFromFlow (fl_key g))"
  shows "flows_agree F' R'"
  using assms unfolding flows_agree_def by blast

lemma tables_commit:
  assumes "tables_ok m" "\<not> shared f \<longrightarrow> fkProtocol (fl_key f) \<noteq> 17"
  shows "tables_ok (snd (commitFlow f m))"
proof (cases "map_of (flows m) (fl_id f)")
  case None
  with assms agree_insert [of "map_of (flows m)" "map_of (reverse m)" f] show ?thesis
    by (cases "ipv6Drop f") (simp_all add: commitFlow_def tables_ok_def AList.update_conv' distinct_update)
next
  case (Some old)
  with assms show ?thesis by (simp add: commitFlow_def closeHandle_def tables_ok_def)
qed

lemma closeHandle_tables [simp]:
  "flows (closeHandle h m) = flows m" "reverse (closeHandle h m) = reverse m"
  "udpHandles (closeHandle h m) = udpHandles m" "udpPortRefs (closeHandle h m) = udpPortRefs m"
  "udpEndpointPorts (closeHandle h m) = udpEndpointPorts m" "vpnLocalUDPPort (closeHandle h m) = vpnLocalUDPPort m"
  "wd (closeHandle h m) = fst (wd_Close None h (wd m))"
  by (simp_all add: closeHandle_def)

text \<open>Removing one flow, as \<^verbatim>\<open>removeFromEvent\<close> does it.\<close>

definition dropFlow :: "string \<Rightarrow> windowsDiscordFlow \<Rightarrow> windowsFlowManager \<Rightarrow> windowsFlowManager" where
  "dropFlow i f m = m\<lparr>flows := AList.delete i (flows m),
     reverse := (if ipv6Drop f then reverse m else AList.delete (reverseKeyFromFlow (fl_key f)) (reverse m))\<rparr>"

lemma tables_dropFlow: "tables_ok m \<Longrightarrow> map_of (flows m) i = Some f \<Longrightarrow> tables_ok (dropFlow i f m)"
  using agree_delete [of "map_of (flows m)" "map_of (reverse m)" i f]
  by (cases "ipv6Drop f") (simp_all add: tables_ok_def dropFlow_def AList.delete_conv' AList.distinct_delete)

lemma dropPortFlows_eq:
  assumes "distinct (map fst (flows m))"
  shows "dropPortFlows port m = m\<lparr>flows := filter (\<lambda>(i, f). \<not> udp_flow_on port f) (flows m),
     reverse := filter (\<lambda>(rk, g). \<forall>(i, f) \<in> set (flows m). udp_flow_on port f \<longrightarrow> rk \<noteq> reverseKeyFromFlow (fl_key f)) (reverse m)\<rparr>"
proof -
  let ?body = "\<lambda>(i, f) m. if udp_flow_on port f then
      m\<lparr>flows := AList.delete i (flows m), reverse := AList.delete (reverseKeyFromFlow (fl_key f)) (reverse m)\<rparr> else m"
  let ?gone = "filter (\<lambda>(i, f). udp_flow_on port f)"
  have loop: "fold ?body xs m' = m'\<lparr>flows := fold AList.delete (map fst (?gone xs)) (flows m'),
      reverse := fold AList.delete (map (\<lambda>(i, f). reverseKeyFromFlow (fl_key f)) (?gone xs)) (reverse m')\<rparr>" for xs m'
    by (induction xs arbitrary: m') (auto split: if_splits)
  have "i \<notin> fst ` set (?gone (flows m)) \<longleftrightarrow> \<not> udp_flow_on port f"
    if "(i, f) \<in> set (flows m)" for i f
    using assms that by (force dest: eq_key_imp_eq_value)
  then have "fold AList.delete (map fst (?gone (flows m))) (flows m) = filter (\<lambda>(i, f). \<not> udp_flow_on port f) (flows m)"
    unfolding delete_fold_filter by (intro filter_cong) auto
  moreover have "fold AList.delete (map (\<lambda>(i, f). reverseKeyFromFlow (fl_key f)) (?gone (flows m))) (reverse m) =
      filter (\<lambda>(rk, g). \<forall>(i, f) \<in> set (flows m). udp_flow_on port f \<longrightarrow> rk \<noteq> reverseKeyFromFlow (fl_key f)) (reverse m)"
    unfolding delete_fold_filter by (intro filter_cong) force+
  ultimately show ?thesis unfolding dropPortFlows_def loop by simp
qed

lemma tables_dropPort:
  assumes "tables_ok m"
  shows "tables_ok (dropPortFlows port m)"
proof -
  let ?F = "map_of (flows m)" and ?R = "map_of (reverse m)" and ?m = "dropPortFlows port m"
  have d: "distinct (map fst (flows m))" "distinct (map fst (reverse m))" "flows_agree ?F ?R"
    using assms by (simp_all add: tables_ok_def)
  have "flows_agree (map_of (flows ?m)) (map_of (reverse ?m))"
    by (rule agree_drop [OF d(3), where P = "udp_flow_on port"])
      (use d(1,2) in \<open>auto simp: dropPortFlows_eq map_of_filter_Some\<close>)
  with d show ?thesis by (simp add: tables_ok_def dropPortFlows_eq distinct_map_filter)
qed

lemma own_dropPort:
  assumes "tables_ok m"
  shows "own_of (flows (dropPortFlows port m)) = own_of (flows m)"
proof -
  have d: "distinct (map fst (flows m))" using assms by (simp add: tables_ok_def)
  have "\<not> udp_flow_on port f" if "(i, f) \<in> set (flows m)" "\<not> shared f" for i f
    using assms that d by (auto simp: tables_ok_def flows_agree_def udp_flow_on_def)
  then have "filter (\<lambda>(i, f). \<not> shared f) (filter (\<lambda>(i, f). \<not> udp_flow_on port f) (flows m))
      = filter (\<lambda>(i, f). \<not> shared f) (flows m)"
    by (auto simp: filter_filter intro!: filter_cong)
  then show ?thesis by (simp add: own_of_def dropPortFlows_eq [OF d])
qed

lemma sharedFlow_commit:
  "sharedFlow i key ifIdx h m =
     (if map_of (flows m) i = None
      then snd (commitFlow \<lparr>fl_id = i, fl_key = key, fl_ifIdx = ifIdx, fl_handle = h, ipv6Drop = False, shared = True\<rparr> m)
      else m)"
  by (auto simp: sharedFlow_def commitFlow_def Let_def split: option.splits)

section \<open>Every operation keeps the invariant\<close>

lemma inv_commit:
  assumes "fm_inv base (ps @ f # qs) m"
  shows "fm_inv base (ps @ qs) (snd (commitFlow f m))"
proof -
  have f: "\<not> shared f" "fkProtocol (fl_key f) \<noteq> 17" and p: "pend_ok (ps @ qs)"
    using assms by (simp_all add: fm_inv_def pend_ok_def)
  have t: "tables_ok (snd (commitFlow f m))" using assms f by (simp add: fm_inv_def tables_commit)
  have u: "udp_ok (snd (commitFlow f m))"
    using assms by (simp add: fm_inv_def udp_ok_def commitFlow_def split: option.splits)
  have l: "ledger base (owned (ps @ f # qs) m) (wd m)" using assms by (simp add: fm_inv_def)
  have "ledger base (owned (ps @ qs) (snd (commitFlow f m))) (wd (snd (commitFlow f m)))"
  proof (cases "map_of (flows m) (fl_id f)")
    case None
    with f have "mset (owned (ps @ f # qs) m) = mset (owned (ps @ qs) (snd (commitFlow f m)))"
      by (simp add: commitFlow_def owned_def update_new own_of_def)
    from ledger_perm [OF this l] None show ?thesis by (simp add: commitFlow_def)
  next
    case (Some old)
    have "ledger base (owned (ps @ qs) m) (fst (wd_Close None (Some (fl_handle f)) (wd m)))"
      by (rule ledger_close [OF l]) (simp add: owned_def)
    with Some show ?thesis by (simp add: commitFlow_def owned_def)
  qed
  with t u p show ?thesis by (simp add: fm_inv_def)
qed

lemma inv_shared:
  assumes "fm_inv base pend m"
  shows "fm_inv base pend (sharedFlow i key ifIdx h m)"
proof (cases "map_of (flows m) i")
  case None
  let ?f = "\<lparr>fl_id = i, fl_key = key, fl_ifIdx = ifIdx, fl_handle = h, ipv6Drop = False, shared = True\<rparr>"
  have "tables_ok (snd (commitFlow ?f m))" using assms by (simp add: fm_inv_def tables_commit)
  with assms None show ?thesis
    by (simp add: sharedFlow_commit fm_inv_def udp_ok_def owned_def commitFlow_def update_new own_of_def)
qed (use assms in \<open>simp add: sharedFlow_def\<close>)

lemma inv_remove:
  assumes "fm_inv base pend m"
  shows "fm_inv base pend (removeFromEvent env a m)"
proof (cases "flowIPs (fmtIPv6 env) a")
  case (Ok lr)
  obtain local remote where lr: "lr = (local, remote)" by (cases lr)
  define i where "i = windowsFlowIdentity (flowProtocol a) local (flowLocalPort a) remote (flowRemotePort a)"
  show ?thesis
  proof (cases "map_of (flows m) i")
    case None
    with Ok lr assms show ?thesis by (simp add: removeFromEvent_def i_def)
  next
    case (Some f)
    have r: "removeFromEvent env a m = (if shared f then dropFlow i f m else closeHandle (Some (fl_handle f)) (dropFlow i f m))"
      using Ok lr Some by (simp add: removeFromEvent_def i_def dropFlow_def Let_def)
    have t: "tables_ok (dropFlow i f m)" and u: "udp_ok (dropFlow i f m)"
      using assms Some by (simp_all add: fm_inv_def tables_dropFlow) (simp add: dropFlow_def udp_ok_def)
    have own: "mset (owned pend m) = (if shared f then mset (owned pend (dropFlow i f m))
        else add_mset (fl_handle f) (mset (owned pend (dropFlow i f m))))"
      using own_of_delete [of "flows m" i f] assms Some
      by (simp add: fm_inv_def tables_ok_def owned_def dropFlow_def)
    have l: "ledger base (owned pend m) (wd (dropFlow i f m))"
      using assms by (simp add: fm_inv_def dropFlow_def)
    show ?thesis
    proof (cases "shared f")
      case True
      then show ?thesis using t u ledger_perm [OF _ l] own assms by (simp add: r fm_inv_def)
    next
      case False
      then show ?thesis using t u ledger_close [OF l] own assms
        by (simp add: r fm_inv_def tables_ok_def udp_ok_def owned_def)
    qed
  qed
qed (use assms in \<open>simp_all add: removeFromEvent_def\<close>)

definition opened :: "windowsDiscordFlow \<Rightarrow> win_env \<Rightarrow> windowsFlowManager \<Rightarrow> windowsFlowManager \<Rightarrow> bool" where
  "opened f env m m' \<longleftrightarrow> \<not> shared f \<and> fkProtocol (fl_key f) \<noteq> 17 \<and>
     (\<exists>filt prio flags hs. wd_open (openProc env) filt wdLayerNetwork prio flags (wd m) = (Ok (fl_handle f), hs) \<and> m' = m\<lparr>wd := hs\<rparr>)"

definition plan_ok :: "win_env \<Rightarrow> windowsFlowManager \<Rightarrow> 'a plan \<times> windowsFlowManager \<Rightarrow> bool" where
  "plan_ok env m r \<longleftrightarrow> (case r of (Finish _, m') \<Rightarrow> m' = m | (Commit f, m') \<Rightarrow> opened f env m m')"

lemma openHandle_cases:
  "openHandle env filt prio flags m = (r, m') \<Longrightarrow>
   (\<exists>e. r = Error e \<and> m' = m) \<or>
   (\<exists>h hs. r = Ok h \<and> wd_open (openProc env) filt wdLayerNetwork prio flags (wd m) = (Ok h, hs) \<and> m' = m\<lparr>wd := hs\<rparr>)"
  by (cases "wd_open (openProc env) filt wdLayerNetwork prio flags (wd m)")
    (auto simp: openHandle_def dest!: wd_open_cases)

lemma plan_ok_open:
  assumes "\<And>h. fl_handle (mk h) = h \<and> \<not> shared (mk h) \<and> fkProtocol (fl_key (mk h)) \<noteq> 17"
  shows "plan_ok env m (case openHandle env filt prio flags m of (Ok h, m) \<Rightarrow> (Commit (mk h), m)
     | (Error e, m) \<Rightarrow> (Finish (err e), m) | (Panicked p, m) \<Rightarrow> (Finish (pan p), m))"
proof -
  obtain r m' where o: "openHandle env filt prio flags m = (r, m')" by fastforce
  from openHandle_cases [OF this] assms show ?thesis
    unfolding o by (auto simp: plan_ok_def opened_def) blast
qed

lemma plan_ok_Finish [simp]: "plan_ok env m (Finish e, m)"
  by (simp add: plan_ok_def)

lemma add_begin_ok: "plan_ok env m (addFromEvent_begin env a m)"
  unfolding addFromEvent_begin_def Let_def
  by (simp add: plan_ok_open no_flow_key_def split: result.split prod.split if_split)
 
lemma install_begin_ok: "fkProtocol k = 6 \<Longrightarrow> plan_ok env m (installTCPFlow_begin env k addr m)"
  unfolding installTCPFlow_begin_def Let_def
  by (simp add: plan_ok_open split: result.split option.split if_split)

lemma inv_opened:
  assumes "fm_inv base pend m" "opened f env m m'"
  shows "fm_inv base (f # pend) m'"
proof -
  obtain filt prio flags hs where
    o: "wd_open (openProc env) filt wdLayerNetwork prio flags (wd m) = (Ok (fl_handle f), hs)" and m': "m' = m\<lparr>wd := hs\<rparr>"
    using assms(2) by (auto simp: opened_def)
  have "ledger base (owned (f # pend) m) hs"
    by (rule ledger_open [OF _ o, of base "owned pend m"]) (use assms(1) in \<open>simp_all add: fm_inv_def owned_def\<close>)
  with assms show ?thesis
    by (simp add: fm_inv_def m' tables_ok_def udp_ok_def pend_ok_def owned_def opened_def)
qed

lemma inv_plan:
  assumes "fm_inv base pend m" "plan_ok env m (pl, m')"
  shows "(\<exists>e. pl = Finish e \<and> fm_inv base pend m') \<or> (\<exists>f. pl = Commit f \<and> fm_inv base (f # pend) m')"
  using assms inv_opened by (cases pl) (auto simp: plan_ok_def)

lemma ports_add:
  assumes "ports_agree E R own" "E e = None" "p \<noteq> 0" "p \<noteq> own"
  shows "ports_agree (E(e \<mapsto> p)) (R(p \<mapsto> List.insert e (case R p of Some refs \<Rightarrow> refs | None \<Rightarrow> []))) own"
proof -
  have "e \<notin> set refs" if "R q = Some refs" for q refs
    using assms(1,2) that by (metis option.distinct(1) ports_agree_def)
  with assms show ?thesis
    unfolding ports_agree_def by (cases "R p") auto
qed

lemma ports_remove:
  assumes "ports_agree E R own" "E e = Some p" "R p = Some refs"
  shows "ports_agree (E(e := None)) (R(p := (if removeAll e refs = [] then None else Some (removeAll e refs)))) own"
    (is "ports_agree _ ?R own")
proof -
  have E: "E e' = Some q \<longleftrightarrow> (\<exists>refs. R q = Some refs \<and> e' \<in> set refs)" for e' q
    using assms(1) unfolding ports_agree_def by blast
  have *: "q = p" if "R q = Some refs'" "e \<in> set refs'" for q refs'
    using E [of e q] assms(2) that by auto
  have p: "(\<exists>refs'. ?R p = Some refs' \<and> e' \<in> set refs') \<longleftrightarrow> e' \<noteq> e \<and> e' \<in> set refs" for e'
    using set_removeAll [of e refs] by (cases "removeAll e refs = []") auto
  have "(E(e := None)) e' = Some q \<longleftrightarrow> (\<exists>refs'. ?R q = Some refs' \<and> e' \<in> set refs')" for e' q
  proof (cases "q = p")
    case True
    show ?thesis unfolding True p using E [of e' p] assms(3) by auto
  next
    case False
    then show ?thesis using E [of e' q] * by auto
  qed
  moreover have "refs' \<noteq> [] \<and> q \<noteq> 0 \<and> q \<noteq> own" if "?R q = Some refs'" for q refs'
    using assms(1,3) that unfolding ports_agree_def by (auto split: if_splits)
  ultimately show ?thesis unfolding ports_agree_def by blast
qed

lemma inv_reportErr [simp]: "fm_inv base pend (reportErr e m) = fm_inv base pend m"
  by (simp add: reportErr_def fm_inv_def tables_ok_def udp_ok_def owned_def)

lemma inv_protect:
  assumes "fm_inv base pend m"
  shows "fm_inv base pend (protectUDPPort env a m)"
proof -
  define port where "port = flowLocalPort a"
  define e where "e = flowEndpointID a"
  let ?refs = "case map_of (udpPortRefs m) port of Some refs \<Rightarrow> refs | None \<Rightarrow> []"
  let ?m = "m\<lparr>udpPortRefs := AList.update port (List.insert e ?refs) (udpPortRefs m),
              udpEndpointPorts := AList.update e port (udpEndpointPorts m)\<rparr>"
  let ?filt = "''!impostor and !loopback and udp and localPort == '' @ Itoa_nat (unat port)"
  consider "protectUDPPort env a m = m"
    | "port \<noteq> 0" "port \<noteq> vpnLocalUDPPort m" "map_of (udpEndpointPorts m) e = None" "map_of (udpPortRefs m) port \<noteq> None"
      "protectUDPPort env a m = ?m"
    | r m' where "port \<noteq> 0" "port \<noteq> vpnLocalUDPPort m" "map_of (udpEndpointPorts m) e = None"
      "map_of (udpPortRefs m) port = None" "openHandle env ?filt 240 0 m = (r, m')"
      "protectUDPPort env a m = (case r of
         Ok h \<Rightarrow> m'\<lparr>udpHandles := AList.update port h (udpHandles m'), udpPortRefs := AList.update port [e] (udpPortRefs m'),
                 udpEndpointPorts := AList.update e port (udpEndpointPorts m')\<rparr>
       | Error err \<Rightarrow> reportErr (Wrapf (''protect Discord UDP port '' @ Itoa_nat (unat port) @ '': %w'') err) m'
       | Panicked p \<Rightarrow> m')"
    unfolding port_def e_def
    by (cases "openHandle env (''!impostor and !loopback and udp and localPort == '' @ Itoa_nat (unat (flowLocalPort a))) 240 0 m")
      (force simp: protectUDPPort_def Let_def split: if_splits option.splits)
  then show ?thesis
  proof cases
    case 1
    with assms show ?thesis by simp
  next
    case 2
    have "ports_agree (map_of (udpEndpointPorts ?m)) (map_of (udpPortRefs ?m)) (vpnLocalUDPPort m)"
      using ports_add [of "map_of (udpEndpointPorts m)" "map_of (udpPortRefs m)" "vpnLocalUDPPort m" e port] assms 2
      by (simp add: fm_inv_def udp_ok_def AList.update_conv')
    with assms 2 show ?thesis
      by (auto simp: fm_inv_def tables_ok_def udp_ok_def owned_def AList.update_conv')
  next
    case 3
    from openHandle_cases [OF 3(5)] show ?thesis
    proof (elim disjE exE conjE)
      fix err assume "r = Error err" "m' = m"
      with 3 assms show ?thesis by simp
    next
      fix h hs
      assume r: "r = Ok h" and o: "wd_open (openProc env) ?filt wdLayerNetwork 240 0 (wd m) = (Ok h, hs)" and m': "m' = m\<lparr>wd := hs\<rparr>"
      have none: "map_of (udpHandles m) port = None"
        using assms 3(4) by (metis domIff fm_inv_def udp_ok_def)
      have "ledger base (owned pend (m\<lparr>udpHandles := udpHandles m @ [(port, h)]\<rparr>)) hs"
        by (rule ledger_open [OF _ o, of base "owned pend m"]) (use assms in \<open>simp_all add: fm_inv_def owned_def\<close>)
      moreover have "ports_agree (map_of (AList.update e port (udpEndpointPorts m))) (map_of (AList.update port [e] (udpPortRefs m))) (vpnLocalUDPPort m)"
        using ports_add [of "map_of (udpEndpointPorts m)" "map_of (udpPortRefs m)" "vpnLocalUDPPort m" e port] assms 3
        by (simp add: fm_inv_def udp_ok_def AList.update_conv')
      moreover have "distinct (map fst (AList.update port h (udpHandles m)))"
        using assms by (simp add: fm_inv_def udp_ok_def distinct_update)
      ultimately show ?thesis using assms 3 r m' none
        by (simp add: fm_inv_def tables_ok_def udp_ok_def owned_def update_new [OF none] AList.update_conv')
    qed
  qed
qed

lemma udp_handle_delete:
  assumes "distinct (map fst hs)" "map_of hs p = Some h"
  shows "mset (map snd hs) = add_mset h (mset (map snd (AList.delete p hs)))"
proof -
  obtain xs ys where hs: "hs = xs @ (p, h) # ys" and d: "AList.delete p hs = xs @ ys"
    using alist_split [OF assms] .
  show ?thesis unfolding d unfolding hs by simp
qed

lemma dropPort_same:
  assumes "distinct (map fst (flows m))"
  shows "udpHandles (dropPortFlows port m) = udpHandles m" "udpPortRefs (dropPortFlows port m) = udpPortRefs m"
    "udpEndpointPorts (dropPortFlows port m) = udpEndpointPorts m" "vpnLocalUDPPort (dropPortFlows port m) = vpnLocalUDPPort m"
    "wd (dropPortFlows port m) = wd m"
  by (simp_all add: dropPortFlows_eq [OF assms])

lemma inv_unprotect:
  assumes "fm_inv base pend m"
  shows "fm_inv base pend (unprotectUDPSocket a m)"
proof -
  define e where "e = flowEndpointID a"
  have t: "tables_ok m" and u: "udp_ok m" and l: "ledger base (owned pend m) (wd m)"
    using assms by (simp_all add: fm_inv_def)
  show ?thesis
  proof (cases "e = 0 \<or> map_of (udpEndpointPorts m) e = None")
    case True
    with assms show ?thesis by (auto simp: unprotectUDPSocket_def e_def Let_def)
  next
    case False
    then obtain port where e: "e \<noteq> 0" "map_of (udpEndpointPorts m) e = Some port" by auto
    then obtain refs where r: "map_of (udpPortRefs m) port = Some refs"
      using u unfolding udp_ok_def ports_agree_def by blast
    define refs' where "refs' = removeAll e refs"
    have agree: "ports_agree (map_of (AList.delete e (udpEndpointPorts m)))
        ((map_of (udpPortRefs m))(port := (if refs' = [] then None else Some refs'))) (vpnLocalUDPPort m)"
      unfolding AList.delete_conv' refs'_def using u e(2) r by (intro ports_remove) (simp_all add: udp_ok_def)
    show ?thesis
    proof (cases "refs' = []")
      case False
      then have "unprotectUDPSocket a m = m\<lparr>udpEndpointPorts := AList.delete e (udpEndpointPorts m),
          udpPortRefs := AList.update port refs' (udpPortRefs m)\<rparr>"
        using e r by (simp add: unprotectUDPSocket_def Let_def refs'_def flip: e_def)
      with False agree assms r show ?thesis
        by (auto simp: fm_inv_def tables_ok_def udp_ok_def owned_def AList.update_conv')
    next
      case True
      define m1 where "m1 = m\<lparr>udpEndpointPorts := AList.delete e (udpEndpointPorts m),
          udpPortRefs := AList.delete port (udpPortRefs m), udpHandles := AList.delete port (udpHandles m)\<rparr>"
      have "port \<in> dom (map_of (udpHandles m))" using u r by (auto simp: udp_ok_def)
      then obtain h where h: "map_of (udpHandles m) port = Some h" by auto
      have un: "unprotectUDPSocket a m = closeHandle (Some h) (dropPortFlows port m1)"
        using e r h True by (simp add: unprotectUDPSocket_def Let_def refs'_def m1_def flip: e_def)
      have t1: "tables_ok m1" using t by (simp add: m1_def tables_ok_def)
      then have d1: "distinct (map fst (flows m1))" by (simp add: tables_ok_def)
      have u1: "udp_ok m1"
        using u agree True by (simp add: udp_ok_def m1_def AList.delete_conv' AList.distinct_delete)
      have "mset (owned pend m) = add_mset h (mset (owned pend (dropPortFlows port m1)))"
        using udp_handle_delete [OF _ h] u own_dropPort [OF t1, of port]
        by (simp add: owned_def udp_ok_def dropPort_same [OF d1]) (simp add: m1_def)
      from ledger_close [OF l this] tables_dropPort [OF t1, of port] u1 assms show ?thesis
        unfolding un by (simp add: fm_inv_def tables_ok_def udp_ok_def owned_def dropPort_same [OF d1]) (simp add: m1_def)
    qed
  qed
qed

lemma closeHandle_eq: "closeHandle (Some h) m = m\<lparr>wd := (wd m)\<lparr>live := live (wd m) - {h}\<rparr>\<rparr>"
  by (cases "h \<in> live (wd m)") (simp_all add: closeHandle_def wd_Close_def)

lemma close_all:
  "fold (\<lambda>h. closeHandle (Some h)) hs m = m\<lparr>wd := (wd m)\<lparr>live := live (wd m) - set hs\<rparr>\<rparr>"
  by (induction hs arbitrary: m) (simp_all add: closeHandle_eq Diff_insert2 [symmetric])

lemma closeManager_eq:
  "closeManager m = m\<lparr>flows := [], reverse := [], udpHandles := [], udpPortRefs := [], udpEndpointPorts := [],
     wd := (wd m)\<lparr>live := live (wd m) - set (own_of (flows m)) - set (map snd (udpHandles m))\<rparr>\<rparr>"
proof -
  have "fold (\<lambda>f m. if shared f then m else closeHandle (Some (fl_handle f)) m) (map snd fs) m' =
      fold (\<lambda>h. closeHandle (Some h)) (own_of fs) m'" for fs m'
    by (induction fs arbitrary: m') (auto simp: own_of_def)
  then show ?thesis by (simp add: closeManager_def Let_def close_all)
qed

lemma close_releases:
  assumes "fm_inv base pend m"
  shows "live (wd (closeManager m)) = base \<union> fl_handle ` set pend"
  using assms by (auto simp: fm_inv_def ledger_def owned_def closeManager_eq)

lemma inv_close:
  assumes "fm_inv base pend m"
  shows "fm_inv base pend (closeManager m)"
proof -
  have "ledger base (owned pend (closeManager m)) (wd (closeManager m))"
    using assms close_releases [OF assms]
    by (auto simp: fm_inv_def ledger_def owned_def closeManager_eq own_of_def)
  with assms show ?thesis
    by (simp add: fm_inv_def tables_ok_def udp_ok_def flows_agree_def ports_agree_def closeManager_eq)
qed

section \<open>The transition system\<close>

text \<open>
  A SYN event runs \<^verbatim>\<open>consumeTCPIntent\<close> with other goroutines in between; in the transition system its
  polls and what happens between them are steps of their own.
\<close>

inductive fm_step :: "windowsDiscordFlow list \<times> windowsFlowManager \<Rightarrow> windowsDiscordFlow list \<times> windowsFlowManager \<Rightarrow> bool" where
  add_done: "addFromEvent_begin env a m = (Finish r, m') \<Longrightarrow> fm_step (pend, m) (pend, m')"
| add_open: "addFromEvent_begin env a m = (Commit f, m') \<Longrightarrow> fm_step (pend, m) (f # pend, m')"
| install_done: "fkProtocol k = 6 \<Longrightarrow> installTCPFlow_begin env k addr m = (Finish r, m') \<Longrightarrow> fm_step (pend, m) (pend, m')"
| install_open: "fkProtocol k = 6 \<Longrightarrow> installTCPFlow_begin env k addr m = (Commit f, m') \<Longrightarrow> fm_step (pend, m) (f # pend, m')"
| commit: "fm_step (ps @ f # qs, m) (ps @ qs, snd (commitFlow f m))"
| udp_flow: "fm_step (pend, m) (pend, sharedFlow i key ifIdx h m)"
| remove: "fm_step (pend, m) (pend, removeFromEvent env a m)"
| protect: "fm_step (pend, m) (pend, protectUDPPort env a m)"
| unprotect: "fm_step (pend, m) (pend, unprotectUDPSocket a m)"
| mark: "fm_step (pend, m) (pend, markTCPIntent env now a m)"
| poll: "poll_intents now keys (tcpIntents m) = (hit, intents) \<Longrightarrow> fm_step (pend, m) (pend, m\<lparr>tcpIntents := intents\<rparr>)"
| send: "sendPacketToVPN env vpn packet m = Ok (e, m') \<Longrightarrow> fm_step (pend, m) (pend, m')"
| ping: "keepalive_tick env vpn m = Ok m' \<Longrightarrow> fm_step (pend, m) (pend, m')"
| inject: "sendHandle env h packet addr m = (e, m') \<Longrightarrow> fm_step (pend, m) (pend, m')"
| report: "fm_step (pend, m) (pend, reportErr e m)"
| activate: "fm_step (pend, m) (pend, m\<lparr>bootstrapActive := True\<rparr>)"
| close: "fm_step (pend, m) (pend, closeManager m)"

inductive fm_reaches :: "int option \<Rightarrow> wd_handles \<Rightarrow> windowsDiscordFlow list \<Rightarrow> windowsFlowManager \<Rightarrow> bool" for port hs where
  start: "fm_reaches port hs [] (newWindowsFlowManager port hs)"
| step: "fm_reaches port hs pend m \<Longrightarrow> fm_step (pend, m) (pend', m') \<Longrightarrow> fm_reaches port hs pend' m'"

definition same_tables :: "windowsFlowManager \<Rightarrow> windowsFlowManager \<Rightarrow> bool" where
  "same_tables m m' \<longleftrightarrow> flows m' = flows m \<and> reverse m' = reverse m \<and> udpHandles m' = udpHandles m
     \<and> udpPortRefs m' = udpPortRefs m \<and> udpEndpointPorts m' = udpEndpointPorts m
     \<and> vpnLocalUDPPort m' = vpnLocalUDPPort m \<and> wd m' = wd m"

lemma inv_same: "fm_inv base pend m \<Longrightarrow> same_tables m m' \<Longrightarrow> fm_inv base pend m'"
  by (simp add: same_tables_def fm_inv_def tables_ok_def udp_ok_def owned_def)

lemma same_mark: "same_tables m (markTCPIntent env now a m)"
  by (simp add: markTCPIntent_def same_tables_def Let_def split: result.split prod.split)

lemma nextPacketID_same: "nextPacketID m = (pid, m') \<Longrightarrow> same_tables m m'"
  by (auto simp: nextPacketID_def same_tables_def Let_def split: if_splits)

lemma writeVPN_same: "writeVPN env enc m = (e, m') \<Longrightarrow> same_tables m m'"
  by (auto simp: writeVPN_def same_tables_def split: option.splits)

lemma same_trans: "same_tables m m' \<Longrightarrow> same_tables m' m'' \<Longrightarrow> same_tables m m''"
  by (simp add: same_tables_def)

lemma send_same: "sendPacketToVPN env vpn packet m = Ok (e, m') \<Longrightarrow> same_tables m m'"
  by (auto simp: sendPacketToVPN_def match_err_Ok_iff split: prod.splits
      dest: nextPacketID_same writeVPN_same intro: same_trans)

lemma ping_same: "keepalive_tick env vpn m = Ok m' \<Longrightarrow> same_tables m m'"
  by (auto simp: keepalive_tick_def match_err_Ok_iff split: prod.splits
      dest: nextPacketID_same intro: same_trans writeVPN_same [OF prod.collapse [symmetric]])

lemma inject_same: "sendHandle env h packet addr m = (e, m') \<Longrightarrow> same_tables m m'"
  by (auto simp: sendHandle_def same_tables_def split: option.splits)

lemma inv_step:
  assumes "fm_step (pend, m) (pend', m')" "fm_inv base pend m"
  shows "fm_inv base pend' m'"
  using assms(1)
proof (cases rule: fm_step.cases)
  case (add_done env a r)
  with inv_plan [OF assms(2), of env] add_begin_ok [of env m a] show ?thesis by fastforce
next
  case (add_open env a f)
  with inv_plan [OF assms(2), of env] add_begin_ok [of env m a] show ?thesis by fastforce
next
  case (install_done k env addr r)
  with inv_plan [OF assms(2), of env] install_begin_ok [of k env m addr] show ?thesis by fastforce
next
  case (install_open k env addr f)
  with inv_plan [OF assms(2), of env] install_begin_ok [of k env m addr] show ?thesis by fastforce
next
  case (commit ps f qs)
  with assms(2) inv_commit show ?thesis by blast
next
  case (poll now keys hit intents)
  with inv_same [OF assms(2), of m'] show ?thesis by (simp add: same_tables_def)
next
  case activate
  with inv_same [OF assms(2), of m'] show ?thesis by (simp add: same_tables_def)
next
  case (mark env now a)
  with inv_same [OF assms(2) same_mark] show ?thesis by simp
next
  case (inject env h packet addr e)
  with inv_same [OF assms(2)] inject_same show ?thesis by blast
next
  case (send env vpn packet e)
  with inv_same [OF assms(2)] send_same show ?thesis by blast
next
  case (ping env vpn)
  with inv_same [OF assms(2)] ping_same show ?thesis by blast
qed (use assms(2) in \<open>simp_all add: inv_shared inv_remove inv_protect inv_unprotect inv_close\<close>)

lemma inv_start:
  assumes "\<forall>h \<in> live hs. h < next_handle hs"
  shows "fm_inv (live hs) [] (newWindowsFlowManager port hs)"
  using assms
  by (simp add: fm_inv_def newWindowsFlowManager_def tables_ok_def udp_ok_def flows_agree_def ports_agree_def
      pend_ok_def ledger_def owned_def own_of_def)

lemma reachable_inv:
  assumes "fm_reaches port hs pend m" "\<forall>h \<in> live hs. h < next_handle hs"
  shows "fm_inv (live hs) pend m"
  using assms(1)
proof (induction rule: fm_reaches.induct)
  case start
  show ?case by (rule inv_start [OF assms(2)])
next
  case (step pend m pend' m')
  then show ?case by (blast intro: inv_step)
qed

section \<open>The goroutines run inside the transition system\<close>

lemma add_steps: "fm_step\<^sup>*\<^sup>* (pend, m) (pend, snd (addFromEvent env a m))"
proof -
  obtain pl m' where b: "addFromEvent_begin env a m = (pl, m')" by fastforce
  show ?thesis
  proof (cases pl)
    case (Finish r)
    with b show ?thesis using fm_step.add_done [of env a m r m' pend] by (simp add: addFromEvent_def r_into_rtranclp)
  next
    case (Commit f)
    have "fm_step (pend, m) (f # pend, m')" using b Commit by (auto intro: fm_step.add_open)
    moreover have "fm_step (f # pend, m') (pend, snd (commitFlow f m'))" using fm_step.commit [of "[]" f pend m'] by simp
    ultimately show ?thesis using b Commit by (simp add: addFromEvent_def)
  qed
qed

lemma install_steps:
  assumes "fkProtocol k = 6"
  shows "fm_step\<^sup>*\<^sup>* (pend, m) (pend, snd (installTCPFlowFromSYN env k addr m))"
proof -
  obtain pl m' where b: "installTCPFlow_begin env k addr m = (pl, m')" by fastforce
  show ?thesis
  proof (cases pl)
    case (Finish r)
    with b assms show ?thesis
      using fm_step.install_done [of k env addr m r m' pend] by (simp add: installTCPFlowFromSYN_def r_into_rtranclp)
  next
    case (Commit f)
    have "fm_step (pend, m) (f # pend, m')" using b Commit assms by (auto intro: fm_step.install_open)
    moreover have "fm_step (f # pend, m') (pend, snd (commitFlow f m'))" using fm_step.commit [of "[]" f pend m'] by simp
    ultimately show ?thesis using b Commit by (cases "commitFlow f m'") (simp add: installTCPFlowFromSYN_def)
  qed
qed

definition runs :: "windowsDiscordFlow list \<Rightarrow> windowsFlowManager \<Rightarrow> (windowsFlowManager \<times> bool) result \<Rightarrow> bool" where
  "runs pend m r \<longleftrightarrow> returns_only (\<lambda>(m', goOn). fm_step\<^sup>*\<^sup>* (pend, m) (pend, m')) r"

lemma runs_simps [simp]:
  "runs pend m (Ok (m', b)) = fm_step\<^sup>*\<^sup>* (pend, m) (pend, m')" "runs pend m (Error e)" "runs pend m (Panicked p)"
  by (simp_all add: runs_def)

lemma runs_then: "(\<And>x. r = Ok x \<Longrightarrow> runs pend m (f x)) \<Longrightarrow> runs pend m (then_do r f)"
  by (cases r) auto

lemma runs_match:
  "(\<And>e. r = Error e \<Longrightarrow> runs pend m (h e)) \<Longrightarrow> (\<And>x. r = Ok x \<Longrightarrow> runs pend m (g x)) \<Longrightarrow> runs pend m (match_err r h g)"
  by (cases r) auto

lemma runs_after: "fm_step\<^sup>*\<^sup>* (pend, m) (pend, m') \<Longrightarrow> runs pend m' r \<Longrightarrow> runs pend m r"
  by (cases r) (auto simp: runs_def intro: rtranclp_trans)

lemma send_steps: "sendHandle env h packet addr m = (e, m') \<Longrightarrow> fm_step\<^sup>*\<^sup>* (pend, m) (pend, m')"
  by (auto intro: fm_step.inject)

lemma report_steps: "fm_step\<^sup>*\<^sup>* (pend, m) (pend, m') \<Longrightarrow> fm_step\<^sup>*\<^sup>* (pend, m) (pend, reportErr e m')"
  by (auto intro: rtranclp.rtrancl_into_rtrancl fm_step.report)

lemma runs_tunnel:
  assumes "\<And>e. fm_step\<^sup>*\<^sup>* (pend, m) (pend, fst (onRewrite e m))"
  shows "runs pend m (tunnel env vpn what onRewrite packet m)"
proof -
  have "runs pend m (case err of Some e \<Rightarrow> Ok (reportErr (Wrapf what e) m', False) | None \<Rightarrow> Ok (m', True))"
    if "sendPacketToVPN env vpn p m = Ok (err, m')" for p err m'
    using fm_step.send [OF that, of pend] by (auto split: option.splits intro: report_steps)
  moreover have "runs pend m (Ok (onRewrite e m))" for e
    using assms [of e] by (metis prod.collapse runs_simps(1))
  ultimately show ?thesis
    unfolding tunnel_def by (auto intro!: runs_then split: option.split prod.split)
qed

lemma runs_inject:
  "runs pend m (case sendHandle env h packet addr m of (Some e, m) \<Rightarrow> Ok (reportErr (w e) m, False) | (None, m) \<Rightarrow> Ok (m, True))"
  by (auto split: prod.split option.split intro: report_steps send_steps)

lemma runs_captureFlow: "runs pend m (captureFlow env vpn f out m)"
  unfolding captureFlow_def
  by (auto intro!: runs_match runs_then runs_tunnel split: prod.split)

lemma runs_captureUDPPort: "runs pend m (captureUDPPort env vpn port h out m)"
proof -
  have "runs pend m (tunnel env vpn what (\<lambda>e m. (m, True)) packet (sharedFlow i key ifIdx h m))" for what packet i key ifIdx
    by (rule runs_after [of _ _ "sharedFlow i key ifIdx h m"]) (auto intro: fm_step.udp_flow runs_tunnel)
  then show ?thesis
    unfolding captureUDPPort_def Let_def
    by (auto intro!: runs_match runs_tunnel split: prod.split if_splits simp: then_do_Ok_iff)
qed

lemma runs_receiveVPN: "runs pend m (receiveVPN env vpn rd m)"
proof -
  have "runs pend m (deliver env payload m)" for payload
    unfolding deliver_def by (auto intro!: runs_match runs_then runs_inject split: prod.split option.split)
  then show ?thesis
    unfolding receiveVPN_def Let_def
    by (auto intro!: runs_match runs_then report_steps split: vpn_read.split)
qed

lemma remove_steps: "fm_step\<^sup>*\<^sup>* (pend, m) (pend, removeFromEvent env a m)"
  by (rule r_into_rtranclp) (rule fm_step.remove)

lemma mark_steps: "fm_step\<^sup>*\<^sup>* (pend, m) (pend, markTCPIntent env now a m)"
  by (rule r_into_rtranclp) (rule fm_step.mark)

lemma runs_monitors:
  "runs pend m (monitorWindowsFlowEvents env ev m)" "runs pend m (monitorWindowsSocketEvents env now ev m)"
  unfolding monitorWindowsFlowEvents_def monitorWindowsSocketEvents_def
  by (auto intro!: runs_match intro: remove_steps mark_steps
      split: option.split prod.split)

lemma poll_steps:
  "poll_intents now keys (tcpIntents m) = (hit, intents) \<Longrightarrow> fm_step\<^sup>*\<^sup>* (pend, m) (pend, m\<lparr>tcpIntents := intents\<rparr>)"
  by (auto intro: fm_step.poll)

lemma consume_steps:
  assumes "\<And>i m. fm_step\<^sup>*\<^sup>* (pend, m) (pend, others i m)"
  shows "fm_step\<^sup>*\<^sup>* (pend, m) (pend, snd (consume_loop lag others keys deadline i now m))"
proof (induction "nat (deadline - now)" arbitrary: i now m rule: less_induct)
  case less
  obtain hit intents where p: "poll_intents now keys (tcpIntents m) = (hit, intents)" by fastforce
  let ?m = "m\<lparr>tcpIntents := intents\<rparr>"
  have m: "fm_step\<^sup>*\<^sup>* (pend, m) (pend, ?m)" by (rule poll_steps [OF p])
  show ?case
  proof (cases "hit \<or> \<not> bootstrapActive ?m \<or> \<not> now + int (lag i) < deadline")
    case True
    then have "snd (consume_loop lag others keys deadline i now m) = ?m"
      by (subst consume_loop.simps) (auto simp: p Let_def)
    with m show ?thesis by simp
  next
    case False
    then have "consume_loop lag others keys deadline i now m =
        consume_loop lag others keys deadline (Suc i) (now + int (lag i) + 1000000) (others i ?m)"
      by (subst consume_loop.simps) (auto simp: p Let_def)
    moreover have "nat (deadline - (now + int (lag i) + 1000000)) < nat (deadline - now)" using False by auto
    ultimately show ?thesis using less [of "now + int (lag i) + 1000000"] m assms [of ?m i]
      by (metis (no_types, lifting) rtranclp_trans)
  qed
qed

lemma runs_captureSYN_tunneled: "runs pend m (captureSYN_tunneled env vpn packet m)"
  unfolding captureSYN_tunneled_def
  by (auto intro!: runs_then runs_tunnel report_steps split: option.split)

lemma serve_runs:
  assumes "\<And>e m. e \<in> set es \<Longrightarrow> runs pend m (body e m)"
  shows "returns_only (\<lambda>m'. fm_step\<^sup>*\<^sup>* (pend, m) (pend, m')) (serve body es m)"
proof -
  have "fm_step\<^sup>*\<^sup>* (pend, m) (pend, m')" if "serve body es m = Ok m'" for m'
    using assms that
  proof (induction es arbitrary: m)
    case (Cons e es)
    then obtain m1 goOn where b: "body e m = Ok (m1, goOn)" "(if goOn then serve body es m1 else Ok m1) = Ok m'"
      by (auto simp: then_do_Ok_iff)
    then have "fm_step\<^sup>*\<^sup>* (pend, m) (pend, m1)" using Cons.prems(1) [of e m] by simp
    with b Cons show ?case by (auto split: if_splits intro: rtranclp_trans)
  qed simp
  then show ?thesis by (simp add: returns_only_def)
qed

lemma runs_captureSYN_flow:
  assumes "\<And>i m. fm_step\<^sup>*\<^sup>* (pend, m) (pend, se_others ev i m)" "fkProtocol k = 6"
  shows "runs pend m (captureSYN_flow env vpn h ev packet addr k m)"
proof -
  obtain hit m1 where c: "consumeTCPIntent (se_lag ev) (se_others ev) (se_now ev) k m = (hit, m1)" by fastforce
  have "fm_step\<^sup>*\<^sup>* (pend, m) (pend, snd (consumeTCPIntent (se_lag ev) (se_others ev) (se_now ev) k m))"
    unfolding consumeTCPIntent_def Let_def by (rule consume_steps [OF assms(1)])
  then have m1: "fm_step\<^sup>*\<^sup>* (pend, m) (pend, m1)" by (simp add: c)
  obtain r m2 where i: "installTCPFlowFromSYN env k (Some addr) m1 = (r, m2)" by fastforce
  have m2: "fm_step\<^sup>*\<^sup>* (pend, m) (pend, m2)"
    using m1 install_steps [OF assms(2), of pend m1 env "Some addr"] i by simp
  have "runs pend m (case r of Error e \<Rightarrow> Ok (reportErr e m2, False) | Panicked p \<Rightarrow> Panicked p
      | Ok f \<Rightarrow> captureSYN_tunneled env vpn packet m2)"
    by (rule runs_after [OF m2]) (auto split: result.split intro: runs_captureSYN_tunneled report_steps)
  moreover note runs_after [OF m1 runs_inject] runs_captureSYN_tunneled [of pend m env vpn packet]
  ultimately show ?thesis
    unfolding captureSYN_flow_def Let_def by (cases hit) (simp_all add: c i split: option.split)
qed

lemma runs_captureInitialTCPSYN:
  assumes "\<And>i m. fm_step\<^sup>*\<^sup>* (pend, m) (pend, se_others ev i m)"
  shows "runs pend m (captureInitialTCPSYN env vpn h ev m)"
proof -
  have drop: "runs pend m (Ok (snd (sendHandle env h packet addr m), True))" for packet addr
    unfolding runs_simps by (metis prod.collapse send_steps)
  show ?thesis
    unfolding captureInitialTCPSYN_def
  proof (intro runs_match)
    fix x :: "bytes \<times> wdAddress"
    obtain packet addr where x: "x = (packet, addr)" by (cases x)
    have "runs pend m (match_err (parseIPv4Flow packet True) (\<lambda>e. Ok (snd (sendHandle env h packet addr m), True))
        (\<lambda>k. if fkProtocol k \<noteq> 6 then Ok (snd (sendHandle env h packet addr m), True)
             else captureSYN_flow env vpn h ev packet addr k m))"
      using drop runs_captureSYN_flow [OF assms] by (intro runs_match) simp_all
    with runs_inject show "runs pend m (case x of (packet, addr) \<Rightarrow>
        if length packet \<le> 0 then Ok (m, True)
        else if \<not> bootstrapActive m then
          (case sendHandle env h packet addr m of
             (Some e, m) \<Rightarrow> Ok (reportErr (Wrapf ''reinject pre-bootstrap SYN: %w'' e) m, False)
           | (None, m) \<Rightarrow> Ok (m, True))
        else match_err (parseIPv4Flow packet True) (\<lambda>e. Ok (snd (sendHandle env h packet addr m), True))
          (\<lambda>k. if fkProtocol k \<noteq> 6 then Ok (snd (sendHandle env h packet addr m), True)
               else captureSYN_flow env vpn h ev packet addr k m))"
      unfolding x by simp
  qed simp
qed

text \<open>
  Every goroutine of the manager, run on any sequence of events, only takes steps of the transition
  system: the bodies of \<^verbatim>\<open>captureFlow\<close>, \<^verbatim>\<open>captureUDPPort\<close>, \<^verbatim>\<open>receiveVPN\<close> and the two monitors refine it, and
  so does \<^verbatim>\<open>captureInitialTCPSYN\<close> when what the others do during its waits are steps.
\<close>

theorem goroutines_refine_steps:
  assumes "\<forall>ev \<in> set evs. \<forall>i m. fm_step\<^sup>*\<^sup>* (pend, m) (pend, se_others ev i m)"
  shows "returns_only (\<lambda>m'. fm_step\<^sup>*\<^sup>* (pend, m) (pend, m')) (serve (captureInitialTCPSYN env vpn h) evs m)
    \<and> returns_only (\<lambda>m'. fm_step\<^sup>*\<^sup>* (pend, m) (pend, m')) (serve (captureFlow env vpn f) outs m)
    \<and> returns_only (\<lambda>m'. fm_step\<^sup>*\<^sup>* (pend, m) (pend, m')) (serve (captureUDPPort env vpn port h) outs m)
    \<and> returns_only (\<lambda>m'. fm_step\<^sup>*\<^sup>* (pend, m) (pend, m')) (serve (receiveVPN env vpn) reads m)
    \<and> returns_only (\<lambda>m'. fm_step\<^sup>*\<^sup>* (pend, m) (pend, m')) (serve (monitorWindowsFlowEvents env) notes m)
    \<and> returns_only (\<lambda>m'. fm_step\<^sup>*\<^sup>* (pend, m) (pend, m')) (serve (monitorWindowsSocketEvents env now) notes m)"
  using assms
  by (intro conjI serve_runs runs_captureInitialTCPSYN runs_captureFlow runs_captureUDPPort runs_receiveVPN runs_monitors)
    blast

text \<open>
  C26. In every reachable state of the flow manager, whatever the interleaving, an entry of the reverse
  table points to a flow that is in the flow table under its own identity, sits under the reverse key
  of that flow and is not a blocked IPv6 flow; and every flow that owns a handle has that handle open,
  different from the handles of all other flows.
\<close>

theorem flow_tables_invariant:
  assumes "fm_reaches port hs pend m" "\<forall>h \<in> live hs. h < next_handle hs"
  shows "(\<forall>rk f. map_of (reverse m) rk = Some f \<longrightarrow>
      rk = reverseKeyFromFlow (fl_key f) \<and> \<not> ipv6Drop f \<and> map_of (flows m) (fl_id f) = Some f)
    \<and> (\<forall>i f. map_of (flows m) i = Some f \<longrightarrow> fl_id f = i)
    \<and> (\<forall>i f. map_of (flows m) i = Some f \<longrightarrow> \<not> shared f \<longrightarrow> fl_handle f \<in> live (wd m)
        \<and> (\<forall>j g. map_of (flows m) j = Some g \<longrightarrow> \<not> shared g \<longrightarrow> fl_handle g = fl_handle f \<longrightarrow> j = i))"
proof -
  have inv: "fm_inv (live hs) pend m" by (rule reachable_inv [OF assms])
  then have a: "flows_agree (map_of (flows m)) (map_of (reverse m))" by (simp add: fm_inv_def tables_ok_def)
  have d: "distinct (own_of (flows m))" "set (own_of (flows m)) \<subseteq> live (wd m)"
    using inv by (auto simp: fm_inv_def ledger_def owned_def)
  have inj: "inj_on (fl_handle \<circ> snd) (set (filter (\<lambda>(i, f). \<not> shared f) (flows m)))"
    using d(1) by (simp add: own_of_def distinct_map)
  have mem: "(i, f) \<in> set (filter (\<lambda>(i, f). \<not> shared f) (flows m))" if "map_of (flows m) i = Some f" "\<not> shared f" for i f
    using that by (auto dest: map_of_SomeD)
  have "j = i" if "map_of (flows m) i = Some f" "\<not> shared f" "map_of (flows m) j = Some g" "\<not> shared g"
    "fl_handle g = fl_handle f" for i f j g
    using inj_onD [OF inj _ mem [OF that(3,4)] mem [OF that(1,2)]] that(5) by simp
  moreover have "fl_handle f \<in> live (wd m)" if "map_of (flows m) i = Some f" "\<not> shared f" for i f
    using d(2) mem [OF that] by (force simp: own_of_def)
  ultimately show ?thesis using a unfolding flows_agree_def by blast
qed

text \<open>
  C29. In every reachable state a UDP port has an open capture handle exactly when some Discord socket is
  registered on it, no two ports share a handle, and the port of the VPN's own socket is never
  captured.
\<close>

theorem udp_protection_exact:
  assumes "fm_reaches port hs pend m" "\<forall>h \<in> live hs. h < next_handle hs"
  shows "(\<forall>p. (\<exists>h \<in> live (wd m). map_of (udpHandles m) p = Some h) \<longleftrightarrow> (\<exists>e. map_of (udpEndpointPorts m) e = Some p))
    \<and> inj_on (map_of (udpHandles m)) (dom (map_of (udpHandles m)))
    \<and> map_of (udpHandles m) (vpnLocalUDPPort m) = None"
proof -
  have inv: "fm_inv (live hs) pend m" by (rule reachable_inv [OF assms])
  then have a: "ports_agree (map_of (udpEndpointPorts m)) (map_of (udpPortRefs m)) (vpnLocalUDPPort m)"
    and dom: "dom (map_of (udpHandles m)) = dom (map_of (udpPortRefs m))"
    by (simp_all add: fm_inv_def udp_ok_def)
  have d: "distinct (map snd (udpHandles m))" "set (map snd (udpHandles m)) \<subseteq> live (wd m)"
    using inv by (auto simp: fm_inv_def ledger_def owned_def)
  have live: "h \<in> live (wd m)" if "map_of (udpHandles m) p = Some h" for p h
    using d(2) map_of_SomeD [OF that] by force
  have ex: "(\<exists>h. map_of (udpHandles m) p = Some h) \<longleftrightarrow> (\<exists>refs. map_of (udpPortRefs m) p = Some refs)" for p
    using dom unfolding dom_def set_eq_iff by simp
  have "(\<exists>refs. map_of (udpPortRefs m) p = Some refs) \<longleftrightarrow> (\<exists>e. map_of (udpEndpointPorts m) e = Some p)" for p
    using a unfolding ports_agree_def by (metis list.set_intros(1) neq_Nil_conv)
  moreover have "inj_on (map_of (udpHandles m)) (dom (map_of (udpHandles m)))"
  proof (rule inj_onI)
    fix p q assume "p \<in> dom (map_of (udpHandles m))" "map_of (udpHandles m) p = map_of (udpHandles m) q"
    then obtain h where "map_of (udpHandles m) p = Some h" "map_of (udpHandles m) q = Some h" by (metis domD)
    then have "(p, h) \<in> set (udpHandles m)" "(q, h) \<in> set (udpHandles m)" by (auto dest: map_of_SomeD)
    then show "p = q" using d(1) unfolding distinct_map inj_on_def by fastforce
  qed
  moreover have "map_of (udpHandles m) (vpnLocalUDPPort m) = None"
    using a dom unfolding ports_agree_def by (metis domIff not_None_eq)
  ultimately show ?thesis using live ex by blast
qed

text \<open>
  C28. \<^verbatim>\<open>close\<close> releases every handle the manager opened: from any reachable state it leaves open the handles
  that were open before the manager was created and those of flows a goroutine has opened but not yet
  committed, and nothing else.
\<close>

theorem close_releases_handles:
  assumes "fm_reaches port hs pend m" "\<forall>h \<in> live hs. h < next_handle hs"
  shows "live (wd (closeManager m)) = live hs \<union> fl_handle ` set pend
    \<and> flows (closeManager m) = [] \<and> reverse (closeManager m) = [] \<and> udpHandles (closeManager m) = []"
  using close_releases [OF reachable_inv [OF assms]] by (simp add: closeManager_eq)

section \<open>A sample run\<close>

text \<open>A Discord process, one socket on UDP port 12 and one TCP flow; all handles open and all writes succeed.\<close>

definition sample_env :: win_env where
  "sample_env = \<lparr>fmtIPv6 = (\<lambda>raw. Inl (bytes_of_string (if raw ! 0 = 1 then ''10.0.0.5'' else ''9.8.7.6'') @ [0])),
     processes = Some [(4, ''explorer.exe''), (7, ''discord.EXE'')], bestInterface = (\<lambda>_. Inl 3),
     openProc = (\<lambda>_ _ _ _. Inl ()), sendProc = (\<lambda>_ p _. Inl (of_nat (length p))), udpWrite = (\<lambda>_. None)\<rparr>"

definition sample_addr :: "byte \<Rightarrow> wdAddress" where
  "sample_addr proto = \<lparr>Timestamp = 0, Flags = 0, Reserved2 = 0,
     Data = [9, 0, 0, 0, 0, 0, 0, 0] @ replicate 8 0 @ [7, 0, 0, 0] @ [1] @ replicate 15 0 @ [2] @ replicate 15 0
       @ [12, 0] @ [8, 0] @ [proto] @ replicate 7 0\<rparr>"

definition sample_handles :: wd_handles where
  "sample_handles = \<lparr>next_handle = 3, live = {0, 1, 2}\<rparr>"

definition sample_start :: windowsFlowManager where
  "sample_start = (newWindowsFlowManager (Some 1194) sample_handles)\<lparr>bootstrapActive := True\<rparr>"

definition sample_udp :: windowsFlowManager where
  "sample_udp = protectUDPPort sample_env (sample_addr 17) sample_start"

definition sample_tcp :: windowsFlowManager where
  "sample_tcp = snd (addFromEvent sample_env (sample_addr 6) sample_udp)"

lemma sample_start_reaches: "fm_reaches (Some 1194) sample_handles [] sample_start"
  unfolding sample_start_def by (rule fm_reaches.step [OF fm_reaches.start]) (rule fm_step.activate)

lemma sample_udp_reaches: "fm_reaches (Some 1194) sample_handles [] sample_udp"
  unfolding sample_udp_def by (rule fm_reaches.step [OF sample_start_reaches]) (rule fm_step.protect)

lemma reaches_steps: "fm_reaches port hs pend m \<Longrightarrow> fm_step\<^sup>*\<^sup>* (pend, m) s \<Longrightarrow> fm_reaches port hs (fst s) (snd s)"
  by (rotate_tac, induction rule: rtranclp_induct) (auto intro: fm_reaches.step)

lemma sample_tcp_reaches: "fm_reaches (Some 1194) sample_handles [] sample_tcp"
  using reaches_steps [OF sample_udp_reaches add_steps] by (simp add: sample_tcp_def)

lemma sample_handles_ok: "\<forall>h \<in> live sample_handles. h < next_handle sample_handles"
  by (simp add: sample_handles_def)

lemma sample_udp_port: "map_of (udpEndpointPorts sample_udp) 9 = Some 12"
  by code_simp

lemma sample_tcp_flow:
  "map (fst \<circ> snd) (map (\<lambda>(i, f). (i, fl_handle f, shared f)) (flows sample_tcp)) = [4]
   \<and> map fl_id (map snd (reverse sample_tcp)) = [''6|10.0.0.5|12|9.8.7.6|8'']"
  by code_simp

definition sample_vpn :: liveVPN where
  "sample_vpn = \<lparr>vEndpoint = \<lparr>Host = ''h'', IP = ''1.2.3.4'', Location = ''x'', Protocol = ''udp'', Port = 53\<rparr>,
     vControl = None,
     vSession = \<lparr>psIPv4 = Some [10, 8, 0, 2], psNetmask = Some [255, 255, 0, 0], psDNS = Some [10, 8, 0, 1], psPeerID = 5,
       psCipher = ''AES-256-GCM''\<rparr>,
     vKeys = \<lparr>ClientCipher = replicate 64 1, ClientHMAC = replicate 64 2, ServerCipher = replicate 64 3,
       ServerHMAC = replicate 64 4\<rparr>, vResetLatency = 20\<rparr>"

theorem goroutines_refine_steps_witness:
  "returns_only (\<lambda>m'. fm_step\<^sup>*\<^sup>* ([], sample_tcp) ([], m'))
     (serve (captureInitialTCPSYN sample_env sample_vpn 2)
       [\<lparr>se_recv = Inr None, se_now = 0, se_lag = (\<lambda>_. 0), se_others = (\<lambda>_ m. m\<lparr>bootstrapActive := True\<rparr>)\<rparr>] sample_tcp)"
  using goroutines_refine_steps
    [of "[\<lparr>se_recv = Inr None, se_now = 0, se_lag = (\<lambda>_. 0), se_others = (\<lambda>_ m. m\<lparr>bootstrapActive := True\<rparr>)\<rparr>]" "[]"
      sample_tcp sample_env sample_vpn 2]
  by (simp add: r_into_rtranclp fm_step.activate)

theorem flow_tables_invariant_witness:
  "\<exists>rk f. map_of (reverse sample_tcp) rk = Some f \<and> rk = reverseKeyFromFlow (fl_key f) \<and> \<not> ipv6Drop f
     \<and> map_of (flows sample_tcp) (fl_id f) = Some f \<and> fl_handle f \<in> live (wd sample_tcp)"
proof -
  obtain rk f where r: "reverse sample_tcp = [(rk, f)]" using sample_tcp_flow by (auto simp: map_eq_Cons_conv)
  have "map shared (map snd (reverse sample_tcp)) = [False]" by code_simp
  then have "\<not> shared f" "map_of (reverse sample_tcp) rk = Some f" by (simp_all add: r)
  then show ?thesis
    using flow_tables_invariant [OF sample_tcp_reaches sample_handles_ok] by blast
qed

theorem udp_protection_exact_witness:
  "\<exists>h \<in> live (wd sample_udp). map_of (udpHandles sample_udp) 12 = Some h"
  using udp_protection_exact [OF sample_udp_reaches sample_handles_ok] sample_udp_port by blast

theorem close_releases_handles_witness:
  "live (wd (closeManager sample_tcp)) = {0, 1, 2} \<and> 4 \<in> live (wd sample_tcp)"
proof -
  have "4 \<in> live (wd sample_tcp)" by code_simp
  then show ?thesis
    using close_releases_handles [OF sample_tcp_reaches sample_handles_ok] by (simp add: sample_handles_def)
qed

end
