(* ===== verification/FlowPackets.thy ===== *)
theory FlowPackets
  imports FlowInvariant
begin

text \<open>
  What happens to packets in the flow manager: a well-formed packet survives rewriting and clamping,
  a captured packet leaves only through the tunnel, a response comes back to the flow it belongs to,
  and packet ids do not repeat before they wrap.
\<close>

section \<open>Well-formed packets\<close>

text \<open>An IPv4 packet with a complete TCP or UDP header whose total length field covers it.\<close>

definition sound_packet :: "bytes \<Rightarrow> bool" where
  "sound_packet p \<longleftrightarrow> valid_header p \<and> is_l4 p \<and> ihl_of (p ! 0) + min_l4 (p ! 9) \<le> effective_total p \<and> length p \<le> 65535"

lemma sound_bounds:
  assumes "sound_packet p"
  shows "20 \<le> length p" "drop_bit 4 (p ! 0) = 4" "20 \<le> ihl_of (p ! 0)" "ihl_of (p ! 0) + 8 \<le> length p" "length p \<le> 65535"
  using assms effective_total_le [of p] by (auto simp: sound_packet_def valid_header_def min_l4_def split: if_splits)

lemma sound_flow: "sound_packet p \<Longrightarrow> parseIPv4Flow p dir = Ok (flow_of p dir)"
  using sound_bounds [of p] by (auto simp: parseIPv4Flow_Ok_iff sound_packet_def)

lemma sound_cong:
  assumes "sound_packet p" "length q = length p" "q ! 0 = p ! 0" "q ! 2 = p ! 2" "q ! 3 = p ! 3" "q ! 9 = p ! 9"
  shows "sound_packet q"
  using assms effective_total_cong [OF assms(2,4,5)] by (simp add: sound_packet_def valid_header_def is_l4_def)

lemma sound_recalc:
  assumes "sound_packet p"
  shows "\<exists>q. recalcIPv4TransportChecksums p = Ok (q, None) \<and> sound_packet q \<and> checksums_valid q \<and> length q = length p
    \<and> (\<forall>dir. parseIPv4Flow q dir = parseIPv4Flow p dir)"
proof -
  note b = sound_bounds [OF assms]
  obtain q where q: "recalcIPv4TransportChecksums p = Ok (q, None)"
    using recalc_transport_eq assms by (auto simp: sound_packet_def)
  have same: "same_but_sums p q" by (rule recalc_same_but_sums [OF q])
  then have "q ! i = p ! i" if "i < 10" for i
    using same_but_sums_nth [OF same, of i] that b by simp
  then have "sound_packet q" using same by (intro sound_cong [OF assms]) (auto simp: same_but_sums_def)
  moreover have "parseIPv4Flow q dir = parseIPv4Flow p dir" for dir
    using flow_same_but_sums [OF same sound_flow [OF assms]] sound_flow [OF assms] by simp
  ultimately show ?thesis using q same recalc_checksums_valid [OF q b(5)] by (auto simp: same_but_sums_def)
qed

lemma sound_copy:
  assumes "sound_packet p" "length v = 4"
  shows "sound_packet (copy_at p 12 v)" "sound_packet (copy_at p 16 v)"
proof -
  have len: "20 \<le> length p" by (rule sound_bounds [OF assms(1)])
  have "copy_at p 12 v ! i = p ! i" "copy_at p 16 v ! i = p ! i" if "i < 12" for i
    by (rule copy_source_same [OF assms(2) len]; use that len in simp)+
  then show "sound_packet (copy_at p 12 v)" "sound_packet (copy_at p 16 v)"
    using len assms(2) by (auto intro!: sound_cong [OF assms(1)])
qed

lemma sound_rewrite_source:
  assumes "sound_packet p" "To4 ip = Some v"
  shows "\<exists>q. rewriteIPv4Source p ip = Ok (q, None) \<and> sound_packet q \<and> checksums_valid q \<and> length q = length p
    \<and> parseIPv4Flow q True = Ok ((flow_of p True)\<lparr>LocalIP := v\<rparr>)"
proof -
  have v: "length v = 4" using assms(2) by (rule To4_length)
  show ?thesis
    using sound_recalc [OF sound_copy(1) [OF assms(1) v]] sound_bounds [OF assms(1)] assms(2)
      flow_copy_source [OF sound_flow [OF assms(1)] v]
    by (auto simp: rewrite_success v)
qed

lemma sound_rewrite_destination:
  assumes "sound_packet p" "To4 ip = Some v"
  shows "\<exists>q. rewriteIPv4Destination p ip = Ok (q, None) \<and> sound_packet q \<and> checksums_valid q \<and> length q = length p
    \<and> parseIPv4Flow q False = Ok ((flow_of p False)\<lparr>LocalIP := v\<rparr>)"
proof -
  have v: "length v = 4" using assms(2) by (rule To4_length)
  show ?thesis
    using sound_recalc [OF sound_copy(2) [OF assms(1) v]] sound_bounds [OF assms(1)] assms(2)
      flow_copy_destination [OF sound_flow [OF assms(1)] v]
    by (auto simp: rewrite_success v)
qed

lemma clamp_loop_low:
  assumes "tcp_syn p"
  obtains r c where "clamp_loop m (ihl_of (p ! 0)) (tcp_header_len p) 20 p False = Ok (r, c)" "length r = length p"
    "\<forall>j < ihl_of (p ! 0) + 22. r ! j = p ! j" "\<not> c \<longrightarrow> r = p"
proof -
  let ?offs = "syn_mss p"
  have b: "ihl_of (p ! 0) + tcp_header_len p \<le> length p" using assms by (simp add: tcp_syn_def)
  obtain r where r: "clamp_loop m (ihl_of (p ! 0)) (tcp_header_len p) 20 p False = Ok (r, \<exists>x \<in> set ?offs. u16_at p x > m)"
    "length r = length p" "\<forall>j. (\<forall>x \<in> set ?offs. j \<noteq> x \<and> j \<noteq> x + 1) \<longrightarrow> r ! j = p ! j"
    "(\<forall>x \<in> set ?offs. u16_at p x \<le> m) \<longrightarrow> r = p"
    using clamp_loop_spec [OF b, of m 20 False] by auto
  have "\<forall>x \<in> set ?offs. ihl_of (p ! 0) + 22 \<le> x"
    using mss_offsets_range [of _ p "ihl_of (p ! 0)" "tcp_header_len p" 20] by fastforce
  then have "\<forall>x \<in> set ?offs. j \<noteq> x \<and> j \<noteq> x + 1" if "j < ihl_of (p ! 0) + 22" for j using that by fastforce
  with r(3) have "\<forall>j < ihl_of (p ! 0) + 22. r ! j = p ! j" by blast
  with r that show thesis by (auto simp: not_less)
qed

lemma flow_low_cong:
  assumes "sound_packet p" "length r = length p" "\<forall>j < ihl_of (p ! 0) + 4. r ! j = p ! j"
  shows "sound_packet r" "parseIPv4Flow r dir = parseIPv4Flow p dir"
proof -
  note b = sound_bounds [OF assms(1)]
  have low: "r ! j = p ! j" if "j < 20 \<or> j < ihl_of (p ! 0) + 4" for j using assms(3) b that by auto
  show s: "sound_packet r" by (rule sound_cong [OF assms(1,2)]) (simp_all add: low)
  have "take 4 (drop i r) = take 4 (drop i p)" if "i + 4 \<le> 20" for i
    using b(1) assms(2) that by (simp add: take4_drop low)
  moreover have "u16_at r (ihl_of (p ! 0)) = u16_at p (ihl_of (p ! 0))" "u16_at r (ihl_of (p ! 0) + 2) = u16_at p (ihl_of (p ! 0) + 2)"
    by (simp_all add: u16_at_def low)
  ultimately show "parseIPv4Flow r dir = parseIPv4Flow p dir"
    using low [of 9] by (simp add: sound_flow s assms(1) flow_of_def low Let_def)
qed

lemma sound_clamp:
  assumes "sound_packet p"
  shows "\<exists>q c e. clampTCPMSS p m = Ok (q, c, e) \<and> sound_packet q \<and> length q = length p
    \<and> (\<forall>dir. parseIPv4Flow q dir = parseIPv4Flow p dir) \<and> (checksums_valid p \<longrightarrow> checksums_valid q)"
proof (cases "tcp_syn p")
  case False
  with clampTCPMSS_not_syn [OF False, of m] assms show ?thesis by auto
next
  case True
  obtain r c where r: "clamp_loop m (ihl_of (p ! 0)) (tcp_header_len p) 20 p False = Ok (r, c)" "length r = length p"
    "\<forall>j < ihl_of (p ! 0) + 22. r ! j = p ! j" "\<not> c \<longrightarrow> r = p"
    using clamp_loop_low [OF True] .
  have s: "sound_packet r" "parseIPv4Flow r dir = parseIPv4Flow p dir" for dir
    by (rule flow_low_cong [OF assms r(2)]; use r(3) in simp)+
  show ?thesis
  proof (cases c)
    case False
    with r clampTCPMSS_syn [OF True, of m] assms show ?thesis by auto
  next
    case c: True
    with r clampTCPMSS_syn [OF True, of m] sound_recalc [OF s(1)] s(2) show ?thesis by auto
  qed
qed

section \<open>Packet ids\<close>

text \<open>Position of a packet id in the cycle 1, 2, ..., $2^{32} - 1$; the counter starts at 0, before id 1.\<close>

definition id_rank :: "u32 \<Rightarrow> nat" where
  "id_rank p = (if p = 0 then 2 ^ 32 - 2 else unat p - 1)"

definition next_id :: "u32 \<Rightarrow> u32" where
  "next_id p = (if p + 1 = 0 then 1 else p + 1)"

lemma nextPacketID_eq: "nextPacketID m = (next_id (packetID m), m\<lparr>packetID := next_id (packetID m)\<rparr>)"
  by (simp add: nextPacketID_def next_id_def Let_def)

lemma next_id_nonzero: "next_id p \<noteq> 0"
  by (simp add: next_id_def)

lemma rank_next: "id_rank (next_id p) = (id_rank p + 1) mod (2 ^ 32 - 1)"
proof (cases "p + 1 = 0")
  case True
  then have p: "p = - 1" by (simp add: eq_neg_iff_add_eq_0)
  have "unat p = 2 ^ 32 - 1" unfolding p by (simp add: unsigned_minus_1_eq_mask mask_eq_exp_minus_1)
  then show ?thesis by (simp add: id_rank_def next_id_def True p)
next
  case False
  then have u: "unat (p + 1) = unat p + 1" by (simp add: unatSuc add.commute)
  have "unat (p + 1) < 2 ^ 32" using unsigned_less [of "p + 1", where ?'a = nat] by simp
  with u have "unat p < 2 ^ 32 - 1" by simp
  then show ?thesis
    using u False by (cases "p = 0") (simp_all add: id_rank_def next_id_def unat_gt_0 Suc_diff_1)
qed

lemma rank_iter: "0 < k \<Longrightarrow> id_rank ((next_id ^^ k) p) = (id_rank p + k) mod (2 ^ 32 - 1)"
proof (induction k)
  case (Suc k)
  then show ?case by (cases k) (simp_all add: rank_next mod_Suc_eq)
qed simp

lemma rank_inject: "p \<noteq> 0 \<Longrightarrow> q \<noteq> 0 \<Longrightarrow> id_rank p = id_rank q \<Longrightarrow> p = q"
  by (metis Suc_pred' id_rank_def unat_gt_0 word_unat_eq_iff)

lemma iter_nonzero: "0 < k \<Longrightarrow> (next_id ^^ k) p \<noteq> 0"
  by (cases k) (simp_all add: next_id_nonzero)

lemma ids_distinct:
  assumes "0 < i" "i < j" "j < 2 ^ 32"
  shows "(next_id ^^ i) p \<noteq> (next_id ^^ j) p"
proof
  assume "(next_id ^^ i) p = (next_id ^^ j) p"
  then have "(id_rank p + i) mod (2 ^ 32 - 1) = (id_rank p + j) mod (2 ^ 32 - 1)"
    using rank_iter [of i p] rank_iter [of j p] assms by simp
  then have "(2 ^ 32 - 1) dvd (j - i)"
    using mod_eq_dvd_iff_nat [of "id_rank p + i" "id_rank p + j" "2 ^ 32 - 1"] assms(2) by simp
  moreover have "0 < j - i" "j - i < 2 ^ 32 - 1" using assms by auto
  ultimately show False by (auto dest: dvd_imp_le)
qed

lemma ids_cycle: "p \<noteq> 0 \<Longrightarrow> (next_id ^^ (2 ^ 32 - 1)) p = p"
proof (rule rank_inject)
  assume "p \<noteq> 0"
  then have "id_rank p < 2 ^ 32 - 1"
    using unsigned_less [of p, where ?'a = nat] by (simp add: id_rank_def less_diff_conv unat_gt_0)
  then show "id_rank ((next_id ^^ (2 ^ 32 - 1)) p) = id_rank p" by (subst rank_iter) auto
qed (simp_all add: iter_nonzero)

section \<open>Sending\<close>

definition live_ok :: "liveVPN \<Rightarrow> bool" where
  "live_ok vpn \<longleftrightarrow> (\<exists>ip. psIPv4 (vSession vpn) = Some ip \<and> length ip = 4) \<and> psPeerID (vSession vpn) \<le> 0xFFFFFF
     \<and> length (ClientCipher (vKeys vpn)) = 64 \<and> length (ClientHMAC (vKeys vpn)) = 64
     \<and> length (ServerCipher (vKeys vpn)) = 64 \<and> length (ServerHMAC (vKeys vpn)) = 64"

abbreviation vpn_ip :: "liveVPN \<Rightarrow> bytes" where
  "vpn_ip vpn \<equiv> the (psIPv4 (vSession vpn))"

text \<open>What the server recovers from a datagram of the client.\<close>

definition server_opens :: "liveVPN \<Rightarrow> bytes \<Rightarrow> decryptedDataV2 result" where
  "server_opens vpn dgram = decryptDataV2 dgram (take 32 (ClientCipher (vKeys vpn))) (ClientHMAC (vKeys vpn))"

lemma seal_total:
  assumes "live_ok vpn" "pid \<noteq> 0" "length pkt \<le> 65535" "pkt \<noteq> []"
  shows "\<exists>enc. seal_for vpn pid pkt = Ok enc \<and> u32_at enc 4 = pid
    \<and> server_opens vpn enc = Ok \<lparr>dPeerID = psPeerID (vSession vpn), dKeyID = 0, dPacketID = pid, dPayload = pkt\<rparr>"
proof -
  let ?k = "take 32 (ClientCipher (vKeys vpn))" and ?h = "ClientHMAC (vKeys vpn)"
  have l: "length ?k = 32" "8 \<le> length ?h" "psPeerID (vSession vpn) \<le> 0xFFFFFF" "32 \<le> length (ClientCipher (vKeys vpn))"
    using assms(1) by (simp_all add: live_ok_def)
  have "int (length pkt) \<le> gcm_max" using assms(3) by (simp add: gcm_max_def)
  then obtain enc where e: "encryptDataV2 (psPeerID (vSession vpn)) 0 pid ?k ?h pkt = Ok enc"
    using encrypt_total [OF assms(2) l(3) _ l(2,1), of 0 pkt] by auto
  moreover have "seal_for vpn pid pkt = encryptDataV2 (psPeerID (vSession vpn)) 0 pid ?k ?h pkt"
    using l(4) by (simp add: seal_for_def)
  moreover have "u32_at enc 4 = pid"
    using e by (auto simp: encryptDataV2_Ok_iff intro!: u32_at_put)
  ultimately show ?thesis using decrypt_encrypt [OF e assms(4)] by (simp add: server_opens_def)
qed

lemma send_sealed:
  assumes "live_ok vpn" "length pkt \<le> 65535" "pkt \<noteq> []" "\<And>b. udpWrite env b = None"
  shows "\<exists>enc. sendPacketToVPN env vpn pkt m =
      Ok (None, m\<lparr>packetID := next_id (packetID m), vpn_sent := vpn_sent m @ [enc]\<rparr>)
    \<and> u32_at enc 4 = next_id (packetID m)
    \<and> server_opens vpn enc =
        Ok \<lparr>dPeerID = psPeerID (vSession vpn), dKeyID = 0, dPacketID = next_id (packetID m), dPayload = pkt\<rparr>"
proof -
  obtain enc where "seal_for vpn (next_id (packetID m)) pkt = Ok enc" "u32_at enc 4 = next_id (packetID m)"
    "server_opens vpn enc =
        Ok \<lparr>dPeerID = psPeerID (vSession vpn), dKeyID = 0, dPacketID = next_id (packetID m), dPayload = pkt\<rparr>"
    using seal_total [OF assms(1) next_id_nonzero assms(2,3)] by blast
  then show ?thesis by (intro exI [of _ enc]) (simp add: sendPacketToVPN_def nextPacketID_eq writeVPN_def assms(4))
qed

primrec send_all :: "win_env \<Rightarrow> liveVPN \<Rightarrow> bytes list \<Rightarrow> windowsFlowManager \<Rightarrow> windowsFlowManager result" where
  "send_all env vpn [] m = Ok m"
| "send_all env vpn (p # ps) m =
     then_do (sendPacketToVPN env vpn p m) (\<lambda>(err, m). case err of Some e \<Rightarrow> Error e | None \<Rightarrow> send_all env vpn ps m)"

lemma send_all_sealed:
  assumes "live_ok vpn" "\<And>b. udpWrite env b = None" "\<forall>p \<in> set ps. p \<noteq> [] \<and> length p \<le> 65535"
  shows "\<exists>encs. send_all env vpn ps m = Ok (m\<lparr>packetID := (next_id ^^ length ps) (packetID m), vpn_sent := vpn_sent m @ encs\<rparr>)
    \<and> length encs = length ps
    \<and> (\<forall>i < length ps. server_opens vpn (encs ! i) = Ok \<lparr>dPeerID = psPeerID (vSession vpn), dKeyID = 0,
          dPacketID = (next_id ^^ Suc i) (packetID m), dPayload = ps ! i\<rparr>)"
  using assms(3)
proof (induction ps arbitrary: m)
  case (Cons p ps)
  obtain enc where e: "sendPacketToVPN env vpn p m =
      Ok (None, m\<lparr>packetID := next_id (packetID m), vpn_sent := vpn_sent m @ [enc]\<rparr>)"
    "server_opens vpn enc =
        Ok \<lparr>dPeerID = psPeerID (vSession vpn), dKeyID = 0, dPacketID = next_id (packetID m), dPayload = p\<rparr>"
    using send_sealed [OF assms(1) _ _ assms(2), of p m] Cons.prems by auto
  let ?m = "m\<lparr>packetID := next_id (packetID m), vpn_sent := vpn_sent m @ [enc]\<rparr>"
  obtain encs where i: "send_all env vpn ps ?m = Ok (?m\<lparr>packetID := (next_id ^^ length ps) (packetID ?m), vpn_sent := vpn_sent ?m @ encs\<rparr>)"
    "length encs = length ps"
    "\<forall>i < length ps. server_opens vpn (encs ! i) = Ok \<lparr>dPeerID = psPeerID (vSession vpn), dKeyID = 0,
          dPacketID = (next_id ^^ Suc i) (packetID ?m), dPayload = ps ! i\<rparr>"
    using Cons.IH [of ?m] Cons.prems by auto
  have "server_opens vpn ((enc # encs) ! i) = Ok \<lparr>dPeerID = psPeerID (vSession vpn), dKeyID = 0,
      dPacketID = (next_id ^^ Suc i) (packetID m), dPayload = (p # ps) ! i\<rparr>" if "i < length (p # ps)" for i
    using that e(2) i(3) by (cases i) (simp_all add: funpow_swap1)
  moreover have "send_all env vpn (p # ps) m =
      Ok (m\<lparr>packetID := (next_id ^^ length (p # ps)) (packetID m), vpn_sent := vpn_sent m @ (enc # encs)\<rparr>)"
    using e(1) i(1) by (simp add: funpow_swap1)
  ultimately show ?case using i(2) by (intro exI [of _ "enc # encs"]) simp
qed simp

text \<open>
  Sequences of sends never repeat a packet id, hence never a GCM nonce, within $2^{32} - 1$ packets, and
  never use id 0: every packet is sealed under the id after the previous one, and the server opens it
  to exactly the packet that was sent.
\<close>

theorem packet_ids_never_repeat:
  assumes "live_ok vpn" "\<forall>b. udpWrite env b = None" "\<forall>p \<in> set ps. p \<noteq> [] \<and> length p \<le> 65535"
    and "length ps \<le> 2 ^ 32 - 1"
  shows "\<exists>m' encs ids. send_all env vpn ps m = Ok m' \<and> vpn_sent m' = vpn_sent m @ encs
    \<and> distinct ids \<and> 0 \<notin> set ids \<and> length ids = length ps \<and> length encs = length ps
    \<and> (\<forall>i < length ps. server_opens vpn (encs ! i) =
          Ok \<lparr>dPeerID = psPeerID (vSession vpn), dKeyID = 0, dPacketID = ids ! i, dPayload = ps ! i\<rparr>)"
proof -
  obtain encs where e: "send_all env vpn ps m = Ok (m\<lparr>packetID := (next_id ^^ length ps) (packetID m), vpn_sent := vpn_sent m @ encs\<rparr>)"
    "length encs = length ps"
    "\<forall>i < length ps. server_opens vpn (encs ! i) = Ok \<lparr>dPeerID = psPeerID (vSession vpn), dKeyID = 0,
          dPacketID = (next_id ^^ Suc i) (packetID m), dPayload = ps ! i\<rparr>"
    using send_all_sealed [of vpn env ps m] assms by blast
  define ids where "ids = map (\<lambda>i. (next_id ^^ Suc i) (packetID m)) [0 ..< length ps]"
  have "(next_id ^^ Suc i) (packetID m) \<noteq> (next_id ^^ Suc j) (packetID m)" if "i < j" "j < length ps" for i j
    using ids_distinct [of "Suc i" "Suc j" "packetID m"] that assms(4) by simp
  then have "distinct ids"
    unfolding ids_def distinct_conv_nth by (auto simp del: funpow.simps) (metis nat_neq_iff)
  moreover have "0 \<notin> set ids" using iter_nonzero by (auto simp: ids_def simp del: funpow.simps)
  ultimately show ?thesis using e by (intro exI [of _ ids] exI conjI) (auto simp: ids_def simp del: funpow.simps)
qed

text \<open>
  Nothing renews the keys: of $2^{32}$ packets sent in a row the first and the last are sealed under the same
  packet id, hence under the same key and GCM nonce.
\<close>

theorem packet_ids_wrap:
  assumes "live_ok vpn" "\<forall>b. udpWrite env b = None" "\<forall>p \<in> set ps. p \<noteq> [] \<and> length p \<le> 65535"
    and "length ps = 2 ^ 32"
  shows "\<exists>m' encs d0 d1. send_all env vpn ps m = Ok m' \<and> vpn_sent m' = vpn_sent m @ encs \<and> length encs = 2 ^ 32
    \<and> server_opens vpn (encs ! 0) = Ok d0 \<and> server_opens vpn (encs ! (2 ^ 32 - 1)) = Ok d1 \<and> dPacketID d0 = dPacketID d1"
proof -
  obtain encs where e: "send_all env vpn ps m = Ok (m\<lparr>packetID := (next_id ^^ length ps) (packetID m), vpn_sent := vpn_sent m @ encs\<rparr>)"
    "length encs = length ps"
    "\<forall>i < length ps. server_opens vpn (encs ! i) = Ok \<lparr>dPeerID = psPeerID (vSession vpn), dKeyID = 0,
          dPacketID = (next_id ^^ Suc i) (packetID m), dPayload = ps ! i\<rparr>"
    using send_all_sealed [of vpn env ps m] assms by blast
  have "0 < length ps" "2 ^ 32 - 1 < length ps" by (simp_all add: assms(4))
  then have d: "server_opens vpn (encs ! 0) = Ok \<lparr>dPeerID = psPeerID (vSession vpn), dKeyID = 0,
          dPacketID = (next_id ^^ Suc 0) (packetID m), dPayload = ps ! 0\<rparr>"
    "server_opens vpn (encs ! (2 ^ 32 - 1)) = Ok \<lparr>dPeerID = psPeerID (vSession vpn), dKeyID = 0,
          dPacketID = (next_id ^^ Suc (2 ^ 32 - 1)) (packetID m), dPayload = ps ! (2 ^ 32 - 1)\<rparr>"
    using e(3) by blast+
  have "(next_id ^^ Suc (2 ^ 32 - 1)) (packetID m) = (next_id ^^ (2 ^ 32 - 1)) (next_id (packetID m))"
    by (simp only: funpow_Suc_right comp_def)
  also have "\<dots> = (next_id ^^ Suc 0) (packetID m)" by (simp only: ids_cycle [OF next_id_nonzero]) simp
  finally show ?thesis
    using e(1,2) d assms(4)
    by (intro exI conjI) (rule e(1), simp, simp, rule d(1), rule d(2), simp only: decryptedDataV2.simps)
qed

section \<open>Captured packets\<close>

lemma sound_nonempty: "sound_packet p \<Longrightarrow> p \<noteq> []"
  using sound_bounds(1) [of p] by auto

lemma vpn_source: "live_ok vpn \<Longrightarrow> To4 (case psIPv4 (vSession vpn) of Some ip \<Rightarrow> ip | None \<Rightarrow> []) = Some (vpn_ip vpn)"
  by (auto simp: live_ok_def)

text \<open>The packet \<open>p\<close> as the server receives it in the datagram \<open>enc\<close>.\<close>

definition tunneled_as :: "liveVPN \<Rightarrow> ipv4FlowKey \<Rightarrow> bytes \<Rightarrow> bool" where
  "tunneled_as vpn k enc \<longleftrightarrow> (\<exists>d. server_opens vpn enc = Ok d
     \<and> parseIPv4Flow (dPayload d) True = Ok (k\<lparr>LocalIP := vpn_ip vpn\<rparr>) \<and> checksums_valid (dPayload d))"

lemma tunnel_sound:
  assumes "sound_packet p" "live_ok vpn" "\<And>b. udpWrite env b = None"
  shows "\<exists>enc. tunnel env vpn what onRewrite p m =
      Ok (m\<lparr>packetID := next_id (packetID m), vpn_sent := vpn_sent m @ [enc]\<rparr>, True)
    \<and> tunneled_as vpn (flow_of p True) enc"
proof -
  obtain q where q: "rewriteIPv4Source p (case psIPv4 (vSession vpn) of Some ip \<Rightarrow> ip | None \<Rightarrow> []) = Ok (q, None)"
    "sound_packet q" "checksums_valid q" "parseIPv4Flow q True = Ok ((flow_of p True)\<lparr>LocalIP := vpn_ip vpn\<rparr>)"
    using sound_rewrite_source [OF assms(1) vpn_source [OF assms(2)]] by auto
  obtain enc where e: "sendPacketToVPN env vpn q m = Ok (None, m\<lparr>packetID := next_id (packetID m), vpn_sent := vpn_sent m @ [enc]\<rparr>)"
    "server_opens vpn enc =
        Ok \<lparr>dPeerID = psPeerID (vSession vpn), dKeyID = 0, dPacketID = next_id (packetID m), dPayload = q\<rparr>"
    using send_sealed [OF assms(2) sound_bounds(5) [OF q(2)] sound_nonempty [OF q(2)] assms(3)] by blast
  then show ?thesis
    using q by (intro exI [of _ enc]) (simp add: tunnel_def tunneled_as_def)
qed

definition tcp_options_ok :: "bytes \<Rightarrow> bool" where
  "tcp_options_ok p \<longleftrightarrow> (p ! 9 = 6 \<longrightarrow> 20 \<le> tcp_header_len p \<and> ihl_of (p ! 0) + tcp_header_len p \<le> length p)"

lemma clamp_no_error:
  assumes "sound_packet p" "tcp_options_ok p" "clampTCPMSS p m = Ok (q, c, e)"
  shows "e = None"
proof (cases "tcp_syn p")
  case True
  obtain r c' where r: "clamp_loop m (ihl_of (p ! 0)) (tcp_header_len p) 20 p False = Ok (r, c')" "length r = length p"
    "\<forall>j < ihl_of (p ! 0) + 22. r ! j = p ! j"
    using clamp_loop_low [OF True] .
  have "sound_packet r" by (rule flow_low_cong(1) [OF assms(1) r(2)]) (use r(3) in simp)
  from sound_recalc [OF this] show ?thesis
    using assms(3) r(1) clampTCPMSS_syn [OF True, of m] by (auto split: if_splits)
next
  case False
  note b = sound_bounds [OF assms(1)]
  have "p \<noteq> []" using b(1) by auto
  show ?thesis
  proof (cases "p ! 9 = 6")
    case False
    with \<open>p \<noteq> []\<close> b assms(3) show ?thesis by (auto simp: clampTCPMSS_def)
  next
    case tcp: True
    then have t: "20 \<le> tcp_header_len p" "ihl_of (p ! 0) + tcp_header_len p \<le> length p"
      using assms(2) by (auto simp: tcp_options_ok_def)
    then have "ihl_of (p ! 0) + 20 \<le> length p" "tcp_header_len p \<le> length p - ihl_of (p ! 0)" by linarith+
    moreover have "p ! (ihl_of (p ! 0) + 13) AND 2 = 0"
      using False b t tcp by (auto simp: tcp_syn_def)
    ultimately show ?thesis
      using assms(3) b t tcp \<open>p \<noteq> []\<close> by (simp add: clampTCPMSS_def tcp_header_len_def Let_def)
  qed
qed

text \<open>
  An outbound packet captured on a tunneled flow goes into the tunnel and nowhere else: exactly one
  datagram is written, the server opens it to a packet of the same flow with the session's address as
  source and valid checksums, and nothing is injected into the host's network.
\<close>

theorem captured_packet_tunneled:
  assumes "sound_packet packet" "tcp_options_ok packet" "wd_outbound addr" "live_ok vpn" "\<forall>b. udpWrite env b = None"
  shows "\<exists>m' enc. captureFlow env vpn f (Inl (packet, addr)) m = Ok (m', True)
    \<and> vpn_sent m' = vpn_sent m @ [enc] \<and> injected m' = injected m
    \<and> tunneled_as vpn (flow_of packet True) enc"
proof -
  have w: "udpWrite env b = None" for b using assms(5) by blast
  obtain q c e where q: "clampTCPMSS packet 1180 = Ok (q, c, e)" "sound_packet q"
    "parseIPv4Flow q True = parseIPv4Flow packet True"
    using sound_clamp [OF assms(1), of 1180] by blast
  have "e = None" by (rule clamp_no_error [OF assms(1,2) q(1)])
  moreover have "flow_of q True = flow_of packet True"
    using q(3) sound_flow [OF q(2)] sound_flow [OF assms(1)] by simp
  moreover obtain enc where "tunnel env vpn ''VPN data write: %w'' (\<lambda>e m. (m, True)) q m =
      Ok (m\<lparr>packetID := next_id (packetID m), vpn_sent := vpn_sent m @ [enc]\<rparr>, True)" "tunneled_as vpn (flow_of q True) enc"
    using tunnel_sound [OF q(2) assms(4) w] by blast
  moreover have "take 65535 packet = packet" "packet \<noteq> []"
    using sound_bounds [OF assms(1)] sound_nonempty [OF assms(1)] by simp_all
  ultimately show ?thesis
    using q(1) assms(3) by (simp add: captureFlow_def wd_recv_def)
qed

section \<open>Responses\<close>

text \<open>A datagram in which the server sends \<open>payload\<close> to this client.\<close>

definition server_seals :: "liveVPN \<Rightarrow> u32 \<Rightarrow> u32 \<Rightarrow> bytes \<Rightarrow> bytes result" where
  "server_seals vpn peer pid payload =
     encryptDataV2 peer 0 pid (take 32 (ServerCipher (vKeys vpn))) (ServerHMAC (vKeys vpn)) payload"

lemma sealed_opcode:
  assumes "encryptDataV2 peer 0 pid k h pt = Ok dgram" "pt \<noteq> []"
  shows "drop_bit 3 (dgram ! 0) = 9" "dgram \<noteq> []"
  using decrypt_encrypt [OF assms] by (auto simp: decryptDataV2_Ok_iff)

text \<open>
  C25. A response comes back to the flow it belongs to: when the server seals a well-formed packet that
  answers a flow in the reverse table, \<^verbatim>\<open>receiveVPN\<close> injects exactly one packet, on the handle and interface
  of that flow; the packet carries the flow's original local address, so that its key is exactly the
  flow's key, and its checksums are valid.
\<close>

theorem response_reaches_flow:
  assumes "fm_reaches port hs pend m" "\<forall>h \<in> live hs. h < next_handle hs"
    and "map_of (reverse m) (reverseKeyFromFlow (flow_of payload False)) = Some f" "length (LocalIP (fl_key f)) = 4"
    and "server_seals vpn peer pid payload = Ok dgram" "sound_packet payload" "length dgram \<le> 65535" "live_ok vpn"
    and "\<forall>h p a. sendProc env h p a = Inl (of_nat (length p))"
  shows "\<exists>q. receiveVPN env vpn (Datagram dgram) m =
      Ok (m\<lparr>injected := injected m @ [(fl_handle f, q, makeInboundWDAddress (fl_ifIdx f))]\<rparr>, True)
    \<and> parseIPv4Flow q False = Ok (fl_key f) \<and> checksums_valid q \<and> length q = length payload"
proof -
  let ?k = "take 32 (ServerCipher (vKeys vpn))" and ?h = "ServerHMAC (vKeys vpn)"
  have "tables_ok m" using reachable_inv [OF assms(1,2)] by (simp add: fm_inv_def)
  then have rk: "reverseKeyFromFlow (fl_key f) = reverseKeyFromFlow (flow_of payload False)"
    using assms(3) by (simp add: tables_ok_def flows_agree_def del: map_of_eq_Some_iff)
  have e: "encryptDataV2 peer 0 pid ?k ?h payload = Ok dgram" using assms(5) by (simp add: server_seals_def)
  note ne = sound_nonempty [OF assms(6)] and b = sound_bounds [OF assms(6)]
  have dec: "decryptDataV2 dgram ?k ?h = Ok \<lparr>dPeerID = peer, dKeyID = 0, dPacketID = pid, dPayload = payload\<rparr>"
    by (rule decrypt_encrypt [OF e ne])
  have v: "To4 (ipv4FromArray (LocalIP (fl_key f))) = Some (LocalIP (fl_key f))"
    using assms(4) by (auto simp: ipv4FromArray_def numeral_eq_Suc length_Suc_conv)
  obtain q1 where q1: "rewriteIPv4Destination payload (ipv4FromArray (LocalIP (fl_key f))) = Ok (q1, None)"
    "sound_packet q1" "checksums_valid q1" "length q1 = length payload"
    "parseIPv4Flow q1 False = Ok ((flow_of payload False)\<lparr>LocalIP := LocalIP (fl_key f)\<rparr>)"
    using sound_rewrite_destination [OF assms(6) v] by blast
  have key: "(flow_of payload False)\<lparr>LocalIP := LocalIP (fl_key f)\<rparr> = fl_key f"
    using rk by (simp add: reverseKeyFromFlow_def)
  obtain q c err where q: "clampTCPMSS q1 1180 = Ok (q, c, err)" "sound_packet q" "length q = length q1"
    "parseIPv4Flow q False = parseIPv4Flow q1 False" "checksums_valid q"
    using sound_clamp [OF q1(2), of 1180] q1(3) by blast
  have send: "sendHandle env (fl_handle f) q (makeInboundWDAddress (fl_ifIdx f)) m =
      (None, m\<lparr>injected := injected m @ [(fl_handle f, q, makeInboundWDAddress (fl_ifIdx f))]\<rparr>)"
    using sound_nonempty [OF q(2)] assms(9) by (simp add: sendHandle_def wd_send_def)
  have "deliver env payload m =
      Ok (m\<lparr>injected := injected m @ [(fl_handle f, q, makeInboundWDAddress (fl_ifIdx f))]\<rparr>, True)"
    using assms(3) q1(1) q(1) send sound_flow [OF assms(6), of False]
    by (simp add: deliver_def reverseKeyFromInboundPacket_def reverseKeyFromFlow_def)
  moreover have "take 65535 dgram = dgram" "32 \<le> length (ServerCipher (vKeys vpn))"
    using assms(7,8) by (simp_all add: live_ok_def)
  ultimately have "receiveVPN env vpn (Datagram dgram) m =
      Ok (m\<lparr>injected := injected m @ [(fl_handle f, q, makeInboundWDAddress (fl_ifIdx f))]\<rparr>, True)"
    using dec b sealed_opcode [OF e ne] ne by (simp add: receiveVPN_def Suc_le_eq)
  then show ?thesis using q q1(4,5) key by auto
qed

section \<open>No packet leaves beside the tunnel\<close>

lemma reportErr_injected [simp]: "injected (reportErr e m) = injected m" "vpn_sent (reportErr e m) = vpn_sent m"
  by (simp_all add: reportErr_def)

lemma send_injected: "sendPacketToVPN env vpn p m = Ok (e, m') \<Longrightarrow> injected m' = injected m"
  by (auto simp: sendPacketToVPN_def nextPacketID_eq match_err_Ok_iff writeVPN_def split: option.splits)

definition quiet_run :: "windowsFlowManager \<Rightarrow> (windowsFlowManager \<times> bool) result \<Rightarrow> bool" where
  "quiet_run m r \<longleftrightarrow> returns_only (\<lambda>(m', goOn). injected m' = injected m) r"

lemma quiet_simps [simp]:
  "quiet_run m (Ok (m', b)) \<longleftrightarrow> injected m' = injected m" "quiet_run m (Error e)" "quiet_run m (Panicked p)"
  by (simp_all add: quiet_run_def)

lemma quiet_then: "(\<And>x. r = Ok x \<Longrightarrow> quiet_run m (f x)) \<Longrightarrow> quiet_run m (then_do r f)"
  by (cases r) auto

lemma quiet_match:
  "(\<And>e. r = Error e \<Longrightarrow> quiet_run m (h e)) \<Longrightarrow> (\<And>x. r = Ok x \<Longrightarrow> quiet_run m (g x)) \<Longrightarrow> quiet_run m (match_err r h g)"
  by (cases r) auto

lemma quiet_tunnel:
  assumes "\<And>e. injected (fst (onRewrite e m)) = injected m'" "injected m = injected m'"
  shows "quiet_run m' (tunnel env vpn what onRewrite packet m)"
proof -
  have "quiet_run m' (Ok (onRewrite e m))" for e using assms(1) [of e] by (metis prod.collapse quiet_simps(1))
  with assms(2) show ?thesis
    unfolding tunnel_def by (auto intro!: quiet_then split: option.split prod.split simp: send_injected)
qed

lemma quiet_captureFlow: "quiet_run m (captureFlow env vpn f out m)"
  unfolding captureFlow_def by (auto intro!: quiet_match quiet_then quiet_tunnel split: prod.split)

lemma sharedFlow_injected [simp]: "injected (sharedFlow i key ifIdx h m) = injected m"
  by (simp add: sharedFlow_def Let_def split: option.split)

lemma quiet_captureUDPPort: "quiet_run m (captureUDPPort env vpn port h out m)"
  unfolding captureUDPPort_def Let_def
  by (auto intro!: quiet_match quiet_tunnel split: prod.split if_splits simp: then_do_Ok_iff)

lemma serve_quiet:
  assumes "\<And>e m. quiet_run m (body e m)"
  shows "returns_only (\<lambda>m'. injected m' = injected m) (serve body es m)"
proof (induction es arbitrary: m)
  case (Cons e es)
  show ?case using assms [of m e] Cons.IH by (cases "body e m") (auto simp: returns_only_def split: if_splits)
qed simp

text \<open>
  C30. Whatever packets arrive, \<^verbatim>\<open>captureFlow\<close> and \<^verbatim>\<open>captureUDPPort\<close> never hand a captured packet back to the
  network: on any sequence of driver events nothing is injected, so a packet of a protected flow
  leaves through the tunnel or not at all.
\<close>

theorem capture_never_leaks:
  "returns_only (\<lambda>m'. injected m' = injected m) (serve (captureFlow env vpn f) outs m)
   \<and> returns_only (\<lambda>m'. injected m' = injected m) (serve (captureUDPPort env vpn port h) outs m)"
  by (intro conjI serve_quiet quiet_captureFlow quiet_captureUDPPort)

section \<open>The first SYN\<close>

lemma IP_String_To4: "To4 ip = Some v \<Longrightarrow> IP_String ip = dotted v"
  by (auto simp: IP_String_def To4_def split: if_splits)

lemma To4_ipv4FromArray: "length v = 4 \<Longrightarrow> To4 (ipv4FromArray v) = Some v"
  by (auto simp: ipv4FromArray_def numeral_eq_Suc length_Suc_conv)

lemma flow_of_lengths: "sound_packet p \<Longrightarrow> length (LocalIP (flow_of p dir)) = 4 \<and> length (RemoteIP (flow_of p dir)) = 4"
  using sound_bounds [of p] by (simp add: flow_of_def Let_def)

lemma no_NUL: "CHR 0x00 \<notin> set (Itoa_nat n)" "CHR 0x00 \<notin> set (dotted v)"
proof -
  have "digit_val (CHR 0x00) = None" by (simp add: digit_val_def Let_def)
  then show "CHR 0x00 \<notin> set (Itoa_nat n)" "CHR 0x00 \<notin> set (dotted v)"
    using Itoa_nat_digits dotted_chars by force+
qed

lemma tcp_filter:
  assumes "To4 local = Some l" "To4 remote = Some r"
  shows "\<exists>filt. windowsFlowFilter 6 local lp remote rp = Ok filt \<and> CHR 0x00 \<notin> set filt"
  using assms by (simp add: windowsFlowFilter_def windowsProtoName_def IP_String_To4 no_NUL)

lemma poll_full: "map_of intents key = Some t \<Longrightarrow> now < t \<Longrightarrow> poll_intents now (key # keys) intents = (True, AList.delete key intents)"
  by simp

lemma poll_any:
  assumes "key \<in> set keys" "map_of intents key = Some t" "now < t"
  shows "\<exists>intents'. poll_intents now keys intents = (True, intents')"
  using assms
proof (induction keys arbitrary: intents)
  case (Cons k ks)
  then show ?case
    by (cases "k = key") (auto simp: AList.delete_conv' split: option.split)
qed simp

lemma poll_none: "\<forall>key \<in> set keys. map_of intents key = None \<Longrightarrow> poll_intents now keys intents = (False, intents)"
  by (induction keys) auto

lemma consume_hit:
  assumes "key \<in> set keys" "map_of (tcpIntents m) key = Some t" "now < t"
  shows "\<exists>intents. consume_loop lag others keys deadline i now m = (True, m\<lparr>tcpIntents := intents\<rparr>)"
  using poll_any [OF assms] by (subst consume_loop.simps) auto

lemma consume_miss:
  assumes "\<forall>key \<in> set keys. map_of (tcpIntents m) key = None" "\<And>i m. others i m = m"
  shows "consume_loop lag others keys deadline i now m = (False, m)"
proof (induction "nat (deadline - now)" arbitrary: i now rule: less_induct)
  case less
  have p: "poll_intents now keys (tcpIntents m) = (False, tcpIntents m)" by (rule poll_none [OF assms(1)])
  show ?case
    using less [of "now + int (lag i) + 1000000"] assms(2)
    by (subst consume_loop.simps) (auto simp: p)
qed

lemma captureSYN_sound:
  assumes "sound_packet packet" "tcp_options_ok packet" "live_ok vpn" "\<And>b. udpWrite env b = None"
  shows "\<exists>enc. captureSYN_tunneled env vpn packet m =
      Ok (m\<lparr>packetID := next_id (packetID m), vpn_sent := vpn_sent m @ [enc]\<rparr>, True)
    \<and> tunneled_as vpn (flow_of packet True) enc"
proof -
  obtain q c e where q: "clampTCPMSS packet 1180 = Ok (q, c, e)" "sound_packet q"
    "parseIPv4Flow q True = parseIPv4Flow packet True"
    using sound_clamp [OF assms(1), of 1180] by blast
  have "e = None" by (rule clamp_no_error [OF assms(1,2) q(1)])
  moreover have "flow_of q True = flow_of packet True"
    using q(3) sound_flow [OF q(2)] sound_flow [OF assms(1)] by simp
  ultimately show ?thesis
    using tunnel_sound [OF q(2) assms(3,4), where what = "''VPN first SYN write: %w''"] q(1)
    by (simp add: captureSYN_tunneled_def)
qed

lemma install_sound:
  assumes "length (LocalIP k) = 4" "length (RemoteIP k) = 4" "\<And>a b c d. openProc env a b c d = Inl ()" "networkIfIdx addr \<noteq> 0"
  shows "\<exists>f m'. installTCPFlowFromSYN env k (Some addr) m = (Ok f, m') \<and> injected m' = injected m \<and> vpn_sent m' = vpn_sent m
    \<and> map_of (flows m') (windowsFlowIdentity 6 (ipv4FromArray (LocalIP k)) (LocalPort k)
        (ipv4FromArray (RemoteIP k)) (RemotePort k)) = Some f"
proof -
  let ?l = "ipv4FromArray (LocalIP k)" and ?r = "ipv4FromArray (RemoteIP k)"
  let ?id = "windowsFlowIdentity 6 ?l (LocalPort k) ?r (RemotePort k)"
  obtain filt where f: "windowsFlowFilter 6 ?l (LocalPort k) ?r (RemotePort k) = Ok filt" "CHR 0x00 \<notin> set filt"
    using tcp_filter [OF To4_ipv4FromArray [OF assms(1)] To4_ipv4FromArray [OF assms(2)]] by blast
  show ?thesis
  proof (cases "map_of (flows m) ?id")
    case (Some g)
    then show ?thesis by (simp add: installTCPFlowFromSYN_def installTCPFlow_begin_def)
  next
    case None
    then show ?thesis
      using f assms(3,4)
      by (simp add: installTCPFlowFromSYN_def installTCPFlow_begin_def openHandle_def wd_open_def commitFlow_def
          AList.update_conv' Let_def)
  qed
qed

text \<open>The socket event \<open>a\<close> announces the connection whose first packet is \<open>packet\<close>.\<close>

definition announces :: "win_env \<Rightarrow> wdAddress \<Rightarrow> bytes \<Rightarrow> bool" where
  "announces env a packet \<longleftrightarrow> flowProtocol a = 6 \<and> isDiscordPIDWindows env (flowPID a) \<and>
     (\<exists>local remote. flowIPs (fmtIPv6 env) a = Ok (local, remote) \<and> \<not> IsUnspecified remote
        \<and> To4 remote = Some (RemoteIP (flow_of packet True)))
     \<and> flowRemotePort a = RemotePort (flow_of packet True) \<and> flowRemotePort a \<noteq> 0
     \<and> (flowLocalPort a = 0 \<or> flowLocalPort a = LocalPort (flow_of packet True))"

definition syn_keys :: "ipv4FlowKey \<Rightarrow> string list" where
  "syn_keys k = [windowsTCPIntentKey (LocalPort k) (ipv4FromArray (RemoteIP k)) (RemotePort k),
     windowsTCPRemoteIntentKey (ipv4FromArray (RemoteIP k)) (RemotePort k)]"

definition syn_identity :: "ipv4FlowKey \<Rightarrow> string" where
  "syn_identity k = windowsFlowIdentity 6 (ipv4FromArray (LocalIP k)) (LocalPort k) (ipv4FromArray (RemoteIP k)) (RemotePort k)"

lemma announced_intent:
  assumes "announces env a packet" "sound_packet packet" "bootstrapActive m"
  shows "\<exists>key \<in> set (syn_keys (flow_of packet True)).
    markTCPIntent env now a m = m\<lparr>tcpIntents := AList.update key (now + 3000000000) (tcpIntents m)\<rparr>"
proof -
  let ?k = "flow_of packet True"
  obtain local remote where r: "flowIPs (fmtIPv6 env) a = Ok (local, remote)" "\<not> IsUnspecified remote"
    "To4 remote = Some (RemoteIP ?k)"
    using assms(1) by (auto simp: announces_def)
  have "IP_String remote = IP_String (ipv4FromArray (RemoteIP ?k))"
    using IP_String_To4 [OF r(3)] IP_String_To4 [OF To4_ipv4FromArray] flow_of_lengths [OF assms(2)] by simp
  then have "intentKey (flowLocalPort a) remote (flowRemotePort a) \<in> set (syn_keys ?k)"
    using assms(1)
    by (auto simp: intentKey_def syn_keys_def announces_def windowsTCPIntentKey_def windowsTCPRemoteIntentKey_def)
  moreover have "markTCPIntent env now a m =
      m\<lparr>tcpIntents := AList.update (intentKey (flowLocalPort a) remote (flowRemotePort a)) (now + 3000000000) (tcpIntents m)\<rparr>"
    using assms r by (auto simp: markTCPIntent_def announces_def Let_def)
  ultimately show ?thesis by blast
qed

lemma syn_event_cases:
  assumes "se_recv ev = Inl (packet, addr)" "sound_packet packet" "fkProtocol (flow_of packet True) = 6" "bootstrapActive m"
  shows "captureInitialTCPSYN env vpn h ev m = captureSYN_flow env vpn h ev packet addr (flow_of packet True) m"
  using assms sound_bounds [OF assms(2)] sound_nonempty [OF assms(2)]
  by (simp add: captureInitialTCPSYN_def wd_recv_def sound_flow)

text \<open>
  C27. The first packet of a Discord connection is not lost to the normal network: when the socket event of
  the connection has been seen less than three seconds before its SYN is captured, the SYN is
  tunneled, not re-injected, and its flow is installed.
\<close>

theorem armed_syn_enters_tunnel:
  assumes "announces env a packet" "bootstrapActive m"
    and "sound_packet packet" "tcp_options_ok packet" "fkProtocol (flow_of packet True) = 6" "networkIfIdx addr \<noteq> 0"
    and "se_recv ev = Inl (packet, addr)" "se_now ev + int (se_lag ev 0) < now + 3000000000"
    and "live_ok vpn" "\<forall>b. udpWrite env b = None" "\<forall>a b c d. openProc env a b c d = Inl ()"
  shows "\<exists>m' enc. captureInitialTCPSYN env vpn h ev (markTCPIntent env now a m) = Ok (m', True)
    \<and> injected m' = injected m \<and> vpn_sent m' = vpn_sent m @ [enc] \<and> tunneled_as vpn (flow_of packet True) enc
    \<and> map_of (flows m') (syn_identity (flow_of packet True)) \<noteq> None"
proof -
  let ?k = "flow_of packet True"
  have w: "udpWrite env x = None" and o: "openProc env b c d e = Inl ()" for x b c d e using assms(10,11) by auto
  obtain key where key: "key \<in> set (syn_keys ?k)"
    and mark: "markTCPIntent env now a m = m\<lparr>tcpIntents := AList.update key (now + 3000000000) (tcpIntents m)\<rparr>"
    using announced_intent [OF assms(1,3,2)] by blast
  define m0 where "m0 = markTCPIntent env now a m"
  have m0: "bootstrapActive m0" "injected m0 = injected m" "vpn_sent m0 = vpn_sent m"
    "map_of (tcpIntents m0) key = Some (now + 3000000000)"
    using assms(2) by (simp_all add: m0_def mark AList.update_conv')
  obtain intents where c: "consumeTCPIntent (se_lag ev) (se_others ev) (se_now ev) ?k m0 = (True, m0\<lparr>tcpIntents := intents\<rparr>)"
    using consume_hit [OF key m0(4) assms(8), of "se_lag ev" "se_others ev" "se_now ev + 8000000" 1]
    by (auto simp: consumeTCPIntent_def syn_keys_def Let_def)
  obtain f m1 where i: "installTCPFlowFromSYN env ?k (Some addr) (m0\<lparr>tcpIntents := intents\<rparr>) = (Ok f, m1)"
    "injected m1 = injected m" "vpn_sent m1 = vpn_sent m" "map_of (flows m1) (syn_identity ?k) = Some f"
    using install_sound [OF _ _ o assms(6), of ?k "m0\<lparr>tcpIntents := intents\<rparr>"] flow_of_lengths [OF assms(3)] m0
    by (auto simp: syn_identity_def)
  have run: "captureInitialTCPSYN env vpn h ev m0 = captureSYN_flow env vpn h ev packet addr ?k m0"
    by (rule syn_event_cases [OF assms(7,3,5) m0(1)])
  show ?thesis
  proof (cases "map_of (flows m0) (syn_identity ?k)")
    case None
    then have "captureSYN_flow env vpn h ev packet addr ?k m0 = captureSYN_tunneled env vpn packet m1"
      using c i(1) by (simp add: captureSYN_flow_def syn_identity_def)
    moreover obtain enc where "captureSYN_tunneled env vpn packet m1 =
        Ok (m1\<lparr>packetID := next_id (packetID m1), vpn_sent := vpn_sent m1 @ [enc]\<rparr>, True)" "tunneled_as vpn ?k enc"
      using captureSYN_sound [OF assms(3,4,9) w, of m1] by blast
    ultimately show ?thesis using run i by (auto simp flip: m0_def)
  next
    case (Some g)
    then have "captureSYN_flow env vpn h ev packet addr ?k m0 = captureSYN_tunneled env vpn packet m0"
      by (simp add: captureSYN_flow_def syn_identity_def)
    moreover obtain enc where "captureSYN_tunneled env vpn packet m0 =
        Ok (m0\<lparr>packetID := next_id (packetID m0), vpn_sent := vpn_sent m0 @ [enc]\<rparr>, True)" "tunneled_as vpn ?k enc"
      using captureSYN_sound [OF assms(3,4,9) w, of m0] by blast
    ultimately show ?thesis using run Some m0 by (auto simp flip: m0_def)
  qed
qed

text \<open>
  Connections of other programs are left alone: a SYN for which there is neither a flow nor an intent is
  re-injected byte for byte after the wait, and nothing is sent through the tunnel or installed.
\<close>

theorem foreign_syn_untouched:
  assumes "se_recv ev = Inl (packet, addr)" "sound_packet packet" "fkProtocol (flow_of packet True) = 6" "bootstrapActive m"
    and "map_of (flows m) (syn_identity (flow_of packet True)) = None"
    and "\<forall>key \<in> set (syn_keys (flow_of packet True)). map_of (tcpIntents m) key = None"
    and "\<forall>i m. se_others ev i m = m" "\<forall>h p a. sendProc env h p a = Inl (of_nat (length p))"
  shows "captureInitialTCPSYN env vpn h ev m = Ok (m\<lparr>injected := injected m @ [(h, packet, addr)]\<rparr>, True)"
proof -
  let ?k = "flow_of packet True"
  have "consumeTCPIntent (se_lag ev) (se_others ev) (se_now ev) ?k m = (False, m)"
    using consume_miss [OF assms(6), of "se_others ev"] assms(7) by (simp add: consumeTCPIntent_def syn_keys_def)
  moreover have "sendHandle env h packet addr m = (None, m\<lparr>injected := injected m @ [(h, packet, addr)]\<rparr>)"
    using sound_nonempty [OF assms(2)] assms(8) by (simp add: sendHandle_def wd_send_def)
  ultimately show ?thesis
    using syn_event_cases [OF assms(1-4)] assms(5) by (simp add: captureSYN_flow_def syn_identity_def)
qed

section \<open>Witnesses\<close>

definition syn_packet :: bytes where
  "syn_packet = [0x45, 0, 0, 48, 0, 0, 0, 0, 64, 6, 0, 0, 10, 0, 0, 5, 9, 8, 7, 6,
     0, 12, 0, 8, 0, 0, 0, 1, 0, 0, 0, 0, 0x70, 2, 0xff, 0xff, 0, 0, 0, 0, 2, 4, 5, 0xb4, 1, 1, 4, 2]"

definition synack_packet :: bytes where
  "synack_packet = [0x45, 0, 0, 40, 0, 0, 0, 0, 64, 6, 0, 0, 9, 8, 7, 6, 10, 8, 0, 2,
     0, 8, 0, 12, 0, 0, 0, 9, 0, 0, 0, 2, 0x50, 0x12, 0xff, 0xff, 0, 0, 0, 0]"

definition out_addr :: wdAddress where
  "out_addr = \<lparr>Timestamp = 0, Flags = push_bit 17 1, Reserved2 = 0, Data = [3] @ replicate 63 0\<rparr>"

definition syn_arrival :: syn_event where
  "syn_arrival = \<lparr>se_recv = Inl (syn_packet, out_addr), se_now = 1000000, se_lag = (\<lambda>_. 5), se_others = (\<lambda>_ m. m)\<rparr>"

lemma sample_vpn_ok: "live_ok sample_vpn"
  by (simp add: live_ok_def sample_vpn_def)

lemma sample_env_ok: "\<forall>b. udpWrite sample_env b = None" "\<forall>a b c d. openProc sample_env a b c d = Inl ()"
  "\<forall>h p a. sendProc sample_env h p a = Inl (of_nat (length p))"
  by (simp_all add: sample_env_def)

lemma syn_sound: "sound_packet syn_packet" "tcp_options_ok syn_packet"
  by (simp_all add: sound_packet_def valid_header_def is_l4_def min_l4_def effective_total_def ihl_of_def u16_at_def
      word16_be_def tcp_options_ok_def tcp_header_len_def syn_packet_def Let_def)

lemma synack_sound: "sound_packet synack_packet"
  by (simp add: sound_packet_def valid_header_def is_l4_def min_l4_def effective_total_def ihl_of_def u16_at_def
      word16_be_def synack_packet_def Let_def)

lemma syn_flow: "flow_of syn_packet True =
  \<lparr>fkProtocol = 6, LocalIP = [10, 0, 0, 5], RemoteIP = [9, 8, 7, 6], LocalPort = 12, RemotePort = 8\<rparr>"
  by code_simp

lemma out_addr_ok: "wd_outbound out_addr" "networkIfIdx out_addr \<noteq> 0"
  by code_simp+

lemma sample_announces: "announces sample_env (sample_addr 6) syn_packet"
proof -
  have "flowProtocol (sample_addr 6) = 6" "isDiscordPIDWindows sample_env (flowPID (sample_addr 6))"
    "flowRemotePort (sample_addr 6) = 8" "flowLocalPort (sample_addr 6) = 12"
    "\<not> IsUnspecified (IPv4 9 8 7 6)" "flowIPs (fmtIPv6 sample_env) (sample_addr 6) = Ok (IPv4 10 0 0 5, IPv4 9 8 7 6)"
    by code_simp+
  then show ?thesis by (simp add: announces_def syn_flow)
qed

theorem packet_ids_never_repeat_witness:
  "\<exists>m' encs ids. send_all sample_env sample_vpn [[1], [2, 3]] sample_start = Ok m' \<and> distinct ids \<and> length ids = 2
    \<and> server_opens sample_vpn (encs ! 1) = Ok \<lparr>dPeerID = 5, dKeyID = 0, dPacketID = ids ! 1, dPayload = [2, 3]\<rparr>"
proof -
  let ?ps = "[[1], [2, 3 :: byte]]"
  have "\<forall>p \<in> set ?ps. p \<noteq> [] \<and> length p \<le> 65535" "length ?ps \<le> 2 ^ 32 - 1" by simp_all
  from packet_ids_never_repeat [OF sample_vpn_ok sample_env_ok(1) this, of sample_start]
  obtain m' encs ids where r: "send_all sample_env sample_vpn ?ps sample_start = Ok m'" "distinct ids" "length ids = length ?ps"
    "\<forall>i < length ?ps. server_opens sample_vpn (encs ! i) =
       Ok \<lparr>dPeerID = psPeerID (vSession sample_vpn), dKeyID = 0, dPacketID = ids ! i, dPayload = ?ps ! i\<rparr>"
    by blast
  have "psPeerID (vSession sample_vpn) = 5" by (simp add: sample_vpn_def)
  with r(4) have "server_opens sample_vpn (encs ! 1) = Ok \<lparr>dPeerID = 5, dKeyID = 0, dPacketID = ids ! 1, dPayload = [2, 3]\<rparr>"
    by simp
  with r(1-3) show ?thesis by (intro exI conjI) (assumption+, simp, assumption)
qed

theorem packet_ids_wrap_witness:
  "\<exists>m' encs d0 d1. send_all sample_env sample_vpn (replicate (2 ^ 32) [7]) sample_start = Ok m'
    \<and> server_opens sample_vpn (encs ! 0) = Ok d0 \<and> server_opens sample_vpn (encs ! (2 ^ 32 - 1)) = Ok d1
    \<and> dPacketID d0 = dPacketID d1"
proof -
  have "\<forall>p \<in> set (replicate (2 ^ 32) [7 :: byte]). p \<noteq> [] \<and> length p \<le> 65535" "length (replicate (2 ^ 32) [7 :: byte]) = 2 ^ 32"
    by (simp_all only: set_replicate_conv_if length_replicate) simp
  from packet_ids_wrap [OF sample_vpn_ok sample_env_ok(1) this, of sample_start] show ?thesis by blast
qed

theorem captured_packet_tunneled_witness:
  "\<exists>m' enc. captureFlow sample_env sample_vpn (snd (hd (flows sample_tcp))) (Inl (syn_packet, out_addr)) sample_tcp = Ok (m', True)
    \<and> vpn_sent m' = vpn_sent sample_tcp @ [enc] \<and> tunneled_as sample_vpn (flow_of syn_packet True) enc"
  using captured_packet_tunneled [OF syn_sound out_addr_ok(1) sample_vpn_ok sample_env_ok(1)] by blast

lemma synack_flow: "flow_of synack_packet False =
  \<lparr>fkProtocol = 6, LocalIP = [10, 8, 0, 2], RemoteIP = [9, 8, 7, 6], LocalPort = 12, RemotePort = 8\<rparr>"
  by code_simp

definition sample_flow :: windowsDiscordFlow where
  "sample_flow = \<lparr>fl_id = ''6|10.0.0.5|12|9.8.7.6|8'', fl_key = flow_of syn_packet True, fl_ifIdx = 3, fl_handle = 4,
     ipv6Drop = False, shared = False\<rparr>"

lemma sample_reverse: "map_of (reverse sample_tcp) (reverseKeyFromFlow (flow_of synack_packet False)) = Some sample_flow"
  by code_simp

theorem response_reaches_flow_witness:
  "\<exists>dgram m' q. server_seals sample_vpn 5 1 synack_packet = Ok dgram
    \<and> receiveVPN sample_env sample_vpn (Datagram dgram) sample_tcp = Ok (m', True)
    \<and> injected m' = injected sample_tcp @ [(4, q, makeInboundWDAddress 3)] \<and> parseIPv4Flow q False = Ok (flow_of syn_packet True)"
proof -
  have "int (length synack_packet) \<le> gcm_max" by (simp add: synack_packet_def gcm_max_def)
  then obtain dgram where d: "server_seals sample_vpn 5 1 synack_packet = Ok dgram"
    using encrypt_total [of 1 5 0] by (fastforce simp: server_seals_def sample_vpn_def)
  then have l: "length dgram \<le> 65535"
    by (auto simp: server_seals_def synack_packet_def dest!: encrypt_length)
  have f: "length (LocalIP (fl_key sample_flow)) = 4" by (simp add: sample_flow_def syn_flow)
  from response_reaches_flow [OF sample_tcp_reaches sample_handles_ok sample_reverse f d synack_sound l sample_vpn_ok sample_env_ok(3)]
  show ?thesis using d by (auto simp: sample_flow_def)
qed

theorem armed_syn_enters_tunnel_witness:
  "\<exists>m' enc. captureInitialTCPSYN sample_env sample_vpn 2 syn_arrival (markTCPIntent sample_env 0 (sample_addr 6) sample_start)
      = Ok (m', True) \<and> vpn_sent m' = [enc] \<and> injected m' = []
    \<and> map_of (flows m') (syn_identity (flow_of syn_packet True)) \<noteq> None"
proof -
  have "bootstrapActive sample_start" "injected sample_start = []" "vpn_sent sample_start = []"
    by (simp_all add: sample_start_def newWindowsFlowManager_def)
  moreover have "se_recv syn_arrival = Inl (syn_packet, out_addr)"
    "se_now syn_arrival + int (se_lag syn_arrival 0) < 0 + 3000000000"
    by (simp_all add: syn_arrival_def)
  ultimately show ?thesis
    using armed_syn_enters_tunnel [OF sample_announces _ syn_sound _ out_addr_ok(2) _ _ sample_vpn_ok sample_env_ok(1,2),
        of sample_start syn_arrival 0 2]
    by (auto simp: syn_flow)
qed

theorem foreign_syn_untouched_witness:
  "captureInitialTCPSYN sample_env sample_vpn 2 syn_arrival sample_start =
     Ok (sample_start\<lparr>injected := [(2, syn_packet, out_addr)]\<rparr>, True)"
proof -
  have "bootstrapActive sample_start" "injected sample_start = []" "flows sample_start = []" "tcpIntents sample_start = []"
    by (simp_all add: sample_start_def newWindowsFlowManager_def)
  moreover have "se_recv syn_arrival = Inl (syn_packet, out_addr)" "\<forall>i m. se_others syn_arrival i m = m"
    by (simp_all add: syn_arrival_def)
  ultimately show ?thesis
    using foreign_syn_untouched [OF _ syn_sound(1) _ _ _ _ _ sample_env_ok(3), of syn_arrival out_addr sample_start sample_vpn 2]
    by (simp add: syn_flow)
qed

end
