(* ===== verification/Interleaving.thy ===== *)
theory Interleaving
  imports Main
begin

text \<open>
  Goroutines as interleaved atomic steps.  The interface of such a system is its initial states, its step relation
  and an invariant; what a client needs is that the invariant holds in every reachable state.  The concurrent
  parts of the Linux proxy (the dialer, the mode switch and the relay) and the locks of the Windows flow manager are instances.
\<close>

locale transition_system =
  fixes init :: "'s \<Rightarrow> bool" and step :: "'s \<Rightarrow> 's \<Rightarrow> bool" and inv :: "'s \<Rightarrow> bool"
  assumes init_inv: "init s \<Longrightarrow> inv s"
    and step_inv: "inv s \<Longrightarrow> step s t \<Longrightarrow> inv t"
begin

lemma steps_inv: "step\<^sup>*\<^sup>* s t \<Longrightarrow> inv s \<Longrightarrow> inv t"
  by (induction rule: rtranclp_induct) (auto intro: step_inv)

lemma reach_inv: "init s \<Longrightarrow> step\<^sup>*\<^sup>* s t \<Longrightarrow> inv t"
  using steps_inv init_inv by blast

end

text \<open>A buffered channel of capacity one; \<open>None\<close>: the send blocks.\<close>

definition try_send :: "'a \<Rightarrow> 'a list \<Rightarrow> 'a list option" where
  "try_send x ch = (if length ch < 1 then Some (ch @ [x]) else None)"

lemma try_send_empty [simp]: "try_send x [] = Some [x]"
  by (simp add: try_send_def)

lemma try_send_Some: "try_send x ch = Some ch' \<longleftrightarrow> ch = [] \<and> ch' = [x]"
  by (auto simp: try_send_def)

end
