(* ===== verification/FlowLocks.thy ===== *)
theory FlowLocks
  imports FlowInvariant Interleaving
begin

text \<open>
  The flow manager at the grain of its mutex.  \<^verbatim>\<open>addFromEvent\<close>, \<^verbatim>\<open>installTCPFlowFromSYN\<close>, \<^verbatim>\<open>removeFromEvent\<close>,
  \<^verbatim>\<open>unprotectUDPSocket\<close> and \<^verbatim>\<open>close\<close> change the tables under \<^verbatim>\<open>m.mu\<close> and close handles after they released it.  Here the locked
  section and every single \<^verbatim>\<open>Close\<close> are steps of their own, so that other goroutines run in between; the
  operations of \<^verbatim>\<open>FlowManager\<close> are these steps without interruption.
\<close>

section \<open>Definitions\<close>

text \<open>A locked section returns the handles its caller closes afterwards.\<close>

definition commit_locked :: "windowsDiscordFlow \<Rightarrow> windowsFlowManager \<Rightarrow> handle list \<times> windowsFlowManager" where
  "commit_locked f m =
     (case map_of (flows m) (fl_id f) of
        Some old \<Rightarrow> ([fl_handle f], m)
      | None \<Rightarrow>
          ([], m\<lparr>flows := AList.update (fl_id f) f (flows m),
                reverse := (if ipv6Drop f then reverse m
                            else AList.update (reverseKeyFromFlow (fl_key f)) f (reverse m))\<rparr>))"

definition remove_locked :: "string \<Rightarrow> windowsFlowManager \<Rightarrow> handle list \<times> windowsFlowManager" where
  "remove_locked flowId m =
     (case map_of (flows m) flowId of
        None \<Rightarrow> ([], m)
      | Some f \<Rightarrow>
          (if shared f then [] else [fl_handle f],
           m\<lparr>flows := AList.delete flowId (flows m),
             reverse := (if ipv6Drop f then reverse m
                         else AList.delete (reverseKeyFromFlow (fl_key f)) (reverse m))\<rparr>))"

definition unprotect_locked :: "u64 \<Rightarrow> windowsFlowManager \<Rightarrow> handle list \<times> windowsFlowManager" where
  "unprotect_locked endpointID m =
     (case map_of (udpEndpointPorts m) endpointID of
        None \<Rightarrow> ([], m)
      | Some port \<Rightarrow>
          (let m = m\<lparr>udpEndpointPorts := AList.delete endpointID (udpEndpointPorts m)\<rparr> in
           case map_of (udpPortRefs m) port of
             None \<Rightarrow> ([], m)
           | Some refs \<Rightarrow>
               (let refs = removeAll endpointID refs in
                if length refs = 0 then
                  (case map_of (udpHandles m) port of None \<Rightarrow> [] | Some h \<Rightarrow> [h],
                   dropPortFlows port (m\<lparr>udpPortRefs := AList.delete port (udpPortRefs m),
                                        udpHandles := AList.delete port (udpHandles m)\<rparr>))
                else ([], m\<lparr>udpPortRefs := AList.update port refs (udpPortRefs m)\<rparr>))))"

definition close_locked :: "windowsFlowManager \<Rightarrow> handle list \<times> windowsFlowManager" where
  "close_locked m =
     (map fl_handle (filter (\<lambda>f. \<not> shared f) (map snd (flows m))) @ map snd (udpHandles m),
      m\<lparr>flows := [], reverse := [], udpHandles := [], udpPortRefs := [], udpEndpointPorts := []\<rparr>)"

text \<open>The calls of \<^verbatim>\<open>Close\<close> after the lock was released.\<close>

definition close_list :: "handle list \<Rightarrow> windowsFlowManager \<Rightarrow> windowsFlowManager" where
  "close_list hs m = fold (\<lambda>h. closeHandle (Some h)) hs m"

text \<open>
  The state has the flows opened and not committed, the handles taken out of the tables and not closed yet, and the
  manager.  The operations that close nothing are the steps of \<open>fm_step\<close>.
\<close>

type_synonym lock_state = "windowsDiscordFlow list \<times> handle list \<times> windowsFlowManager"

inductive lock_step :: "lock_state \<Rightarrow> lock_state \<Rightarrow> bool" where
  whole: "fm_step (pend, m) (pend', m') \<Longrightarrow> lock_step (pend, cs, m) (pend', cs, m')"
| commit_lock: "commit_locked f m = (hs, m') \<Longrightarrow> lock_step (ps @ f # qs, cs, m) (ps @ qs, cs @ hs, m')"
| remove_lock: "flowIPs (fmtIPv6 (env :: win_env)) a = Ok (local, remote) \<Longrightarrow>
    remove_locked (windowsFlowIdentity (flowProtocol a) local (flowLocalPort a) remote (flowRemotePort a)) m = (hs, m') \<Longrightarrow>
    lock_step (pend, cs, m) (pend, cs @ hs, m')"
| unprotect_lock: "flowEndpointID a \<noteq> 0 \<Longrightarrow> unprotect_locked (flowEndpointID a) m = (hs, m') \<Longrightarrow> lock_step (pend, cs, m) (pend, cs @ hs, m')"
| close_lock: "close_locked m = (hs, m') \<Longrightarrow> lock_step (pend, cs, m) (pend, cs @ hs, m')"
| handle_close: "lock_step (pend, cs @ h # ds, m) (pend, cs @ ds, closeHandle (Some h) m)"

section \<open>The operations are these steps without interruption\<close>

lemma close_list_simps [simp]:
  "close_list [] m = m" "close_list [h] m = closeHandle (Some h) m"
  by (simp_all add: close_list_def)

lemma close_list_eq: "close_list hs m = m\<lparr>wd := (wd m)\<lparr>live := live (wd m) - set hs\<rparr>\<rparr>"
  unfolding close_list_def by (rule close_all)

lemma commit_is_locked:
  "commit_locked f m = (hs, m') \<Longrightarrow> snd (commitFlow f m) = close_list hs m' \<and> wd m' = wd m"
  by (auto simp: commit_locked_def commitFlow_def split: option.splits)

lemma remove_is_locked:
  assumes "flowIPs (fmtIPv6 env) a = Ok (local, remote)"
    and "remove_locked (windowsFlowIdentity (flowProtocol a) local (flowLocalPort a) remote (flowRemotePort a)) m = (hs, m')"
  shows "removeFromEvent env a m = close_list hs m' \<and> wd m' = wd m"
  using assms by (auto simp: remove_locked_def removeFromEvent_def Let_def split: option.splits if_splits)

lemma dropPortFlows_wd: "wd (dropPortFlows port m) = wd m"
proof -
  have "wd (fold (\<lambda>(i, f) m. if udp_flow_on port f then m\<lparr>flows := AList.delete i (flows m),
      reverse := AList.delete (reverseKeyFromFlow (fl_key f)) (reverse m)\<rparr> else m) fs m') = wd m'" for fs m'
    by (induction fs arbitrary: m') (auto simp: case_prod_beta)
  then show ?thesis by (simp add: dropPortFlows_def)
qed

lemma unprotect_is_locked:
  assumes "flowEndpointID a \<noteq> 0" "unprotect_locked (flowEndpointID a) m = (hs, m')"
  shows "unprotectUDPSocket a m = close_list hs m' \<and> wd m' = wd m"
  using assms
  by (auto simp: unprotect_locked_def unprotectUDPSocket_def Let_def closeHandle_def wd_Close_def dropPortFlows_wd
      split: option.splits if_splits)

lemma close_is_locked:
  "close_locked m = (hs, m') \<Longrightarrow> closeManager m = close_list hs m' \<and> wd m' = wd m \<and> hs = own_of (flows m) @ map snd (udpHandles m)"
proof -
  have own: "map fl_handle (filter (\<lambda>f. \<not> shared f) (map snd fs)) = own_of fs" for fs
    by (induction fs) (auto simp: own_of_def)
  then show "close_locked m = (hs, m') \<Longrightarrow> closeManager m = close_list hs m' \<and> wd m' = wd m \<and> hs = own_of (flows m) @ map snd (udpHandles m)"
    by (auto simp: close_locked_def closeManager_eq close_list_eq Diff_eq Int_assoc)
qed

section \<open>The invariant at this grain\<close>

text \<open>The tables are as before; besides the handles owned, those on their way to be closed are open, each once.\<close>

fun lock_inv :: "handle set \<Rightarrow> lock_state \<Rightarrow> bool" where
  "lock_inv base (pend, cs, m) \<longleftrightarrow> fm_inv (base \<union> set cs) pend m \<and> distinct cs \<and> base \<inter> set cs = {}"

lemma locked_keeps:
  assumes "fm_inv base pend m" "fm_inv base pend' (close_list hs m')" "wd m' = wd m" "set hs \<subseteq> set (owned pend m)"
  shows "fm_inv (base \<union> set hs) pend' m' \<and> base \<inter> set hs = {}"
proof -
  have l: "ledger base (owned pend m) (wd m')" "ledger base (owned pend' m') ((wd m')\<lparr>live := live (wd m') - set hs\<rparr>)"
    using assms(1-3) by (simp_all add: fm_inv_def close_list_eq owned_def)
  then have "set hs \<subseteq> live (wd m')" using assms(4) by (auto simp: ledger_def)
  with l have "ledger (base \<union> set hs) (owned pend' m') (wd m')" "base \<inter> set hs = {}"
    by (auto simp: ledger_def)
  moreover have "tables_ok m'" "udp_ok m'" "pend_ok pend'"
    using assms(2) by (simp_all add: fm_inv_def close_list_eq tables_ok_def udp_ok_def)
  ultimately show ?thesis by (simp add: fm_inv_def)
qed

lemma lock_inv_locked:
  assumes "lock_inv base (pend, cs, m)" "fm_inv (base \<union> set cs) pend' (close_list hs m')" "wd m' = wd m"
    and "set hs \<subseteq> set (owned pend m)" "distinct hs"
  shows "lock_inv base (pend', cs @ hs, m')"
  using locked_keeps [of "base \<union> set cs" pend m pend' hs m'] assms by (auto simp: Un_assoc)

lemma lock_inv_handle_close:
  assumes "lock_inv base (pend, cs @ h # ds, m)"
  shows "lock_inv base (pend, cs @ ds, closeHandle (Some h) m)"
proof -
  have "ledger (base \<union> set (cs @ h # ds)) (owned pend m) (wd m)" "distinct (cs @ h # ds)" "h \<notin> base"
    using assms by (auto simp: fm_inv_def)
  then have "ledger (base \<union> set (cs @ ds)) (owned pend m) ((wd m)\<lparr>live := live (wd m) - {h}\<rparr>)"
    by (auto simp: ledger_def)
  with assms show ?thesis by (auto simp: fm_inv_def closeHandle_eq tables_ok_def udp_ok_def owned_def)
qed

lemma commit_hands:
  "commit_locked f m = (hs, m') \<Longrightarrow> set hs \<subseteq> set (owned (ps @ f # qs) m) \<and> distinct hs"
  by (auto simp: commit_locked_def owned_def split: option.splits)

lemma remove_hands:
  assumes "remove_locked i m = (hs, m')"
  shows "set hs \<subseteq> set (owned pend m) \<and> distinct hs"
proof (cases "map_of (flows m) i")
  case (Some f)
  then have "(i, f) \<in> set (filter (\<lambda>(i, f). \<not> shared f) (flows m))" if "\<not> shared f"
    using map_of_SomeD [OF Some] that by simp
  then have "fl_handle f \<in> set (own_of (flows m))" if "\<not> shared f"
    using that unfolding own_of_def set_map by (metis comp_apply image_eqI snd_conv)
  moreover have "hs = (if shared f then [] else [fl_handle f])"
    using assms Some by (simp add: remove_locked_def split: if_splits)
  ultimately show ?thesis by (simp add: owned_def)
qed (use assms in \<open>simp add: remove_locked_def\<close>)

lemma unprotect_hands:
  "unprotect_locked e m = (hs, m') \<Longrightarrow> set hs \<subseteq> set (owned pend m) \<and> distinct hs"
  by (auto simp: unprotect_locked_def owned_def Let_def split: option.splits if_splits dest!: map_of_SomeD) force

lemma lock_inv_step:
  assumes "lock_step s t" "lock_inv base s"
  shows "lock_inv base t"
  using assms(1)
proof cases
  case (whole pend m pend' m' cs)
  with assms(2) inv_step show ?thesis by auto
next
  case (commit_lock f m hs m' ps qs cs)
  have "fm_inv (base \<union> set cs) (ps @ qs) (snd (commitFlow f m))" using assms(2) commit_lock(1) inv_commit by auto
  with commit_lock assms(2) commit_is_locked [OF commit_lock(3)] commit_hands [OF commit_lock(3), of ps qs] show ?thesis
    by (metis lock_inv_locked)
next
  case (remove_lock env a local remote m hs m' pend cs)
  have "fm_inv (base \<union> set cs) pend (removeFromEvent env a m)" using assms(2) remove_lock(1) inv_remove by auto
  with remove_lock assms(2) remove_is_locked [OF remove_lock(3,4)] remove_hands [OF remove_lock(4), of pend] show ?thesis
    by (metis lock_inv_locked)
next
  case (unprotect_lock a m hs m' pend cs)
  have "fm_inv (base \<union> set cs) pend (unprotectUDPSocket a m)" using assms(2) unprotect_lock(1) inv_unprotect by auto
  with unprotect_lock assms(2) unprotect_is_locked [OF unprotect_lock(3,4)] unprotect_hands [OF unprotect_lock(4), of pend]
  show ?thesis by (metis lock_inv_locked)
next
  case (close_lock m hs m' pend cs)
  have i: "fm_inv (base \<union> set cs) pend m" using assms(2) close_lock(1) by simp
  note c = close_is_locked [OF close_lock(3)]
  have "set hs \<subseteq> set (owned pend m)" "distinct hs" using c i by (auto simp: owned_def fm_inv_def ledger_def)
  with close_lock assms(2) c inv_close [OF i] show ?thesis by (metis lock_inv_locked)
next
  case (handle_close pend cs h ds m)
  with assms(2) lock_inv_handle_close show ?thesis by simp
qed

interpretation locks: transition_system
  "\<lambda>s. \<exists>port hs. s = ([], [], newWindowsFlowManager port hs) \<and> live hs = base \<and> (\<forall>h \<in> live hs. h < next_handle hs)"
  lock_step "lock_inv base" for base
proof
  show "lock_inv base s" if "\<exists>port hs. s = ([], [], newWindowsFlowManager port hs) \<and> live hs = base
      \<and> (\<forall>h \<in> live hs. h < next_handle hs)" for s
    using that inv_start by auto
  show "lock_inv base t" if "lock_inv base s" "lock_step s t" for s t
    using that(2,1) by (rule lock_inv_step)
qed

text \<open>
  From a new manager, whatever the interleaving of locked sections, closes and the other operations: the reverse table agrees with the flow table,
  the handles of the flows that own one, of the ports, of the flows not committed and those still to be closed are pairwise different,
  and together with the handles open before the manager was created they are exactly the open ones.  So no handle is closed while a
  table still refers to it, and none is closed twice.
\<close>

theorem lock_grain_invariant:
  assumes "lock_step\<^sup>*\<^sup>* ([], [], newWindowsFlowManager port hs) (pend, cs, m)" "\<forall>h \<in> live hs. h < next_handle hs"
  shows "flows_agree (map_of (flows m)) (map_of (reverse m)) \<and> udp_ok m
    \<and> distinct (cs @ owned pend m) \<and> live hs \<inter> set (cs @ owned pend m) = {}
    \<and> live (wd m) = live hs \<union> set (cs @ owned pend m)"
proof -
  have "lock_inv (live hs) (pend, cs, m)" using locks.reach_inv [OF _ assms(1)] assms(2) by blast
  then show ?thesis by (auto simp: fm_inv_def tables_ok_def ledger_def)
qed

text \<open>A run in which the flow's handle is taken out of the table, another goroutine runs, and then the handle is closed.\<close>

lemma lock_grain_sample:
  "\<exists>cs m. lock_step\<^sup>*\<^sup>* ([], [], sample_tcp) ([], cs, m) \<and> flows m = [] \<and> 4 \<in> set cs \<and> 4 \<in> live (wd m)
    \<and> bootstrapActive m"
proof -
  let ?m = "(snd (close_locked sample_tcp))\<lparr>bootstrapActive := True\<rparr>"
  have "lock_step ([], [], sample_tcp) ([], [] @ fst (close_locked sample_tcp), snd (close_locked sample_tcp))"
    by (rule lock_step.close_lock) simp
  moreover have "lock_step ([], fst (close_locked sample_tcp), snd (close_locked sample_tcp)) ([], fst (close_locked sample_tcp), ?m)"
    by (rule lock_step.whole) (rule fm_step.activate)
  moreover have "4 \<in> set (fst (close_locked sample_tcp))" "4 \<in> live (wd sample_tcp)" by code_simp+
  ultimately show ?thesis
    by (intro exI [of _ "fst (close_locked sample_tcp)"] exI [of _ ?m])
      (auto simp: close_locked_def intro: converse_rtranclp_into_rtranclp)
qed

end
