(* ===== verification/Provider.thy ===== *)
theory Provider
  imports Protocol Go_Net Go_Hash
begin

text \<open>
  Who the client trusts and who it is: the provider bootstrap of \<^verbatim>\<open>provider.go\<close> (the pinned provider CA
  and the verification of a gateway's certificate), and the API client, the client identity and its
  storage of \<^verbatim>\<open>main.go\<close> and \<^verbatim>\<open>tlsprobe.go\<close>.

  The network, the clock, \<^verbatim>\<open>encoding/json\<close>, \<^verbatim>\<open>encoding/pem\<close>, \<^verbatim>\<open>crypto/x509\<close> and \<^verbatim>\<open>tls.X509KeyPair\<close> are
  fields of \<open>web_env\<close>: the program only hands their results on.  Times and durations are nanoseconds.
\<close>

section \<open>Certificates and the world\<close>

record Certificate =
  cRaw :: bytes
  IsCA :: bool
  NotBefore :: int
  NotAfter :: int
  CommonName :: string

record pem_block =
  bType :: string
  bHeaders :: "(string \<times> string) list"
  bBytes :: bytes

record http_request =
  rqURL :: string
  rqHeader :: "(string \<times> string) list"

text \<open>
  A response body delivers \<open>Body\<close> and then ends, with \<open>BodyErr\<close> if that is not a plain end of file.
  \<open>ErrWithData\<close>: the call that hands out the last bytes also returns the error.
\<close>

record http_response =
  StatusCode :: int
  Status :: string
  Body :: bytes
  BodyErr :: "go_error option"
  ErrWithData :: bool

record ProviderInfo =
  APIVersion :: string
  CACertFingerprint :: string
  CACertURI :: string
  Domain :: string

record ProviderTrust =
  Info :: ProviderInfo
  CA :: Certificate
  Fingerprint :: bytes
  RawPEM :: bytes

text \<open>A \<^verbatim>\<open>tls.Certificate\<close> is the PEM text of its chain and of its key.\<close>

record Identity =
  idRaw :: bytes
  Leaf :: Certificate
  idPair :: "bytes \<times> bytes"

record web_env =
  web_now :: int
  NewRequest :: "string \<Rightarrow> go_error option"
  http_Do :: "http_request \<Rightarrow> http_response result"
  json_Provider :: "bytes \<Rightarrow> ProviderInfo result"
  json_Service :: "bytes \<Rightarrow> Service result"
  pem_Decode :: "bytes \<Rightarrow> (pem_block \<times> bytes) option"
  pem_Encode :: "pem_block \<Rightarrow> bytes"
  ParseCertificate :: "bytes \<Rightarrow> Certificate result"
  X509KeyPair :: "bytes \<Rightarrow> bytes \<Rightarrow> go_error option"

text \<open>\<^verbatim>\<open>io.ReadAll(io.LimitReader(resp.Body, n))\<close>: once \<open>n\<close> bytes are read the body is not asked again.\<close>

definition ReadAll_limited :: "http_response \<Rightarrow> nat \<Rightarrow> bytes result" where
  "ReadAll_limited resp n =
     (if length (Body resp) < n \<or> length (Body resp) = n \<and> ErrWithData resp then
        (case BodyErr resp of Some e \<Rightarrow> Error e | None \<Rightarrow> Ok (Body resp))
      else Ok (take n (Body resp)))"

definition http_ok :: "http_response \<Rightarrow> bool" where
  "http_ok resp \<longleftrightarrow> \<not> (StatusCode resp < 200 \<or> StatusCode resp \<ge> 300)"

section \<open>Fetching\<close>

definition fetchURL :: "web_env \<Rightarrow> string \<Rightarrow> string \<Rightarrow> nat \<Rightarrow> bytes result" where
  "fetchURL env url accept limit =
     (case NewRequest env url of Some e \<Rightarrow> Error e | None \<Rightarrow>
      let req = \<lparr>rqURL = url, rqHeader = (if accept \<noteq> '''' then [(''Accept'', accept)] else [])
                   @ [(''User-Agent'', ''DisFree/0.4 pure-go'')]\<rparr> in
      then_do (http_Do env req) (\<lambda>resp.
      if \<not> http_ok resp then Error (Errorf ''GET %s returned %s'' [ArgS url, ArgS (Status resp)])
      else
        then_do (ReadAll_limited resp (limit + 1)) (\<lambda>b.
        if length b > limit then Error (Errorf ''GET %s exceeded %d bytes'' [ArgS url, ArgN limit])
        else Ok b)))"

definition API_get :: "web_env \<Rightarrow> string \<Rightarrow> string \<Rightarrow> bytes result" where
  "API_get env path accept =
     (let url = ''https://api.black.riseup.net'' @ path in
      case NewRequest env url of Some e \<Rightarrow> Error e | None \<Rightarrow>
      then_do (http_Do env \<lparr>rqURL = url, rqHeader = [(''Accept'', accept), (''User-Agent'', ''DisFree/0.1 pure-go'')]\<rparr>) (\<lambda>resp.
      if \<not> http_ok resp then Error (Errorf ''Riseup API returned %s'' [ArgS (Status resp)])
      else ReadAll_limited resp (4 * 1024 * 1024)))"

definition API_service :: "web_env \<Rightarrow> Service result" where
  "API_service env =
     then_do (API_get env ''/3/config/eip-service.json'' ''application/json'') (\<lambda>b.
     then_do (json_Service env b) (\<lambda>s.
     if length (Gateways s) = 0 then Error (ErrorsNew ''Riseup returned zero gateways'') else Ok s))"

section \<open>The pinned provider CA\<close>

fun hex_DecodeString :: "string \<Rightarrow> bytes result" where
  "hex_DecodeString [] = Ok []"
| "hex_DecodeString [a] =
     (if hex_val a = None then Error (Errorf ''encoding/hex: invalid byte: %#U'' [ArgS [a]])
      else Error (ErrorsNew ''encoding/hex: odd length hex string''))"
| "hex_DecodeString (a # b # s) =
     (case hex_val a of None \<Rightarrow> Error (Errorf ''encoding/hex: invalid byte: %#U'' [ArgS [a]])
      | Some x \<Rightarrow> (case hex_val b of None \<Rightarrow> Error (Errorf ''encoding/hex: invalid byte: %#U'' [ArgS [b]])
      | Some y \<Rightarrow> then_do (hex_DecodeString s) (\<lambda>bs. Ok (of_nat (16 * x + y) # bs))))"

definition fp_separator :: "char \<Rightarrow> bool" where
  "fp_separator c \<longleftrightarrow> c \<in> {CHR '':'', CHR '' '', CHR 0x09, CHR 0x0A, CHR 0x0D}"

definition fp_digits :: "string \<Rightarrow> string result" where
  "fp_digits s =
     (let s = ToLower (filter (\<lambda>c. \<not> fp_separator c) s) in
      if length s \<noteq> 32 * 2 then Error (Errorf ''invalid SHA-256 fingerprint length %d'' [ArgN (length s)])
      else match_err (hex_DecodeString s) (\<lambda>e. Error (Wrapf ''invalid SHA-256 fingerprint: %w'' e)) (\<lambda>_. Ok s))"

definition normalizeSHA256Fingerprint :: "string \<Rightarrow> string result" where
  "normalizeSHA256Fingerprint s =
     (let s = TrimSpace s in
      case IndexByte s (CHR '':'') of
        Some i \<Rightarrow>
          (let alg = TrimSpace (take i s) in
           if \<not> EqualFold alg ''SHA256'' \<and> \<not> EqualFold alg ''SHA-256'' then
             Error (Errorf ''unsupported CA fingerprint algorithm %q'' [ArgS alg])
           else fp_digits (drop (i + 1) s))
      | None \<Rightarrow> fp_digits s)"

definition check_ca :: "web_env \<Rightarrow> ProviderInfo \<Rightarrow> string \<Rightarrow> bytes \<Rightarrow> ProviderTrust result" where
  "check_ca env info wantHex rawCA =
     (case pem_Decode env rawCA of
        None \<Rightarrow> Error (ErrorsNew ''provider CA endpoint did not return a PEM certificate'')
      | Some (block, _) \<Rightarrow>
          (if bType block \<noteq> ''CERTIFICATE'' then
             Error (ErrorsNew ''provider CA endpoint did not return a PEM certificate'')
           else
             then_do (on_error (ParseCertificate env (bBytes block)) (Wrapf ''parse provider CA: %w'')) (\<lambda>ca.
             if \<not> IsCA ca then Error (ErrorsNew ''provider certificate is not a CA'')
             else if web_now env < NotBefore ca \<or> NotAfter ca < web_now env then
               Error (Errorf ''provider CA is outside validity window: %s -> %s'' [ArgI (NotBefore ca), ArgI (NotAfter ca)])
             else
               let got = sha256_Sum256 (cRaw ca); gotHex = hex_bytes got in
               if \<not> EqualFold gotHex wantHex then
                 Error (Errorf ''provider CA fingerprint mismatch: provider.json=%s downloaded=%s'' [ArgS wantHex, ArgS gotHex])
               else Ok \<lparr>Info = info, CA = ca, Fingerprint = got, RawPEM = rawCA\<rparr>)))"

definition loadProviderTrust :: "web_env \<Rightarrow> ProviderTrust result" where
  "loadProviderTrust env =
     then_do (on_error (fetchURL env ''https://riseup.net/provider.json'' ''application/json'' (256 * 1024))
       (Wrapf ''provider bootstrap: %w'')) (\<lambda>rawProvider.
     then_do (on_error (json_Provider env rawProvider) (Wrapf ''provider.json: %w'')) (\<lambda>info.
     if \<not> EqualFold (Domain info) ''riseup.net'' then
       Error (Errorf ''unexpected provider domain %q'' [ArgS (Domain info)])
     else if CACertURI info = '''' \<or> CACertFingerprint info = '''' then
       Error (ErrorsNew ''provider did not publish CA URI/fingerprint'')
     else if \<not> HasPrefix (ToLower (CACertURI info)) ''https://'' then
       Error (ErrorsNew ''provider CA URI is not HTTPS'')
     else
       then_do (normalizeSHA256Fingerprint (CACertFingerprint info)) (\<lambda>wantHex.
       then_do (on_error (fetchURL env (CACertURI info) ''application/x-pem-file,text/plain'' (256 * 1024))
         (Wrapf ''fetch provider CA: %w'')) (\<lambda>rawCA.
       check_ca env info wantHex rawCA))))"

section \<open>The gateway's certificate\<close>

text \<open>
  \<open>VerifyOptions\<close> is the options struct of \<^verbatim>\<open>leaf.Verify\<close> with the fields the source sets.  \<open>x509_env\<close> gives the clock,
  \<^verbatim>\<open>leaf.Verify\<close> and \<^verbatim>\<open>leaf.VerifyHostname\<close>, and two relations its documentation speaks of: a certificate is signed
  by another, and a chain permits an extended key usage.
\<close>

type_synonym ExtKeyUsage = int

definition ExtKeyUsageServerAuth :: ExtKeyUsage where
  "ExtKeyUsageServerAuth = 1"

record VerifyOptions =
  Roots :: "Certificate list"
  Intermediates :: "Certificate list"
  CurrentTime :: int
  KeyUsages :: "ExtKeyUsage list"

record x509_env =
  x_now :: int
  x_Verify :: "Certificate \<Rightarrow> VerifyOptions \<Rightarrow> go_error + Certificate list list"
  x_VerifyHostname :: "Certificate \<Rightarrow> string \<Rightarrow> go_error option"
  x_signedBy :: "Certificate \<Rightarrow> Certificate \<Rightarrow> bool"
  x_permits :: "Certificate list \<Rightarrow> ExtKeyUsage \<Rightarrow> bool"

definition expectedCN :: "Endpoint \<Rightarrow> string" where
  "expectedCN ep = hd (Split_char (Host ep) (CHR ''.''))"

definition VerifyConnection :: "x509_env \<Rightarrow> ProviderTrust \<Rightarrow> Endpoint \<Rightarrow> Certificate list \<Rightarrow> go_error option" where
  "VerifyConnection x p ep peerCerts =
     (case peerCerts of
        [] \<Rightarrow> Some (ErrorsNew ''gateway returned no certificate'')
      | leaf # others \<Rightarrow>
          (let inter = filter (\<lambda>cert. cRaw cert \<noteq> cRaw (CA p)) others in
           case x_Verify x leaf \<lparr>Roots = [CA p], Intermediates = inter, CurrentTime = x_now x,
                  KeyUsages = [ExtKeyUsageServerAuth]\<rparr> of
             Inl e \<Rightarrow> Some (Wrapf ''gateway certificate chain: %w'' e)
           | Inr chainList \<Rightarrow>
               (if length chainList = 0 then Some (ErrorsNew ''gateway certificate produced no trusted chain'')
                else if CommonName leaf \<noteq> expectedCN ep \<and> x_VerifyHostname x leaf (Host ep) \<noteq> None then
                  Some (Errorf ''gateway identity mismatch: host=%s cn=%q'' [ArgS (Host ep), ArgS (CommonName leaf)])
                else None)))"

text \<open>What \<^verbatim>\<open>tlsConfigForGateway\<close> fixes besides: the client certificate and the only TLS version (1.2).\<close>

record tls_config =
  Certificates :: "(bytes \<times> bytes) list"
  MinVersion :: u16
  MaxVersion :: u16
  InsecureSkipVerify :: bool
  Verify_fn :: "Certificate list \<Rightarrow> go_error option"

definition tlsConfigForGateway :: "x509_env \<Rightarrow> ProviderTrust \<Rightarrow> Endpoint \<Rightarrow> Identity \<Rightarrow> tls_config" where
  "tlsConfigForGateway x p ep identity =
     \<lparr>Certificates = [idPair identity], MinVersion = 0x0303, MaxVersion = 0x0303, InsecureSkipVerify = True,
      Verify_fn = VerifyConnection x p ep\<rparr>"

section \<open>The client identity\<close>

definition key_types :: "string list" where
  "key_types = [''RSA PRIVATE KEY'', ''EC PRIVATE KEY'', ''PRIVATE KEY'']"

text \<open>
  The loop over the PEM blocks: the certificates and keys written so far and the first certificate.
  Whether it ends depends on \<^verbatim>\<open>pem.Decode\<close>; not ending is \<open>None\<close>.
\<close>

partial_function (option) identity_loop ::
  "web_env \<Rightarrow> bytes \<Rightarrow> bytes \<Rightarrow> bytes \<Rightarrow> Certificate option
    \<Rightarrow> (bytes \<times> bytes \<times> Certificate option) result option" where
  "identity_loop env rest certPEM keyPEM leaf =
     (case pem_Decode env rest of
        None \<Rightarrow> Some (Ok (certPEM, keyPEM, leaf))
      | Some (block, next) \<Rightarrow>
          (if bType block = ''CERTIFICATE'' then
             (let certPEM = certPEM @ pem_Encode env block in
              if leaf = None then
                (case ParseCertificate env (bBytes block) of
                   Ok c \<Rightarrow> identity_loop env next certPEM keyPEM (Some c)
                 | Error e \<Rightarrow> Some (Error e)
                 | Panicked p \<Rightarrow> Some (Panicked p))
              else identity_loop env next certPEM keyPEM leaf)
           else if bType block \<in> set key_types then
             identity_loop env next certPEM (keyPEM @ pem_Encode env block) leaf
           else identity_loop env next certPEM keyPEM leaf))"

definition finish_identity :: "web_env \<Rightarrow> bytes \<Rightarrow> bytes \<times> bytes \<times> Certificate option \<Rightarrow> Identity result" where
  "finish_identity env raw =
     (\<lambda>(certPEM, keyPEM, leaf).
        case leaf of
          None \<Rightarrow> Error (ErrorsNew ''identity has no certificate'')
        | Some l \<Rightarrow>
            (if length keyPEM = 0 then Error (ErrorsNew ''identity has no private key'')
             else case X509KeyPair env certPEM keyPEM of
               Some e \<Rightarrow> Error (Wrapf ''certificate/key validation failed: %w'' e)
             | None \<Rightarrow> Ok \<lparr>idRaw = raw, Leaf = l, idPair = (certPEM, keyPEM)\<rparr>))"

definition parseIdentity :: "web_env \<Rightarrow> bytes \<Rightarrow> Identity result option" where
  "parseIdentity env raw =
     map_option (\<lambda>r. then_do r (finish_identity env raw)) (identity_loop env raw [] [] None)"

definition API_identity :: "web_env \<Rightarrow> Identity result option" where
  "API_identity env =
     (case API_get env ''/3/cert'' ''text/html'' of
        Ok b \<Rightarrow> parseIdentity env b
      | Error e \<Rightarrow> Some (Error e)
      | Panicked p \<Rightarrow> Some (Panicked p))"

section \<open>Storing it\<close>

text \<open>
  A file is its contents and its permission bits.  \<open>os_env\<close> gives the outcome of every call of
  \<^verbatim>\<open>saveIdentity\<close>: \<open>tempName\<close> is the name \<^verbatim>\<open>os.CreateTemp\<close> picks (it opens the file exclusively, so a
  taken name is never used), and a failing write leaves \<open>shortWrite\<close> bytes behind.
  The result lists the file systems after each call, in order, with the error.  \<^verbatim>\<open>os.Rename\<close> replaces the file in one
  step, as POSIX \<^verbatim>\<open>rename\<close> does; Go does not promise this where the program runs on Windows.
\<close>

type_synonym filesys = "string \<rightharpoonup> bytes \<times> nat"

record os_env =
  os_readErr :: "go_error option"
  os_Dir :: "string \<Rightarrow> string"
  mkdirErr :: "go_error option"
  tempName :: "string \<Rightarrow> string + go_error"
  tmpChmodErr :: "go_error option"
  tmpWriteErr :: "go_error option"
  shortWrite :: nat
  tmpSyncErr :: "go_error option"
  tmpCloseErr :: "go_error option"
  osRenameErr :: "go_error option"
  osChmodErr :: "go_error option"
  osRemoveErr :: "go_error option"

definition os_Remove :: "os_env \<Rightarrow> string \<Rightarrow> filesys \<Rightarrow> filesys" where
  "os_Remove os name fs = (if osRemoveErr os = None then fs(name := None) else fs)"

definition os_Chmod :: "string \<Rightarrow> nat \<Rightarrow> filesys \<Rightarrow> filesys" where
  "os_Chmod name mode fs = (case fs name of None \<Rightarrow> fs | Some (c, _) \<Rightarrow> fs(name \<mapsto> (c, mode)))"

definition saveIdentity :: "os_env \<Rightarrow> filesys \<Rightarrow> Identity \<Rightarrow> string \<Rightarrow> filesys list \<times> go_error option" where
  "saveIdentity os fs idt path =
     (case mkdirErr os of Some e \<Rightarrow> ([fs], Some e) | None \<Rightarrow>
      case tempName os (os_Dir os path) of
        Inr e \<Rightarrow> ([fs], Some e)
      | Inl name \<Rightarrow>
      let f1 = fs(name \<mapsto> ([], 384)) in
      case tmpChmodErr os of Some e \<Rightarrow> ([fs, f1, os_Remove os name f1], Some e) | None \<Rightarrow>
      let f2 = os_Chmod name 384 f1 in
      case tmpWriteErr os of
        Some e \<Rightarrow>
          (let f3 = f2(name \<mapsto> (take (shortWrite os) (idRaw idt), 384)) in
           ([fs, f1, f2, f3, os_Remove os name f3], Some e))
      | None \<Rightarrow>
      let f3 = f2(name \<mapsto> (idRaw idt, 384)) in
      case tmpSyncErr os of Some e \<Rightarrow> ([fs, f1, f2, f3, os_Remove os name f3], Some e) | None \<Rightarrow>
      case tmpCloseErr os of Some e \<Rightarrow> ([fs, f1, f2, f3, os_Remove os name f3], Some e) | None \<Rightarrow>
      case osRenameErr os of Some e \<Rightarrow> ([fs, f1, f2, f3, os_Remove os name f3], Some e) | None \<Rightarrow>
      let f4 = f3(name := None, path := f3 name) in
      case osChmodErr os of Some e \<Rightarrow> ([fs, f1, f2, f3, f4, os_Remove os name f4], Some e) | None \<Rightarrow>
      let f5 = os_Chmod path 384 f4 in
      ([fs, f1, f2, f3, f4, f5, os_Remove os name f5], None))"

definition still_valid :: "web_env \<Rightarrow> Identity \<Rightarrow> bool" where
  "still_valid env idt \<longleftrightarrow> web_now env < NotAfter (Leaf idt) - 24 * 3600 * 1000000000"

text \<open>\<open>None\<close> when parsing does not end.\<close>

definition fetch_and_save ::
  "web_env \<Rightarrow> os_env \<Rightarrow> filesys \<Rightarrow> string \<Rightarrow> (Identity result \<times> filesys list) option" where
  "fetch_and_save env os fs path =
     (case API_identity env of
        None \<Rightarrow> None
      | Some (Ok idt) \<Rightarrow>
          (case saveIdentity os fs idt path of
             (trace, Some e) \<Rightarrow> Some (Error e, trace)
           | (trace, None) \<Rightarrow> Some (Ok idt, trace))
      | Some (Error e) \<Rightarrow> Some (Error e, [fs])
      | Some (Panicked p) \<Rightarrow> Some (Panicked p, [fs]))"

definition loadOrFetchIdentity ::
  "web_env \<Rightarrow> os_env \<Rightarrow> filesys \<Rightarrow> string \<Rightarrow> (Identity result \<times> filesys list) option" where
  "loadOrFetchIdentity env os fs path =
     (case (if os_readErr os = None then fs path else None) of
        Some (raw, _) \<Rightarrow>
          (case parseIdentity env raw of
             None \<Rightarrow> None
           | Some (Ok idt) \<Rightarrow>
               (if still_valid env idt then Some (Ok idt, [fs]) else fetch_and_save env os fs path)
           | Some (Error _) \<Rightarrow> fetch_and_save env os fs path
           | Some (Panicked p) \<Rightarrow> Some (Panicked p, [fs]))
      | None \<Rightarrow> fetch_and_save env os fs path)"

section \<open>Fingerprints\<close>

definition hex_alphabet :: string where
  "hex_alphabet = ''0123456789abcdef''"

lemma hex_alphabet_check:
  "list_all (\<lambda>n. hex_val (hex_alphabet ! n) = Some n \<and> lower_char (hex_alphabet ! n) = hex_alphabet ! n
     \<and> (of_char (hex_alphabet ! n) :: nat) < 128
     \<and> hex_alphabet ! n = char_of (if n < 10 then 48 + n else 87 + n)) [0 ..< 16]"
  by code_simp

lemma hex_alphabet_nth:
  assumes "n < 16"
  shows "hex_val (hex_alphabet ! n) = Some n" "lower_char (hex_alphabet ! n) = hex_alphabet ! n"
    "(of_char (hex_alphabet ! n) :: nat) < 128"
  and hex_alphabet_code: "hex_alphabet ! n = char_of (if n < 10 then 48 + n else 87 + n)"
proof -
  have "n \<in> set [0 ..< 16]" using assms by simp
  note this [THEN hex_alphabet_check [unfolded list_all_iff, THEN bspec]]
  then show "hex_val (hex_alphabet ! n) = Some n" "lower_char (hex_alphabet ! n) = hex_alphabet ! n"
    "(of_char (hex_alphabet ! n) :: nat) < 128"
    "hex_alphabet ! n = char_of (if n < 10 then 48 + n else 87 + n)"
    by blast+
qed

lemma nibbles: "unat (b :: byte) div 16 < 16" "unat b mod 16 < 16"
  using unat_byte [of b] by (simp_all add: less_mult_imp_div_less)

lemma hex_bytes_simps [simp]:
  "hex_bytes [] = []"
  "hex_bytes (b # bs) = hex_alphabet ! (unat b div 16) # hex_alphabet ! (unat b mod 16) # hex_bytes bs"
  by (simp_all add: hex_bytes_def hex_alphabet_def)

lemma length_hex_bytes [simp]: "length (hex_bytes bs) = 2 * length bs"
  by (induction bs) auto

lemma hex_decode_hex_bytes [simp]: "hex_DecodeString (hex_bytes bs) = Ok bs"
proof (induction bs)
  case (Cons b bs)
  have "16 * (unat b div 16) + unat b mod 16 = unat b" by simp
  then have "(of_nat (16 * (unat b div 16) + unat b mod 16) :: byte) = b" by (simp only: of_nat_unat ucast_id)
  with Cons nibbles [of b] show ?case by (simp add: hex_alphabet_nth(1-3))
qed simp

lemma hex_bytes_inject: "hex_bytes a = hex_bytes b \<longleftrightarrow> a = b"
  by (metis hex_decode_hex_bytes result.inject(1))

lemma hex_bytes_chars: "c \<in> set (hex_bytes bs) \<Longrightarrow> \<exists>n<16. c = hex_alphabet ! n"
  by (induction bs) (auto intro: nibbles)

lemma fold_case_ascii: "(\<And>c. c \<in> set s \<Longrightarrow> (of_char c :: nat) < 128) \<Longrightarrow> fold_case s = map lower_char s"
proof (induction s rule: fold_case.induct)
  case (1 a b c cs)
  have "(of_char a :: nat) < 128" using "1.prems" by simp
  then have "a \<noteq> CHR 0xC5" "a \<noteq> CHR 0xE2" by auto
  with 1 show ?case by simp
next
  case (2 a b)
  have "(of_char a :: nat) < 128" using "2.prems" by simp
  then have "a \<noteq> CHR 0xC5" by auto
  then show ?case by simp
qed simp_all

lemma fold_case_hex [simp]: "fold_case (hex_bytes bs) = hex_bytes bs"
proof -
  have "fold_case (hex_bytes bs) = map lower_char (hex_bytes bs)"
    by (rule fold_case_ascii) (auto dest!: hex_bytes_chars simp: hex_alphabet_nth(1-3))
  also have "\<dots> = hex_bytes bs"
    by (rule map_idI) (auto dest!: hex_bytes_chars simp: hex_alphabet_nth(1-3))
  finally show ?thesis .
qed

text \<open>A lower-case string that decodes is the encoding of what it decodes to.\<close>

lemma hex_val_lower: "hex_val c = Some n \<Longrightarrow> lower_char c = hex_alphabet ! n \<and> n < 16"
proof -
  assume *: "hex_val c = Some n"
  then have "n < 16" by (auto simp: hex_val_def Let_def split: if_splits)
  moreover have "lower_char c = char_of (if n < 10 then 48 + n else 87 + n)"
    using * by (auto simp: hex_val_def lower_char_def Let_def split: if_splits)
  ultimately show ?thesis by (simp add: hex_alphabet_code)
qed

lemma hex_decode_lower: "hex_DecodeString s = Ok bs \<Longrightarrow> ToLower s = hex_bytes bs"
proof (induction s arbitrary: bs rule: hex_DecodeString.induct)
  case (3 a b s)
  then obtain x y cs where "hex_val a = Some x" "hex_val b = Some y" "hex_DecodeString s = Ok cs"
    "bs = of_nat (16 * x + y) # cs"
    by (auto simp: then_do_Ok_iff split: option.splits)
  moreover from this have "x < 16" "y < 16" by (auto dest: hex_val_lower)
  moreover from this have "unat (of_nat (16 * x + y) :: byte) = 16 * x + y" by (subst unat_of_nat) simp
  ultimately show ?case using "3.IH" by (simp add: ToLower_def hex_val_lower)
qed (auto simp: ToLower_def split: if_splits)


lemma lower_char_idem [simp]: "lower_char (lower_char c) = lower_char c"
proof (cases "65 \<le> (of_char c :: nat) \<and> (of_char c :: nat) \<le> 90")
  case True
  then have "lower_char c = char_of ((of_char c :: nat) + 32)" by (simp add: lower_char_def)
  moreover from this True have "(of_char (lower_char c) :: nat) = of_char c + 32" by (simp add: of_char_of)
  ultimately show ?thesis using True by (subst lower_char_def) simp
qed (auto simp: lower_char_def)

lemma fp_digits_hex: "fp_digits s = Ok t \<Longrightarrow> \<exists>fp. length fp = 32 \<and> t = hex_bytes fp"
proof -
  assume *: "fp_digits s = Ok t"
  define u where "u = ToLower (filter (\<lambda>c. \<not> fp_separator c) s)"
  from * obtain fp where "hex_DecodeString u = Ok fp" "t = u" "length u = 64"
    unfolding fp_digits_def Let_def u_def [symmetric]
    by (cases "hex_DecodeString u") (simp_all split: if_splits)
  moreover have "ToLower u = u" by (simp add: u_def ToLower_def)
  ultimately have "u = hex_bytes fp" by (metis hex_decode_lower)
  then show ?thesis using \<open>t = u\<close> \<open>length u = 64\<close> by auto
qed

lemma normalize_hex: "normalizeSHA256Fingerprint s = Ok t \<Longrightarrow> \<exists>fp. length fp = 32 \<and> t = hex_bytes fp"
  by (auto simp: normalizeSHA256Fingerprint_def Let_def split: option.splits if_splits dest: fp_digits_hex)

lemma TrimSpace_Nil [simp]: "TrimSpace [] = []"
  by (simp add: TrimSpace_def TrimLeftSpace.simps TrimRightSpace.simps)

lemma normalize_Nil: "normalizeSHA256Fingerprint [] \<noteq> Ok t"
  by (simp add: normalizeSHA256Fingerprint_def fp_digits_def ToLower_def)

section \<open>What is trusted\<close>

lemma check_ca_Ok_iff:
  assumes "length fp = 32"
  shows "check_ca env info (hex_bytes fp) rawCA = Ok t \<longleftrightarrow>
    (\<exists>block rest. pem_Decode env rawCA = Some (block, rest) \<and> bType block = ''CERTIFICATE''
      \<and> ParseCertificate env (bBytes block) = Ok (CA t))
    \<and> IsCA (CA t) \<and> NotBefore (CA t) \<le> web_now env \<and> web_now env \<le> NotAfter (CA t)
    \<and> fp = sha256_Sum256 (cRaw (CA t)) \<and> Fingerprint t = fp \<and> Info t = info \<and> RawPEM t = rawCA"
  (is "?L \<longleftrightarrow> ?R")
proof -
  have t: "t = \<lparr>Info = i, CA = c, Fingerprint = f, RawPEM = r\<rparr> \<longleftrightarrow>
      Info t = i \<and> CA t = c \<and> Fingerprint t = f \<and> RawPEM t = r" for i c f r
    by (cases t) auto
  show ?thesis
    by (cases "pem_Decode env rawCA")
      (auto simp: check_ca_def Let_def EqualFold_def hex_bytes_inject then_do_Ok_iff t
        split: if_splits)
qed

lemma loadProviderTrust_parts:
  assumes "loadProviderTrust env = Ok t"
  obtains raw block rest where
    "fetchURL env ''https://riseup.net/provider.json'' ''application/json'' (256 * 1024) = Ok raw"
    "json_Provider env raw = Ok (Info t)" "EqualFold (Domain (Info t)) ''riseup.net''"
    "HasPrefix (ToLower (CACertURI (Info t))) ''https://''"
    "fetchURL env (CACertURI (Info t)) ''application/x-pem-file,text/plain'' (256 * 1024) = Ok (RawPEM t)"
    "pem_Decode env (RawPEM t) = Some (block, rest)" "bType block = ''CERTIFICATE''"
    "ParseCertificate env (bBytes block) = Ok (CA t)"
    "IsCA (CA t)" "NotBefore (CA t) \<le> web_now env" "web_now env \<le> NotAfter (CA t)"
    "Fingerprint t = sha256_Sum256 (cRaw (CA t))"
    "normalizeSHA256Fingerprint (CACertFingerprint (Info t)) = Ok (hex_bytes (Fingerprint t))"
proof -
  from assms obtain raw info wantHex rawCA where w:
    "fetchURL env ''https://riseup.net/provider.json'' ''application/json'' (256 * 1024) = Ok raw"
    "json_Provider env raw = Ok info" "EqualFold (Domain info) ''riseup.net''"
    "HasPrefix (ToLower (CACertURI info)) ''https://''"
    "normalizeSHA256Fingerprint (CACertFingerprint info) = Ok wantHex"
    "fetchURL env (CACertURI info) ''application/x-pem-file,text/plain'' (256 * 1024) = Ok rawCA"
    "check_ca env info wantHex rawCA = Ok t"
    by (auto simp: loadProviderTrust_def then_do_Ok_iff split: if_splits)
  then obtain fp where "length fp = 32" "wantHex = hex_bytes fp" using normalize_hex by blast
  with w show ?thesis by (auto simp: check_ca_Ok_iff intro: that)
qed

text \<open>
  C7. \<^verbatim>\<open>loadProviderTrust\<close> succeeds exactly when the fetched \<^verbatim>\<open>provider.json\<close> is that of riseup.net and names an
  HTTPS URI from which a PEM certificate was fetched that is a CA, is inside its validity window and has as
  SHA-256 of its DER encoding the published fingerprint (read as hexadecimal digits in either case, with
  separators and an optional algorithm name); the trust then holds that certificate and its fingerprint.
\<close>

theorem loadProviderTrust_pins:
  "loadProviderTrust env = Ok t \<longleftrightarrow>
     (\<exists>raw. fetchURL env ''https://riseup.net/provider.json'' ''application/json'' (256 * 1024) = Ok raw
       \<and> json_Provider env raw = Ok (Info t))
     \<and> EqualFold (Domain (Info t)) ''riseup.net''
     \<and> HasPrefix (ToLower (CACertURI (Info t))) ''https://''
     \<and> fetchURL env (CACertURI (Info t)) ''application/x-pem-file,text/plain'' (256 * 1024) = Ok (RawPEM t)
     \<and> (\<exists>block rest. pem_Decode env (RawPEM t) = Some (block, rest) \<and> bType block = ''CERTIFICATE''
         \<and> ParseCertificate env (bBytes block) = Ok (CA t))
     \<and> IsCA (CA t) \<and> NotBefore (CA t) \<le> web_now env \<and> web_now env \<le> NotAfter (CA t)
     \<and> Fingerprint t = sha256_Sum256 (cRaw (CA t))
     \<and> normalizeSHA256Fingerprint (CACertFingerprint (Info t)) = Ok (hex_bytes (Fingerprint t))"
  (is "?L \<longleftrightarrow> ?R")
proof
  assume ?L
  then show ?R by (rule loadProviderTrust_parts) auto
next
  assume r: ?R
  then have "length (Fingerprint t) = 32"
    using normalize_hex [of "CACertFingerprint (Info t)"] by (fastforce simp: hex_bytes_inject)
  moreover have "CACertURI (Info t) \<noteq> []" using r by (auto simp: HasPrefix_def ToLower_def)
  moreover have "CACertFingerprint (Info t) \<noteq> []" using r normalize_Nil by metis
  moreover from this r have "check_ca env (Info t) (hex_bytes (Fingerprint t)) (RawPEM t) = Ok t"
    by (subst check_ca_Ok_iff) auto
  ultimately show ?L using r by (auto simp: loadProviderTrust_def)
qed

lemma hex_plain: "c \<in> set (hex_bytes bs) \<Longrightarrow> plain_char c \<and> \<not> fp_separator c"
proof -
  have "list_all (\<lambda>n. plain_char (hex_alphabet ! n) \<and> \<not> fp_separator (hex_alphabet ! n)) [0 ..< 16]"
    by code_simp
  then show "c \<in> set (hex_bytes bs) \<Longrightarrow> ?thesis"
    by (auto simp: list_all_iff simp del: upt_Suc dest!: hex_bytes_chars)
qed

text \<open>Plain hexadecimal digits are already in normal form.\<close>

lemma normalize_hex_bytes: "length fp = 32 \<Longrightarrow> normalizeSHA256Fingerprint (hex_bytes fp) = Ok (hex_bytes fp)"
proof -
  assume fp: "length fp = 32"
  then have ne: "hex_bytes fp \<noteq> []" by (auto simp flip: length_greater_0_conv)
  then have "TrimSpace (hex_bytes fp) = hex_bytes fp" 
    using hex_plain [OF hd_in_set [OF ne]] hex_plain [OF last_in_set [OF ne]]
    by (intro TrimSpace_plain_ends) auto
  moreover have "IndexByte (hex_bytes fp) (CHR '':'') = None"
    by (rule IndexByte_None_iff [THEN iffD2]) (auto dest!: hex_plain simp: fp_separator_def)
  moreover have "filter (\<lambda>c. \<not> fp_separator c) (hex_bytes fp) = hex_bytes fp"
    by (rule filter_True) (auto dest: hex_plain)
  moreover have "ToLower (hex_bytes fp) = hex_bytes fp" by (rule hex_decode_lower) simp
  ultimately show ?thesis
    using fp by (simp add: normalizeSHA256Fingerprint_def fp_digits_def)
qed

section \<open>Which gateways are accepted\<close>

text \<open>
  What \<^verbatim>\<open>x509\<close> documents of \<^verbatim>\<open>Verify\<close>: every returned chain begins with the certificate itself, ends in a
  root, consists of it, intermediates and roots, each certificate signed by the next and within its
  validity at the given time, and permits one of the given key usages.
\<close>

definition chain_from :: "x509_env \<Rightarrow> Certificate \<Rightarrow> VerifyOptions \<Rightarrow> Certificate list \<Rightarrow> bool" where
  "chain_from x leaf opts ch \<longleftrightarrow>
     ch \<noteq> [] \<and> hd ch = leaf \<and> last ch \<in> set (Roots opts)
     \<and> set ch \<subseteq> insert leaf (set (Intermediates opts) \<union> set (Roots opts))
     \<and> successively (x_signedBy x) ch
     \<and> list_all (\<lambda>c. NotBefore c \<le> CurrentTime opts \<and> CurrentTime opts \<le> NotAfter c) ch
     \<and> list_ex (x_permits x ch) (KeyUsages opts)"

definition verify_law :: "x509_env \<Rightarrow> bool" where
  "verify_law x \<longleftrightarrow>
     (\<forall>leaf opts chs. x_Verify x leaf opts = Inr chs \<longrightarrow> list_all (chain_from x leaf opts) chs)"

text \<open>The options of the source: the provider's CA is the only root and never an intermediate.\<close>

abbreviation gateway_options :: "x509_env \<Rightarrow> Certificate \<Rightarrow> Certificate list \<Rightarrow> VerifyOptions" where
  "gateway_options x ca others \<equiv>
     \<lparr>Roots = [ca], Intermediates = filter (\<lambda>c. cRaw c \<noteq> cRaw ca) others, CurrentTime = x_now x,
      KeyUsages = [ExtKeyUsageServerAuth]\<rparr>"

text \<open>A chain for server authentication from the leaf over presented certificates to the CA, at a time.\<close>

definition server_chain ::
  "x509_env \<Rightarrow> Certificate \<Rightarrow> Certificate \<Rightarrow> Certificate list \<Rightarrow> Certificate list \<Rightarrow> bool" where
  "server_chain x ca leaf others ch \<longleftrightarrow>
     ch \<noteq> [] \<and> hd ch = leaf \<and> last ch = ca \<and> set ch \<subseteq> insert ca (insert leaf (set others))
     \<and> successively (x_signedBy x) ch \<and> x_permits x ch ExtKeyUsageServerAuth
     \<and> (\<forall>c \<in> set ch. NotBefore c \<le> x_now x \<and> x_now x \<le> NotAfter c)"

lemma VerifyConnection_None_iff:
  "VerifyConnection x p ep certs = None \<longleftrightarrow>
     (\<exists>leaf others chs. certs = leaf # others
       \<and> x_Verify x leaf (gateway_options x (CA p) others) = Inr chs \<and> chs \<noteq> []
       \<and> (CommonName leaf = expectedCN ep \<or> x_VerifyHostname x leaf (Host ep) = None))"
  by (auto simp: VerifyConnection_def Let_def split: list.splits sum.splits)

lemma verified_server_chain:
  assumes "verify_law x" "x_Verify x leaf (gateway_options x ca others) = Inr chs" "ch \<in> set chs"
  shows "server_chain x ca leaf others ch"
proof -
  have "chain_from x leaf (gateway_options x ca others) ch"
    using assms by (auto simp: verify_law_def list_all_iff)
  then show ?thesis by (auto simp: chain_from_def server_chain_def list_all_iff)
qed

text \<open>
  The certificates a peer presented make it the gateway: \<^verbatim>\<open>Verify\<close> with these options returned chains, all of them
  for server authentication and to the CA, and the leaf names the gateway.
\<close>

definition verified_peer :: "x509_env \<Rightarrow> ProviderTrust \<Rightarrow> Endpoint \<Rightarrow> Certificate list \<Rightarrow> bool" where
  "verified_peer x t ep certs \<longleftrightarrow>
     (\<exists>leaf others chs. certs = leaf # others
       \<and> x_Verify x leaf (gateway_options x (CA t) others) = Inr chs \<and> chs \<noteq> []
       \<and> (\<forall>ch \<in> set chs. server_chain x (CA t) leaf others ch)
       \<and> (CommonName leaf = expectedCN ep \<or> x_VerifyHostname x leaf (Host ep) = None))"

lemma gateway_chain:
  assumes "verify_law x" and "Verify_fn (tlsConfigForGateway x t ep idt) certs = None"
  shows "verified_peer x t ep certs"
proof -
  from assms(2) obtain leaf others chs where c: "certs = leaf # others"
    "x_Verify x leaf (gateway_options x (CA t) others) = Inr chs" "chs \<noteq> []"
    "CommonName leaf = expectedCN ep \<or> x_VerifyHostname x leaf (Host ep) = None"
    by (auto simp: tlsConfigForGateway_def VerifyConnection_None_iff)
  with verified_server_chain [OF assms(1) c(2)] show ?thesis unfolding verified_peer_def by blast
qed

lemma loaded_pin:
  "loadProviderTrust env = Ok t \<Longrightarrow>
   normalizeSHA256Fingerprint (CACertFingerprint (Info t)) = Ok (hex_bytes (sha256_Sum256 (cRaw (CA t))))"
  by (metis loadProviderTrust_parts)

text \<open>
  C19. A gateway that passes the verification under a trust loaded from the provider presents first a
  certificate that names the gateway (its short host name as common name, or the host name by the
  usual rules), and \<^verbatim>\<open>Verify\<close>, called on it with the provider's CA as the only root, the other presented
  certificates less the CA as intermediates, the present time and the key usage for server
  authentication, returned at least one chain.  Every chain it returned leads from that certificate over
  presented certificates to the CA, each signed by the next, all within their validity, and permits
  server authentication; the CA is the one whose SHA-256 \<^verbatim>\<open>provider.json\<close> publishes.
\<close>

theorem accepted_gateway_pinned:
  assumes "loadProviderTrust env = Ok t" and "verify_law x"
    and "Verify_fn (tlsConfigForGateway x t ep idt) certs = None"
  shows "\<exists>leaf others chs. certs = leaf # others
    \<and> x_Verify x leaf \<lparr>Roots = [CA t], Intermediates = filter (\<lambda>c. cRaw c \<noteq> cRaw (CA t)) others,
        CurrentTime = x_now x, KeyUsages = [ExtKeyUsageServerAuth]\<rparr> = Inr chs \<and> chs \<noteq> []
    \<and> (\<forall>ch \<in> set chs. server_chain x (CA t) leaf others ch)
    \<and> (CommonName leaf = expectedCN ep \<or> x_VerifyHostname x leaf (Host ep) = None)
    \<and> normalizeSHA256Fingerprint (CACertFingerprint (Info t)) = Ok (hex_bytes (sha256_Sum256 (cRaw (CA t))))"
  using gateway_chain [OF assms(2,3)] loaded_pin [OF assms(1)] unfolding verified_peer_def by blast

section \<open>The identity a PEM text holds\<close>

text \<open>What \<^verbatim>\<open>encoding/pem\<close> documents: \<^verbatim>\<open>Decode\<close> returns what remains after the block, so less than its input.\<close>

definition pem_shrinks :: "web_env \<Rightarrow> bool" where
  "pem_shrinks env \<longleftrightarrow>
     (\<forall>rest block next. pem_Decode env rest = Some (block, next) \<longrightarrow> length next < length rest)"

function pem_blocks :: "web_env \<Rightarrow> bytes \<Rightarrow> pem_block list" where
  "pem_blocks env rest =
     (case pem_Decode env rest of
        None \<Rightarrow> []
      | Some (block, next) \<Rightarrow> (if length next < length rest then block # pem_blocks env next else []))"
  by pat_completeness auto
termination by (relation "measure (\<lambda>(env, rest). length rest)") auto

declare pem_blocks.simps [simp del]

lemma pem_blocks_simps:
  "pem_Decode env rest = None \<Longrightarrow> pem_blocks env rest = []"
  "pem_shrinks env \<Longrightarrow> pem_Decode env rest = Some (block, next) \<Longrightarrow>
   pem_blocks env rest = block # pem_blocks env next"
  by (subst pem_blocks.simps; simp add: pem_shrinks_def)+

abbreviation is_cert :: "pem_block \<Rightarrow> bool" where "is_cert b \<equiv> bType b = ''CERTIFICATE''"
abbreviation is_key :: "pem_block \<Rightarrow> bool" where "is_key b \<equiv> bType b \<in> set key_types"

definition encode_all :: "web_env \<Rightarrow> pem_block list \<Rightarrow> bytes" where
  "encode_all env bs = concat (map (pem_Encode env) bs)"

text \<open>What the loop computes: all certificates, all keys, and the first certificate parsed.\<close>

definition collected ::
  "web_env \<Rightarrow> bytes \<Rightarrow> bytes \<Rightarrow> Certificate option \<Rightarrow> pem_block list \<Rightarrow> (bytes \<times> bytes \<times> Certificate option) result" where
  "collected env cp kp leaf bs =
     (let done = (\<lambda>l. Ok (cp @ encode_all env (filter is_cert bs), kp @ encode_all env (filter is_key bs), l)) in
      case (leaf, filter is_cert bs) of
        (None, c # _) \<Rightarrow> then_do (ParseCertificate env (bBytes c)) (\<lambda>l. done (Some l))
      | _ \<Rightarrow> done leaf)"

lemma collected_Cons:
  "collected env cp kp leaf (b # bs) =
     (if is_cert b then
        (if leaf = None then
           then_do (ParseCertificate env (bBytes b)) (\<lambda>c. collected env (cp @ pem_Encode env b) kp (Some c) bs)
         else collected env (cp @ pem_Encode env b) kp leaf bs)
      else if is_key b then collected env cp (kp @ pem_Encode env b) leaf bs
      else collected env cp kp leaf bs)"
  by (auto simp: collected_def encode_all_def key_types_def Let_def split: option.splits list.splits)

lemma identity_loop_collects:
  assumes "pem_shrinks env"
  shows "identity_loop env rest cp kp leaf = Some (collected env cp kp leaf (pem_blocks env rest))"
proof (induction "length rest" arbitrary: rest cp kp leaf rule: less_induct)
  case less
  show ?case
  proof (cases "pem_Decode env rest")
    case None
    then show ?thesis
      by (subst identity_loop.simps)
        (simp add: pem_blocks_simps collected_def encode_all_def split: option.split)
  next
    case (Some p)
    obtain block nxt where p: "p = (block, nxt)" by (cases p)
    with Some assms have "length nxt < length rest" by (simp add: pem_shrinks_def)
    note IH = less [OF this]
    show ?thesis
      using Some p assms
      by (subst identity_loop.simps)
        (cases "ParseCertificate env (bBytes block)"; auto simp: pem_blocks_simps collected_Cons Let_def IH)
  qed
qed

text \<open>
  C33. \<^verbatim>\<open>parseIdentity\<close> ends on every input and computes the identity of the PEM blocks of the text: with
  no certificate it is refused, otherwise the first certificate is the leaf and the key pair is made of all
  certificates and all private keys in the order of the text, other blocks being skipped.
\<close>

theorem parseIdentity_blocks:
  assumes "pem_shrinks env"
  shows "parseIdentity env raw =
    Some (case filter is_cert (pem_blocks env raw) of
        [] \<Rightarrow> Error (ErrorsNew ''identity has no certificate'')
      | c # cs \<Rightarrow>
          then_do (ParseCertificate env (bBytes c)) (\<lambda>leaf.
          let certPEM = concat (map (pem_Encode env) (c # cs));
              keyPEM = concat (map (pem_Encode env) (filter is_key (pem_blocks env raw))) in
          if keyPEM = [] then Error (ErrorsNew ''identity has no private key'')
          else case X509KeyPair env certPEM keyPEM of
            Some e \<Rightarrow> Error (Wrapf ''certificate/key validation failed: %w'' e)
          | None \<Rightarrow> Ok \<lparr>idRaw = raw, Leaf = leaf, idPair = (certPEM, keyPEM)\<rparr>))"
  by (auto simp: parseIdentity_def identity_loop_collects [OF assms] collected_def finish_identity_def
      encode_all_def Let_def then_do_assoc split: list.split option.split)

section \<open>The stored identity\<close>

lemmas save_defs = saveIdentity_def Let_def os_Remove_def os_Chmod_def



text \<open>\<^verbatim>\<open>os.CreateTemp\<close> creates a new file; its name begins with a dot and so is not the identity's path.\<close>

definition fresh_temp :: "os_env \<Rightarrow> filesys \<Rightarrow> string \<Rightarrow> bool" where
  "fresh_temp os fs path \<longleftrightarrow>
     (case tempName os (os_Dir os path) of Inl tmp \<Rightarrow> tmp \<noteq> path \<and> fs tmp = None | Inr _ \<Rightarrow> True)"

lemma save_old_or_new:
  assumes "saveIdentity os fs idt path = (trace, err)" "fresh_temp os fs path" "f \<in> set trace"
  shows "f path = fs path \<or> f path = Some (idRaw idt, 384)"
  using assms by (auto simp: save_defs fresh_temp_def split: option.splits sum.splits if_splits)

lemma save_success:
  assumes "saveIdentity os fs idt path = (trace, None)" "fresh_temp os fs path"
  shows "last trace path = Some (idRaw idt, 384)"
  using assms by (auto simp: save_defs fresh_temp_def split: option.splits sum.splits if_splits)

lemma save_cleans_up:
  assumes "saveIdentity os fs idt path = (trace, err)" "fresh_temp os fs path" "osRemoveErr os = None" "q \<noteq> path"
  shows "last trace q = fs q"
  using assms by (auto simp: save_defs fresh_temp_def split: option.splits sum.splits if_splits)

text \<open>
  C5. With \<^verbatim>\<open>os.Rename\<close> as one step, storing an identity is atomic and private: after every call \<^verbatim>\<open>saveIdentity\<close> makes, the path holds
  either what it held before or the complete identity with mode 0600; on success it holds the
  identity, and unless the temporary file could not be removed no other file has changed.
\<close>

theorem saveIdentity_atomic:
  assumes "saveIdentity os fs idt path = (trace, err)" and "fresh_temp os fs path"
  shows "(\<forall>f \<in> set trace. f path = fs path \<or> f path = Some (idRaw idt, 384))
    \<and> (err = None \<longrightarrow> last trace path = Some (idRaw idt, 384))
    \<and> (osRemoveErr os = None \<longrightarrow> (\<forall>q. q \<noteq> path \<longrightarrow> last trace q = fs q))"
proof (intro conjI impI ballI allI)
  show "f path = fs path \<or> f path = Some (idRaw idt, 384)" if "f \<in> set trace" for f
    using assms that by (rule save_old_or_new)
  show "last trace path = Some (idRaw idt, 384)" if "err = None"
    using assms that save_success by simp
  show "last trace q = fs q" if "osRemoveErr os = None" "q \<noteq> path" for q
    using assms that by (rule save_cleans_up)
qed

lemma parseIdentity_raw: "parseIdentity env raw = Some (Ok idt) \<Longrightarrow> idRaw idt = raw"
  by (auto simp: parseIdentity_def finish_identity_def then_do_Ok_iff split: option.splits if_splits)

lemma API_identity_raw: "API_identity env = Some (Ok idt) \<Longrightarrow> parseIdentity env (idRaw idt) = Some (Ok idt)"
  by (auto simp: API_identity_def split: result.splits dest: parseIdentity_raw)

lemma fetch_and_save_Ok:
  assumes "fetch_and_save env os fs path = Some (Ok idt, trace)"
  shows "API_identity env = Some (Ok idt)" "saveIdentity os fs idt path = (trace, None)"
  using assms by (auto simp: fetch_and_save_def split: option.splits result.splits prod.splits)

lemma loadOrFetch_Ok:
  assumes "loadOrFetchIdentity env os fs path = Some (Ok idt, trace)"
  shows "(\<exists>raw mode. os_readErr os = None \<and> fs path = Some (raw, mode) \<and> parseIdentity env raw = Some (Ok idt)
      \<and> still_valid env idt \<and> trace = [fs])
    \<or> API_identity env = Some (Ok idt) \<and> saveIdentity os fs idt path = (trace, None)"
proof (cases "if os_readErr os = None then fs path else None")
  case None
  then show ?thesis using assms fetch_and_save_Ok by (simp add: loadOrFetchIdentity_def)
next
  case (Some f)
  then obtain raw mode where "os_readErr os = None" "fs path = Some (raw, mode)"
    by (cases f) (auto split: if_splits)
  then show ?thesis using assms
    by (auto simp: loadOrFetchIdentity_def split: option.splits result.splits if_splits
        dest: fetch_and_save_Ok)
qed

text \<open>
  An identity \<^verbatim>\<open>loadOrFetchIdentity\<close> returns is either the stored one, with more than a day of validity
  left, or the one the API just issued, which is then stored with mode 0600.  Either way the file holds its
  text afterwards, and asking again while it is valid returns the same identity from the file alone.
\<close>

theorem identity_is_cached:
  assumes "loadOrFetchIdentity env os fs path = Some (Ok idt, trace)" and "fresh_temp os fs path"
    and "os_readErr os' = None" and "web_now env < NotAfter (Leaf idt) - 86400000000000"
  shows "(\<exists>mode. last trace path = Some (idRaw idt, mode))
    \<and> (trace = [fs] \<or> API_identity env = Some (Ok idt) \<and> last trace path = Some (idRaw idt, 384))
    \<and> loadOrFetchIdentity env os' (last trace) path = Some (Ok idt, [last trace])"
proof -
  have valid: "still_valid env idt" using assms(4) by (simp add: still_valid_def)
  have again: "loadOrFetchIdentity env os' f path = Some (Ok idt, [f])"
    if "f path = Some (idRaw idt, mode)" "parseIdentity env (idRaw idt) = Some (Ok idt)" for f mode
    using that assms(3) valid by (simp add: loadOrFetchIdentity_def)
  show ?thesis
    using loadOrFetch_Ok [OF assms(1)]
  proof (elim disjE exE conjE)
    fix raw mode
    assume "fs path = Some (raw, mode)" "parseIdentity env raw = Some (Ok idt)" "trace = [fs]"
    moreover from this have "raw = idRaw idt" by (simp add: parseIdentity_raw)
    ultimately show ?thesis using again by auto
  next
    assume a: "API_identity env = Some (Ok idt)" "saveIdentity os fs idt path = (trace, None)"
    then have "last trace path = Some (idRaw idt, 384)" using save_success assms(2) by blast
    with a(1) again API_identity_raw show ?thesis by auto
  qed
qed

section \<open>A concrete world\<close>

definition sample_cert :: "bytes \<Rightarrow> Certificate" where
  "sample_cert raw = \<lparr>cRaw = raw, IsCA = True, NotBefore = 0, NotAfter = 86400000000010, CommonName = ''h''\<rparr>"

definition sample_info :: ProviderInfo where
  "sample_info = \<lparr>APIVersion = ''3'', CACertFingerprint = hex_bytes (sha256_Sum256 [1]),
     CACertURI = ''https://ca'', Domain = ''riseup.net''\<rparr>"

definition sample_pem :: "bytes \<Rightarrow> (pem_block \<times> bytes) option" where
  "sample_pem b =
     (case b of [] \<Rightarrow> None
      | x # r \<Rightarrow> Some (\<lparr>bType = (if x = 1 then ''CERTIFICATE'' else ''PRIVATE KEY''), bHeaders = [], bBytes = [x]\<rparr>, r))"

definition sample_web :: web_env where
  "sample_web = \<lparr>web_now = 5, NewRequest = (\<lambda>_. None),
     http_Do = (\<lambda>_. Ok \<lparr>StatusCode = 200, Status = ''200 OK'', Body = [1, 2], BodyErr = None, ErrWithData = False\<rparr>),
     json_Provider = (\<lambda>_. Ok sample_info), json_Service = (\<lambda>_. Ok two_port_service), pem_Decode = sample_pem,
     pem_Encode = bBytes, ParseCertificate = (\<lambda>b. Ok (sample_cert b)), X509KeyPair = (\<lambda>_ _. None)\<rparr>"

definition sample_trust :: ProviderTrust where
  "sample_trust = \<lparr>Info = sample_info, CA = sample_cert [1], Fingerprint = sha256_Sum256 [1], RawPEM = [1, 2]\<rparr>"

definition sample_x509 :: x509_env where
  "sample_x509 = \<lparr>x_now = 5,
     x_Verify = (\<lambda>leaf opts.
       case Roots opts of
         [ca] \<Rightarrow> (if IsCA ca \<and> ExtKeyUsageServerAuth \<in> set (KeyUsages opts)
                  \<and> list_all (\<lambda>c. NotBefore c \<le> CurrentTime opts \<and> CurrentTime opts \<le> NotAfter c) [leaf, ca]
                then Inr [[leaf, ca]] else Inl (SysErr ''x509''))
       | _ \<Rightarrow> Inl (SysErr ''x509'')),
     x_VerifyHostname = (\<lambda>_ _. Some (SysErr ''x509'')), x_signedBy = (\<lambda>c d. IsCA d),
     x_permits = (\<lambda>ch u. u = ExtKeyUsageServerAuth)\<rparr>"

lemma sample_verify_law: "verify_law sample_x509"
  by (auto simp: verify_law_def chain_from_def sample_x509_def list_ex_iff split: list.splits if_splits)

definition sample_gateway :: Endpoint where
  "sample_gateway = \<lparr>Host = ''h.riseup.net'', IP = ''10.0.0.1'', Location = ''x'', Protocol = ''udp'', Port = 53\<rparr>"

definition sample_identity :: Identity where
  "sample_identity = \<lparr>idRaw = [1, 2], Leaf = sample_cert [1], idPair = ([1], [2])\<rparr>"

definition sample_os :: os_env where
  "sample_os = \<lparr>os_readErr = None, os_Dir = (\<lambda>_. ''d''), mkdirErr = None, tempName = (\<lambda>_. Inl ''d/.t''),
     tmpChmodErr = None, tmpWriteErr = None, shortWrite = 0, tmpSyncErr = None, tmpCloseErr = None,
     osRenameErr = None, osChmodErr = None, osRemoveErr = None\<rparr>"

lemma sample_fetch: "limit \<ge> 2 \<Longrightarrow> fetchURL sample_web url accept limit = Ok [1, 2]"
  by (simp add: fetchURL_def sample_web_def http_ok_def ReadAll_limited_def)

lemma sample_trust_loaded: "loadProviderTrust sample_web = Ok sample_trust"
proof -
  have "check_ca sample_web sample_info (hex_bytes (sha256_Sum256 [1])) [1, 2] = Ok sample_trust"
    by (subst check_ca_Ok_iff)
      (auto simp: sample_web_def sample_trust_def sample_info_def sample_cert_def sample_pem_def)
  moreover have "normalizeSHA256Fingerprint (CACertFingerprint sample_info) = Ok (hex_bytes (sha256_Sum256 [1]))"
    "CACertFingerprint sample_info \<noteq> []"
    by (simp_all add: sample_info_def normalize_hex_bytes flip: length_greater_0_conv)
  moreover have "CACertURI sample_info = ''https://ca''" "EqualFold (Domain sample_info) ''riseup.net''"
    "json_Provider sample_web b = Ok sample_info" for b
    by (simp_all add: sample_info_def EqualFold_def sample_web_def)
  moreover have "HasPrefix (ToLower ''https://ca'') ''https://''" by code_simp
  ultimately show ?thesis by (simp add: loadProviderTrust_def sample_fetch)
qed

theorem accepted_gateway_pinned_witness:
  "loadProviderTrust sample_web = Ok sample_trust \<and> verify_law sample_x509
    \<and> Verify_fn (tlsConfigForGateway sample_x509 sample_trust sample_gateway sample_identity) [sample_cert [3]] = None
    \<and> server_chain sample_x509 (sample_cert [1]) (sample_cert [3]) [] [sample_cert [3], sample_cert [1]]
    \<and> normalizeSHA256Fingerprint (CACertFingerprint (Info sample_trust)) = Ok (hex_bytes (sha256_Sum256 [1]))"
proof -
  note law = sample_verify_law
  have cn: "expectedCN sample_gateway = ''h''" by (simp add: expectedCN_def sample_gateway_def)
  have ok: "Verify_fn (tlsConfigForGateway sample_x509 sample_trust sample_gateway sample_identity) [sample_cert [3]] = None"
    unfolding tlsConfigForGateway_def
    by (simp add: VerifyConnection_None_iff sample_x509_def sample_trust_def sample_cert_def cn)
  have chs: "x_Verify sample_x509 (sample_cert [3]) (gateway_options sample_x509 (CA sample_trust) [])
      = Inr [[sample_cert [3], sample_cert [1]]]"
    by (simp add: sample_x509_def sample_trust_def sample_cert_def)
  have "cRaw (CA sample_trust) = [1]" "CA sample_trust = sample_cert [1]"
    by (simp_all add: sample_trust_def sample_cert_def)
  then show ?thesis
    using accepted_gateway_pinned [OF sample_trust_loaded law ok] sample_trust_loaded law ok chs
    by (auto simp del: successively.simps)
qed

lemma sample_pem_shrinks: "pem_shrinks sample_web"
  by (auto simp: pem_shrinks_def sample_web_def sample_pem_def split: list.splits)

lemma sample_parsed: "parseIdentity sample_web [1, 2] = Some (Ok sample_identity)"
  unfolding parseIdentity_def identity_loop_collects [OF sample_pem_shrinks]
  by (simp add: pem_blocks.simps sample_web_def sample_pem_def collected_def encode_all_def key_types_def
      finish_identity_def sample_identity_def)

theorem parseIdentity_blocks_witness:
  "pem_shrinks sample_web \<and> parseIdentity sample_web [1, 2] = Some (Ok sample_identity)"
  using parseIdentity_blocks [OF sample_pem_shrinks, of "[1, 2]"] sample_pem_shrinks
  by (simp add: pem_blocks.simps sample_web_def sample_pem_def key_types_def Let_def sample_identity_def)

lemma sample_fresh: "fresh_temp sample_os Map.empty ''d/i''"
  by (simp add: fresh_temp_def sample_os_def)

lemma sample_saved: "\<exists>trace. saveIdentity sample_os Map.empty sample_identity ''d/i'' = (trace, None)"
  by (simp add: saveIdentity_def sample_os_def Let_def)

theorem saveIdentity_atomic_witness:
  "\<exists>trace. saveIdentity sample_os Map.empty sample_identity ''d/i'' = (trace, None)
    \<and> last trace ''d/i'' = Some ([1, 2], 384) \<and> last trace ''d/.t'' = None"
proof -
  obtain trace where t: "saveIdentity sample_os Map.empty sample_identity ''d/i'' = (trace, None)"
    using sample_saved by blast
  show ?thesis
    using saveIdentity_atomic [OF t sample_fresh] t by (auto simp: sample_identity_def sample_os_def)
qed

lemma sample_fetched:
  "\<exists>trace. loadOrFetchIdentity sample_web sample_os Map.empty ''d/i'' = Some (Ok sample_identity, trace)"
proof -
  have "API_identity sample_web = Some (Ok sample_identity)"
    using sample_parsed
    by (simp add: API_identity_def API_get_def sample_web_def http_ok_def ReadAll_limited_def)
  then show ?thesis
    using sample_saved by (auto simp: loadOrFetchIdentity_def fetch_and_save_def)
qed

theorem identity_is_cached_witness:
  "\<exists>trace. loadOrFetchIdentity sample_web sample_os Map.empty ''d/i'' = Some (Ok sample_identity, trace)
    \<and> loadOrFetchIdentity sample_web sample_os (last trace) ''d/i'' = Some (Ok sample_identity, [last trace])"
proof -
  obtain trace where t: "loadOrFetchIdentity sample_web sample_os Map.empty ''d/i'' = Some (Ok sample_identity, trace)"
    using sample_fetched by blast
  show ?thesis
    using identity_is_cached [OF t sample_fresh, of sample_os] t
    by (simp add: sample_os_def sample_web_def sample_identity_def sample_cert_def)
qed

end
