(* ===== verification/Session.thy ===== *)
theory Session
  imports Provider FlowPackets
begin

text \<open>
  Establishing a session, \<^verbatim>\<open>livevpn.go\<close>: the components composed in the order of \<^verbatim>\<open>establishLiveVPN\<close>, and
  the release of a session.

  The TLS connection is a parameter: the handshake's outcome, the certificates the peer presented, the
  outcome of a write, and the bytes the server sends in answer to the last of the messages written so
  far.  The control socket is open or closed; the last component of a result is the file system.
\<close>

section \<open>Definitions\<close>

record session_env =
  se_web :: web_env
  se_os :: os_env
  se_x509 :: x509_env
  se_ctxErr :: go_error
  se_net :: "nat \<Rightarrow> Endpoint \<Rightarrow> udp_env option"
  se_net2 :: "nat \<Rightarrow> nat \<Rightarrow> udp_env"
  se_udp :: udp_env
  se_rand :: "nat \<Rightarrow> nat \<Rightarrow> bytes result"
  tls_Handshake :: "tls_config \<Rightarrow> controlUDPConn \<Rightarrow> go_error option"
  tls_peer :: "controlUDPConn \<Rightarrow> Certificate list"
  tls_conn :: "controlUDPConn \<Rightarrow> controlUDPConn"
  tls_Write :: "bytes list \<Rightarrow> bytes \<Rightarrow> go_error option"
  tls_recv :: "bytes list \<Rightarrow> bytes"
  tls_endErr :: go_error

definition push_request :: bytes where
  "push_request = bytes_of_string ''PUSH_REQUEST'' @ [0]"

text \<open>Before the control channel: the gateway, the identity and the trust.\<close>

definition prepare_session ::
  "session_env \<Rightarrow> filesys \<Rightarrow> string \<Rightarrow> ((Endpoint \<times> Identity \<times> ProviderTrust) result \<times> filesys) option" where
  "prepare_session env fs identityPath =
     (case then_do (API_service (se_web env)) (bestWireEndpoint (se_ctxErr env) (se_net env) (se_net2 env)) of
        Error e \<Rightarrow> Some (Error e, fs)
      | Panicked p \<Rightarrow> Some (Panicked p, fs)
      | Ok ep \<Rightarrow>
          (case loadOrFetchIdentity (se_web env) (se_os env) fs identityPath of
             None \<Rightarrow> None
           | Some (r, trace) \<Rightarrow>
               Some (then_do r (\<lambda>idt. then_do (loadProviderTrust (se_web env)) (\<lambda>trust. Ok (ep, idt, trust))),
                     last trace)))"

text \<open>
  On the control channel: the TLS handshake, the key exchange and the pushed configuration.  Clearing
  the pre-master secret and the master secret afterwards acts on local copies and is not visible.
\<close>

definition negotiate ::
  "session_env \<Rightarrow> Endpoint \<Rightarrow> Identity \<Rightarrow> ProviderTrust \<Rightarrow> controlUDPConn \<Rightarrow> nat \<Rightarrow> liveVPN result" where
  "negotiate env ep idt trust cc resetLatency =
     (case tls_Handshake env (tlsConfigForGateway (se_x509 env) trust ep idt) cc of
        Some e \<Rightarrow> Error (Wrapf ''TLS: %w'' e)
      | None \<Rightarrow>
        then_do (randomClientKeySource (se_rand env)) (\<lambda>clientSrc.
        then_do (marshalClientKeyMethod clientSrc ep) (\<lambda>km.
        case tls_Write env [] km of Some e \<Rightarrow> Error e | None \<Rightarrow>
        then_do (readServerKeyMethod (tls_recv env [km])) (\<lambda>(serverRec, unread).
        then_do (deriveOpenVPNKeys clientSrc (Source serverRec) (localSID cc) (remoteSID cc)) (\<lambda>(master, keys).
        case tls_Write env [km] push_request of Some e \<Rightarrow> Error e | None \<Rightarrow>
        then_do (readPushReply (tls_endErr env) (unread @ tls_recv env [km, push_request])) (\<lambda>(pushMsgs, _).
        then_do (parsePushedSession (flattenPushOptions pushMsgs)) (\<lambda>ps.
        Ok \<lparr>vEndpoint = ep, vControl = Some (tls_conn env cc), vSession = ps, vKeys = keys,
            vResetLatency = resetLatency\<rparr>)))))))"

definition establish_on ::
  "session_env \<Rightarrow> Endpoint \<Rightarrow> Identity \<Rightarrow> ProviderTrust \<Rightarrow> liveVPN result \<times> bool" where
  "establish_on env ep idt trust =
     (case on_error (dialControlUDP (se_udp env) ep) (Wrapf ''control reset: %w'') of
        Error e \<Rightarrow> (Error e, False)
      | Panicked p \<Rightarrow> (Panicked p, False)
      | Ok (cc, resetLatency, _) \<Rightarrow>
          (case negotiate env ep idt trust cc resetLatency of
             Ok vpn \<Rightarrow> (Ok vpn, True)
           | Error e \<Rightarrow> (Error e, False)
           | Panicked p \<Rightarrow> (Panicked p, False)))"

definition establishLiveVPN ::
  "session_env \<Rightarrow> filesys \<Rightarrow> string \<Rightarrow> (liveVPN result \<times> bool \<times> filesys) option" where
  "establishLiveVPN env fs identityPath =
     map_option (\<lambda>(r, fs).
       case r of
         Ok (ep, idt, trust) \<Rightarrow> (let (v, isOpen) = establish_on env ep idt trust in (v, isOpen, fs))
       | Error e \<Rightarrow> (Error e, False, fs)
       | Panicked p \<Rightarrow> (Panicked p, False, fs))
     (prepare_session env fs identityPath)"

definition zero_keys :: dataKeyBlock where
  "zero_keys = \<lparr>ClientCipher = replicate 64 0, ClientHMAC = replicate 64 0,
     ServerCipher = replicate 64 0, ServerHMAC = replicate 64 0\<rparr>"

text \<open>\<^verbatim>\<open>Close\<close> of a session (\<open>None\<close> is the nil pointer) whose control socket is open or not.\<close>

definition vpn_Close :: "liveVPN option \<Rightarrow> bool \<Rightarrow> liveVPN option \<times> bool" where
  "vpn_Close v isOpen =
     (case v of
        None \<Rightarrow> (None, isOpen)
      | Some vpn \<Rightarrow> (Some (vpn\<lparr>vKeys := zero_keys\<rparr>), if vControl vpn \<noteq> None then False else isOpen))"

section \<open>What an established session is\<close>

text \<open>The four keys of the OpenVPN key expansion of both halves.\<close>

abbreviation session_keys :: "keySource \<Rightarrow> keySource \<Rightarrow> sessionID \<Rightarrow> sessionID \<Rightarrow> dataKeyBlock" where
  "session_keys client server csid ssid \<equiv>
     (let raw = key_material client server csid ssid in
      \<lparr>ClientCipher = take 64 raw, ClientHMAC = take 64 (drop 64 raw),
       ServerCipher = take 64 (drop 128 raw), ServerHMAC = drop 192 raw\<rparr>)"

lemma API_service_Ok: "API_service web = Ok svc \<Longrightarrow> Gateways svc \<noteq> []"
  by (auto simp: API_service_def then_do_Ok_iff split: if_splits)

lemma deriveOpenVPNKeys_lengths:
  assumes "deriveOpenVPNKeys c s a b = Ok (master, keys)"
  shows "length (ClientCipher keys) = 64" "length (ClientHMAC keys) = 64"
    "length (ServerCipher keys) = 64" "length (ServerHMAC keys) = 64"
  using assms by (auto simp: deriveOpenVPNKeys_eq Let_def)

text \<open>
  One exchange over the TLS connection: the client's half and its key method message, the server's half read
  from what came back, the keys of both halves, and the session parsed from the answer to the push request.
\<close>

definition exchanged :: "session_env \<Rightarrow> controlUDPConn \<Rightarrow> liveVPN \<Rightarrow> keySource \<Rightarrow> bytes \<Rightarrow> keyMethodRecord \<Rightarrow> bool" where
  "exchanged env cc vpn src km rec \<longleftrightarrow>
     randomClientKeySource (se_rand env) = Ok src \<and> marshalClientKeyMethod src (vEndpoint vpn) = Ok km
     \<and> tls_Write env [] km = None \<and> tls_Write env [km] push_request = None
     \<and> vKeys vpn = session_keys src (Source rec) (localSID cc) (remoteSID cc)
     \<and> (\<exists>unread msgs rest. readServerKeyMethod (tls_recv env [km]) = Ok (rec, unread)
          \<and> readPushReply (tls_endErr env) (unread @ tls_recv env [km, push_request]) = Ok (msgs, rest)
          \<and> parsePushedSession (flattenPushOptions msgs) = Ok (vSession vpn))"

lemma negotiate_exchanged:
  assumes "negotiate env ep idt trust cc lat = Ok vpn"
  shows "tls_Handshake env (tlsConfigForGateway (se_x509 env) trust ep idt) cc = None
    \<and> vEndpoint vpn = ep \<and> vControl vpn = Some (tls_conn env cc) \<and> vResetLatency vpn = lat
    \<and> (\<exists>src km rec. exchanged env cc vpn src km rec)"
  using assms unfolding exchanged_def
  by (auto simp: negotiate_def then_do_Ok_iff deriveOpenVPNKeys_eq split: option.splits prod.splits)

lemma exchanged_live_ok:
  assumes "exchanged env cc vpn src km rec"
  shows "live_ok vpn"
proof -
  from assms obtain opts where p: "parsePushedSession opts = Ok (vSession vpn)"
    and k: "deriveOpenVPNKeys src (Source rec) (localSID cc) (remoteSID cc)
      = Ok (master_secret src (Source rec), vKeys vpn)"
    by (auto simp: exchanged_def deriveOpenVPNKeys_eq)
  obtain ip where "psIPv4 (vSession vpn) = Some ip" "length ip = 4" "psPeerID (vSession vpn) < 2 ^ 24"
    using parsePushedSession_Ok [OF p] by blast
  then show ?thesis
    using deriveOpenVPNKeys_lengths [OF k] by (auto simp: live_ok_def word_le_nat_alt word_less_nat_alt)
qed

lemma establish_on_open: "snd (establish_on env ep idt trust) = (\<exists>vpn. fst (establish_on env ep idt trust) = Ok vpn)"
  by (cases "dialControlUDP (se_udp env) ep") (auto simp: establish_on_def split: result.split)

lemma establish_open:
  assumes "establishLiveVPN env fs path = Some (r, isOpen, fs')"
  shows "isOpen = (\<exists>vpn. r = Ok vpn)"
proof -
  obtain p fs1 where "prepare_session env fs path = Some (p, fs1)"
    using assms by (auto simp: establishLiveVPN_def)
  with assms show ?thesis
    using establish_on_open [of env]
    by (cases p) (auto simp: establishLiveVPN_def Let_def prod_eq_iff split: prod.splits)
qed

lemma establish_parts:
  assumes "establishLiveVPN env fs path = Some (Ok vpn, isOpen, fs')"
  obtains svc ep idt trust cc lat sent trace where
    "API_service (se_web env) = Ok svc"
    "bestWireEndpoint (se_ctxErr env) (se_net env) (se_net2 env) svc = Ok ep"
    "loadOrFetchIdentity (se_web env) (se_os env) fs path = Some (Ok idt, trace)"
    "loadProviderTrust (se_web env) = Ok trust" "dialControlUDP (se_udp env) ep = Ok (cc, lat, sent)"
    "negotiate env ep idt trust cc lat = Ok vpn" "isOpen" "fs' = last trace"
proof -
  obtain r fs1 where r: "prepare_session env fs path = Some (r, fs1)"
    using assms by (auto simp: establishLiveVPN_def)
  with assms obtain ep idt trust where p: "prepare_session env fs path = Some (Ok (ep, idt, trust), fs')"
    and e: "establish_on env ep idt trust = (Ok vpn, isOpen)"
    by (cases r) (auto simp: establishLiveVPN_def Let_def split: prod.splits)
  from e obtain cc lat sent where "dialControlUDP (se_udp env) ep = Ok (cc, lat, sent)"
    "negotiate env ep idt trust cc lat = Ok vpn" "isOpen"
    by (cases "dialControlUDP (se_udp env) ep") (auto simp: establish_on_def split: result.splits)
  moreover from p obtain svc trace where "API_service (se_web env) = Ok svc"
    "bestWireEndpoint (se_ctxErr env) (se_net env) (se_net2 env) svc = Ok ep"
    "loadOrFetchIdentity (se_web env) (se_os env) fs path = Some (Ok idt, trace)"
    "loadProviderTrust (se_web env) = Ok trust" "fs' = last trace"
    by (auto simp: prepare_session_def then_do_Ok_iff split: result.splits option.splits prod.splits)
  ultimately show ?thesis using that by blast
qed


text \<open>
  What \<^verbatim>\<open>crypto/tls\<close> documents: a handshake succeeds only if \<^verbatim>\<open>VerifyConnection\<close> accepted the certificates
  the peer presented.
\<close>

definition tls_law :: "session_env \<Rightarrow> bool" where
  "tls_law env \<longleftrightarrow> (\<forall>cfg cc. tls_Handshake env cfg cc = None \<longrightarrow> Verify_fn cfg (tls_peer env cc) = None)"

text \<open>
  C4. \<^verbatim>\<open>establishLiveVPN\<close> leaves the control socket open exactly when it returns a session.  The session's
  gateway is an advertised UDP endpoint, and its control channel is a TLS connection over the reset exchange
  with that endpoint, whose peer \<^verbatim>\<open>Verify\<close> accepted for server authentication: all chains it returned (there
  is one) lead over presented certificates to the CA whose SHA-256 the provider publishes, and the leaf names
  the gateway.  The session's keys are those of the OpenVPN key expansion of the client's half, sent over
  that connection, and the server's half, read from the answer to it, with the two session ids; its
  addresses and peer id are those parsed from the answer to the push request; and it is fit for the data
  channel (a 4-byte address, a 24-bit peer id and 64-byte keys).
\<close>

theorem established_session_authentic:
  assumes "establishLiveVPN env fs path = Some (r, isOpen, fs')" and "tls_law env" and "verify_law (se_x509 env)"
  shows "isOpen = (\<exists>vpn. r = Ok vpn)
    \<and> (\<forall>vpn. r = Ok vpn \<longrightarrow> live_ok vpn
        \<and> (\<exists>svc. API_service (se_web env) = Ok svc \<and> vEndpoint vpn \<in> set (endpoints svc ''openvpn'')
            \<and> Protocol (vEndpoint vpn) = ''udp'')
        \<and> (\<exists>cc sent trust src km rec.
            dialControlUDP (se_udp env) (vEndpoint vpn) = Ok (cc, vResetLatency vpn, sent)
            \<and> vControl vpn = Some (tls_conn env cc)
            \<and> loadProviderTrust (se_web env) = Ok trust
            \<and> normalizeSHA256Fingerprint (CACertFingerprint (Info trust))
                = Ok (hex_bytes (sha256_Sum256 (cRaw (CA trust))))
            \<and> verified_peer (se_x509 env) trust (vEndpoint vpn) (tls_peer env cc)
            \<and> exchanged env cc vpn src km rec))"
proof (intro conjI allI impI)
  show "isOpen = (\<exists>vpn. r = Ok vpn)"
    using assms(1) by (rule establish_open)
next
  fix vpn assume "r = Ok vpn"
  with assms(1) have "establishLiveVPN env fs path = Some (Ok vpn, isOpen, fs')" by simp
  then obtain svc ep idt trust cc lat sent trace where p: "API_service (se_web env) = Ok svc"
    "bestWireEndpoint (se_ctxErr env) (se_net env) (se_net2 env) svc = Ok ep"
    "loadProviderTrust (se_web env) = Ok trust" "negotiate env ep idt trust cc lat = Ok vpn"
    "dialControlUDP (se_udp env) ep = Ok (cc, lat, sent)"
    by (rule establish_parts)
  note n = negotiate_exchanged [OF p(4)]
  then obtain src km rec where x: "exchanged env cc vpn src km rec" by blast
  from x show "live_ok vpn" by (rule exchanged_live_ok)
  show "\<exists>svc. API_service (se_web env) = Ok svc \<and> vEndpoint vpn \<in> set (endpoints svc ''openvpn'')
      \<and> Protocol (vEndpoint vpn) = ''udp''"
    using p(1,2) n bestWireEndpoint_advertised by blast
  have "Verify_fn (tlsConfigForGateway (se_x509 env) trust (vEndpoint vpn) idt) (tls_peer env cc) = None"
    using assms(2) n by (auto simp: tls_law_def)
  note g = gateway_chain [OF assms(3) this]
  show "\<exists>cc sent trust src km rec.
            dialControlUDP (se_udp env) (vEndpoint vpn) = Ok (cc, vResetLatency vpn, sent)
            \<and> vControl vpn = Some (tls_conn env cc)
            \<and> loadProviderTrust (se_web env) = Ok trust
            \<and> normalizeSHA256Fingerprint (CACertFingerprint (Info trust))
                = Ok (hex_bytes (sha256_Sum256 (cRaw (CA trust))))
            \<and> verified_peer (se_x509 env) trust (vEndpoint vpn) (tls_peer env cc)
            \<and> exchanged env cc vpn src km rec"
    using p(3,5) n g x loaded_pin [OF p(3)] by blast
qed

section \<open>A session with a server that follows the protocol\<close>

abbreviation session_options :: "bytes \<Rightarrow> bytes \<Rightarrow> bytes \<Rightarrow> nat \<Rightarrow> string list" where
  "session_options ip netmask dns peer \<equiv>
     [''ifconfig '' @ dotted ip @ '' '' @ dotted netmask, ''dhcp-option DNS '' @ dotted dns,
      ''peer-id '' @ Itoa_nat peer, ''cipher AES-256-GCM'']"

lemma honest_session:
  assumes prep: "prepare_session env fs path = Some (Ok (ep, idt, trust), fs')"
    and dial: "dialControlUDP (se_udp env) ep = Ok (cc, lat, sent)"
    and tls: "tls_Handshake env (tlsConfigForGateway (se_x509 env) trust ep idt) cc = None"
      "\<forall>ms m. tls_Write env ms m = None"
    and src: "randomClientKeySource (se_rand env) = Ok src" "marshalClientKeyMethod src ep = Ok km"
    and half: "server_half_ok rec" "tls_recv env [km] = server_half rec"
    and push: "tls_recv env [km, push_request] = concat (map nul_message (push_messages mark cs)) @ rest"
      "cs \<noteq> []" "length cs \<le> 16" "\<forall>c \<in> set cs. \<forall>opt \<in> set c. option_ok opt \<and> \<not> marker opt"
      "mark = [] \<or> mark = [''push-continuation 1'']" "\<forall>m \<in> set (push_messages mark cs). length m \<le> 256 * 1024"
    and opts: "concat cs = pre @ session_options ip netmask dns peer" "\<forall>opt \<in> set pre. other_option opt"
      "length ip = 4" "length netmask = 4" "length dns = 4" "peer < 2 ^ 24"
  shows "establishLiveVPN env fs path = Some (Ok \<lparr>vEndpoint = ep, vControl = Some (tls_conn env cc),
      vSession = \<lparr>psIPv4 = Some ip, psNetmask = Some netmask, psDNS = Some dns, psPeerID = of_nat peer,
        psCipher = ''AES-256-GCM''\<rparr>,
      vKeys = session_keys src (Source rec) (localSID cc) (remoteSID cc), vResetLatency = lat\<rparr>, True, fs')"
proof -
  obtain parts where parts: "readPushReply (tls_endErr env) (tls_recv env [km, push_request]) = Ok (parts, rest)"
    "flattenPushOptions parts = concat cs"
    using read_pushed [OF push(2-6), of "tls_endErr env" rest] push(1) by auto
  have km: "readServerKeyMethod (tls_recv env [km]) = Ok (rec, [])"
    using read_server_half [OF half(1), of "[]"] half(2) by simp
  have "parsePushedSession (concat cs) = Ok \<lparr>psIPv4 = Some ip, psNetmask = Some netmask, psDNS = Some dns,
      psPeerID = of_nat peer, psCipher = ''AES-256-GCM''\<rparr>"
    unfolding opts(1) by (rule parse_pushed) (use opts in auto)
  then have "negotiate env ep idt trust cc lat = Ok \<lparr>vEndpoint = ep, vControl = Some (tls_conn env cc),
      vSession = \<lparr>psIPv4 = Some ip, psNetmask = Some netmask, psDNS = Some dns, psPeerID = of_nat peer,
        psCipher = ''AES-256-GCM''\<rparr>,
      vKeys = session_keys src (Source rec) (localSID cc) (remoteSID cc), vResetLatency = lat\<rparr>"
    using tls src km parts by (simp add: negotiate_def deriveOpenVPNKeys_eq)
  then show ?thesis using prep dial by (simp add: establishLiveVPN_def establish_on_def)
qed

text \<open>
  C6. With a server that follows the protocol \<^verbatim>\<open>establishLiveVPN\<close> succeeds: when the preparation, the reset
  exchange and the TLS handshake succeed, the server answers the client's key method with its own half
  and the push request with its options in up to 16 messages, the returned session has exactly the
  pushed addresses, peer id and cipher and the four keys of the OpenVPN key expansion of both halves.
\<close>

theorem session_with_honest_server:
  assumes "prepare_session env fs path = Some (Ok (ep, idt, trust), fs')"
    and "dialControlUDP (se_udp env) ep = Ok (cc, lat, sent)"
    and "tls_Handshake env (tlsConfigForGateway (se_x509 env) trust ep idt) cc = None"
      "\<forall>ms m. tls_Write env ms m = None"
    and "randomClientKeySource (se_rand env) = Ok src" "marshalClientKeyMethod src ep = Ok km"
    and "server_half_ok rec" "tls_recv env [km] = server_half rec"
    and "tls_recv env [km, push_request] = concat (map nul_message (push_messages mark cs)) @ rest"
      "cs \<noteq> []" "length cs \<le> 16" "\<forall>c \<in> set cs. \<forall>opt \<in> set c. option_ok opt \<and> \<not> marker opt"
      "mark = [] \<or> mark = [''push-continuation 1'']" "\<forall>m \<in> set (push_messages mark cs). length m \<le> 256 * 1024"
    and "concat cs = pre @ session_options ip netmask dns peer" "\<forall>opt \<in> set pre. other_option opt"
      "length ip = 4" "length netmask = 4" "length dns = 4" "peer < 2 ^ 24"
  shows "establishLiveVPN env fs path = Some (Ok \<lparr>vEndpoint = ep, vControl = Some (tls_conn env cc),
      vSession = \<lparr>psIPv4 = Some ip, psNetmask = Some netmask, psDNS = Some dns, psPeerID = of_nat peer,
        psCipher = ''AES-256-GCM''\<rparr>,
      vKeys = session_keys src (Source rec) (localSID cc) (remoteSID cc), vResetLatency = lat\<rparr>, True, fs')"
  using assms by (rule honest_session)

section \<open>A concrete session\<close>

definition sample_server :: keyMethodRecord where
  "sample_server = \<lparr>Source = zero_source\<lparr>Random1 := replicate 32 1, Random2 := replicate 32 2\<rparr>,
     Options = ''V4'', Username = '''', Password = '''', PeerInfo = ''''\<rparr>"

definition sample_chunks :: "string list list" where
  "sample_chunks = [[''ifconfig 1.2.3.4 5.5.0.0'', ''dhcp-option DNS 1.2.3.1''], [''peer-id 7'', ''cipher AES-256-GCM'']]"

definition sample_session :: session_env where
  "sample_session = \<lparr>se_web = sample_web, se_os = sample_os, se_x509 = sample_x509, se_ctxErr = EOF,
     se_net = second_answers, se_net2 = (\<lambda>i s. reset_env reset_reply), se_udp = reset_env reset_reply,
     se_rand = (\<lambda>i n. Ok (replicate n 7)), tls_Handshake = (\<lambda>cfg cc. Verify_fn cfg [sample_cert [3]]),
     tls_peer = (\<lambda>cc. [sample_cert [3]]), tls_conn = (\<lambda>cc. cc), tls_Write = (\<lambda>ms m. None),
     tls_recv = (\<lambda>ms. if length ms = 1 then server_half sample_server
       else concat (map nul_message (push_messages [] sample_chunks))), tls_endErr = EOF\<rparr>"

lemma sample_options: "concat sample_chunks = [] @ session_options [1, 2, 3, 4] [5, 5, 0, 0] [1, 2, 3, 1] 7"
  by code_simp

lemma sample_chunks_ok:
  "\<forall>c \<in> set sample_chunks. \<forall>opt \<in> set c. option_ok opt \<and> \<not> marker opt"
  "\<forall>m \<in> set (push_messages [] sample_chunks). length m \<le> 256 * 1024"
  by (simp_all add: sample_chunks_def option_ok_def marker_def plain_char_def HasPrefix_def render_push_def)

lemma sample_laws: "verify_law sample_x509" "tls_law sample_session"
  by (rule sample_verify_law) (simp add: tls_law_def sample_session_def)

lemma sample_prepared:
  "\<exists>fs'. prepare_session sample_session Map.empty ''d/i'' = Some (Ok (udp_at 80, sample_identity, sample_trust), fs')"
proof -
  have "API_service sample_web = Ok two_port_service"
    by (simp add: API_service_def API_get_def sample_web_def http_ok_def ReadAll_limited_def two_port_service_def)
  moreover have "bestWireEndpoint EOF second_answers (\<lambda>i s. reset_env reset_reply) two_port_service = Ok (udp_at 80)"
    using sample_best by blast
  ultimately show ?thesis
    using sample_fetched sample_trust_loaded by (auto simp: prepare_session_def sample_session_def)
qed

lemma sample_dialled:
  "\<exists>cc lat sent. dialControlUDP (reset_env reset_reply) (udp_at 80) = Ok (cc, lat, sent)"
proof -
  have "(case dialControlUDP (reset_env reset_reply) (udp_at 80) of Ok _ \<Rightarrow> True | _ \<Rightarrow> False)" by code_simp
  then show ?thesis by (auto split: result.splits)
qed

lemma sample_handshake:
  "tls_Handshake sample_session (tlsConfigForGateway (se_x509 sample_session) sample_trust (udp_at 80) sample_identity) cc = None"
proof -
  have "expectedCN (udp_at 80) = ''h''" by (simp add: expectedCN_def udp_at_def)
  then show ?thesis
    by (simp add: sample_session_def tlsConfigForGateway_def VerifyConnection_None_iff sample_x509_def sample_trust_def sample_cert_def)
qed

lemma sample_key_source:
  "\<exists>src km. randomClientKeySource (se_rand sample_session) = Ok src \<and> marshalClientKeyMethod src (udp_at 80) = Ok km"
  by (simp add: sample_session_def randomClientKeySource_def marshalClientKeyMethod_eq)

lemma sample_server_ok: "server_half_ok sample_server"
  by (simp add: server_half_ok_def sample_server_def wf_source_def zero_source_def ovpn_ok_def)

lemma sample_answers:
  "tls_recv sample_session [km] = server_half sample_server"
  "tls_recv sample_session [km, push_request] = concat (map nul_message (push_messages [] sample_chunks)) @ []"
  "\<forall>ms m. tls_Write sample_session ms m = None"
  by (simp_all add: sample_session_def)

theorem session_with_honest_server_witness:
  "\<exists>vpn fs'. establishLiveVPN sample_session Map.empty ''d/i'' = Some (Ok vpn, True, fs')
    \<and> psIPv4 (vSession vpn) = Some [1, 2, 3, 4] \<and> psPeerID (vSession vpn) = 7"
proof -
  obtain fs' where p: "prepare_session sample_session Map.empty ''d/i'' = Some (Ok (udp_at 80, sample_identity, sample_trust), fs')"
    using sample_prepared by blast
  obtain cc lat sent where d: "dialControlUDP (se_udp sample_session) (udp_at 80) = Ok (cc, lat, sent)"
    using sample_dialled by (auto simp: sample_session_def)
  obtain src km where k: "randomClientKeySource (se_rand sample_session) = Ok src" "marshalClientKeyMethod src (udp_at 80) = Ok km"
    using sample_key_source by blast
  note run = session_with_honest_server [OF p d sample_handshake sample_answers(3) k sample_server_ok
      sample_answers(1,2) _ _ sample_chunks_ok(1) _ sample_chunks_ok(2) sample_options]
  show ?thesis by (rule exI, rule exI, rule conjI, rule run) (simp_all add: sample_chunks_def)
qed

lemma sample_established:
  "\<exists>vpn fs'. establishLiveVPN sample_session Map.empty ''d/i'' = Some (Ok vpn, True, fs')"
proof -
  obtain fs' where p: "prepare_session sample_session Map.empty ''d/i'' = Some (Ok (udp_at 80, sample_identity, sample_trust), fs')"
    using sample_prepared by blast
  obtain cc lat sent where d: "dialControlUDP (se_udp sample_session) (udp_at 80) = Ok (cc, lat, sent)"
    using sample_dialled by (auto simp: sample_session_def)
  obtain src km where k: "randomClientKeySource (se_rand sample_session) = Ok src" "marshalClientKeyMethod src (udp_at 80) = Ok km"
    using sample_key_source by blast
  note run = honest_session [OF p d sample_handshake sample_answers(3) k sample_server_ok
      sample_answers(1,2) _ _ sample_chunks_ok(1) _ sample_chunks_ok(2) sample_options]
  show ?thesis by (rule exI, rule exI, rule run) (simp_all add: sample_chunks_def)
qed

theorem established_session_authentic_witness:
  "\<exists>vpn fs'. establishLiveVPN sample_session Map.empty ''d/i'' = Some (Ok vpn, True, fs') \<and> live_ok vpn
    \<and> Protocol (vEndpoint vpn) = ''udp''"
proof -
  obtain vpn fs' where e: "establishLiveVPN sample_session Map.empty ''d/i'' = Some (Ok vpn, True, fs')"
    using sample_established by blast
  have "verify_law (se_x509 sample_session)" using sample_laws(1) by (simp add: sample_session_def)
  with established_session_authentic [OF e sample_laws(2)] e show ?thesis by blast
qed

end
