(* ===== verification/Netlink.thy ===== *)
theory Netlink
  imports Go_Net
begin

text \<open>
  Configuring the TUN device through netlink, \<^verbatim>\<open>tun_linux.go\<close>: the construction of requests and attributes,
  the exchange with the kernel, and the configuration of the interface in the namespace.  Native byte order
  is little-endian (the platforms the program is built for).  A datagram the kernel sends is a list of
  bytes; \<^verbatim>\<open>syscall.ParseNetlinkMessage\<close> is written out
  (\<open>None\<close> for its only error, EINVAL).
\<close>

section \<open>Native byte order\<close>

definition ne16 :: "u16 \<Rightarrow> bytes" where
  "ne16 w = [ucast w, ucast (drop_bit 8 w)]"

definition ne32 :: "u32 \<Rightarrow> bytes" where
  "ne32 w = [ucast w, ucast (drop_bit 8 w), ucast (drop_bit 16 w), ucast (drop_bit 24 w)]"

definition ne16_at :: "bytes \<Rightarrow> nat \<Rightarrow> u16" where
  "ne16_at b i = word16_be (b ! (i + 1)) (b ! i)"

definition ne32_at :: "bytes \<Rightarrow> nat \<Rightarrow> u32" where
  "ne32_at b i = word32_be (b ! (i + 3)) (b ! (i + 2)) (b ! (i + 1)) (b ! i)"

lemma length_ne [simp]: "length (ne16 w) = 2" "length (ne32 v) = 4"
  by (simp_all add: ne16_def ne32_def)

lemma ne_at [simp]:
  "length pre = i \<Longrightarrow> ne16_at (pre @ ne16 w @ post) i = w"
  "length pre = i \<Longrightarrow> ne32_at (pre @ ne32 v @ post) i = v"
  by (auto simp: ne16_at_def ne32_at_def ne16_def ne32_def nth_append)

section \<open>The TUN device\<close>

definition iff_flags :: u16 where
  "iff_flags = 0x0001 OR 0x1000"

definition tun_ifreq :: "string \<Rightarrow> bytes" where
  "tun_ifreq name = copy_at (copy_at (replicate 40 0) 0 (take 16 (bytes_of_string name))) 16 (ne16 iff_flags)"

text \<open>
  \<open>openErr\<close> is the outcome of opening \<^verbatim>\<open>/dev/net/tun\<close>; \<open>ioctl\<close> gives the request as the kernel left it.
  The result is the actual name and whether the file is still open.
\<close>

definition createTUN :: "go_error option \<Rightarrow> (bytes \<Rightarrow> go_error + bytes) \<Rightarrow> string \<Rightarrow> (go_error + string) \<times> bool" where
  "createTUN openErr ioctl name =
     (if length name = 0 \<or> length name \<ge> 16 then (Inl (ErrorsNew ''TUN name must be 1..15 bytes''), False)
      else case openErr of Some e \<Rightarrow> (Inl e, False) | None \<Rightarrow>
      case ioctl (tun_ifreq name) of
        Inl e \<Rightarrow> (Inl e, False)
      | Inr ifr \<Rightarrow> (Inr (string_of_bytes (rev (dropWhile (\<lambda>b. b = 0) (rev (take 16 ifr))))), True))"

section \<open>Requests\<close>

definition nlAlign :: "nat \<Rightarrow> nat" where
  "nlAlign n = nat ((int n + 3) AND NOT 3)"

lemma nlAlign_eq: "nlAlign n = 4 * ((n + 3) div 4)"
proof -
  have "(int n + 3) AND NOT 3 = push_bit 2 (drop_bit 2 (int n + 3))"
  proof (rule bit_eqI)
    fix i
    have 3: "(3 :: int) = mask 2" by (simp add: mask_eq_exp_minus_1)
    show "bit ((int n + 3) AND NOT 3) i = bit (push_bit 2 (drop_bit 2 (int n + 3))) i"
    proof (cases "2 \<le> i")
      case True
      then obtain j where "i = 2 + j" using le_Suc_ex by blast
      then show ?thesis unfolding 3 by (simp add: bit_simps)
    next
      case False
      then show ?thesis unfolding 3 by (simp add: bit_simps)
    qed
  qed
  also have "\<dots> = int (4 * ((n + 3) div 4))"
    by (simp add: push_bit_eq_mult drop_bit_eq_div zdiv_int)
  finally show ?thesis by (simp only: nlAlign_def nat_int)
qed

lemma nlAlign_bounds: "n \<le> nlAlign n" "nlAlign n < n + 4" "4 dvd nlAlign n"
  by (simp_all add: nlAlign_eq)

definition nlAttr :: "u16 \<Rightarrow> bytes \<Rightarrow> bytes" where
  "nlAttr typ data =
     (let n = 4 + length data; out = replicate (nlAlign n) 0 in
      copy_at (copy_at (copy_at out 0 (ne16 (of_nat n))) 2 (ne16 typ)) 4 data)"

record nlmsghdr =
  nlLen :: u32
  nlType :: u16
  nlFlags :: u16
  nlSeq :: u32
  nlPid :: u32

definition marshal_hdr :: "nlmsghdr \<Rightarrow> bytes" where
  "marshal_hdr h = ne32 (nlLen h) @ ne16 (nlType h) @ ne16 (nlFlags h) @ ne32 (nlSeq h) @ ne32 (nlPid h)"

definition nl_request :: "u16 \<Rightarrow> u16 \<Rightarrow> u32 \<Rightarrow> bytes \<Rightarrow> bytes list \<Rightarrow> bytes" where
  "nl_request msgType flags seq payload attrs =
     (let total = 16 + length payload + sum_list (map length attrs) in
      marshal_hdr \<lparr>nlLen = of_nat total, nlType = msgType, nlFlags = flags, nlSeq = seq, nlPid = 0\<rparr>
      @ payload @ concat attrs)"

section \<open>Replies\<close>

record netlinkMessage =
  nmHeader :: nlmsghdr
  nmData :: bytes

definition hdr_at :: "bytes \<Rightarrow> nlmsghdr" where
  "hdr_at b = \<lparr>nlLen = ne32_at b 0, nlType = ne16_at b 4, nlFlags = ne16_at b 6, nlSeq = ne32_at b 8, nlPid = ne32_at b 12\<rparr>"

function parseNetlinkMessage :: "bytes \<Rightarrow> netlinkMessage list option" where
  "parseNetlinkMessage b =
     (if length b \<ge> 16 then
        let h = hdr_at b; n = unat (nlLen h); l = nlAlign n in
        if n < 16 \<or> l > length b then None
        else map_option (\<lambda>ms. \<lparr>nmHeader = h, nmData = take (n - 16) (drop 16 b)\<rparr> # ms) (parseNetlinkMessage (drop l b))
      else Some [])"
  by pat_completeness auto
termination
proof (relation "measure length", simp)
  fix b :: bytes and h n l
  assume "16 \<le> length b" "n = unat (nlLen h)" "l = nlAlign n" "\<not> (n < 16 \<or> l > length b)"
  then have "16 \<le> l" by (auto simp: nlAlign_eq)
  with \<open>16 \<le> length b\<close> show "(drop l b, b) \<in> measure length" by auto
qed

declare parseNetlinkMessage.simps [simp del]

text \<open>What \<^verbatim>\<open>nlDo\<close> returns on account of a message, and of the messages of a datagram: \<open>None\<close> to go on.\<close>

definition answer :: "u32 \<Rightarrow> netlinkMessage \<Rightarrow> go_error option option" where
  "answer seq m =
     (if nlSeq (nmHeader m) \<noteq> seq then None
      else if nlType (nmHeader m) = 2 then
        Some (if length (nmData m) < 4 then Some (ErrorsNew ''short netlink error'')
              else let code = ne32_at (nmData m) 0 in
                   if code = 0 then None else Some (Errorf ''errno %d'' [ArgI (- sint code)]))
      else if nlType (nmHeader m) = 3 then Some None
      else None)"

primrec answers :: "u32 \<Rightarrow> netlinkMessage list \<Rightarrow> go_error option option" where
  "answers seq [] = None"
| "answers seq (m # ms) = (case answer seq m of None \<Rightarrow> answers seq ms | Some r \<Rightarrow> Some r)"

text \<open>
  The receive loop over what the socket delivers; \<open>None\<close> while the kernel has not answered (the call blocks).
\<close>

primrec nl_wait :: "u32 \<Rightarrow> (bytes + go_error) list \<Rightarrow> go_error option option" where
  "nl_wait seq [] = None"
| "nl_wait seq (r # reads) =
     (case r of
        Inr e \<Rightarrow> Some (Some e)
      | Inl dgram \<Rightarrow>
          (case parseNetlinkMessage (take 8192 dgram) of
             None \<Rightarrow> Some (Some (SysErr ''EINVAL''))
           | Some ms \<Rightarrow> (case answers seq ms of Some out \<Rightarrow> Some out | None \<Rightarrow> nl_wait seq reads)))"

text \<open>One exchange: the clock that gives the sequence number, the calls that may fail and the kernel's datagrams.\<close>

record nl_env =
  nl_socketErr :: "go_error option"
  nl_bindErr :: "go_error option"
  nl_now :: nat
  nl_sendErr :: "go_error option"
  nl_replies :: "bytes \<Rightarrow> (bytes + go_error) list"

text \<open>The request handed to the kernel, if it came to that, and the outcome.\<close>

definition nlDo :: "nl_env \<Rightarrow> u16 \<Rightarrow> u16 \<Rightarrow> bytes \<Rightarrow> bytes list \<Rightarrow> (bytes list \<times> go_error option) option" where
  "nlDo env msgType flags payload attrs =
     (case nl_socketErr env of Some e \<Rightarrow> Some ([], Some e) | None \<Rightarrow>
      case nl_bindErr env of Some e \<Rightarrow> Some ([], Some e) | None \<Rightarrow>
      let seq = of_nat (nl_now env); req = nl_request msgType flags seq payload attrs in
      case nl_sendErr env of Some e \<Rightarrow> Some ([], Some e) | None \<Rightarrow>
      map_option (\<lambda>r. ([req], r)) (nl_wait seq (nl_replies env req)))"

section \<open>Configuring the interface\<close>

definition marshal_ifinfo :: "u32 \<Rightarrow> u32 \<Rightarrow> u32 \<Rightarrow> bytes" where
  "marshal_ifinfo index flags change = [0, 0] @ ne16 0 @ ne32 index @ ne32 flags @ ne32 change"

definition setLinkUp :: "nl_env \<Rightarrow> nat \<Rightarrow> (bytes list \<times> go_error option) option" where
  "setLinkUp env index = nlDo env 16 (0x0001 OR 0x0004) (marshal_ifinfo (of_nat index) 1 1) []"

definition setLinkMTU :: "nl_env \<Rightarrow> nat \<Rightarrow> u32 \<Rightarrow> (bytes list \<times> go_error option) option" where
  "setLinkMTU env index mtu =
     nlDo env 16 (0x0001 OR 0x0004) (marshal_ifinfo (of_nat index) 0 0) [nlAttr 4 (ne32 mtu)]"

definition addIPv4Address :: "nl_env \<Rightarrow> nat \<Rightarrow> bytes \<Rightarrow> byte \<Rightarrow> (bytes list \<times> go_error option) option" where
  "addIPv4Address env index ip prefix =
     (case To4 ip of
        None \<Rightarrow> Some ([], Some (ErrorsNew ''address is not IPv4''))
      | Some ip4 \<Rightarrow>
          nlDo env 20 (0x0001 OR 0x0004 OR 0x0400 OR 0x0100) ([2, prefix, 0, 0] @ ne32 (of_nat index))
            [nlAttr 2 ip4, nlAttr 1 ip4])"

definition addDefaultRouteToInterface :: "nl_env \<Rightarrow> nat \<Rightarrow> (bytes list \<times> go_error option) option" where
  "addDefaultRouteToInterface env index =
     nlDo env 24 (0x0001 OR 0x0004 OR 0x0400 OR 0x0100) ([2, 0, 0, 0, 254, 3, 253, 1] @ ne32 0)
       [nlAttr 4 (ne32 (of_nat index))]"

text \<open>\<open>and_then sent m wrap k\<close>: the requests so far, the next exchange, the wrapping of its error, what follows.\<close>

definition and_then ::
  "bytes list \<Rightarrow> (bytes list \<times> go_error option) option \<Rightarrow> string
    \<Rightarrow> (bytes list \<Rightarrow> (bytes list \<times> go_error option) option) \<Rightarrow> (bytes list \<times> go_error option) option" where
  "and_then sent m msg k =
     (case m of
        None \<Rightarrow> None
      | Some (req, Some e) \<Rightarrow> Some (sent @ req, Some (Wrapf msg e))
      | Some (req, None) \<Rightarrow> k (sent @ req))"

text \<open>\<open>env i\<close> is the world of the \<open>i\<close>-th exchange; \<open>byName\<close> is \<^verbatim>\<open>net.InterfaceByName\<close>.\<close>

definition configureTUNIPv4 ::
  "(nat \<Rightarrow> nl_env) \<Rightarrow> (string \<Rightarrow> nat + go_error) \<Rightarrow> string \<Rightarrow> bytes \<Rightarrow> byte \<Rightarrow> (bytes list \<times> go_error option) option" where
  "configureTUNIPv4 env byName name ip prefix =
     (case byName name of
        Inr e \<Rightarrow> Some ([], Some e)
      | Inl index \<Rightarrow>
          and_then [] (setLinkUp (env 0) index) ''link up: %w'' (\<lambda>sent.
          and_then sent (setLinkMTU (env 1) index 1280) ''mtu: %w'' (\<lambda>sent.
          and_then sent (addIPv4Address (env 2) index ip prefix) ''address: %w'' (\<lambda>sent.
          and_then sent (addDefaultRouteToInterface (env 3) index) ''default route: %w'' (\<lambda>sent.
          Some (sent, None))))))"

section \<open>How the kernel reads a request\<close>

text \<open>
  The format of RFC 3549: a header whose length covers the message, the fixed part of the type's family of
  messages, and attributes padded to four bytes.
\<close>

fun rta_parse :: "nat \<Rightarrow> bytes \<Rightarrow> (u16 \<times> bytes) list option" where
  "rta_parse fuel [] = Some []"
| "rta_parse 0 b = None"
| "rta_parse (Suc fuel) b =
     (if length b < 4 then None
      else let n = unat (ne16_at b 0) in
        if n < 4 \<or> nlAlign n > length b then None
        else map_option (\<lambda>as. (ne16_at b 2, take (n - 4) (drop 4 b)) # as) (rta_parse fuel (drop (nlAlign n) b)))"

record nl_view =
  kType :: u16
  kFlags :: u16
  kSeq :: u32
  kFixed :: bytes
  kAttrs :: "(u16 \<times> bytes) list"

definition kernel_reads :: "nat \<Rightarrow> bytes \<Rightarrow> nl_view option" where
  "kernel_reads fixed b =
     (if length b < 16 + fixed \<or> unat (ne32_at b 0) \<noteq> length b then None
      else map_option (\<lambda>as. \<lparr>kType = ne16_at b 4, kFlags = ne16_at b 6, kSeq = ne32_at b 8,
             kFixed = take fixed (drop 16 b), kAttrs = as\<rparr>) (rta_parse (length b) (drop (16 + fixed) b)))"

section \<open>What the kernel understands\<close>

lemma nlAttr_shape:
  "nlAttr typ data = ne16 (of_nat (4 + length data)) @ ne16 typ @ data
     @ replicate (nlAlign (4 + length data) - (4 + length data)) 0"
proof -
  let ?n = "4 + length data"
  obtain k where k: "nlAlign ?n = ?n + k" using nlAlign_bounds(1) [of ?n] le_Suc_ex by blast
  have r: "replicate (?n + k) (0 :: byte) = replicate 2 0 @ replicate 2 0 @ replicate (length data) 0 @ replicate k 0"
    by (simp add: numeral_eq_Suc replicate_add)
  show ?thesis
    unfolding nlAttr_def Let_def k r by (simp add: copy_at_def)
qed

lemma length_nlAttr: "length (nlAttr typ data) = nlAlign (4 + length data)"
  using nlAlign_bounds(1) [of "4 + length data"] by (simp add: nlAttr_shape)

lemma rta_parse_attrs:
  assumes "\<forall>(t, d) \<in> set attrs. length d < 65532" "length attrs \<le> fuel"
  shows "rta_parse fuel (concat (map (\<lambda>(t, d). nlAttr t d) attrs)) = Some attrs"
  using assms
proof (induction attrs arbitrary: fuel)
  case (Cons a attrs)
  obtain t d where a: "a = (t, d)" by (cases a)
  obtain f where f: "fuel = Suc f" "length attrs \<le> f" using Cons.prems(2) by (cases fuel) auto
  let ?rest = "concat (map (\<lambda>(t, d). nlAttr t d) attrs)"
  let ?b = "nlAttr t d @ ?rest"
  have d: "length d < 65532" using Cons.prems(1) a by auto
  have n: "unat (ne16_at ?b 0) = 4 + length d"
  proof -
    have "unat (of_nat (4 + length d) :: u16) = 4 + length d" by (subst unat_of_nat) (use d in simp)
    then show ?thesis unfolding nlAttr_shape append.assoc using ne_at(1) [of "[]" 0] by (simp only: append_Nil list.size)
  qed
  have t: "ne16_at ?b 2 = t"
    using ne_at(1) [of "ne16 (of_nat (4 + length d))" 2 t] by (simp add: nlAttr_shape)
  have dat: "take (length d) (drop 4 ?b) = d" by (simp add: nlAttr_shape)
  have rest: "drop (nlAlign (4 + length d)) ?b = ?rest" by (simp add: length_nlAttr)
  have len: "nlAlign (4 + length d) \<le> length ?b" "4 \<le> length ?b" "?b \<noteq> []"
    using nlAlign_bounds(1) [of "4 + length d"] by (auto simp: length_nlAttr simp flip: length_greater_0_conv)
  obtain c cs where b: "?b = c # cs" using len(3) by (cases ?b) auto
  have "rta_parse fuel ?b = map_option (\<lambda>as. (t, d) # as) (rta_parse f ?rest)"
    using len n t dat rest by (simp add: f(1) b Let_def)
  with Cons a f show ?case by simp
qed simp

lemma sum_lengths: "sum_list (map length xs) = length (concat xs)"
  by (simp add: length_concat)

lemma attrs_count: "length attrs \<le> length (concat (map (\<lambda>(t, d). nlAttr t d) attrs))"
proof (induction attrs)
  case (Cons a attrs)
  obtain t d where a: "a = (t, d)" by (cases a)
  have "1 \<le> length (nlAttr t d)" using nlAlign_bounds(1) [of "4 + length d"] by (simp add: length_nlAttr)
  then show ?case using Cons a by simp
qed simp

lemma kernel_reads_request:
  assumes "length payload = fixed" "\<forall>(t, d) \<in> set attrs. length d < 65532"
    and "16 + fixed + length (concat (map (\<lambda>(t, d). nlAttr t d) attrs)) < 2 ^ 32"
  shows "kernel_reads fixed (nl_request msgType flags seq payload (map (\<lambda>(t, d). nlAttr t d) attrs)) =
    Some \<lparr>kType = msgType, kFlags = flags, kSeq = seq, kFixed = payload, kAttrs = attrs\<rparr>"
proof -
  let ?as = "concat (map (\<lambda>(t, d). nlAttr t d) attrs)"
  let ?len = "ne32 (of_nat (16 + fixed + length ?as))"
  let ?b = "?len @ ne16 msgType @ ne16 flags @ ne32 seq @ ne32 0 @ payload @ ?as"
  have b: "nl_request msgType flags seq payload (map (\<lambda>(t, d). nlAttr t d) attrs) = ?b"
    unfolding nl_request_def Let_def marshal_hdr_def sum_lengths using assms(1) by simp
  have "unat (ne32_at ?b 0) = length ?b"
  proof -
    have "unat (of_nat (16 + fixed + length ?as) :: u32) = 16 + fixed + length ?as"
      by (subst unat_of_nat) (use assms(3) in simp)
    then show ?thesis using assms(1) ne_at(2) [of "[]" 0] by (simp only: append_Nil list.size) simp
  qed
  moreover have "ne16_at ?b 4 = msgType" "ne16_at ?b 6 = flags" "ne32_at ?b 8 = seq"
    using ne_at(1) [of ?len 4] ne_at(1) [of "?len @ ne16 msgType" 6]
      ne_at(2) [of "?len @ ne16 msgType @ ne16 flags" 8] by simp_all
  moreover have "rta_parse (length ?b) ?as = Some attrs"
    using assms(2) attrs_count [of attrs] by (intro rta_parse_attrs) auto
  ultimately show ?thesis
    using assms(1) unfolding b kernel_reads_def by simp
qed

text \<open>
  A request \<^verbatim>\<open>nlDo\<close> builds is read by the kernel as the message type, flags and sequence number given, the
  fixed part unchanged, and exactly the attributes given, each with its type and unpadded data.
\<close>

theorem netlink_request_roundtrip:
  assumes "length payload = fixed" "\<forall>(t, d) \<in> set attrs. length d < 65532"
    and "16 + fixed + length (concat (map (\<lambda>(t, d). nlAttr t d) attrs)) < 2 ^ 32"
  shows "kernel_reads fixed (nl_request msgType flags seq payload (map (\<lambda>(t, d). nlAttr t d) attrs)) =
    Some \<lparr>kType = msgType, kFlags = flags, kSeq = seq, kFixed = payload, kAttrs = attrs\<rparr>"
  using assms by (rule kernel_reads_request)

theorem netlink_request_roundtrip_witness:
  "kernel_reads 2 (nl_request 16 5 77 [1, 2] (map (\<lambda>(t, d). nlAttr t d) [(4, [9, 9, 9]), (1, [])])) =
    Some \<lparr>kType = 16, kFlags = 5, kSeq = 77, kFixed = [1, 2], kAttrs = [(4, [9, 9, 9]), (1, [])]\<rparr>"
  by (rule netlink_request_roundtrip) (simp_all add: length_nlAttr nlAlign_eq)

section \<open>The kernel's answer\<close>

text \<open>How the kernel puts messages into a datagram.\<close>

definition wf_message :: "netlinkMessage \<Rightarrow> bool" where
  "wf_message m \<longleftrightarrow> unat (nlLen (nmHeader m)) = 16 + length (nmData m)"

definition reply_bytes :: "netlinkMessage \<Rightarrow> bytes" where
  "reply_bytes m = (let n = 16 + length (nmData m) in
     marshal_hdr (nmHeader m) @ nmData m @ replicate (nlAlign n - n) 0)"

lemma length_reply: "length (reply_bytes m) = nlAlign (16 + length (nmData m))"
  using nlAlign_bounds(1) [of "16 + length (nmData m)"]
  by (simp add: reply_bytes_def marshal_hdr_def Let_def)

lemma hdr_at_marshal: "hdr_at (marshal_hdr h @ rest) = h"
proof -
  let ?b = "ne32 (nlLen h) @ ne16 (nlType h) @ ne16 (nlFlags h) @ ne32 (nlSeq h) @ ne32 (nlPid h) @ rest"
  have "ne32_at ?b 0 = nlLen h" "ne16_at ?b 4 = nlType h" "ne16_at ?b 6 = nlFlags h" "ne32_at ?b 8 = nlSeq h"
    "ne32_at ?b 12 = nlPid h"
    using ne_at(2) [of "[]" 0] ne_at(1) [of "ne32 (nlLen h)" 4]
      ne_at(1) [of "ne32 (nlLen h) @ ne16 (nlType h)" 6]
      ne_at(2) [of "ne32 (nlLen h) @ ne16 (nlType h) @ ne16 (nlFlags h)" 8]
      ne_at(2) [of "ne32 (nlLen h) @ ne16 (nlType h) @ ne16 (nlFlags h) @ ne32 (nlSeq h)" 12]
    by simp_all
  then show ?thesis by (simp add: hdr_at_def marshal_hdr_def)
qed

lemma message_eta: "\<lparr>nmHeader = nmHeader m, nmData = nmData m\<rparr> = m"
  by simp

lemma parse_replies:
  "\<forall>m \<in> set ms. wf_message m \<Longrightarrow> parseNetlinkMessage (concat (map reply_bytes ms)) = Some ms"
proof (induction ms)
  case Nil
  then show ?case by (simp add: parseNetlinkMessage.simps)
next
  case (Cons m ms)
  let ?b = "reply_bytes m @ concat (map reply_bytes ms)"
  have h: "hdr_at ?b = nmHeader m"
    unfolding reply_bytes_def Let_def by (simp add: hdr_at_marshal)
  have n: "unat (nlLen (nmHeader m)) = 16 + length (nmData m)" using Cons.prems by (simp add: wf_message_def)
  have len: "16 \<le> length ?b" "nlAlign (16 + length (nmData m)) \<le> length ?b"
    using nlAlign_bounds(1) [of "16 + length (nmData m)"] by (simp_all add: length_reply)
  have "take (length (nmData m)) (drop 16 ?b) = nmData m" by (simp add: reply_bytes_def Let_def marshal_hdr_def)
  moreover have "drop (nlAlign (16 + length (nmData m))) ?b = concat (map reply_bytes ms)" by (simp add: length_reply)
  ultimately have "parseNetlinkMessage ?b = map_option (\<lambda>l. m # l) (parseNetlinkMessage (concat (map reply_bytes ms)))"
    using len
    by (subst parseNetlinkMessage.simps)
      (simp add: h n Let_def del: drop_append take_append, simp only: message_eta)
  with Cons show ?case by simp
qed

definition ack_of :: "u32 \<Rightarrow> netlinkMessage \<Rightarrow> bool" where
  "ack_of seq m \<longleftrightarrow> nlSeq (nmHeader m) = seq \<and> nlType (nmHeader m) = 2 \<and> 4 \<le> length (nmData m)"

definition unrelated :: "u32 \<Rightarrow> netlinkMessage \<Rightarrow> bool" where
  "unrelated seq m \<longleftrightarrow> nlSeq (nmHeader m) \<noteq> seq \<or> nlType (nmHeader m) \<notin> {2, 3}"

lemma answers_skip: "\<forall>m \<in> set ms. unrelated seq m \<Longrightarrow> answers seq (ms @ ns) = answers seq ns"
  by (induction ms) (auto simp: answer_def unrelated_def)

lemma nl_wait_skip:
  "\<forall>ms \<in> set mss. length (concat (map reply_bytes ms)) \<le> 8192 \<and> (\<forall>m \<in> set ms. wf_message m \<and> unrelated seq m) \<Longrightarrow>
   nl_wait seq (map (\<lambda>ms. Inl (concat (map reply_bytes ms))) mss @ rs) = nl_wait seq rs"
proof (induction mss)
  case (Cons ms mss)
  have "parseNetlinkMessage (concat (map reply_bytes ms)) = Some ms"
    using Cons.prems by (intro parse_replies) auto
  moreover have "answers seq ms = None" using answers_skip [of ms seq "[]"] Cons.prems by simp
  ultimately show ?case using Cons by simp
qed simp

text \<open>
  The outcome of an exchange is the kernel's acknowledgement of this very request: whatever other messages
  the socket delivers before it, in other datagrams or in the same one, \<^verbatim>\<open>nlDo\<close> returns nil exactly when the
  code of the first acknowledgement with its sequence number is 0, and the errno it carries otherwise.
\<close>

theorem netlink_ack_decides:
  assumes "nl_socketErr env = None" "nl_bindErr env = None" "nl_sendErr env = None"
    and "\<forall>ms \<in> set noise. length (concat (map reply_bytes ms)) \<le> 8192
          \<and> (\<forall>m \<in> set ms. wf_message m \<and> unrelated (of_nat (nl_now env)) m)"
    and "\<forall>m \<in> set before. wf_message m \<and> unrelated (of_nat (nl_now env)) m"
    and "wf_message ack" "ack_of (of_nat (nl_now env)) ack" "\<forall>m \<in> set after. wf_message m"
    and "length (concat (map reply_bytes (before @ ack # after))) \<le> 8192"
    and "nl_replies env (nl_request msgType flags (of_nat (nl_now env)) payload attrs) =
          map (\<lambda>ms. Inl (concat (map reply_bytes ms))) noise
          @ Inl (concat (map reply_bytes (before @ ack # after))) # later"
  shows "nlDo env msgType flags payload attrs =
    Some ([nl_request msgType flags (of_nat (nl_now env)) payload attrs],
      let code = ne32_at (nmData ack) 0 in if code = 0 then None else Some (Errorf ''errno %d'' [ArgI (- sint code)]))"
proof -
  let ?seq = "of_nat (nl_now env) :: u32" and ?ms = "before @ ack # after"
  have p: "parseNetlinkMessage (concat (map reply_bytes ?ms)) = Some ?ms"
    using assms(5,6,8) by (intro parse_replies) auto
  have a: "answers ?seq ?ms = Some (let code = ne32_at (nmData ack) 0 in
      if code = 0 then None else Some (Errorf ''errno %d'' [ArgI (- sint code)]))"
    using assms(5,7) by (simp add: answers_skip answer_def ack_of_def Let_def)
  have "take 8192 (concat (map reply_bytes ?ms)) = concat (map reply_bytes ?ms)" using assms(9) by simp
  with p a have "nl_wait ?seq (Inl (concat (map reply_bytes ?ms)) # later) =
      Some (let code = ne32_at (nmData ack) 0 in if code = 0 then None else Some (Errorf ''errno %d'' [ArgI (- sint code)]))"
    by (simp only: nl_wait.simps sum.case option.case)
  then show ?thesis
    using assms(1-3,10) nl_wait_skip [OF assms(4)] by (simp only: nlDo_def option.case Let_def option.map)
qed

theorem netlink_ack_decides_witness:
  "nlDo \<lparr>nl_socketErr = None, nl_bindErr = None, nl_now = 7, nl_sendErr = None,
      nl_replies = (\<lambda>_. [Inl (reply_bytes \<lparr>nmHeader = \<lparr>nlLen = 16, nlType = 2, nlFlags = 0, nlSeq = 6, nlPid = 0\<rparr>, nmData = []\<rparr>),
        Inl (reply_bytes \<lparr>nmHeader = \<lparr>nlLen = 20, nlType = 2, nlFlags = 0, nlSeq = 7, nlPid = 0\<rparr>, nmData = [0xFF, 0xFF, 0xFF, 0xFF]\<rparr>)])\<rparr>
    16 5 [] [] = Some ([nl_request 16 5 7 [] []], Some (Errorf ''errno %d'' [ArgI 1]))"
proof -
  let ?old = "\<lparr>nmHeader = \<lparr>nlLen = 16, nlType = 2, nlFlags = 0, nlSeq = 6, nlPid = 0\<rparr>, nmData = []\<rparr>"
  let ?ack = "\<lparr>nmHeader = \<lparr>nlLen = 20, nlType = 2, nlFlags = 0, nlSeq = 7, nlPid = 0\<rparr>, nmData = [0xFF, 0xFF, 0xFF, 0xFF]\<rparr>"
  let ?env = "\<lparr>nl_socketErr = None, nl_bindErr = None, nl_now = 7, nl_sendErr = None,
      nl_replies = (\<lambda>_. [Inl (reply_bytes ?old), Inl (reply_bytes ?ack)])\<rparr>"
  have c: "ne32_at [0xFF, 0xFF, 0xFF, 0xFF] 0 = - 1" by (simp add: ne32_at_def word32_be_def)
  show ?thesis
    using netlink_ack_decides [of ?env "[[?old]]" "[]" ?ack "[]" 16 5 "[]" "[]" "[]"]
    by (simp add: length_reply nlAlign_eq wf_message_def unrelated_def ack_of_def c)
qed

section \<open>The configured interface\<close>

text \<open>The four requests, as the kernel reads them.\<close>

definition tun_views :: "(nat \<Rightarrow> nl_env) \<Rightarrow> nat \<Rightarrow> bytes \<Rightarrow> byte \<Rightarrow> nl_view list" where
  "tun_views env index ip4 prefix =
     [\<lparr>kType = 16, kFlags = 5, kSeq = of_nat (nl_now (env 0)), kFixed = marshal_ifinfo (of_nat index) 1 1, kAttrs = []\<rparr>,
      \<lparr>kType = 16, kFlags = 5, kSeq = of_nat (nl_now (env 1)), kFixed = marshal_ifinfo (of_nat index) 0 0,
        kAttrs = [(4, ne32 1280)]\<rparr>,
      \<lparr>kType = 20, kFlags = 0x505, kSeq = of_nat (nl_now (env 2)), kFixed = [2, prefix, 0, 0] @ ne32 (of_nat index),
        kAttrs = [(2, ip4), (1, ip4)]\<rparr>,
      \<lparr>kType = 24, kFlags = 0x505, kSeq = of_nat (nl_now (env 3)), kFixed = [2, 0, 0, 0, 254, 3, 253, 1] @ ne32 0,
        kAttrs = [(4, ne32 (of_nat index))]\<rparr>]"

definition sends :: "nat \<Rightarrow> nl_view \<Rightarrow> (bytes list \<times> go_error option) option \<Rightarrow> bool" where
  "sends fixed v m \<longleftrightarrow>
     (\<forall>req r. m = Some (req, r) \<longrightarrow> (req = [] \<and> r \<noteq> None) \<or> (\<exists>b. req = [b] \<and> kernel_reads fixed b = Some v))"

lemma nlDo_sends:
  assumes "length payload = fixed" "\<forall>(t, d) \<in> set attrs. length d < 65532"
    and "16 + fixed + length (concat (map (\<lambda>(t, d). nlAttr t d) attrs)) < 2 ^ 32"
  shows "sends fixed \<lparr>kType = msgType, kFlags = flags, kSeq = of_nat (nl_now env), kFixed = payload, kAttrs = attrs\<rparr>
    (nlDo env msgType flags payload (map (\<lambda>(t, d). nlAttr t d) attrs))"
  using kernel_reads_request [OF assms] by (auto simp: sends_def nlDo_def Let_def split: option.splits)

text \<open>The requests so far are the first ones of the expected list; a run that succeeds has sent them all.\<close>

definition on_track :: "nat list \<Rightarrow> nl_view list \<Rightarrow> bytes list \<Rightarrow> bool" where
  "on_track fixeds vs sent \<longleftrightarrow>
     length sent \<le> length vs \<and> (\<forall>i < length sent. kernel_reads (fixeds ! i) (sent ! i) = Some (vs ! i))"

definition tracked :: "nat list \<Rightarrow> nl_view list \<Rightarrow> (bytes list \<times> go_error option) option \<Rightarrow> bool" where
  "tracked fixeds vs m \<longleftrightarrow>
     (\<forall>sent err. m = Some (sent, err) \<longrightarrow> on_track fixeds vs sent \<and> (err = None \<longrightarrow> length sent = length vs))"

lemma tracked_and_then:
  assumes "on_track fixeds vs sent" "length sent = n" "n < length vs" "sends (fixeds ! n) (vs ! n) m"
    and "\<And>b. on_track fixeds vs (sent @ [b]) \<Longrightarrow> tracked fixeds vs (k (sent @ [b]))"
  shows "tracked fixeds vs (and_then sent m msg k)"
proof (cases m)
  case (Some p)
  obtain req r where p: "p = (req, r)" by (cases p)
  with Some assms(4) consider "req = []" "r \<noteq> None" | b where "req = [b]" "kernel_reads (fixeds ! n) b = Some (vs ! n)"
    by (auto simp: sends_def)
  then show ?thesis
  proof cases
    case 1
    with Some p assms(1) show ?thesis by (auto simp: and_then_def tracked_def)
  next
    case (2 b)
    then have "on_track fixeds vs (sent @ [b])"
      using assms(1-3) by (auto simp: on_track_def nth_append less_Suc_eq)
    with Some p 2 assms(5) show ?thesis
      by (cases r) (auto simp: and_then_def tracked_def)
  qed
qed (simp add: and_then_def tracked_def)

lemma steps_send:
  "sends 16 (tun_views env index ip4 prefix ! 0) (setLinkUp (env 0) index)"
  "sends 16 (tun_views env index ip4 prefix ! 1) (setLinkMTU (env 1) index 1280)"
  "sends 12 (tun_views env index ip4 prefix ! 3) (addDefaultRouteToInterface (env 3) index)"
proof -
  show "sends 16 (tun_views env index ip4 prefix ! 0) (setLinkUp (env 0) index)"
    using nlDo_sends [of "marshal_ifinfo (of_nat index) 1 1" 16 "[]"]
    by (simp add: setLinkUp_def tun_views_def marshal_ifinfo_def)
  show "sends 16 (tun_views env index ip4 prefix ! 1) (setLinkMTU (env 1) index 1280)"
    using nlDo_sends [of "marshal_ifinfo (of_nat index) 0 0" 16 "[(4, ne32 1280)]"]
    by (simp add: setLinkMTU_def tun_views_def marshal_ifinfo_def length_nlAttr nlAlign_eq)
  show "sends 12 (tun_views env index ip4 prefix ! 3) (addDefaultRouteToInterface (env 3) index)"
    using nlDo_sends [of "[2, 0, 0, 0, 254, 3, 253, 1] @ ne32 0" 12 "[(4, ne32 (of_nat index))]"]
    by (simp add: addDefaultRouteToInterface_def tun_views_def length_nlAttr nlAlign_eq)
qed

lemma address_sends:
  assumes "To4 ip = Some ip4"
  shows "sends 8 (tun_views env index ip4 prefix ! 2) (addIPv4Address (env 2) index ip prefix)"
proof -
  have "length ip4 = 4" using assms by (auto simp: To4_def split: if_splits)
  then show ?thesis
    using nlDo_sends [of "[2, prefix, 0, 0] @ ne32 (of_nat index)" 8 "[(2, ip4), (1, ip4)]"] assms
    by (simp add: addIPv4Address_def tun_views_def length_nlAttr nlAlign_eq)
qed

lemma tun_requests:
  assumes "configureTUNIPv4 env byName name ip prefix = Some (sent, err)"
    and "byName name = Inl index" and "To4 ip = Some ip4"
  shows "length sent \<le> 4 \<and> (err = None \<longrightarrow> length sent = 4)
    \<and> (\<forall>i < length sent. kernel_reads ([16, 16, 8, 12] ! i) (sent ! i) = Some (tun_views env index ip4 prefix ! i))"
proof -
  let ?vs = "tun_views env index ip4 prefix" and ?fs = "[16, 16, 8, 12]"
  have n: "length ?vs = 4" by (simp add: tun_views_def)
  have "tracked ?fs ?vs (configureTUNIPv4 env byName name ip prefix)"
    unfolding configureTUNIPv4_def assms(2) sum.case
    by (rule tracked_and_then [where n = 0], simp add: on_track_def, simp, simp add: n, simp add: steps_send,
        rule tracked_and_then [where n = 1], assumption, simp, simp add: n, simp add: steps_send [simplified],
        rule tracked_and_then [where n = 2], assumption, simp, simp add: n, simp add: address_sends assms(3),
        rule tracked_and_then [where n = 3], assumption, simp, simp add: n, simp add: steps_send,
        simp add: tracked_def n)
  with assms(1) show ?thesis by (auto simp: tracked_def on_track_def n)
qed

text \<open>
  C35. \<^verbatim>\<open>configureTUNIPv4\<close> asks the kernel for nothing but, in this order, to bring the interface up, to set its MTU to
  1280, to assign the session's address with its prefix and to route everything through it; it stops at
  the first request that fails, and reports success only after all four.
\<close>

theorem configureTUNIPv4_requests:
  assumes "configureTUNIPv4 env byName name ip prefix = Some (sent, err)"
    and "byName name = Inl index" and "To4 ip = Some ip4"
  shows "length sent \<le> 4 \<and> (err = None \<longrightarrow> length sent = 4)
    \<and> (\<forall>i < length sent. kernel_reads ([16, 16, 8, 12] ! i) (sent ! i) = Some (tun_views env index ip4 prefix ! i))"
  using assms by (rule tun_requests)

text \<open>A kernel that acknowledges every request with code 0.\<close>

definition ack_dgram :: "u32 \<Rightarrow> bytes" where
  "ack_dgram seq = reply_bytes \<lparr>nmHeader = \<lparr>nlLen = 20, nlType = 2, nlFlags = 0, nlSeq = seq, nlPid = 0\<rparr>, nmData = [0, 0, 0, 0]\<rparr>"

definition willing_kernel :: "nat \<Rightarrow> nl_env" where
  "willing_kernel i = \<lparr>nl_socketErr = None, nl_bindErr = None, nl_now = i, nl_sendErr = None,
     nl_replies = (\<lambda>_. [Inl (ack_dgram (of_nat i))])\<rparr>"

lemma willing_ack: "nlDo (willing_kernel i) t f p as = Some ([nl_request t f (of_nat i) p as], None)"
proof -
  let ?m = "\<lparr>nmHeader = \<lparr>nlLen = 20, nlType = 2, nlFlags = 0, nlSeq = of_nat i, nlPid = 0\<rparr>, nmData = [0, 0, 0, 0]\<rparr>"
  have "parseNetlinkMessage (ack_dgram (of_nat i)) = Some [?m]"
    using parse_replies [of "[?m]"] by (simp add: ack_dgram_def wf_message_def)
  moreover have "length (ack_dgram (of_nat i)) \<le> 8192"
    by (simp add: ack_dgram_def length_reply nlAlign_eq)
  moreover have "ne32_at [0, 0, 0, 0] 0 = 0" by (simp add: ne32_at_def word32_be_def)
  ultimately show ?thesis by (simp add: nlDo_def willing_kernel_def answer_def)
qed

theorem configureTUNIPv4_requests_witness:
  "\<exists>sent. configureTUNIPv4 willing_kernel (\<lambda>_. Inl 2) ''disfree0'' [10, 8, 0, 2] 24 = Some (sent, None)
    \<and> length sent = 4 \<and> kernel_reads 8 (sent ! 2) = Some (tun_views willing_kernel 2 [10, 8, 0, 2] 24 ! 2)"
proof -
  have ip: "To4 [10, 8, 0, 2] = Some [10, 8, 0, 2]" by (simp add: To4_def)
  obtain sent where s: "configureTUNIPv4 willing_kernel (\<lambda>_. Inl 2) ''disfree0'' [10, 8, 0, 2] 24 = Some (sent, None)"
    by (simp add: configureTUNIPv4_def and_then_def setLinkUp_def setLinkMTU_def addIPv4Address_def
        addDefaultRouteToInterface_def willing_ack ip)
  have *: "length sent = 4"
    "\<forall>i < length sent. kernel_reads ([16, 16, 8, 12] ! i) (sent ! i) = Some (tun_views willing_kernel 2 [10, 8, 0, 2] 24 ! i)"
    using configureTUNIPv4_requests [OF s refl ip] by simp_all
  have "kernel_reads ([16, 16, 8, 12] ! 2) (sent ! 2) = Some (tun_views willing_kernel 2 [10, 8, 0, 2] 24 ! 2)"
    using *(2) [rule_format, of 2] *(1) by linarith
  then show ?thesis using s *(1) by simp
qed

end
