(* ===== verification/TunBridge.thy ===== *)
theory TunBridge
  imports LiveVPN DataChannel FlowManager Netlink
begin

text \<open>
  The Linux tunnel, \<^verbatim>\<open>vpntun_linux.go\<close>: handing the TUN descriptor from the namespace to the parent, and the
  bridge between the TUN device and the data channel.  A goroutine's loop is a function of the list of what its
  rounds meet (the clock, the context, what a read returns); the context of a round is checked once.
\<close>

section \<open>Passing the descriptor\<close>

text \<open>
  What \<^verbatim>\<open>Recvmsg\<close> returns: an error, or the number of bytes, the byte, and the control messages as
  \<^verbatim>\<open>ParseSocketControlMessage\<close> and \<^verbatim>\<open>ParseUnixRights\<close> read them.
\<close>

type_synonym rights = "nat list + go_error"
type_synonym recvmsg = "(nat \<times> byte \<times> (rights list + go_error)) + go_error"

primrec first_fd :: "rights list \<Rightarrow> go_error + nat" where
  "first_fd [] = Inl (ErrorsNew ''TUN fd not present in SCM_RIGHTS'')"
| "first_fd (m # ms) =
     (case m of
        Inr e \<Rightarrow> Inl e
      | Inl fds \<Rightarrow> (if length fds > 0 then Inr (fds ! 0) else first_fd ms))"

definition recvFD :: "recvmsg \<Rightarrow> go_error + nat" where
  "recvFD r =
     (case r of
        Inr e \<Rightarrow> Inl e
      | Inl (n, b, scm) \<Rightarrow>
          (if n \<noteq> 1 \<or> b \<noteq> 0x54 then Inl (ErrorsNew ''invalid TUN fd transfer marker'')
           else case scm of Inr e \<Rightarrow> Inl e | Inl msgs \<Rightarrow> first_fd msgs))"

abbreviation (input) EAGAIN :: go_error where "EAGAIN \<equiv> SysErr ''EAGAIN''"

text \<open>What the \<^verbatim>\<open>select\<close> after an empty read takes.\<close>

datatype wake = ChildDone "go_error option" | CtxDone go_error | Tick

text \<open>\<open>None\<close>: still polling after the given rounds.\<close>

fun recvFD_loop :: "string \<Rightarrow> (recvmsg \<times> wake) list \<Rightarrow> (go_error + nat) option" where
  "recvFD_loop childOut [] = None"
| "recvFD_loop childOut ((r, w) # rounds) =
     (case recvFD r of
        Inr fd \<Rightarrow> Some (Inr fd)
      | Inl e \<Rightarrow>
          (if e \<noteq> EAGAIN then Some (Inl e)
           else case w of
             ChildDone None \<Rightarrow> Some (Inl (Errorf ''isolated child exited before sending TUN fd: %s'' [ArgS childOut]))
           | ChildDone (Some ce) \<Rightarrow>
               Some (Inl (Wrapf (''isolated child exited before sending TUN fd: %w'' @ childOut) ce))
           | CtxDone e \<Rightarrow> Some (Inl e)
           | Tick \<Rightarrow> recvFD_loop childOut rounds))"

definition recvFDWithChild :: "go_error option \<Rightarrow> string \<Rightarrow> (recvmsg \<times> wake) list \<Rightarrow> (go_error + nat) option" where
  "recvFDWithChild nonblockErr childOut rounds =
     (case nonblockErr of
        Some e \<Rightarrow> Some (Inl (Wrapf ''fd-pass nonblock: %w'' e))
      | None \<Rightarrow> recvFD_loop childOut rounds)"

section \<open>Starting the child\<close>

text \<open>
  The calls of \<^verbatim>\<open>launchVPNTunChild\<close> and \<^verbatim>\<open>launchVPNAppChild\<close> that may fail; \<open>pair\<close> is the socket pair.  The
  result is the parent's end or the error, with the descriptors the parent closed, in order.
\<close>

record launch_env =
  socketpair :: "(nat \<times> nat) + go_error"
  executableErr :: "go_error option"
  startErr :: "go_error option"

definition launchVPNTunChild :: "launch_env \<Rightarrow> (nat + go_error) \<times> nat list" where
  "launchVPNTunChild env =
     (case socketpair env of
        Inr e \<Rightarrow> (Inr e, [])
      | Inl (p0, p1) \<Rightarrow>
          (case executableErr env of
             Some e \<Rightarrow> (Inr e, [p0, p1])
           | None \<Rightarrow>
               (case startErr env of
                  Some e \<Rightarrow> (Inr e, [p1, p0, p1])
                | None \<Rightarrow> (Inl p0, [p1]))))"

definition launchVPNAppChild :: "launch_env \<Rightarrow> (nat + go_error) \<times> nat list" where
  "launchVPNAppChild env =
     (case socketpair env of
        Inr e \<Rightarrow> (Inr e, [])
      | Inl (p0, p1) \<Rightarrow>
          (case executableErr env of
             Some e \<Rightarrow> (Inr e, [p0, p1])
           | None \<Rightarrow>
               (case startErr env of
                  Some e \<Rightarrow> (Inr e, [p1, p0])
                | None \<Rightarrow> (Inl p0, [p1]))))"

section \<open>From the TUN device to the gateway\<close>

text \<open>\<open>up_sent\<close> are the datagrams handed to the socket, also those whose write failed.\<close>

record up_state =
  up_packetID :: u32
  up_lastSend :: int
  up_toVPN :: u64
  up_sent :: "bytes list"

definition up_start :: "int \<Rightarrow> up_state" where
  "up_start now = \<lparr>up_packetID = 0, up_lastSend = now, up_toVPN = 0, up_sent = []\<rparr>"

text \<open>One round: the clock, whether the context is done, what the TUN read returns, the error of a write.\<close>

record up_event =
  ue_now :: int
  ue_done :: bool
  ue_read :: "bytes + go_error"
  ue_write :: "bytes \<Rightarrow> go_error option"

definition sendPayload ::
  "pushedSession \<Rightarrow> dataKeyBlock \<Rightarrow> up_event \<Rightarrow> bytes \<Rightarrow> up_state \<Rightarrow> (go_error option \<times> up_state) result" where
  "sendPayload ps keys ev payload st =
     (let st = st\<lparr>up_packetID := up_packetID st + 1\<rparr> in
      then_do (slice_go (ClientCipher keys) 0 32) (\<lambda>k.
      match_err (encryptDataV2 (psPeerID ps) 0 (up_packetID st) k (ClientHMAC keys) payload)
        (\<lambda>err. Ok (Some err, st)) (\<lambda>enc.
      let st = st\<lparr>up_sent := up_sent st @ [enc]\<rparr> in
      case ue_write ev enc of
        Some err \<Rightarrow> Ok (Some (Wrapf ''VPN UDP write: %w'' err), st)
      | None \<Rightarrow> Ok (None, st\<lparr>up_lastSend := ue_now ev, up_toVPN := up_toVPN st + 1\<rparr>))))"

text \<open>The second component: \<open>Some r\<close> when the goroutine ended with \<open>r\<close> on \<^verbatim>\<open>errCh\<close>.\<close>

definition up_read :: "pushedSession \<Rightarrow> dataKeyBlock \<Rightarrow> up_event \<Rightarrow> up_state \<Rightarrow> (go_error option option \<times> up_state) result" where
  "up_read ps keys ev st =
     (case ue_read ev of
        Inr err \<Rightarrow>
          (if err = EAGAIN then Ok (None, st) else Ok (Some (Some (Wrapf ''TUN read: %w'' err)), st))
      | Inl pkt \<Rightarrow>
          (let b = take 65535 pkt in
           if length b = 0 then Ok (None, st)
           else then_do (sendPayload ps keys ev b st) (\<lambda>(err, st).
             case err of Some e \<Rightarrow> Ok (Some (Some e), st) | None \<Rightarrow> Ok (None, st))))"

definition up_round :: "pushedSession \<Rightarrow> dataKeyBlock \<Rightarrow> up_event \<Rightarrow> up_state \<Rightarrow> (go_error option option \<times> up_state) result" where
  "up_round ps keys ev st =
     (if ue_done ev then Ok (Some None, st)
      else
        then_do
          (if ue_now ev - up_lastSend st \<ge> 10000000000 then sendPayload ps keys ev pingPayload st else Ok (None, st))
          (\<lambda>(err, st). case err of Some e \<Rightarrow> Ok (Some (Some e), st) | None \<Rightarrow> up_read ps keys ev st))"

primrec up_loop ::
  "pushedSession \<Rightarrow> dataKeyBlock \<Rightarrow> up_event list \<Rightarrow> up_state \<Rightarrow> (go_error option option \<times> up_state) result" where
  "up_loop ps keys [] st = Ok (None, st)"
| "up_loop ps keys (ev # evs) st =
     then_do (up_round ps keys ev st) (\<lambda>(r, st).
     case r of Some report \<Rightarrow> Ok (Some report, st) | None \<Rightarrow> up_loop ps keys evs st)"

section \<open>From the gateway to the TUN device\<close>

record dn_event =
  de_done :: bool
  de_read :: "bytes + go_error"
  de_timeout :: bool
  de_write :: "bytes \<Rightarrow> go_error option"

text \<open>The packet a datagram carries for the TUN device, if any.\<close>

definition bridged_payload :: "dataKeyBlock \<Rightarrow> bytes \<Rightarrow> bytes option result" where
  "bridged_payload keys dgram =
     (let b = take 65535 dgram in
      if length b < 1 \<or> unat (drop_bit 3 (b ! 0)) \<noteq> openVPNDataV2Opcode then Ok None
      else
        then_do (slice_go (ServerCipher keys) 0 32) (\<lambda>k.
        match_err (decryptDataV2 b k (ServerHMAC keys)) (\<lambda>_. Ok None) (\<lambda>dec.
        if length (dPayload dec) = 0 then Ok None
        else
          then_do (index_go (dPayload dec) 0) (\<lambda>b0.
          let version = drop_bit 4 b0 in
          if version \<noteq> 4 \<and> version \<noteq> 6 then Ok None else Ok (Some (dPayload dec))))))"

text \<open>The packets written to the TUN device so far, and the report as above.\<close>

definition dn_round :: "dataKeyBlock \<Rightarrow> dn_event \<Rightarrow> bytes list \<Rightarrow> (go_error option option \<times> bytes list) result" where
  "dn_round keys ev written =
     (if de_done ev then Ok (Some None, written)
      else case de_read ev of
        Inr err \<Rightarrow>
          (if de_timeout ev then Ok (None, written) else Ok (Some (Some (Wrapf ''VPN UDP read: %w'' err)), written))
      | Inl dgram \<Rightarrow>
          then_do (bridged_payload keys dgram) (\<lambda>p.
          case p of
            None \<Rightarrow> Ok (None, written)
          | Some pkt \<Rightarrow>
              (case de_write ev pkt of
                 Some err \<Rightarrow> Ok (Some (Some (Wrapf ''TUN write: %w'' err)), written)
               | None \<Rightarrow> Ok (None, written @ [pkt]))))"

primrec dn_loop :: "dataKeyBlock \<Rightarrow> dn_event list \<Rightarrow> bytes list \<Rightarrow> (go_error option option \<times> bytes list) result" where
  "dn_loop keys [] written = Ok (None, written)"
| "dn_loop keys (ev # evs) written =
     then_do (dn_round keys ev written) (\<lambda>(r, written).
     case r of Some report \<Rightarrow> Ok (Some report, written) | None \<Rightarrow> dn_loop keys evs written)"

section \<open>No nonce is used twice\<close>

abbreviation up_seal :: "pushedSession \<Rightarrow> dataKeyBlock \<Rightarrow> u32 \<Rightarrow> bytes \<Rightarrow> bytes result" where
  "up_seal ps keys pid \<equiv> encryptDataV2 (psPeerID ps) 0 pid (take 32 (ClientCipher keys)) (ClientHMAC keys)"

definition numbered :: "pushedSession \<Rightarrow> dataKeyBlock \<Rightarrow> bytes list \<Rightarrow> bool" where
  "numbered ps keys sent \<longleftrightarrow> length sent < 2 ^ 32
     \<and> (\<forall>i < length sent. \<exists>payload. up_seal ps keys (of_nat (Suc i)) payload = Ok (sent ! i))"

definition up_inv :: "pushedSession \<Rightarrow> dataKeyBlock \<Rightarrow> up_state \<Rightarrow> bool" where
  "up_inv ps keys st \<longleftrightarrow> numbered ps keys (up_sent st) \<and> unat (up_packetID st) = length (up_sent st)"

text \<open>A step that goes on keeps the counter in line; one that ends has at least sent nothing wrong.\<close>

definition up_keeps :: "pushedSession \<Rightarrow> dataKeyBlock \<Rightarrow> ('a option \<times> up_state) result \<Rightarrow> bool" where
  "up_keeps ps keys r \<longleftrightarrow>
     returns_only (\<lambda>(ended, st). numbered ps keys (up_sent st) \<and> (ended = None \<longrightarrow> up_inv ps keys st)) r"

lemma up_keeps_simps [simp]:
  "up_keeps ps keys (Ok (Some x, st)) = numbered ps keys (up_sent st)"
  "up_keeps ps keys (Ok (None, st)) = up_inv ps keys st"
  "up_keeps ps keys (Error e)" "up_keeps ps keys (Panicked p)"
  by (auto simp: up_keeps_def up_inv_def)

lemma up_keeps_then:
  assumes "up_keeps ps keys m"
    and "\<And>x st. numbered ps keys (up_sent st) \<Longrightarrow> up_keeps ps keys (f (Some x, st))"
    and "\<And>st. up_inv ps keys st \<Longrightarrow> up_keeps ps keys (f (None, st))"
  shows "up_keeps ps keys (then_do m f)"
proof (cases m)
  case (Ok p)
  obtain ended st where p: "p = (ended, st)" by (cases p)
  with Ok assms show ?thesis by (cases ended) (auto simp: up_inv_def)
qed auto

lemma sendPayload_keeps:
  assumes "up_inv ps keys st"
  shows "up_keeps ps keys (sendPayload ps keys ev payload st)"
proof (cases "32 \<le> length (ClientCipher keys)")
  case True
  let ?pid = "up_packetID st + 1"
  have inv: "numbered ps keys (up_sent st)" "unat (up_packetID st) = length (up_sent st)"
    using assms by (auto simp: up_inv_def)
  show ?thesis
  proof (cases "up_seal ps keys ?pid payload")
    case (Ok enc)
    then have "?pid \<noteq> 0" by (auto simp: encryptDataV2_Ok_iff)
    then have u: "unat ?pid = Suc (length (up_sent st))" using inv(2) by (metis add.commute unatSuc)
    then have pid: "?pid = of_nat (Suc (length (up_sent st)))" by (metis of_nat_unat ucast_id)
    have "Suc (length (up_sent st)) < 2 ^ 32" using unsigned_less [of ?pid, where ?'a = nat] u by simp
    then have num: "numbered ps keys (up_sent st @ [enc])"
      using inv(1) Ok pid by (auto simp: numbered_def nth_append less_Suc_eq)
    show ?thesis
      using Ok num u True by (auto simp: sendPayload_def up_inv_def Let_def split: option.split)
  qed (use True inv in \<open>auto simp: sendPayload_def\<close>)
qed (simp add: sendPayload_def slice_go_def)

lemma up_round_keeps:
  assumes "up_inv ps keys st"
  shows "up_keeps ps keys (up_round ps keys ev st)"
proof -
  have read: "up_keeps ps keys (up_read ps keys ev s)" if "up_inv ps keys s" for s
    using that sendPayload_keeps [OF that, of ev]
    by (auto simp: up_read_def Let_def up_inv_def split: sum.split intro!: up_keeps_then)
  have num: "numbered ps keys (up_sent st)" using assms by (simp add: up_inv_def)
  have "up_keeps ps keys (if ue_now ev - up_lastSend st \<ge> 10000000000 then sendPayload ps keys ev pingPayload st else Ok (None, st))"
    using assms sendPayload_keeps by simp
  then show ?thesis unfolding up_round_def using num read by (auto intro!: up_keeps_then)
qed

lemma up_loop_keeps:
  assumes "up_inv ps keys st"
  shows "up_keeps ps keys (up_loop ps keys evs st)"
  using assms
proof (induction evs arbitrary: st)
  case (Cons ev evs)
  then show ?case using up_round_keeps [OF Cons.prems] by (auto intro!: up_keeps_then)
qed simp

lemma up_start_inv: "up_inv ps keys (up_start now)"
  by (simp add: up_inv_def numbered_def up_start_def)

lemma sealed_id: "up_seal ps keys pid payload = Ok enc \<Longrightarrow> u32_at enc 4 = pid"
  by (auto simp: encryptDataV2_Ok_iff intro!: u32_at_put)

lemma numbered_ids:
  assumes "numbered ps keys sent" "i < length sent"
  shows "u32_at (sent ! i) 4 = of_nat (Suc i)"
  using assms sealed_id by (auto simp: numbered_def)

text \<open>
  C8. On Linux no packet id, hence no GCM nonce, is ever used twice under a session's keys, however long the bridge
  runs: the \<open>i\<close>-th datagram handed to the socket is sealed under the id \<open>i\<close>, and when the 32-bit counter is used up
  the next packet is refused and the bridge ends instead of wrapping around.
\<close>

theorem bridge_ids_never_repeat:
  assumes "up_loop ps keys evs (up_start now) = Ok (report, st)"
  shows "length (up_sent st) < 2 ^ 32
    \<and> (\<forall>i < length (up_sent st). \<exists>payload.
         encryptDataV2 (psPeerID ps) 0 (of_nat (Suc i)) (take 32 (ClientCipher keys)) (ClientHMAC keys) payload = Ok (up_sent st ! i))
    \<and> distinct (map (\<lambda>d. u32_at d 4) (up_sent st))"
proof -
  have n: "numbered ps keys (up_sent st)"
    using up_loop_keeps [OF up_start_inv, of ps keys evs now] assms by (auto simp: up_keeps_def)
  have "distinct (map (\<lambda>d. u32_at d 4) (up_sent st))"
  proof (rule distinct_conv_nth [THEN iffD2], intro allI impI)
    fix i j assume ij: "i < length (map (\<lambda>d. u32_at d 4) (up_sent st))" "j < length (map (\<lambda>d. u32_at d 4) (up_sent st))" "i \<noteq> j"
    then have "unat (of_nat (Suc i) :: u32) = Suc i" "unat (of_nat (Suc j) :: u32) = Suc j"
      using n by (auto simp: numbered_def unat_of_nat simp del: of_nat_Suc)
    then have "(of_nat (Suc i) :: u32) \<noteq> of_nat (Suc j)" using ij(3) by (metis Suc_inject)
    then show "map (\<lambda>d. u32_at d 4) (up_sent st) ! i \<noteq> map (\<lambda>d. u32_at d 4) (up_sent st) ! j"
      using ij numbered_ids [OF n] by simp
  qed
  with n show ?thesis by (simp add: numbered_def)
qed

section \<open>What the gateway receives\<close>

text \<open>The payloads of a run: a ping whenever nothing was sent for ten seconds, and every packet read.\<close>

fun up_payloads :: "up_event list \<Rightarrow> int \<Rightarrow> bytes list" where
  "up_payloads [] since = []"
| "up_payloads (ev # evs) since =
     (let ping = (if ue_now ev - since \<ge> 10000000000 then [pingPayload] else []);
          pkt = (case ue_read ev of Inl p \<Rightarrow> (if p = [] then [] else [take 65535 p]) | Inr _ \<Rightarrow> [])
      in ping @ pkt @ up_payloads evs (if ping @ pkt = [] then since else ue_now ev))"

definition key_lengths :: "dataKeyBlock \<Rightarrow> bool" where
  "key_lengths keys \<longleftrightarrow> length (ClientCipher keys) = 64 \<and> length (ClientHMAC keys) = 64
     \<and> length (ServerCipher keys) = 64 \<and> length (ServerHMAC keys) = 64"

definition calm :: "up_event \<Rightarrow> bool" where
  "calm ev \<longleftrightarrow> \<not> ue_done ev \<and> (\<forall>b. ue_write ev b = None) \<and> (\<forall>e. ue_read ev = Inr e \<longrightarrow> e = EAGAIN)"

lemma length_up_payloads: "length (up_payloads evs since) \<le> 2 * length evs"
proof (induction evs arbitrary: since)
  case (Cons ev evs)
  have "length (up_payloads evs l) \<le> 2 * length evs" for l by (rule Cons)
  then show ?case by (auto simp: Let_def split: sum.split intro: le_SucI)
qed simp

text \<open>\<open>st'\<close> is \<open>st\<close> after sending the payloads, each opened by the server under the next id.\<close>

definition sent_more :: "pushedSession \<Rightarrow> dataKeyBlock \<Rightarrow> bytes list \<Rightarrow> up_state \<Rightarrow> up_state \<Rightarrow> bool" where
  "sent_more ps keys payloads st st' \<longleftrightarrow>
     up_packetID st' = up_packetID st + of_nat (length payloads)
     \<and> (\<exists>encs. up_sent st' = up_sent st @ encs \<and> length encs = length payloads
        \<and> (\<forall>i < length payloads. decryptDataV2 (encs ! i) (take 32 (ClientCipher keys)) (ClientHMAC keys) =
             Ok \<lparr>dPeerID = psPeerID ps, dKeyID = 0, dPacketID = up_packetID st + of_nat (Suc i), dPayload = payloads ! i\<rparr>))"

lemma sent_more_Nil [simp]: "sent_more ps keys [] st st' \<longleftrightarrow> up_packetID st' = up_packetID st \<and> up_sent st' = up_sent st"
  by (auto simp: sent_more_def)

lemma sent_more_trans:
  assumes "sent_more ps keys a st st'" "sent_more ps keys b st' st''"
  shows "sent_more ps keys (a @ b) st st''"
proof -
  obtain x where x: "up_packetID st' = up_packetID st + of_nat (length a)" "up_sent st' = up_sent st @ x" "length x = length a"
    "\<forall>i < length a. decryptDataV2 (x ! i) (take 32 (ClientCipher keys)) (ClientHMAC keys) =
       Ok \<lparr>dPeerID = psPeerID ps, dKeyID = 0, dPacketID = up_packetID st + of_nat (Suc i), dPayload = a ! i\<rparr>"
    using assms(1) by (auto simp: sent_more_def)
  obtain y where y: "up_packetID st'' = up_packetID st' + of_nat (length b)" "up_sent st'' = up_sent st' @ y" "length y = length b"
    "\<forall>i < length b. decryptDataV2 (y ! i) (take 32 (ClientCipher keys)) (ClientHMAC keys) =
       Ok \<lparr>dPeerID = psPeerID ps, dKeyID = 0, dPacketID = up_packetID st' + of_nat (Suc i), dPayload = b ! i\<rparr>"
    using assms(2) by (auto simp: sent_more_def)
  have "decryptDataV2 ((x @ y) ! i) (take 32 (ClientCipher keys)) (ClientHMAC keys) =
      Ok \<lparr>dPeerID = psPeerID ps, dKeyID = 0, dPacketID = up_packetID st + of_nat (Suc i), dPayload = (a @ b) ! i\<rparr>"
    if "i < length (a @ b)" for i
  proof (cases "i < length a")
    case True
    then show ?thesis using x(3,4) by (simp add: nth_append)
  next
    case False
    define j where "j = i - length a"
    have "i = length a + j" "j < length b" using False that by (auto simp: j_def)
    then show ?thesis using x(1,3) y(4) by (simp add: nth_append add_ac)
  qed
  then show ?thesis using x(1-3) y(1-3) by (auto simp: sent_more_def add_ac)
qed

lemma send_one:
  assumes "key_lengths keys" "psPeerID ps \<le> 0xFFFFFF" "ue_write ev = (\<lambda>_. None)" "payload \<noteq> []" "length payload \<le> 65535"
    and "up_packetID st + 1 \<noteq> 0"
  shows "\<exists>st'. sendPayload ps keys ev payload st = Ok (None, st') \<and> sent_more ps keys [payload] st st' \<and> up_lastSend st' = ue_now ev"
proof -
  let ?k = "take 32 (ClientCipher keys)" and ?h = "ClientHMAC keys"
  have l: "length ?k = 32" "8 \<le> length ?h" "32 \<le> length (ClientCipher keys)" using assms(1) by (auto simp: key_lengths_def)
  have "int (length payload) \<le> gcm_max" using assms(5) by (simp add: gcm_max_def)
  then obtain enc where e: "up_seal ps keys (up_packetID st + 1) payload = Ok enc"
    using encrypt_total [OF assms(6,2) _ l(2,1), of 0 payload] by auto
  have "decryptDataV2 enc ?k ?h = Ok \<lparr>dPeerID = psPeerID ps, dKeyID = 0, dPacketID = up_packetID st + 1, dPayload = payload\<rparr>"
    using decrypt_encrypt [OF e assms(4)] .
  then show ?thesis using e l(3) assms(3) by (simp add: sendPayload_def sent_more_def)
qed

lemma id_small: "unat (p :: u32) + n < 2 ^ 32 \<Longrightarrow> 0 < n \<Longrightarrow> p + of_nat n \<noteq> 0"
proof -
  assume *: "unat p + n < 2 ^ 32" "0 < n"
  have "p + of_nat n = of_nat (unat p + n)" by simp
  moreover have "unat (of_nat (unat p + n) :: u32) = unat p + n" by (subst unat_of_nat) (use *(1) in simp)
  ultimately have "unat (p + of_nat n) = unat p + n" by metis
  with *(2) show ?thesis by (metis add_is_0 less_numeral_extra(3) unsigned_0)
qed

lemma round_sends:
  assumes "key_lengths keys" "psPeerID ps \<le> 0xFFFFFF" "calm ev" "unat (up_packetID st) + 2 < 2 ^ 32"
  shows "\<exists>st' now'. up_round ps keys ev st = Ok (None, st') \<and> up_lastSend st' = now'
    \<and> (\<exists>sent. sent_more ps keys sent st st' \<and> length sent \<le> 2
        \<and> (\<forall>evs. up_payloads (ev # evs) (up_lastSend st) = sent @ up_payloads evs now'))"
proof -
  have w: "ue_write ev = (\<lambda>_. None)" and nd: "\<not> ue_done ev" using assms(3) by (auto simp: calm_def)
  have small: "up_packetID st + 1 \<noteq> 0" "up_packetID st + 1 + 1 \<noteq> 0"
    using id_small [of "up_packetID st" 1] id_small [of "up_packetID st" 2] assms(4) by (simp_all add: add.assoc)
  note one = send_one [OF assms(1,2) w]
  let ?due = "ue_now ev - up_lastSend st \<ge> 10000000000"
  obtain st1 where s1: "(if ?due then sendPayload ps keys ev pingPayload st else Ok (None, st)) = Ok (None, st1)"
    "sent_more ps keys (if ?due then [pingPayload] else []) st st1"
    "up_lastSend st1 = (if ?due then ue_now ev else up_lastSend st)"
  proof (cases ?due)
    case True
    have "pingPayload \<noteq> []" "length pingPayload \<le> 65535" by (simp_all add: pingPayload_def)
    with one small(1) obtain s where "sendPayload ps keys ev pingPayload st = Ok (None, s)"
      "sent_more ps keys [pingPayload] st s" "up_lastSend s = ue_now ev" by blast
    then show ?thesis using True that [of s] by simp
  next
    case False
    then show ?thesis using that [of st] by simp
  qed
  have id1: "up_packetID st1 + 1 \<noteq> 0" using s1(2) small by (auto simp: sent_more_def)
  let ?pkt = "case ue_read ev of Inl p \<Rightarrow> (if p = [] then [] else [take 65535 p]) | Inr _ \<Rightarrow> []"
  obtain st2 where s2: "up_read ps keys ev st1 = Ok (None, st2)" "sent_more ps keys ?pkt st1 st2"
    "up_lastSend st2 = (if ?pkt = [] then up_lastSend st1 else ue_now ev)"
  proof (cases "ue_read ev")
    case (Inr e)
    then show ?thesis using assms(3) that [of st1] by (auto simp: up_read_def calm_def)
  next
    case (Inl p)
    show ?thesis
    proof (cases "p = []")
      case True
      then show ?thesis using Inl that [of st1] by (simp add: up_read_def)
    next
      case False
      then obtain s where "sendPayload ps keys ev (take 65535 p) st1 = Ok (None, s)"
        "sent_more ps keys [take 65535 p] st1 s" "up_lastSend s = ue_now ev"
        using one [OF _ _ id1, of "take 65535 p"] by auto
      then show ?thesis using Inl False that [of s] by (simp add: up_read_def Let_def)
    qed
  qed
  have "up_round ps keys ev st = Ok (None, st2)" using s1(1) s2(1) nd by (simp add: up_round_def)
  moreover have "sent_more ps keys ((if ?due then [pingPayload] else []) @ ?pkt) st st2"
    using sent_more_trans [OF s1(2) s2(2)] .
  moreover have "length ((if ?due then [pingPayload] else []) @ ?pkt) \<le> 2" by (auto split: sum.split)
  moreover have "up_payloads (ev # evs) (up_lastSend st) = ((if ?due then [pingPayload] else []) @ ?pkt) @ up_payloads evs (up_lastSend st2)" for evs
    using s1(3) s2(3) by (auto simp: Let_def)
  ultimately show ?thesis by blast
qed

lemma loop_sends:
  assumes "key_lengths keys" "psPeerID ps \<le> 0xFFFFFF" "\<forall>ev \<in> set evs. calm ev"
    and "unat (up_packetID st) + 2 * length evs < 2 ^ 32"
  shows "\<exists>st'. up_loop ps keys evs st = Ok (None, st') \<and> sent_more ps keys (up_payloads evs (up_lastSend st)) st st'"
  using assms(3,4)
proof (induction evs arbitrary: st)
  case (Cons ev evs)
  have "calm ev" "unat (up_packetID st) + 2 < 2 ^ 32" using Cons.prems by auto
  from round_sends [OF assms(1,2) this] obtain st1 sent where r: "up_round ps keys ev st = Ok (None, st1)"
    "sent_more ps keys sent st st1" "length sent \<le> 2"
    "up_payloads (ev # evs) (up_lastSend st) = sent @ up_payloads evs (up_lastSend st1)"
    by blast
  have "unat (up_packetID st1) = (unat (up_packetID st) + length sent) mod 2 ^ 32"
  proof -
    have "up_packetID st1 = of_nat (unat (up_packetID st) + length sent)" using r(2) by (simp add: sent_more_def)
    then show ?thesis by (simp only: unat_of_nat) simp
  qed
  also have "\<dots> \<le> unat (up_packetID st) + length sent" by simp
  finally have "unat (up_packetID st1) + 2 * length evs < 2 ^ 32" using Cons.prems(2) r(3) by simp
  with Cons.IH [of st1] Cons.prems(1) obtain st2 where "up_loop ps keys evs st1 = Ok (None, st2)"
    "sent_more ps keys (up_payloads evs (up_lastSend st1)) st1 st2" by auto
  then show ?case using r sent_more_trans [OF r(2)] by (auto simp del: up_payloads.simps)
qed simp

text \<open>
  C34. While its context runs and the socket accepts writes, the bridge sends every packet read from the TUN device
  exactly once and in order, with a ping in front whenever ten seconds passed without a send: the gateway opens the
  \<open>i\<close>-th datagram, under the session's peer id and packet id \<open>i\<close>, to exactly the \<open>i\<close>-th of these payloads.
\<close>

theorem bridge_delivers_packets:
  assumes "length (ClientCipher keys) = 64" "length (ClientHMAC keys) = 64" "length (ServerCipher keys) = 64"
    and "length (ServerHMAC keys) = 64" "psPeerID ps \<le> 0xFFFFFF" "\<forall>ev \<in> set evs. calm ev" "2 * length evs < 2 ^ 32"
  shows "\<exists>st. up_loop ps keys evs (up_start now) = Ok (None, st)
    \<and> length (up_sent st) = length (up_payloads evs now)
    \<and> (\<forall>i < length (up_sent st).
         decryptDataV2 (up_sent st ! i) (take 32 (ClientCipher keys)) (ClientHMAC keys) =
           Ok \<lparr>dPeerID = psPeerID ps, dKeyID = 0, dPacketID = of_nat (Suc i), dPayload = up_payloads evs now ! i\<rparr>)"
proof -
  have "key_lengths keys" using assms by (simp add: key_lengths_def)
  from loop_sends [OF this assms(5,6), of "up_start now"] assms(7) show ?thesis
    by (auto simp: sent_more_def up_start_def)
qed

section \<open>What the TUN device receives\<close>

text \<open>The packet of a datagram that opens under the server's keys, if it is an IP packet.\<close>

definition ip_packets :: "dataKeyBlock \<Rightarrow> bytes \<Rightarrow> bytes list" where
  "ip_packets keys dgram =
     (case decryptDataV2 (take 65535 dgram) (take 32 (ServerCipher keys)) (ServerHMAC keys) of
        Ok d \<Rightarrow> (if dPayload d \<noteq> [] \<and> drop_bit 4 (dPayload d ! 0) \<in> {4, 6} then [dPayload d] else [])
      | _ \<Rightarrow> [])"

lemma bridged_payload_eq:
  assumes "32 \<le> length (ServerCipher keys)"
  shows "bridged_payload keys dgram = Ok (case ip_packets keys dgram of [] \<Rightarrow> None | p # _ \<Rightarrow> Some p)"
proof (cases "decryptDataV2 (take 65535 dgram) (take 32 (ServerCipher keys)) (ServerHMAC keys)")
  case (Ok d)
  then have "25 \<le> length (take 65535 dgram)" "drop_bit 3 (take 65535 dgram ! 0) = 9"
    by (simp_all only: decryptDataV2_Ok_iff)
  then show ?thesis using Ok assms
    by (auto simp: bridged_payload_def ip_packets_def Let_def)
next
  case (Error e)
  then show ?thesis using assms by (auto simp: bridged_payload_def ip_packets_def Let_def)
next
  case (Panicked p)
  then show ?thesis using decryptDataV2_total [of "take 65535 dgram" "take 32 (ServerCipher keys)" "ServerHMAC keys"] by simp
qed

definition steady :: "dn_event \<Rightarrow> bool" where
  "steady ev \<longleftrightarrow> \<not> de_done ev \<and> (\<forall>b. de_write ev b = None) \<and> (\<forall>e. de_read ev = Inr e \<longrightarrow> de_timeout ev)"

definition arrivals :: "dn_event list \<Rightarrow> bytes list" where
  "arrivals evs = concat (map (\<lambda>ev. case de_read ev of Inl d \<Rightarrow> [d] | Inr _ \<Rightarrow> []) evs)"

lemma dn_loop_eq:
  assumes "32 \<le> length (ServerCipher keys)" "\<forall>ev \<in> set evs. steady ev"
  shows "dn_loop keys evs written = Ok (None, written @ concat (map (ip_packets keys) (arrivals evs)))"
  using assms(2)
proof (induction evs arbitrary: written)
  case (Cons ev evs)
  have one: "ip_packets keys d = [] \<or> (\<exists>p. ip_packets keys d = [p])" for d
    by (auto simp: ip_packets_def split: result.split)
  show ?case
  proof (cases "de_read ev")
    case (Inl d)
    then show ?thesis using Cons one [of d]
      by (auto simp: dn_round_def bridged_payload_eq [OF assms(1)] steady_def arrivals_def)
  next
    case (Inr e)
    then show ?thesis using Cons by (auto simp: dn_round_def steady_def arrivals_def)
  qed
qed (simp add: arrivals_def)

text \<open>
  C20. In the other direction the TUN device receives, in order, exactly the IP packets of the datagrams that the server
  sealed for this session: datagrams that do not authenticate, pings and other payloads are dropped, timeouts of the
  read change nothing, and an IPv4 or IPv6 packet the server seals is written unchanged.
\<close>

theorem bridge_writes_authentic:
  assumes "length (ServerCipher keys) = 64" "\<forall>ev \<in> set evs. steady ev"
  shows "dn_loop keys evs [] = Ok (None, concat (map (ip_packets keys) (arrivals evs)))
    \<and> (\<forall>peer key pid pkt enc. encryptDataV2 peer key pid (take 32 (ServerCipher keys)) (ServerHMAC keys) pkt = Ok enc
        \<longrightarrow> pkt \<noteq> [] \<longrightarrow> length pkt \<le> 65511 \<longrightarrow> drop_bit 4 (pkt ! 0) \<in> {4, 6} \<longrightarrow> ip_packets keys enc = [pkt])"
proof (intro conjI allI impI)
  show "dn_loop keys evs [] = Ok (None, concat (map (ip_packets keys) (arrivals evs)))"
    using dn_loop_eq [of keys evs "[]"] assms by simp
  fix peer key pid pkt enc
  assume e: "encryptDataV2 peer key pid (take 32 (ServerCipher keys)) (ServerHMAC keys) pkt = Ok enc"
    and p: "pkt \<noteq> []" "length pkt \<le> 65511" "drop_bit 4 (pkt ! 0) \<in> {4, 6 :: byte}"
  have "take 65535 enc = enc" using encrypt_length [OF e] p(2) by simp
  then show "ip_packets keys enc = [pkt]" using decrypt_encrypt [OF e p(1)] p by (simp add: ip_packets_def)
qed

section \<open>A concrete bridge\<close>

definition sample_bridge_keys :: dataKeyBlock where
  "sample_bridge_keys = \<lparr>ClientCipher = replicate 64 1, ClientHMAC = replicate 64 2,
     ServerCipher = replicate 64 3, ServerHMAC = replicate 64 4\<rparr>"

definition sample_push :: pushedSession where
  "sample_push = \<lparr>psIPv4 = Some [10, 8, 0, 2], psNetmask = Some [255, 255, 0, 0], psDNS = Some [10, 8, 0, 1],
     psPeerID = 7, psCipher = ''AES-256-GCM''\<rparr>"

text \<open>A packet, then eleven seconds of silence.\<close>

definition sample_events :: "up_event list" where
  "sample_events = [\<lparr>ue_now = 1, ue_done = False, ue_read = Inl [0x45, 0, 0, 20], ue_write = (\<lambda>_. None)\<rparr>,
     \<lparr>ue_now = 11000000001, ue_done = False, ue_read = Inr EAGAIN, ue_write = (\<lambda>_. None)\<rparr>]"

lemma sample_bridge_ok:
  "key_lengths sample_bridge_keys" "psPeerID sample_push \<le> 0xFFFFFF" "\<forall>ev \<in> set sample_events. calm ev"
  "up_payloads sample_events 0 = [[0x45, 0, 0, 20], pingPayload]"
  by (simp_all add: key_lengths_def sample_bridge_keys_def sample_push_def sample_events_def calm_def)

theorem bridge_ids_never_repeat_witness:
  "\<exists>st. up_loop sample_push sample_bridge_keys sample_events (up_start 0) = Ok (None, st)
    \<and> length (up_sent st) = 2 \<and> distinct (map (\<lambda>d. u32_at d 4) (up_sent st))"
proof -
  obtain st where st: "up_loop sample_push sample_bridge_keys sample_events (up_start 0) = Ok (None, st)"
    "sent_more sample_push sample_bridge_keys (up_payloads sample_events 0) (up_start 0) st"
    using loop_sends [OF sample_bridge_ok(1-3), of "up_start 0"] by (auto simp: up_start_def sample_events_def)
  then have "length (up_sent st) = 2" by (auto simp: sent_more_def up_start_def sample_bridge_ok(4))
  then show ?thesis using bridge_ids_never_repeat [OF st(1)] st(1) by blast
qed

theorem bridge_delivers_packets_witness:
  "\<exists>st. up_loop sample_push sample_bridge_keys sample_events (up_start 0) = Ok (None, st) \<and> length (up_sent st) = 2
    \<and> decryptDataV2 (up_sent st ! 1) (replicate 32 1) (replicate 64 2) =
        Ok \<lparr>dPeerID = 7, dKeyID = 0, dPacketID = 2, dPayload = pingPayload\<rparr>"
proof -
  obtain st where st: "up_loop sample_push sample_bridge_keys sample_events (up_start 0) = Ok (None, st)"
    "length (up_sent st) = length (up_payloads sample_events 0)"
    "\<forall>i < length (up_sent st). decryptDataV2 (up_sent st ! i) (take 32 (ClientCipher sample_bridge_keys)) (ClientHMAC sample_bridge_keys) =
       Ok \<lparr>dPeerID = psPeerID sample_push, dKeyID = 0, dPacketID = of_nat (Suc i), dPayload = up_payloads sample_events 0 ! i\<rparr>"
    using bridge_delivers_packets [of sample_bridge_keys sample_push sample_events 0] sample_bridge_ok
    by (auto simp: key_lengths_def sample_events_def)
  then have "length (up_sent st) = 2" by (simp add: sample_bridge_ok(4))
  with st(3) [rule_format, of 1] st(1) show ?thesis
    by (simp add: sample_bridge_ok(4)) (simp add: sample_bridge_keys_def sample_push_def)
qed

theorem bridge_writes_authentic_witness:
  "\<exists>enc. encryptDataV2 7 0 1 (replicate 32 3) (replicate 64 4) [0x45, 0, 0, 20] = Ok enc
    \<and> dn_loop sample_bridge_keys [\<lparr>de_done = False, de_read = Inl [72], de_timeout = False, de_write = (\<lambda>_. None)\<rparr>,
        \<lparr>de_done = False, de_read = Inl enc, de_timeout = False, de_write = (\<lambda>_. None)\<rparr>] [] = Ok (None, [[0x45, 0, 0, 20]])"
proof -
  let ?k = "sample_bridge_keys"
  let ?ev = "\<lambda>d. \<lparr>de_done = False, de_read = Inl d, de_timeout = False, de_write = (\<lambda>_. None)\<rparr>"
  have k: "take 32 (ServerCipher ?k) = replicate 32 3" "ServerHMAC ?k = replicate 64 4"
    by (simp_all add: sample_bridge_keys_def)
  obtain enc where e: "encryptDataV2 7 0 1 (replicate 32 3) (replicate 64 4) [0x45, 0, 0, 20] = Ok enc"
    using encrypt_total [of 1 7 0 "replicate 64 4" "replicate 32 3" "[0x45, 0, 0, 20]"] by (auto simp: gcm_max_def)
  have w: "dn_loop ?k [?ev [72], ?ev enc] [] = Ok (None, concat (map (ip_packets ?k) (arrivals [?ev [72], ?ev enc])))"
    "\<forall>peer key pid pkt enc. encryptDataV2 peer key pid (take 32 (ServerCipher ?k)) (ServerHMAC ?k) pkt = Ok enc
        \<longrightarrow> pkt \<noteq> [] \<longrightarrow> length pkt \<le> 65511 \<longrightarrow> drop_bit 4 (pkt ! 0) \<in> {4, 6} \<longrightarrow> ip_packets ?k enc = [pkt]"
    using bridge_writes_authentic [of ?k "[?ev [72], ?ev enc]"] by (auto simp: steady_def sample_bridge_keys_def)
  have "ip_packets ?k enc = [[0x45, 0, 0, 20]]" using w(2) e unfolding k by fastforce
  moreover have "ip_packets ?k [72] = []" by (simp add: ip_packets_def decryptDataV2_def)
  ultimately show ?thesis using e w(1) by (auto simp: arrivals_def)
qed

end
