(* ===== verification/LinuxRun.thy ===== *)
theory LinuxRun
  imports TunBridge
begin

text \<open>
  Running an application in the tunnel, \<^verbatim>\<open>run_linux.go\<close>: the child that builds the namespace and starts the
  application, the parent that establishes the session and bridges it, the handshake between them, and the
  search for running Discord processes.
\<close>

section \<open>Netmasks\<close>

text \<open>\<^verbatim>\<open>net.IPMask.Size\<close>; \<open>lead\<close> shifts out the leading ones of a byte.\<close>

fun lead :: "nat \<Rightarrow> byte \<Rightarrow> nat \<times> byte" where
  "lead 0 v = (0, v)"
| "lead (Suc k) v =
     (if v AND 0x80 \<noteq> 0 then (let (n, w) = lead k (push_bit 1 v) in (Suc n, w)) else (0, v))"

fun simpleMaskLength :: "bytes \<Rightarrow> nat option" where
  "simpleMaskLength [] = Some 0"
| "simpleMaskLength (v # vs) =
     (if v = 0xff then map_option (\<lambda>n. 8 + n) (simpleMaskLength vs)
      else let (n, w) = lead 8 v in
        if w \<noteq> 0 then None else if list_all (\<lambda>b. b = 0) vs then Some n else None)"

definition IPMask_Size :: "bytes option \<Rightarrow> nat \<times> nat" where
  "IPMask_Size m =
     (case m of
        None \<Rightarrow> (0, 0)
      | Some b \<Rightarrow> (case simpleMaskLength b of None \<Rightarrow> (0, 0) | Some ones \<Rightarrow> (ones, 8 * length b)))"

section \<open>The child\<close>

definition parse_child :: "string \<Rightarrow> string \<Rightarrow> string \<Rightarrow> go_error + (bytes \<times> nat \<times> bytes)" where
  "parse_child ipArg prefixArg dnsArg =
     (case ParseIP4 ipArg of
        None \<Rightarrow> Inl (ErrorsNew ''invalid child IPv4'')
      | Some ip \<Rightarrow>
          (case ParseUint prefixArg 8 of
             Ok prefix \<Rightarrow>
               (if prefix > 32 then Inl (ErrorsNew ''invalid child prefix'')
                else (case ParseIP4 dnsArg of
                  None \<Rightarrow> Inl (ErrorsNew ''invalid child DNS'')
                | Some dns \<Rightarrow> Inr (ip, prefix, dns)))
           | _ \<Rightarrow> Inl (ErrorsNew ''invalid child prefix'')))"

definition app_child_args :: "string list \<Rightarrow> go_error + (bytes \<times> nat \<times> bytes \<times> string list)" where
  "app_child_args args =
     (if length args < 5 then Inl (ErrorsNew ''internal vpn app child arguments missing'')
      else case parse_child (args ! 0) (args ! 1) (args ! 2) of
        Inl e \<Rightarrow> Inl e
      | Inr (ip, prefix, dns) \<Rightarrow>
          (if args ! 3 \<noteq> ''--'' \<or> length (drop 4 args) = 0 then
             Inl (ErrorsNew ''internal vpn app child command missing'')
           else Inr (ip, prefix, dns, drop 4 args)))"

text \<open>What the reads of the ready marker return, until one is not interrupted; \<open>None\<close> while it blocks.\<close>

fun waitVPNReady :: "(bytes + go_error) list \<Rightarrow> go_error option option" where
  "waitVPNReady [] = None"
| "waitVPNReady (Inr e # rs) = (if e = SysErr ''EINTR'' then waitVPNReady rs else Some (Some e))"
| "waitVPNReady (Inl b # rs) =
     Some (if length b = 1 \<and> b ! 0 = 0x52 then None else Some (ErrorsNew ''invalid VPN ready marker''))"

record child_env =
  ce_openErr :: "go_error option"
  ce_ioctl :: "bytes \<Rightarrow> go_error + bytes"
  ce_nl :: "nat \<Rightarrow> nl_env"
  ce_byName :: "string \<Rightarrow> nat + go_error"
  ce_listenUDP :: "go_error option"
  ce_listenTCP :: "go_error option"
  ce_sendErr :: "go_error option"
  ce_ready :: "(bytes + go_error) list"
  ce_runErr :: "go_error option"

definition setLoopbackUp :: "child_env \<Rightarrow> (bytes list \<times> go_error option) option" where
  "setLoopbackUp env =
     (case ce_byName env ''lo'' of Inr e \<Rightarrow> Some ([], Some e) | Inl index \<Rightarrow> setLinkUp (ce_nl env 4) index)"

text \<open>The local resolver: its error, and whether its two listeners are open.\<close>

definition startDNSProxy :: "child_env \<Rightarrow> bytes \<Rightarrow> (go_error option \<times> bool) option" where
  "startDNSProxy env upstream =
     map_option (\<lambda>(_, r).
       case r of Some e \<Rightarrow> (Some (Wrapf ''loopback up: %w'' e), False)
       | None \<Rightarrow>
         (case To4 upstream of
            None \<Rightarrow> (Some (ErrorsNew ''VPN DNS is not IPv4''), False)
          | Some _ \<Rightarrow>
              (case ce_listenUDP env of
                 Some e \<Rightarrow> (Some (Wrapf ''local DNS UDP: %w'' e), False)
               | None \<Rightarrow>
                   (case ce_listenTCP env of
                      Some e \<Rightarrow> (Some (Wrapf ''local DNS TCP: %w'' e), False)
                    | None \<Rightarrow> (None, True)))))
     (setLoopbackUp env)"

text \<open>
  A query on the UDP listener: what is written back to the client, given the outcome of dialling the VPN's DNS server,
  of the write and of the read.
\<close>

definition dns_forward :: "go_error option \<Rightarrow> (bytes \<Rightarrow> go_error option) \<Rightarrow> (bytes \<Rightarrow> bytes + go_error) \<Rightarrow> bytes \<Rightarrow> bytes list" where
  "dns_forward dialErr wr rd msg =
     (if dialErr \<noteq> None \<or> wr msg \<noteq> None then []
      else case rd msg of Inr _ \<Rightarrow> [] | Inl reply \<Rightarrow> [take 65536 reply])"

datatype child_act =
    TunCreated string
  | Configured "bytes list"
  | DnsStarted
  | FdSent
  | ReadySeen
  | AppStarted "string list"
  | TunClosed

text \<open>What the child does, in order, and the error it ends with; \<open>None\<close> while a call blocks.\<close>

definition vpnAppChild :: "child_env \<Rightarrow> string list \<Rightarrow> (child_act list \<times> go_error option) option" where
  "vpnAppChild env args =
     (case app_child_args args of
        Inl e \<Rightarrow> Some ([], Some e)
      | Inr (ip, prefix, dns, appArgs) \<Rightarrow>
     (case createTUN (ce_openErr env) (ce_ioctl env) ''disfree0'' of
        (Inl e, _) \<Rightarrow> Some ([], Some (Wrapf ''create TUN: %w'' e))
      | (Inr name, _) \<Rightarrow>
     (case configureTUNIPv4 (ce_nl env) (ce_byName env) name ip (of_nat prefix) of
        None \<Rightarrow> None
      | Some (sent, Some e) \<Rightarrow> Some ([TunCreated name, TunClosed], Some e)
      | Some (sent, None) \<Rightarrow>
     (case startDNSProxy env dns of
        None \<Rightarrow> None
      | Some (Some e, _) \<Rightarrow> Some ([TunCreated name, Configured sent, TunClosed], Some e)
      | Some (None, _) \<Rightarrow>
     (case ce_sendErr env of
        Some e \<Rightarrow> Some ([TunCreated name, Configured sent, DnsStarted, TunClosed], Some (Wrapf ''send TUN fd: %w'' e))
      | None \<Rightarrow>
     (case waitVPNReady (ce_ready env) of
        None \<Rightarrow> None
      | Some (Some e) \<Rightarrow>
          Some ([TunCreated name, Configured sent, DnsStarted, FdSent, TunClosed], Some (Wrapf ''wait VPN ready: %w'' e))
      | Some None \<Rightarrow>
          Some ([TunCreated name, Configured sent, DnsStarted, FdSent, ReadySeen, AppStarted appArgs, TunClosed],
                map_option (Wrapf ''application: %w'') (ce_runErr env))))))))"

section \<open>The parent\<close>

definition launch_args :: "bytes \<Rightarrow> nat \<Rightarrow> bytes \<Rightarrow> string list \<Rightarrow> string list" where
  "launch_args ip prefix dns appArgs = [IP_String ip, Itoa_nat prefix, IP_String dns, ''--''] @ appArgs"

datatype run_event = ChildExit "go_error option" | BridgeEnd "go_error option" | RunCtxDone go_error

record run_env =
  re_session :: "liveVPN + go_error"
  re_launch :: launch_env
  re_nonblock :: "go_error option"
  re_rounds :: "(recvmsg \<times> wake) list"
  re_signalErr :: "go_error option"
  re_event :: run_event

datatype run_act = SessionUp | ChildStarted "string list" | BridgeStarted | ReadySignalled | BridgeCancelled | ChildKilled
  | SockClosed | TunFdClosed | SessionClosed

text \<open>
  What the parent does, in order.  Deferred calls run in reverse order at a return; a received descriptor is not
  negative, so wrapping it cannot fail.  \<open>None\<close>: no descriptor has arrived yet.
\<close>

definition runVPNApplication :: "run_env \<Rightarrow> string list \<Rightarrow> (run_act list \<times> go_error option) option" where
  "runVPNApplication env appArgs =
     (if length appArgs = 0 then Some ([], Some (ErrorsNew ''no application command supplied''))
      else case re_session env of Inr e \<Rightarrow> Some ([], Some e) | Inl vpn \<Rightarrow>
      let ps = vSession vpn; (ones, bits) = IPMask_Size (psNetmask ps) in
      if bits \<noteq> 32 then Some ([SessionUp, SessionClosed], Some (Errorf ''invalid pushed IPv4 netmask %s''
        [ArgS (case psNetmask ps of Some m \<Rightarrow> IP_String m | None \<Rightarrow> ''<nil>'')]))
      else case launchVPNAppChild (re_launch env) of
        (Inr e, _) \<Rightarrow> Some ([SessionUp, SessionClosed], Some (Wrapf ''launch isolated application: %w'' e))
      | (Inl _, _) \<Rightarrow>
      let begun = [SessionUp, ChildStarted (launch_args ((case psIPv4 ps of Some ip \<Rightarrow> ip | None \<Rightarrow> [])) ones ((case psDNS ps of Some d \<Rightarrow> d | None \<Rightarrow> [])) appArgs)] in
      (case recvFDWithChild (re_nonblock env) '''' (re_rounds env) of
         None \<Rightarrow> None
       | Some (Inl e) \<Rightarrow> Some (begun @ [ChildKilled, SockClosed, SessionClosed], Some (Wrapf ''receive TUN fd: %w'' e))
       | Some (Inr fd) \<Rightarrow>
           (case re_signalErr env of
              Some e \<Rightarrow>
                Some (begun @ [BridgeStarted, BridgeCancelled, ChildKilled, TunFdClosed, SockClosed, SessionClosed],
                      Some (Wrapf ''signal application ready: %w'' e))
            | None \<Rightarrow>
                (case re_event env of
                   ChildExit err \<Rightarrow>
                     Some (begun @ [BridgeStarted, ReadySignalled, BridgeCancelled, TunFdClosed, SockClosed, SessionClosed], err)
                 | BridgeEnd err \<Rightarrow>
                     Some (begun @ [BridgeStarted, ReadySignalled, BridgeCancelled, ChildKilled, TunFdClosed, SockClosed, SessionClosed],
                           Some (case err of Some e \<Rightarrow> e | None \<Rightarrow> ErrorsNew ''VPN bridge stopped unexpectedly''))
                 | RunCtxDone e \<Rightarrow>
                     Some (begun @ [BridgeStarted, ReadySignalled, BridgeCancelled, ChildKilled, TunFdClosed, SockClosed, SessionClosed],
                           Some e)))))"

section \<open>Running Discord processes\<close>

text \<open>An entry of \<^verbatim>\<open>/proc\<close>: its name, its owner, its executable and its command line (\<open>None\<close>: cannot be read).\<close>

record proc_entry =
  pe_name :: string
  pe_uid :: "u32 option"
  pe_exe :: "string option"
  pe_cmdline :: string

definition unix_Base :: "string \<Rightarrow> string" where
  "unix_Base p =
     (let q = rev (dropWhile (\<lambda>c. c = CHR ''/'') (rev p)) in
      if p = '''' then ''.'' else if q = '''' then ''/'' else rev (takeWhile (\<lambda>c. c \<noteq> CHR ''/'') (rev q)))"

definition discord_main :: "int \<Rightarrow> u32 \<Rightarrow> proc_entry \<Rightarrow> int list" where
  "discord_main self uid e =
     (case Atoi (pe_name e) of
        Ok pid \<Rightarrow>
          (if pid = self \<or> pe_uid e \<noteq> Some uid then []
           else case pe_exe e of
             None \<Rightarrow> []
           | Some exe \<Rightarrow>
               (if unix_Base exe \<noteq> ''Discord'' \<or> Contains (pe_cmdline e) ''--type='' then [] else [pid]))
      | _ \<Rightarrow> [])"

definition discordPIDs :: "int \<Rightarrow> u32 \<Rightarrow> proc_entry list option \<Rightarrow> int list" where
  "discordPIDs self uid entries =
     (case entries of None \<Rightarrow> [] | Some es \<Rightarrow> concat (map (discord_main self uid) es))"

text \<open>
  \<^verbatim>\<open>stopExistingDiscord\<close>: the signals sent, given the processes found at the start, at each poll of the four seconds,
  and at the end.
\<close>

definition stopExistingDiscord :: "int list \<Rightarrow> int list list \<Rightarrow> int list \<Rightarrow> (int \<times> string) list" where
  "stopExistingDiscord first polls final =
     map (\<lambda>pid. (pid, ''SIGTERM'')) first
     @ (if [] \<in> set polls then [] else map (\<lambda>pid. (pid, ''SIGKILL'')) final)"

definition isDisFreeChildCommand :: "string \<Rightarrow> bool" where
  "isDisFreeChildCommand s \<longleftrightarrow> HasPrefix s ''__vpnapp_child'' \<or> HasPrefix s ''__vpnproxy_child''"

section \<open>The configuration reaches the namespace\<close>

text \<open>The mask of a prefix length.\<close>

definition CIDRMask :: "nat \<Rightarrow> bytes" where
  "CIDRMask n = map (\<lambda>i. if 8 * i + 8 \<le> n then 0xff else if n \<le> 8 * i then 0 else push_bit (8 - (n - 8 * i)) 0xff) [0 ..< 4]"

lemma CIDRMask_check: "list_all (\<lambda>n. simpleMaskLength (CIDRMask n) = Some n \<and> length (CIDRMask n) = 4) [0 ..< 33]"
  by code_simp

lemma IPMask_Size_CIDR: "n \<le> 32 \<Longrightarrow> IPMask_Size (Some (CIDRMask n)) = (n, 32)"
proof -
  assume "n \<le> 32"
  then have "n \<in> set [0 ..< 33]" by simp
  from this [THEN CIDRMask_check [unfolded list_all_iff, THEN bspec]] show ?thesis
    by (simp add: IPMask_Size_def)
qed

lemma launch_args_parsed:
  assumes "length ip = 4" "prefix \<le> 32" "length dns = 4" "appArgs \<noteq> []"
  shows "app_child_args (launch_args ip prefix dns appArgs) = Inr (ip, prefix, dns, appArgs)"
proof -
  have "To4 ip = Some ip" "To4 dns = Some dns" using assms by (simp_all add: To4_def)
  then have "IP_String ip = dotted ip" "IP_String dns = dotted dns" using assms by (simp_all add: IP_String_def)
  moreover have "ParseUint (Itoa_nat prefix) 8 = Ok prefix" using assms(2) by (intro ParseUint_Itoa) simp
  ultimately have "parse_child (IP_String ip) (Itoa_nat prefix) (IP_String dns) = Inr (ip, prefix, dns)"
    using ParseIP4_dotted assms by (simp add: parse_child_def)
  then show ?thesis
    using assms(4) by (simp add: app_child_args_def launch_args_def Suc_le_eq numeral_eq_Suc)
qed

lemma vpnAppChild_args:
  assumes "vpnAppChild env args = Some (acts, err)" "act \<in> set acts"
  obtains ip prefix dns appArgs where "app_child_args args = Inr (ip, prefix, dns, appArgs)"
  using assms by (cases "app_child_args args") (auto simp: vpnAppChild_def)

lemma vpnAppChild_configured:
  assumes "vpnAppChild env args = Some (acts, err)" "Configured sent \<in> set acts"
    and "app_child_args args = Inr (ip, prefix, dns, appArgs)"
  shows "\<exists>name. createTUN (ce_openErr env) (ce_ioctl env) ''disfree0'' = (Inr name, True)
    \<and> configureTUNIPv4 (ce_nl env) (ce_byName env) name ip (of_nat prefix) = Some (sent, None)"
proof -
  obtain r tunOpen where c: "createTUN (ce_openErr env) (ce_ioctl env) ''disfree0'' = (r, tunOpen)" by fastforce
  have "tunOpen" if "r = Inr name" for name
    using c that by (auto simp: createTUN_def split: option.splits sum.splits)
  with c assms show ?thesis
    by (cases r) (auto simp: vpnAppChild_def split: option.splits sum.splits prod.splits)
qed

text \<open>
  The addresses a session pushed are the ones the namespace gets: for a session whose netmask is that of a prefix
  length, the arguments the parent gives the child are parsed back to the session's address, prefix and DNS
  server, and every interface the child reports as configured was configured with exactly this address and prefix.
\<close>

theorem namespace_gets_session:
  assumes "psIPv4 ps = Some ip" "psDNS ps = Some dns" "psNetmask ps = Some (CIDRMask prefix)" "prefix \<le> 32"
    and "length ip = 4" "length dns = 4" "appArgs \<noteq> []" and "IPMask_Size (psNetmask ps) = (ones, bits)"
  shows "bits = 32 \<and> ones = prefix
    \<and> app_child_args (launch_args ip ones dns appArgs) = Inr (ip, prefix, dns, appArgs)
    \<and> (\<forall>env acts err sent. vpnAppChild env (launch_args ip ones dns appArgs) = Some (acts, err) \<longrightarrow> Configured sent \<in> set acts
        \<longrightarrow> (\<exists>name index. ce_byName env name = Inl index \<and> length sent = 4
              \<and> kernel_reads 8 (sent ! 2) = Some (tun_views (ce_nl env) index ip (of_nat prefix) ! 2)))"
proof (intro conjI allI impI)
  have o: "bits = 32" "ones = prefix" using assms(3,4,8) IPMask_Size_CIDR by auto
  then show "bits = 32" "ones = prefix" by auto
  show args: "app_child_args (launch_args ip ones dns appArgs) = Inr (ip, prefix, dns, appArgs)"
    using launch_args_parsed assms o by simp
  fix env acts err sent
  assume "vpnAppChild env (launch_args ip ones dns appArgs) = Some (acts, err)" "Configured sent \<in> set acts"
  from vpnAppChild_configured [OF this args] obtain name where
    c: "configureTUNIPv4 (ce_nl env) (ce_byName env) name ip (of_nat prefix) = Some (sent, None)" by blast
  then obtain index where i: "ce_byName env name = Inl index"
    by (auto simp: configureTUNIPv4_def split: sum.splits)
  have ip: "To4 ip = Some ip" using assms(5) by (simp add: To4_def)
  have s: "length sent = 4" "\<forall>i < length sent. kernel_reads ([16, 16, 8, 12] ! i) (sent ! i) = Some (tun_views (ce_nl env) index ip (of_nat prefix) ! i)"
    using tun_requests [OF c i ip] by simp_all
  have "kernel_reads ([16, 16, 8, 12] ! 2) (sent ! 2) = Some (tun_views (ce_nl env) index ip (of_nat prefix) ! 2)"
    using s(2) [rule_format, of 2] s(1) by linarith
  then show "\<exists>name index. ce_byName env name = Inl index \<and> length sent = 4
      \<and> kernel_reads 8 (sent ! 2) = Some (tun_views (ce_nl env) index ip (of_nat prefix) ! 2)"
    using i s(1) by auto
qed

section \<open>Nothing runs outside the tunnel and nothing is left behind\<close>

text \<open>
  C21. The application is started only in a namespace whose four configuration requests the kernel accepted, with the
  local resolver running and after the descriptor was handed over and the ready marker received; the child
  closes its TUN descriptor on every path on which it opened it.
\<close>

theorem application_fails_closed:
  assumes "vpnAppChild env args = Some (acts, err)"
  shows "(AppStarted cmd \<in> set acts \<longrightarrow>
      (\<exists>name sent ip prefix dns. app_child_args args = Inr (ip, prefix, dns, cmd) \<and> length sent = 4
        \<and> configureTUNIPv4 (ce_nl env) (ce_byName env) name ip (of_nat prefix) = Some (sent, None)
        \<and> startDNSProxy env dns = Some (None, True) \<and> waitVPNReady (ce_ready env) = Some None
        \<and> acts = [TunCreated name, Configured sent, DnsStarted, FdSent, ReadySeen, AppStarted cmd, TunClosed]))
    \<and> (\<forall>name. TunCreated name \<in> set acts \<longrightarrow> last acts = TunClosed)"
proof (cases "app_child_args args")
  case (Inl e)
  with assms show ?thesis by (auto simp: vpnAppChild_def)
next
  case (Inr a)
  obtain ip prefix dns appArgs where a: "app_child_args args = Inr (ip, prefix, dns, appArgs)"
    using Inr by (cases a) auto
  have four: "length sent = 4"
    if cfg: "configureTUNIPv4 (ce_nl env) (ce_byName env) name ip (of_nat prefix) = Some (sent, None)" for name sent
  proof -
    obtain index where i: "ce_byName env name = Inl index"
      using cfg by (auto simp: configureTUNIPv4_def split: sum.splits)
    have "To4 ip = Some ip"
      using a by (auto simp: app_child_args_def parse_child_def dest!: ParseIP4_length
          split: if_splits option.splits result.splits sum.splits)
    then show ?thesis using tun_requests [OF cfg i] by auto
  qed
  have dns: "running" if "startDNSProxy env d = Some (None, running)" for d running
    using that by (auto simp: startDNSProxy_def split: option.splits)
  from assms four dns show ?thesis
    unfolding vpnAppChild_def a sum.case prod.case
    by (auto split: option.splits sum.splits prod.splits)
qed

text \<open>
  C18. On every path \<^verbatim>\<open>runVPNApplication\<close> releases what it acquired: the session, the descriptor socket, the TUN descriptor
  and the bridge, and the child has exited or is killed.  The ready marker is sent right after the bridge was
  started and never without it, and nil is returned only when the application itself succeeded.
\<close>

theorem run_leaves_nothing:
  assumes "runVPNApplication env appArgs = Some (acts, err)"
  shows "(SessionUp \<in> set acts \<longrightarrow> last acts = SessionClosed)
    \<and> (\<forall>args. ChildStarted args \<in> set acts \<longrightarrow>
        SockClosed \<in> set acts \<and> (ChildKilled \<in> set acts \<or> (\<exists>e. re_event env = ChildExit e)))
    \<and> (BridgeStarted \<in> set acts \<longrightarrow> BridgeCancelled \<in> set acts \<and> TunFdClosed \<in> set acts)
    \<and> (ReadySignalled \<in> set acts \<longrightarrow> (\<exists>pre post. acts = pre @ BridgeStarted # ReadySignalled # post))
    \<and> (err = None \<longrightarrow> re_event env = ChildExit None)"
proof -
  have ready: "\<exists>pre post. [a, b, BridgeStarted, ReadySignalled] @ r = pre @ BridgeStarted # ReadySignalled # post" for a b r
    by (rule exI [of _ "[a, b]"], rule exI [of _ r]) simp
  show ?thesis
    using assms ready unfolding runVPNApplication_def Let_def
    by (auto split: if_splits sum.splits option.splits prod.splits run_event.splits)
qed

text \<open>
  Starting the application child closes each end of the socket pair at most once: the child's end always, the
  parent's end exactly when an error is returned.  The child of the end-to-end probe is started by the same code
  except that, when the process cannot be started, the child's end is closed twice; the second close may hit
  a descriptor another goroutine was given in between.
\<close>

theorem child_launch_descriptors:
  assumes "socketpair env = Inl (p0, p1)" "p0 \<noteq> p1"
  shows "distinct (snd (launchVPNAppChild env))
    \<and> (case fst (launchVPNAppChild env) of
        Inl sock \<Rightarrow> sock = p0 \<and> snd (launchVPNAppChild env) = [p1]
      | Inr e \<Rightarrow> set (snd (launchVPNAppChild env)) = {p0, p1})
    \<and> fst (launchVPNTunChild env) = fst (launchVPNAppChild env)
    \<and> (distinct (snd (launchVPNTunChild env)) \<longleftrightarrow> executableErr env \<noteq> None \<or> startErr env = None)"
  using assms by (auto simp: launchVPNAppChild_def launchVPNTunChild_def split: option.splits)

theorem child_launch_descriptors_witness:
  "snd (launchVPNTunChild \<lparr>socketpair = Inl (5, 6), executableErr = None, startErr = Some EOF\<rparr>) = [6, 5, 6]
    \<and> \<not> distinct (snd (launchVPNTunChild \<lparr>socketpair = Inl (5, 6), executableErr = None, startErr = Some EOF\<rparr>))"
  using child_launch_descriptors [of "\<lparr>socketpair = Inl (5, 6), executableErr = None, startErr = Some EOF\<rparr>" 5 6]
  by (simp add: launchVPNTunChild_def)

section \<open>A concrete run\<close>

definition sample_child :: child_env where
  "sample_child = \<lparr>ce_openErr = None, ce_ioctl = (\<lambda>ifr. Inr ifr), ce_nl = willing_kernel, ce_byName = (\<lambda>_. Inl 2),
     ce_listenUDP = None, ce_listenTCP = None, ce_sendErr = None, ce_ready = [Inr (SysErr ''EINTR''), Inl [0x52]], ce_runErr = None\<rparr>"

definition sample_launch :: launch_env where
  "sample_launch = \<lparr>socketpair = Inl (5, 6), executableErr = None, startErr = None\<rparr>"

lemma sample_child_run:
  "\<exists>name sent. vpnAppChild sample_child (launch_args [10, 8, 0, 2] 16 [10, 8, 0, 1] [''app'']) =
     Some ([TunCreated name, Configured sent, DnsStarted, FdSent, ReadySeen, AppStarted [''app''], TunClosed], None)"
proof -
  have a: "app_child_args (launch_args [10, 8, 0, 2] 16 [10, 8, 0, 1] [''app'']) = Inr ([10, 8, 0, 2], 16, [10, 8, 0, 1], [''app''])"
    by (rule launch_args_parsed) simp_all
  obtain name where n: "createTUN (ce_openErr sample_child) (ce_ioctl sample_child) ''disfree0'' = (Inr name, True)"
    by (simp add: createTUN_def sample_child_def)
  have ip: "To4 [10, 8, 0, 2] = Some [10, 8, 0, 2]" "To4 [10, 8, 0, 1] = Some [10, 8, 0, 1]" by (simp_all add: To4_def)
  obtain sent where c: "configureTUNIPv4 (ce_nl sample_child) (ce_byName sample_child) name [10, 8, 0, 2] (of_nat 16) = Some (sent, None)"
    by (simp add: configureTUNIPv4_def and_then_def setLinkUp_def setLinkMTU_def addIPv4Address_def
        addDefaultRouteToInterface_def willing_ack ip sample_child_def)
  have d: "startDNSProxy sample_child [10, 8, 0, 1] = Some (None, True)"
    by (simp add: startDNSProxy_def setLoopbackUp_def setLinkUp_def willing_ack ip sample_child_def)
  have "ce_sendErr sample_child = None" "waitVPNReady (ce_ready sample_child) = Some None" "ce_runErr sample_child = None"
    by (simp_all add: sample_child_def)
  then show ?thesis unfolding vpnAppChild_def a n c d sum.case prod.case option.case by simp
qed

theorem application_fails_closed_witness:
  "\<exists>acts. vpnAppChild sample_child (launch_args [10, 8, 0, 2] 16 [10, 8, 0, 1] [''app'']) = Some (acts, None)
    \<and> AppStarted [''app''] \<in> set acts \<and> (\<exists>sent. Configured sent \<in> set acts \<and> length sent = 4) \<and> last acts = TunClosed"
proof -
  obtain name sent where r: "vpnAppChild sample_child (launch_args [10, 8, 0, 2] 16 [10, 8, 0, 1] [''app'']) =
     Some ([TunCreated name, Configured sent, DnsStarted, FdSent, ReadySeen, AppStarted [''app''], TunClosed], None)"
    using sample_child_run by blast
  show ?thesis using application_fails_closed [OF r, of "[''app'']"] r by auto
qed

theorem namespace_gets_session_witness:
  "\<exists>acts sent. vpnAppChild sample_child (launch_args [10, 8, 0, 2] 16 [10, 8, 0, 1] [''app'']) = Some (acts, None)
    \<and> Configured sent \<in> set acts
    \<and> (\<exists>index. kernel_reads 8 (sent ! 2) = Some (tun_views (ce_nl sample_child) index [10, 8, 0, 2] (of_nat 16) ! 2))"
proof -
  obtain name sent where r: "vpnAppChild sample_child (launch_args [10, 8, 0, 2] 16 [10, 8, 0, 1] [''app'']) =
     Some ([TunCreated name, Configured sent, DnsStarted, FdSent, ReadySeen, AppStarted [''app''], TunClosed], None)"
    using sample_child_run by blast
  let ?ps = "sample_push\<lparr>psNetmask := Some (CIDRMask 16)\<rparr>"
  have "\<exists>name index. ce_byName sample_child name = Inl index \<and> length sent = 4
      \<and> kernel_reads 8 (sent ! 2) = Some (tun_views (ce_nl sample_child) index [10, 8, 0, 2] (of_nat 16) ! 2)"
    using namespace_gets_session [of ?ps "[10, 8, 0, 2]" "[10, 8, 0, 1]" 16 "[''app'']" 16 32] r IPMask_Size_CIDR [of 16]
    by (fastforce simp: sample_push_def)
  with r show ?thesis by auto
qed

theorem run_leaves_nothing_witness:
  "\<exists>acts vpn. runVPNApplication \<lparr>re_session = Inl vpn, re_launch = sample_launch, re_nonblock = None,
      re_rounds = [(Inr EAGAIN, Tick), (Inl (1, 0x54, Inl [Inl [9]]), Tick)], re_signalErr = None, re_event = ChildExit None\<rparr>
      [''app''] = Some (acts, None) \<and> BridgeStarted \<in> set acts \<and> TunFdClosed \<in> set acts \<and> last acts = SessionClosed"
proof -
  define vpn where "vpn = \<lparr>vEndpoint = \<lparr>Host = ''h'', IP = ''1.2.3.4'', Location = ''x'', Protocol = ''udp'', Port = 53\<rparr>,
    vControl = None, vSession = sample_push\<lparr>psNetmask := Some (CIDRMask 16)\<rparr>, vKeys = sample_bridge_keys, vResetLatency = 0\<rparr>"
  let ?env = "\<lparr>re_session = Inl vpn, re_launch = sample_launch, re_nonblock = None,
      re_rounds = [(Inr EAGAIN, Tick), (Inl (1, 0x54, Inl [Inl [9]]), Tick)], re_signalErr = None, re_event = ChildExit None\<rparr>"
  obtain acts where r: "runVPNApplication ?env [''app''] = Some (acts, None)" "BridgeStarted \<in> set acts" "SessionUp \<in> set acts"
    using IPMask_Size_CIDR [of 16]
    by (simp add: runVPNApplication_def recvFDWithChild_def recvFD_def launchVPNAppChild_def sample_launch_def vpn_def)
  show ?thesis using run_leaves_nothing [OF r(1)] r by blast
qed

end
