(* ===== verification/VPNDialer.thy ===== *)
theory VPNDialer
  imports LinuxRun Interleaving "HOL-Library.AList"
begin

text \<open>
  The dialer of the Linux proxy, \<^verbatim>\<open>linux_bootstrap_proxy.go\<close>: the parent asks the process in the network namespace
  to connect and receives the connected socket back over a datagram socket.  Calls, the reader of the replies and
  \<^verbatim>\<open>Close\<close> run concurrently; they are steps of a transition system whose state has the dialer, the channels of the
  calls and where each call stands.  Every call makes one channel, so a channel is named by its call.
\<close>

section \<open>The dialer\<close>

record linuxDialResult =
  dr_conn :: "nat option"
  dr_err :: "go_error option"

record linuxVPNDialer =
  sockOpen :: bool
  pending :: "(u32 \<times> nat) list"
  nextID :: u32
  d_closed :: bool

definition newLinuxVPNDialer :: linuxVPNDialer where
  "newLinuxVPNDialer = \<lparr>sockOpen = True, pending = [], nextID = 0, d_closed = False\<rparr>"

abbreviation dial_error :: "go_error \<Rightarrow> linuxDialResult" where
  "dial_error e \<equiv> \<lparr>dr_conn = None, dr_err = Some e\<rparr>"

abbreviation closed_error :: go_error where
  "closed_error \<equiv> ErrorsNew ''VPN proxy dialer closed''"

definition AddUint32 :: "linuxVPNDialer \<Rightarrow> u32 \<times> linuxVPNDialer" where
  "AddUint32 d = (nextID d + 1, d\<lparr>nextID := nextID d + 1\<rparr>)"

definition register :: "u32 \<Rightarrow> nat \<Rightarrow> linuxVPNDialer \<Rightarrow> linuxVPNDialer" where
  "register i ch d = d\<lparr>pending := AList.update i ch (pending d)\<rparr>"

definition forget :: "u32 \<Rightarrow> linuxVPNDialer \<Rightarrow> linuxVPNDialer" where
  "forget i d = d\<lparr>pending := AList.delete i (pending d)\<rparr>"

definition dial_msg :: "u32 \<Rightarrow> string \<Rightarrow> bytes" where
  "dial_msg i address = 0x44 # put32_be i @ bytes_of_string address"

text \<open>\<^verbatim>\<open>Close\<close> under its \<^verbatim>\<open>sync.Once\<close>: the channels that are told, and the dialer afterwards.\<close>

definition dialer_Close :: "linuxVPNDialer \<Rightarrow> nat list \<times> linuxVPNDialer" where
  "dialer_Close d =
     (if d_closed d then ([], d)
      else (map snd (pending d), d\<lparr>d_closed := True, sockOpen := False, pending := []\<rparr>))"

section \<open>Replies from the namespace\<close>

primrec passedFDFromOOB :: "rights list \<Rightarrow> go_error + nat" where
  "passedFDFromOOB [] = Inl (ErrorsNew ''connected socket fd missing'')"
| "passedFDFromOOB (m # ms) =
     (case m of
        Inr e \<Rightarrow> Inl e
      | Inl fds \<Rightarrow> (if length fds > 0 then Inr (fds ! 0) else passedFDFromOOB ms))"

text \<open>
  A datagram with its control messages, or the error of \<^verbatim>\<open>Recvmsg\<close>; the buffer holds 8192 bytes.  \<open>fileConn\<close> is
  \<^verbatim>\<open>net.FileConn\<close>, which duplicates the descriptor into a connection.
\<close>

type_synonym datagram = "(bytes \<times> (rights list + go_error)) + go_error"

datatype reply = LoopEnds | Skipped | Deliver u32 linuxDialResult

definition read_reply :: "(nat \<Rightarrow> nat + go_error) \<Rightarrow> datagram \<Rightarrow> reply" where
  "read_reply fileConn msg =
     (case msg of
        Inr e \<Rightarrow> LoopEnds
      | Inl (dgram, scm) \<Rightarrow>
          (let data = take 8192 dgram in
           if length data < 5 then Skipped
           else let i = u32_at data 1 in
           if data ! 0 = 0x43 then
             Deliver i (case (case scm of Inr e \<Rightarrow> Inl e | Inl msgs \<Rightarrow> passedFDFromOOB msgs) of
                Inl e \<Rightarrow> dial_error e
              | Inr fd \<Rightarrow> (case fileConn fd of
                  Inl c \<Rightarrow> \<lparr>dr_conn = Some c, dr_err = None\<rparr>
                | Inr e \<Rightarrow> dial_error e))
           else if data ! 0 = 0x45 then Deliver i (dial_error (ErrorsNew (string_of_bytes (drop 5 data))))
           else Skipped))"

section \<open>The namespace's side\<close>

definition sendLinuxProxyResult :: "byte \<Rightarrow> u32 \<Rightarrow> nat option \<Rightarrow> string \<Rightarrow> bytes \<times> rights list" where
  "sendLinuxProxyResult status i fd message =
     (status # put32_be i @ bytes_of_string message,
      case fd of Some f \<Rightarrow> [Inl [f]] | None \<Rightarrow> [])"

definition proxy_request :: "bytes \<Rightarrow> (u32 \<times> string) option" where
  "proxy_request dgram =
     (let buf = take 8192 dgram in
      if length buf < 6 \<or> buf ! 0 \<noteq> 0x44 then None
      else Some (u32_at buf 1, string_of_bytes (drop 5 buf)))"

text \<open>
  The calls of the goroutine that serves a request: dialling the target in the namespace, whether the connection is TCP,
  its descriptor, and the text of an error.
\<close>

record dial_env =
  de_dial :: "string \<Rightarrow> nat + go_error"
  de_tcp :: "nat \<Rightarrow> bool"
  de_file :: "nat \<Rightarrow> nat + go_error"
  de_text :: "go_error \<Rightarrow> string"

definition serve_dial :: "dial_env \<Rightarrow> u32 \<Rightarrow> string \<Rightarrow> bytes \<times> rights list" where
  "serve_dial env i target =
     (case de_dial env target of
        Inr e \<Rightarrow> sendLinuxProxyResult 0x45 i None (de_text env e)
      | Inl c \<Rightarrow>
          (if \<not> de_tcp env c then sendLinuxProxyResult 0x45 i None ''VPN dial did not return TCP''
           else case de_file env c of
             Inr e \<Rightarrow> sendLinuxProxyResult 0x45 i None (de_text env e)
           | Inl fd \<Rightarrow> sendLinuxProxyResult 0x43 i (Some fd) ''''))"

text \<open>The loop of the child over what its reads return: the replies sent, and the error it ends with (\<open>None\<close>: still reading).\<close>

fun proxy_serve :: "dial_env \<Rightarrow> (bytes + go_error) list \<Rightarrow> (bytes \<times> rights list) list \<times> go_error option" where
  "proxy_serve env [] = ([], None)"
| "proxy_serve env (Inr e # rs) = ([], Some e)"
| "proxy_serve env (Inl dgram # rs) =
     (let (out, e) = proxy_serve env rs in
      case proxy_request dgram of
        None \<Rightarrow> (out, e)
      | Some (i, target) \<Rightarrow> (serve_dial env i target # out, e))"


section \<open>Calls, replies and Close as steps\<close>

datatype dial_phase = Idle | Named u32 | Registered u32 | Waiting u32 | Returned linuxDialResult

text \<open>
  \<open>outbox\<close> has the sends that are due: \<^verbatim>\<open>deliver\<close> and \<^verbatim>\<open>Close\<close> take a channel out of the table under the lock and send to it
  after they released it; \<open>swapDue\<close>: \<^verbatim>\<open>Close\<close> has closed its channel and the socket and not yet taken the table.  \<open>released\<close> are the connections that were closed.  \<open>issued\<close>, \<open>names\<close> and \<open>replies\<close> record the history:
  how many numbers were drawn, which one a call got, and what was handed to \<^verbatim>\<open>deliver\<close>.
\<close>

record dial_sys =
  dl :: linuxVPNDialer
  chans :: "nat \<Rightarrow> linuxDialResult list"
  phases :: "nat \<Rightarrow> dial_phase"
  outbox :: "(nat \<times> linuxDialResult) list"
  swapDue :: bool
  released :: "nat list"
  issued :: nat
  names :: "nat \<rightharpoonup> u32"
  replies :: "(u32 \<times> linuxDialResult) list"

definition dial_init :: dial_sys where
  "dial_init = \<lparr>dl = newLinuxVPNDialer, chans = (\<lambda>_. []), phases = (\<lambda>_. Idle), outbox = [], swapDue = False, released = [],
     issued = 0, names = Map.empty, replies = []\<rparr>"

definition finish :: "nat \<Rightarrow> linuxDialResult \<Rightarrow> dial_sys \<Rightarrow> dial_sys" where
  "finish k r s = s\<lparr>phases := (phases s)(k := Returned r)\<rparr>"

text \<open>The number 0 is skipped: the call draws again.\<close>

definition dial_name :: "nat \<Rightarrow> dial_sys \<Rightarrow> dial_sys" where
  "dial_name k s =
     (let (i, d) = AddUint32 (dl s); s' = s\<lparr>dl := d, issued := Suc (issued s)\<rparr> in
      if i = 0 then s' else s'\<lparr>phases := (phases s')(k := Named i), names := (names s')(k \<mapsto> i)\<rparr>)"

definition dial_register :: "nat \<Rightarrow> u32 \<Rightarrow> dial_sys \<Rightarrow> dial_sys" where
  "dial_register k i s = s\<lparr>dl := register i k (dl s), phases := (phases s)(k := Registered i)\<rparr>"

definition dial_send :: "nat \<Rightarrow> u32 \<Rightarrow> go_error option \<Rightarrow> dial_sys \<Rightarrow> dial_sys" where
  "dial_send k i sendErr s =
     (case sendErr of
        None \<Rightarrow> s\<lparr>phases := (phases s)(k := Waiting i)\<rparr>
      | Some e \<Rightarrow> finish k (dial_error e) (s\<lparr>dl := forget i (dl s)\<rparr>))"

datatype dial_wake = GotResult | DialCtxDone go_error | SawClosed

text \<open>The \<^verbatim>\<open>select\<close> of a waiting call; \<open>None\<close>: the chosen case is not ready.\<close>

definition dial_select :: "nat \<Rightarrow> u32 \<Rightarrow> dial_wake \<Rightarrow> dial_sys \<Rightarrow> dial_sys option" where
  "dial_select k i w s =
     (case w of
        GotResult \<Rightarrow> (case chans s k of [] \<Rightarrow> None | r # rs \<Rightarrow> Some (finish k r (s\<lparr>chans := (chans s)(k := rs)\<rparr>)))
      | DialCtxDone e \<Rightarrow> Some (finish k (dial_error e) (s\<lparr>dl := forget i (dl s)\<rparr>))
      | SawClosed \<Rightarrow> (if d_closed (dl s) then Some (finish k (dial_error closed_error) s) else None))"

definition deliver_begin :: "u32 \<Rightarrow> linuxDialResult \<Rightarrow> dial_sys \<Rightarrow> dial_sys" where
  "deliver_begin i r s =
     (let s' = s\<lparr>dl := forget i (dl s), replies := replies s @ [(i, r)]\<rparr> in
      case map_of (pending (dl s)) i of
        None \<Rightarrow> (case dr_conn r of None \<Rightarrow> s' | Some c \<Rightarrow> s'\<lparr>released := released s' @ [c]\<rparr>)
      | Some ch \<Rightarrow> s'\<lparr>outbox := outbox s' @ [(ch, r)]\<rparr>)"

text \<open>A send that is due; \<open>None\<close>: the channel is full and the goroutine blocks.\<close>

definition chan_send :: "nat \<Rightarrow> linuxDialResult \<Rightarrow> dial_sys \<Rightarrow> dial_sys option" where
  "chan_send ch r s =
     (case try_send r (chans s ch) of
        None \<Rightarrow> None
      | Some q \<Rightarrow> Some (s\<lparr>chans := (chans s)(ch := q), outbox := remove1 (ch, r) (outbox s)\<rparr>))"

text \<open>
  \<^verbatim>\<open>Close\<close> first closes its channel and the socket, then takes the table under the lock, and then sends to the channels it took;
  other goroutines may run between these steps.  \<open>close_begin\<close> is the first two without interruption.
\<close>

definition close_shut :: "dial_sys \<Rightarrow> dial_sys" where
  "close_shut s = s\<lparr>dl := (dl s)\<lparr>d_closed := True, sockOpen := False\<rparr>, swapDue := True\<rparr>"

definition close_swap :: "dial_sys \<Rightarrow> dial_sys" where
  "close_swap s =
     s\<lparr>dl := (dl s)\<lparr>pending := []\<rparr>, swapDue := False,
       outbox := outbox s @ map (\<lambda>ch. (ch, dial_error closed_error)) (map snd (pending (dl s)))\<rparr>"

definition close_begin :: "dial_sys \<Rightarrow> dial_sys" where
  "close_begin s = (if d_closed (dl s) then s else close_swap (close_shut s))"

inductive dial_step :: "dial_sys \<Rightarrow> dial_sys \<Rightarrow> bool" where
  refuse: "phases s k = Idle \<Longrightarrow> dial_step s (finish k (dial_error e) s)"
| name: "phases s k = Idle \<Longrightarrow> dial_step s (dial_name k s)"
| register: "phases s k = Named i \<Longrightarrow> dial_step s (dial_register k i s)"
| send: "phases s k = Registered i \<Longrightarrow> dial_step s (dial_send k i sendErr s)"
| select: "phases s k = Waiting i \<Longrightarrow> dial_select k i w s = Some s' \<Longrightarrow> dial_step s s'"
| deliver: "dial_step s (deliver_begin i r s)"
| flush: "(ch, r) \<in> set (outbox s) \<Longrightarrow> chan_send ch r s = Some s' \<Longrightarrow> dial_step s s'"
| shut: "\<not> d_closed (dl s) \<Longrightarrow> dial_step s (close_shut s)"
| swap: "swapDue s \<Longrightarrow> dial_step s (close_swap s)"

section \<open>The goroutines\<close>

text \<open>
  A whole call: \<open>k\<close> is its channel, \<open>sendErr\<close> what \<^verbatim>\<open>SendmsgN\<close> returns for the request on the socket (open or not), \<open>others\<close> what the
  other goroutines do while it waits, and \<open>w\<close> the case its \<^verbatim>\<open>select\<close> takes.  The result is the request and the state
  at the return; \<open>None\<close>: the call still waits.
\<close>

definition draw_id :: "nat \<Rightarrow> dial_sys \<Rightarrow> dial_sys" where
  "draw_id k s = (let s1 = dial_name k s in if phases s1 k = Idle then dial_name k s1 else s1)"

definition DialContext ::
  "string \<Rightarrow> string \<Rightarrow> nat \<Rightarrow> (bool \<Rightarrow> bytes \<Rightarrow> go_error option) \<Rightarrow> (dial_sys \<Rightarrow> dial_sys) \<Rightarrow> dial_wake \<Rightarrow> dial_sys \<Rightarrow>
   (bytes list \<times> dial_sys) option" where
  "DialContext network address k sendErr others w s =
     (if network \<noteq> ''tcp'' \<and> network \<noteq> ''tcp4'' then
        Some ([], finish k (dial_error (Errorf ''VPN proxy only supports TCP, got %s'' [ArgS network])) s)
      else
        let s1 = draw_id k s in
        case phases s1 k of
          Named i \<Rightarrow>
            (let s2 = dial_register k i s1; msg = dial_msg i address; e = sendErr (sockOpen (dl s2)) msg;
                 s3 = dial_send k i e s2 in
             if e \<noteq> None then Some ([msg], s3)
             else map_option (Pair [msg]) (dial_select k i w (others s3)))
        | _ \<Rightarrow> None)"

definition deliver_result :: "u32 \<Rightarrow> linuxDialResult \<Rightarrow> dial_sys \<Rightarrow> dial_sys option" where
  "deliver_result i r s =
     (let s' = deliver_begin i r s in
      case map_of (pending (dl s)) i of None \<Rightarrow> Some s' | Some ch \<Rightarrow> chan_send ch r s')"

primrec send_all :: "nat list \<Rightarrow> linuxDialResult \<Rightarrow> dial_sys \<Rightarrow> dial_sys option" where
  "send_all [] r s = Some s"
| "send_all (ch # chs) r s = (case chan_send ch r s of None \<Rightarrow> None | Some s' \<Rightarrow> send_all chs r s')"

definition close_dialer :: "dial_sys \<Rightarrow> dial_sys option" where
  "close_dialer s = send_all (fst (dialer_Close (dl s))) (dial_error closed_error) (close_begin s)"

text \<open>The reader over the datagrams it receives; \<open>None\<close>: a send blocks.\<close>

primrec readLoop :: "(nat \<Rightarrow> nat + go_error) \<Rightarrow> datagram list \<Rightarrow> dial_sys \<Rightarrow> dial_sys option" where
  "readLoop fileConn [] s = Some s"
| "readLoop fileConn (m # ms) s =
     (case read_reply fileConn m of
        LoopEnds \<Rightarrow> close_dialer s
      | Skipped \<Rightarrow> readLoop fileConn ms s
      | Deliver i r \<Rightarrow> (case deliver_result i r s of None \<Rightarrow> None | Some s' \<Rightarrow> readLoop fileConn ms s'))"


section \<open>Invariants\<close>

fun carries :: "dial_phase \<Rightarrow> u32 option" where
  "carries (Named i) = Some i"
| "carries (Registered i) = Some i"
| "carries (Waiting i) = Some i"
| "carries _ = None"

fun listed :: "dial_phase \<Rightarrow> bool" where
  "listed Idle = False"
| "listed (Named i) = False"
| "listed _ = True"

fun hopes :: "dial_phase \<Rightarrow> u32 option" where
  "hopes (Registered i) = Some i"
| "hopes (Waiting i) = Some i"
| "hopes _ = None"

definition ids_ok :: "dial_sys \<Rightarrow> bool" where
  "ids_ok s \<longleftrightarrow> nextID (dl s) = of_nat (issued s)
     \<and> (\<forall>k. phases s k = Idle \<longrightarrow> names s k = None)
     \<and> (\<forall>k i. carries (phases s k) = Some i \<longrightarrow> names s k = Some i)"

definition due :: "dial_sys \<Rightarrow> nat list" where
  "due s = map snd (pending (dl s)) @ map fst (outbox s)"

definition chans_ok :: "dial_sys \<Rightarrow> bool" where
  "chans_ok s \<longleftrightarrow> distinct (map fst (pending (dl s))) \<and> distinct (due s)
     \<and> (\<forall>ch \<in> set (due s). chans s ch = [] \<and> listed (phases s ch))
     \<and> (\<forall>k. \<not> listed (phases s k) \<longrightarrow> chans s k = [])"

text \<open>Where a result is: due, queued in a channel, or returned.\<close>

definition held :: "dial_sys \<Rightarrow> nat \<Rightarrow> linuxDialResult \<Rightarrow> bool" where
  "held s ch r \<longleftrightarrow> (ch, r) \<in> set (outbox s) \<or> r \<in> set (chans s ch) \<or> phases s ch = Returned r"

definition matched :: "dial_sys \<Rightarrow> bool" where
  "matched s \<longleftrightarrow> (\<forall>i ch. (i, ch) \<in> set (pending (dl s)) \<longrightarrow> names s ch = Some i)
     \<and> (\<forall>ch r. held s ch r \<and> dr_conn r \<noteq> None \<longrightarrow> (\<exists>i. names s ch = Some i \<and> (i, r) \<in> set (replies s)))"

definition kept :: "dial_sys \<Rightarrow> bool" where
  "kept s \<longleftrightarrow> (\<forall>i r c. (i, r) \<in> set (replies s) \<and> dr_conn r = Some c \<longrightarrow>
     c \<in> set (released s) \<or> (\<exists>ch. names s ch = Some i \<and> held s ch r))"

text \<open>A channel holds one result at most, and a call that returned without its result returned an error.\<close>

definition spent :: "dial_sys \<Rightarrow> bool" where
  "spent s \<longleftrightarrow> (\<forall>k. length (chans s k) \<le> 1)
     \<and> (\<forall>k y. phases s k = Returned y \<and> (chans s k \<noteq> [] \<or> k \<in> set (due s)) \<longrightarrow> (\<exists>e. y = dial_error e))"

definition unique_ids :: "dial_sys \<Rightarrow> bool" where
  "unique_ids s \<longleftrightarrow> (issued s < 2 ^ 32 \<longrightarrow>
     (\<forall>k i. names s k = Some i \<longrightarrow> unat i \<le> issued s) \<and> (\<forall>k k' i. names s k = Some i \<and> names s k' = Some i \<longrightarrow> k = k'))"

definition heard :: "dial_sys \<Rightarrow> bool" where
  "heard s \<longleftrightarrow> (issued s < 2 ^ 32 \<longrightarrow>
     (\<forall>k i. hopes (phases s k) = Some i \<longrightarrow>
        chans s k \<noteq> [] \<or> k \<in> fst ` set (outbox s) \<or> (i, k) \<in> set (pending (dl s))))"

definition dial_inv :: "dial_sys \<Rightarrow> bool" where
  "dial_inv s \<longleftrightarrow> ids_ok s \<and> chans_ok s \<and> matched s \<and> kept s \<and> unique_ids s \<and> heard s \<and> spent s"

lemmas dial_step_defs = finish_def dial_name_def AddUint32_def dial_register_def register_def dial_send_def forget_def
  dial_select_def deliver_begin_def chan_send_def close_shut_def close_swap_def

lemma hopes_carries: "hopes p = Some i \<Longrightarrow> carries p = Some i" "hopes p = Some i \<Longrightarrow> listed p"
  by (cases p; simp)+

lemma set_update_sub: "set (AList.update i k al) \<subseteq> insert (i, k) (set al)"
  by (induction al) auto

lemma set_update_in: "distinct (map fst al) \<Longrightarrow> (j, ch) \<in> set al \<Longrightarrow> j \<noteq> i \<Longrightarrow> (j, ch) \<in> set (AList.update i k al)"
  by (induction al) auto

lemma in_set_update: "(i, k) \<in> set (AList.update i k al)"
  by (induction al) auto

lemma distinct_snd_update:
  "distinct (map snd al) \<Longrightarrow> k \<notin> snd ` set al \<Longrightarrow> distinct (map snd (AList.update i k al))"
proof (induction al)
  case (Cons p al)
  obtain j v where p: "p = (j, v)" by fastforce
  have "v \<notin> snd ` set (AList.update i k al)"
    using Cons.prems set_update_sub [of i k al] by (auto simp: p)
  with Cons show ?case by (auto simp: p)
qed simp

lemma distinct_snd_delete: "distinct (map snd al) \<Longrightarrow> distinct (map snd (AList.delete i al))"
  by (induction al) (auto simp: AList.delete_eq)

lemma ids_ok_step: "dial_step s t \<Longrightarrow> ids_ok s \<Longrightarrow> ids_ok t"
  by (cases rule: dial_step.cases)
    (auto simp: ids_ok_def dial_step_defs Let_def add.commute split: option.splits if_splits dial_wake.splits list.splits)

lemma due_forget: "set (due (s\<lparr>dl := forget i (dl s)\<rparr>)) \<subseteq> set (due s)"
  by (auto simp: due_def forget_def AList.delete_eq)

lemma chans_ok_forget:
  assumes "chans_ok s"
  shows "chans_ok (s\<lparr>dl := forget i (dl s)\<rparr>)"
proof -
  have "snd ` set (AList.delete i (pending (dl s))) \<subseteq> snd ` set (pending (dl s))" by (auto simp: AList.delete_eq)
  then have "distinct (due (s\<lparr>dl := forget i (dl s)\<rparr>))"
    using assms distinct_snd_delete [of "pending (dl s)" i] by (auto simp: chans_ok_def due_def forget_def)
  moreover have "distinct (map fst (pending (forget i (dl s))))"
    using assms by (simp add: chans_ok_def forget_def distinct_delete)
  ultimately show ?thesis using assms due_forget [of i s] by (auto simp: chans_ok_def)
qed

lemma chans_ok_finish: "chans_ok s \<Longrightarrow> chans_ok (finish k r s)"
  by (auto simp: chans_ok_def finish_def due_def)

lemma map_of_delete_snd:
  assumes "distinct (map snd al)" "map_of al i = Some ch"
  shows "ch \<notin> snd ` set (AList.delete i al)"
proof -
  have "(i, ch) \<in> set al" using map_of_SomeD [OF assms(2)] .
  with assms(1) have "j = i" if "(j, ch) \<in> set al" for j
    using that by (metis distinct_map inj_onD prod.inject snd_conv)
  then show ?thesis by (auto simp: AList.delete_eq)
qed

lemma remove1_keys:
  assumes "distinct (map fst al)"
  shows "set (remove1 p al) = set al - {p}" "distinct (map fst (remove1 p al))"
proof -
  show "set (remove1 p al) = set al - {p}" using assms distinct_map [of fst al] by simp
  show "distinct (map fst (remove1 p al))" using assms
  proof (induction al)
    case (Cons q al)
    then show ?case using set_remove1_subset [of p al] by auto
  qed simp
qed

lemma remove1_fst:
  assumes "distinct (map fst al)" "(ch, r) \<in> set al"
  shows "fst ` set (remove1 (ch, r) al) = fst ` set al - {ch}"
proof -
  have "inj_on fst (set al)" using assms(1) by (simp add: distinct_map)
  then have "fst ` (set al - {(ch, r)}) = fst ` set al - fst ` {(ch, r)}"
    by (rule inj_on_image_set_diff) (use assms(2) in auto)
  then show ?thesis by (simp add: remove1_keys(1) [OF assms(1)])
qed

lemma chans_ok_step:
  assumes "dial_step s t" "chans_ok s"
  shows "chans_ok t"
  using assms(1)
proof cases
  case (refuse k e)
  then show ?thesis using chans_ok_finish assms(2) by simp
next
  case (name k)
  have fresh: "k \<notin> set (due s)" "chans s k = []" using assms(2) name(2) by (auto simp: chans_ok_def)
  have "due t = due s" "pending (dl t) = pending (dl s)" "chans t = chans s"
      "\<forall>j. j \<noteq> k \<longrightarrow> phases t j = phases s j"
    using name by (simp_all add: due_def dial_name_def AddUint32_def Let_def)
  with fresh assms(2) show ?thesis unfolding chans_ok_def by metis
next
  case (register k i)
  have fresh: "k \<notin> set (due s)" "chans s k = []" using assms(2) register(2) by (auto simp: chans_ok_def)
  have sub: "snd ` set (AList.update i k (pending (dl s))) \<subseteq> insert k (snd ` set (pending (dl s)))"
    using set_update_sub [of i k "pending (dl s)"] by auto
  have dt: "due t = map snd (AList.update i k (pending (dl s))) @ map fst (outbox s)"
    by (simp add: register due_def dial_register_def VPNDialer.register_def)
  have "distinct (map snd (AList.update i k (pending (dl s))))"
    by (rule distinct_snd_update) (use assms(2) fresh(1) in \<open>simp_all add: chans_ok_def due_def\<close>)
  moreover have "snd ` set (AList.update i k (pending (dl s))) \<inter> fst ` set (outbox s) = {}"
  proof -
    have "k \<notin> fst ` set (outbox s)" "snd ` set (pending (dl s)) \<inter> fst ` set (outbox s) = {}"
      using fresh(1) assms(2) by (simp_all add: chans_ok_def due_def)
    with sub show ?thesis by blast
  qed
  ultimately have "distinct (due t)" unfolding dt using assms(2) by (simp add: chans_ok_def due_def)
  moreover have "set (due t) \<subseteq> insert k (set (due s))" unfolding dt using sub by (auto simp: due_def)
  ultimately show ?thesis using assms(2) fresh
    by (auto simp: register chans_ok_def dial_register_def VPNDialer.register_def distinct_update)
next
  case (send k i sendErr)
  then show ?thesis using assms(2) chans_ok_finish [OF chans_ok_forget [OF assms(2)]]
    by (auto simp: dial_send_def chans_ok_def due_def split: option.splits)
next
  case (select k i w)
  show ?thesis
  proof (cases w)
    case GotResult
    with select obtain r rs where c: "chans s k = r # rs" "t = finish k r (s\<lparr>chans := (chans s)(k := rs)\<rparr>)"
      by (auto simp: dial_select_def split: list.splits)
    let ?s = "s\<lparr>chans := (chans s)(k := rs)\<rparr>"
    have "k \<notin> set (due s)" using assms(2) c(1) by (auto simp: chans_ok_def)
    moreover have "due ?s = due s" by (simp add: due_def)
    ultimately have "chans_ok ?s" using assms(2) select(1) unfolding chans_ok_def by auto
    then show ?thesis unfolding c(2) by (rule chans_ok_finish)
  next
    case (DialCtxDone e)
    with select show ?thesis
      using chans_ok_finish [OF chans_ok_forget [OF assms(2)]] by (auto simp: dial_select_def)
  next
    case SawClosed
    with select show ?thesis
      using chans_ok_finish [OF assms(2)] by (auto simp: dial_select_def split: if_splits)
  qed
next
  case (deliver i r)
  have f: "chans_ok (s\<lparr>dl := forget i (dl s)\<rparr>)" using chans_ok_forget [OF assms(2)] .
  show ?thesis
  proof (cases "map_of (pending (dl s)) i")
    case None
    with deliver f show ?thesis
      by (auto simp: deliver_begin_def Let_def chans_ok_def due_def split: option.splits)
  next
    case (Some ch)
    have p: "ch \<in> snd ` set (pending (dl s))" using map_of_SomeD [OF Some] by force
    then have "ch \<in> set (due s)" by (simp add: due_def)
    then have c: "chans s ch = []" "listed (phases s ch)" using assms(2) by (simp_all add: chans_ok_def)
    have o: "ch \<notin> fst ` set (outbox s)" using assms(2) p unfolding chans_ok_def due_def distinct_append set_map by blast
    have "ch \<notin> snd ` set (AList.delete i (pending (dl s)))"
      by (rule map_of_delete_snd [OF _ Some]) (use assms(2) in \<open>simp add: chans_ok_def due_def\<close>)
    with deliver Some f c o show ?thesis
      by (simp add: deliver_begin_def Let_def chans_ok_def due_def forget_def)
  qed
next
  case (flush ch r)
  then have q: "chans s ch = []" "t = s\<lparr>chans := (chans s)(ch := [r]), outbox := remove1 (ch, r) (outbox s)\<rparr>"
    by (auto simp: chan_send_def try_send_Some split: option.splits)
  have d: "distinct (map fst (outbox s))" using assms(2) by (simp add: chans_ok_def due_def)
  note rm = remove1_keys [OF d, of "(ch, r)"]
  let ?o = "remove1 (ch, r) (outbox s)"
  have o: "ch \<in> fst ` set (outbox s)" using flush(1) by force
  have p: "ch \<notin> snd ` set (pending (dl s))"
    using o assms(2) unfolding chans_ok_def due_def distinct_append set_map by blast
  have k: "fst ` set ?o = fst ` set (outbox s) - {ch}" by (rule remove1_fst [OF d flush(1)])
  have "due t = map snd (pending (dl s)) @ map fst ?o" unfolding q(2) by (simp add: due_def)
  moreover have "set (due t) = set (due s) - {ch}" using p k unfolding calculation by (auto simp: due_def)
  moreover have "distinct (due t)" using assms(2) rm(2) k unfolding calculation(1) by (auto simp: chans_ok_def due_def)
  moreover have "listed (phases s ch)" using assms(2) o by (auto simp: chans_ok_def due_def)
  ultimately show ?thesis using assms(2) unfolding q(2) chans_ok_def by auto
next
  case shut
  with assms(2) show ?thesis by (simp add: close_shut_def chans_ok_def due_def)
next
  case swap
  then have t: "due t = map fst (outbox s) @ map snd (pending (dl s))" "pending (dl t) = []" "chans t = chans s" "phases t = phases s"
    by (simp_all add: close_swap_def due_def comp_def)
  then have "set (due t) = set (due s)" "distinct (due t)" using assms(2) by (auto simp: chans_ok_def due_def)
  with t assms(2) show ?thesis unfolding chans_ok_def by simp
qed

lemma held_finish:
  "(\<forall>x. phases s k \<noteq> Returned x) \<Longrightarrow> held (finish k r s) ch x \<longleftrightarrow> held s ch x \<or> ch = k \<and> x = r"
  by (auto simp: held_def finish_def)

lemma matched_forget: "matched s \<Longrightarrow> matched (s\<lparr>dl := forget i (dl s)\<rparr>)"
  by (auto simp: matched_def held_def forget_def AList.delete_eq)

lemma matched_finish:
  assumes "matched s" "\<forall>x. phases s k \<noteq> Returned x" "dr_conn r = None \<or> (\<exists>i. names s k = Some i \<and> (i, r) \<in> set (replies s))"
  shows "matched (finish k r s)"
  using assms unfolding matched_def held_finish [OF assms(2)] by (auto simp: finish_def)

lemma deliver_begin_cases:
  obtains (gone) "map_of (pending (dl s)) i = None" "deliver_begin i r s =
      s\<lparr>dl := forget i (dl s), replies := replies s @ [(i, r)], released := released s @ (case dr_conn r of None \<Rightarrow> [] | Some c \<Rightarrow> [c])\<rparr>"
  | (found) ch where "map_of (pending (dl s)) i = Some ch" "deliver_begin i r s =
      s\<lparr>dl := forget i (dl s), replies := replies s @ [(i, r)], outbox := outbox s @ [(ch, r)]\<rparr>"
  by (cases "map_of (pending (dl s)) i") (auto simp: deliver_begin_def Let_def split: option.splits)

lemma chan_send_Some:
  "chan_send ch r s = Some t \<longleftrightarrow> chans s ch = [] \<and> t = s\<lparr>chans := (chans s)(ch := [r]), outbox := remove1 (ch, r) (outbox s)\<rparr>"
  by (auto simp: chan_send_def try_send_Some split: option.splits)

lemma held_flush:
  assumes "(ch, r) \<in> set (outbox s)" "chan_send ch r s = Some t" "distinct (map fst (outbox s))"
  shows "held t k x \<longleftrightarrow> held s k x"
proof -
  have q: "chans s ch = []" "t = s\<lparr>chans := (chans s)(ch := [r]), outbox := remove1 (ch, r) (outbox s)\<rparr>"
    using assms(2) by (simp_all add: chan_send_Some)
  have "(ch, x) \<in> set (outbox s) \<longrightarrow> x = r"
    using eq_key_imp_eq_value [OF assms(3) _ assms(1)] by blast
  moreover have "set (remove1 (ch, r) (outbox s)) = set (outbox s) - {(ch, r)}"
    by (rule remove1_keys(1) [OF assms(3)])
  ultimately have "(k, x) \<in> set (remove1 (ch, r) (outbox s)) \<or> x \<in> set (((chans s)(ch := [r])) k) \<longleftrightarrow>
      (k, x) \<in> set (outbox s) \<or> x \<in> set (chans s k)"
    using assms(1) q(1) by (cases "k = ch") (simp_all, blast)
  moreover have "held t k x \<longleftrightarrow> ((k, x) \<in> set (remove1 (ch, r) (outbox s)) \<or> x \<in> set (((chans s)(ch := [r])) k)) \<or> phases s k = Returned x"
    unfolding q(2) held_def by simp
  ultimately show ?thesis unfolding held_def by blast
qed

lemma matched_step:
  assumes "dial_step s t" "matched s" "ids_ok s" "chans_ok s"
  shows "matched t"
  using assms(1)
proof cases
  case (refuse k e)
  then show ?thesis using matched_finish [OF assms(2), of k "dial_error e"] by simp
next
  case (name k)
  then have n: "names s k = None" using assms(3) by (simp add: ids_ok_def)
  have "replies t = replies s" "\<forall>ch x. ch \<noteq> k \<longrightarrow> held t ch x = held s ch x" "pending (dl t) = pending (dl s)"
      "\<forall>ch. ch \<noteq> k \<longrightarrow> names t ch = names s ch" "\<forall>x. held t k x \<longrightarrow> held s k x"
    using name by (simp_all add: dial_name_def AddUint32_def Let_def held_def)
  with n assms(2) show ?thesis unfolding matched_def by (metis option.distinct(1))
next
  case (register k i)
  then have n: "names s k = Some i" using assms(3) by (simp add: ids_ok_def)
  have "\<forall>ch x. held t ch x \<longrightarrow> held s ch x" "names t = names s" "replies t = replies s"
      "set (pending (dl t)) \<subseteq> insert (i, k) (set (pending (dl s)))"
    using register set_update_sub [of i k "pending (dl s)"]
    by (simp_all add: held_def dial_register_def VPNDialer.register_def)
  with n assms(2) show ?thesis unfolding matched_def by (simp add: subset_iff) blast
next
  case (send k i sendErr)
  then show ?thesis using assms(2) matched_finish [OF matched_forget [OF assms(2)], where k = k]
    by (auto simp: dial_send_def matched_def held_def split: option.splits)
next
  case (select k i w)
  show ?thesis
  proof (cases w)
    case GotResult
    with select obtain r rs where c: "chans s k = r # rs" "t = finish k r (s\<lparr>chans := (chans s)(k := rs)\<rparr>)"
      by (auto simp: dial_select_def split: list.splits)
    let ?s = "s\<lparr>chans := (chans s)(k := rs)\<rparr>"
    have "matched ?s" using assms(2) c(1) by (auto simp: matched_def held_def)
    moreover have "held s k r" using c(1) by (simp add: held_def)
    then have "dr_conn r = None \<or> (\<exists>i. names ?s k = Some i \<and> (i, r) \<in> set (replies ?s))"
      using assms(2) unfolding matched_def by auto
    ultimately show ?thesis unfolding c(2) by (intro matched_finish) (use select in auto)
  next
    case (DialCtxDone e)
    with select show ?thesis
      using matched_finish [OF matched_forget [OF assms(2)], where k = k] by (auto simp: dial_select_def)
  next
    case SawClosed
    with select show ?thesis
      using matched_finish [OF assms(2), of k] by (auto simp: dial_select_def split: if_splits)
  qed
next
  case (deliver i r)
  show ?thesis
  proof (cases rule: deliver_begin_cases [of s i r])
    case gone
    with deliver matched_forget [OF assms(2), of i] show ?thesis
      by (fastforce simp: matched_def held_def)
  next
    case (found ch)
    have "names s ch = Some i" using assms(2) map_of_SomeD [OF found(1)] by (simp add: matched_def)
    with deliver found matched_forget [OF assms(2), of i] show ?thesis
      by (fastforce simp: matched_def held_def)
  qed
next
  case (flush ch r)
  have d: "distinct (map fst (outbox s))" using assms(4) by (simp add: chans_ok_def due_def)
  have "pending (dl t) = pending (dl s)" "names t = names s" "replies t = replies s"
    using flush(2) by (simp_all add: chan_send_Some)
  with assms(2) held_flush [OF flush d] show ?thesis by (simp add: matched_def)
next
  case shut
  with assms(2) show ?thesis by (simp add: matched_def held_def close_shut_def)
next
  case swap
  with assms(2) show ?thesis by (auto simp: matched_def held_def close_swap_def)
qed

lemma kept_step:
  assumes "dial_step s t" "kept s" "chans_ok s" "matched s" "ids_ok s"
  shows "kept t"
proof -
  have mono: "kept t" if "\<forall>ch x. held s ch x \<longrightarrow> held t ch x" "\<forall>ch i. names s ch = Some i \<longrightarrow> names t ch = Some i"
      "replies t = replies s" "released t = released s"
    using assms(2) that unfolding kept_def by metis
  show ?thesis using assms(1)
  proof cases
    case (select k i w)
    then show ?thesis
      by (intro mono) (auto simp: dial_select_def held_def finish_def split: dial_wake.splits list.splits if_splits)
  next
    case (send k i sendErr)
    then show ?thesis by (intro mono) (auto simp: dial_send_def held_def finish_def split: option.splits)
  next
    case (deliver i r)
    show ?thesis
    proof (cases rule: deliver_begin_cases [of s i r])
      case gone
      with deliver assms(2) show ?thesis by (fastforce simp: kept_def held_def)
    next
      case (found ch)
      have "names s ch = Some i" using assms(4) map_of_SomeD [OF found(1)] by (simp add: matched_def)
      moreover have "held t ch r" "\<forall>ch x. held s ch x \<longrightarrow> held t ch x" using deliver found by (auto simp: held_def)
      ultimately show ?thesis using deliver found assms(2) unfolding kept_def by fastforce
    qed
  next
    case (flush ch r)
    have d: "distinct (map fst (outbox s))" using assms(3) by (simp add: chans_ok_def due_def)
    show ?thesis using flush(2) held_flush [OF flush d] by (intro mono) (simp_all add: chan_send_Some)
  next
    case shut
    then show ?thesis by (intro mono) (auto simp: close_shut_def held_def)
  next
    case swap
    then show ?thesis by (intro mono) (auto simp: close_swap_def held_def)
  next
    case (refuse k e)
    then show ?thesis by (intro mono) (auto simp: finish_def held_def)
  next
    case (name k)
    have "names s k = None" using assms(5) name(2) by (simp add: ids_ok_def)
    with name show ?thesis by (intro mono) (auto simp: dial_name_def AddUint32_def Let_def held_def)
  next
    case (register k i)
    then show ?thesis by (intro mono) (auto simp: dial_register_def held_def)
  qed
qed

lemma unique_ids_step:
  assumes "dial_step s t" "unique_ids s" "ids_ok s"
  shows "unique_ids t"
  using assms(1)
proof cases
  case (name k)
  have n: "names s k = None" "nextID (dl s) = of_nat (issued s)" using assms(3) name(2) by (simp_all add: ids_ok_def)
  show ?thesis
  proof (cases "Suc (issued s) < 2 ^ 32")
    case True
    let ?i = "of_nat (Suc (issued s)) :: u32"
    have i: "nextID (dl s) + 1 = ?i" using n(2) by (simp add: add.commute)
    have u: "unat ?i = Suc (issued s)" by (subst unat_of_nat) (use True in simp)
    have "names s k' \<noteq> Some ?i" for k'
      using assms(2) True u unfolding unique_ids_def
      by (metis Suc_lessD Suc_n_not_le_n)
    moreover have "t = s\<lparr>dl := (dl s)\<lparr>nextID := ?i\<rparr>, issued := Suc (issued s), phases := (phases s)(k := Named ?i), names := (names s)(k \<mapsto> ?i)\<rparr>"
      using name u i by (auto simp: dial_name_def AddUint32_def Let_def)
    ultimately show ?thesis using assms(2) True u unfolding unique_ids_def
      by (auto simp: le_SucI)
  next
    case False
    then show ?thesis using name by (simp add: unique_ids_def dial_name_def AddUint32_def Let_def)
  qed
qed (use assms(2) in \<open>auto simp: unique_ids_def dial_step_defs Let_def split: option.splits if_splits dial_wake.splits list.splits\<close>)

lemma heard_step:
  assumes "dial_step s t" "heard s" "ids_ok s" "chans_ok s" "matched s" "unique_ids t"
  shows "heard t"
proof (cases "issued t < 2 ^ 32")
  case False
  then show ?thesis by (simp add: heard_def)
next
  case small: True
  have names: "names s k' = Some i \<Longrightarrow> names s k = Some i \<Longrightarrow> k = k'"
    if "names t = names s" for k k' i
    using assms(6) small that unfolding unique_ids_def by metis
  have forget: "heard (finish k r (s\<lparr>dl := forget i (dl s)\<rparr>))"
    if k: "carries (phases s k) = Some i" and same: "names t = names s" "issued t = issued s" for k i r
  proof -
    have "names s k = Some i" using k assms(3) by (simp add: ids_ok_def)
    then have "(j, k') \<in> set (AList.delete i (pending (dl s)))" if "(j, k') \<in> set (pending (dl s))" "k' \<noteq> k" for j k'
      using that assms(5) names [OF same(1), of k' i k] by (auto simp: AList.delete_eq matched_def)
    then show ?thesis using assms(2) small same by (auto simp: heard_def finish_def forget_def) blast
  qed
  show ?thesis using assms(1)
  proof cases
    case (refuse k e)
    with assms(2) show ?thesis by (auto simp: heard_def finish_def)
  next
    case (name k)
    with assms(2) show ?thesis by (auto simp: heard_def dial_name_def AddUint32_def Let_def)
  next
    case (register k i)
    have n: "names s k = Some i" "names t = names s" using register assms(3) by (simp_all add: ids_ok_def dial_register_def)
    have d: "distinct (map fst (pending (dl s)))" using assms(4) by (simp add: chans_ok_def)
    have "(j, k') \<in> set (AList.update i k (pending (dl s)))" if "(j, k') \<in> set (pending (dl s))" "k' \<noteq> k" for j k'
      using that assms(5) names [OF n(2), of k' i k] n(1) set_update_in [OF d, of j k' i k] by (auto simp: matched_def)
    then show ?thesis using assms(2) register small in_set_update [of i k "pending (dl s)"]
      by (auto simp: heard_def dial_register_def VPNDialer.register_def) blast
  next
    case (send k i sendErr)
    show ?thesis
    proof (cases sendErr)
      case None
      with send assms(2) show ?thesis by (auto simp: dial_send_def heard_def)
    next
      case (Some e)
      with send have t: "t = finish k (dial_error e) (s\<lparr>dl := forget i (dl s)\<rparr>)" by (simp add: dial_send_def)
      show ?thesis unfolding t by (rule forget) (simp_all add: send(2) t finish_def)
    qed
  next
    case (select k i w)
    show ?thesis
    proof (cases w)
      case GotResult
      with select assms(2) show ?thesis
        by (auto simp: heard_def dial_select_def finish_def split: list.splits if_splits) blast
    next
      case (DialCtxDone e)
      with select have t: "t = finish k (dial_error e) (s\<lparr>dl := forget i (dl s)\<rparr>)" by (simp add: dial_select_def)
      show ?thesis unfolding t by (rule forget) (simp_all add: select(1) t finish_def)
    next
      case SawClosed
      with select assms(2) show ?thesis by (auto simp: heard_def dial_select_def finish_def split: if_splits) blast
    qed
  next
    case (deliver i r)
    have d: "distinct (map fst (pending (dl s)))" using assms(4) by (simp add: chans_ok_def)
    show ?thesis
    proof (cases rule: deliver_begin_cases [of s i r])
      case gone
      then have "AList.delete i (pending (dl s)) = pending (dl s)"
        by (simp add: map_of_eq_None_iff delete_idem)
      with gone deliver assms(2) show ?thesis by (simp add: heard_def forget_def)
    next
      case (found ch)
      have "k' = ch" if "(i, k') \<in> set (pending (dl s))" for k'
        using found(1) that d by simp
      then have "(j, k') \<in> set (AList.delete i (pending (dl s)))" if "(j, k') \<in> set (pending (dl s))" "k' \<noteq> ch" for j k'
        using that by (auto simp: AList.delete_eq)
      with found deliver assms(2) show ?thesis by (auto simp: heard_def forget_def) blast
    qed
  next
    case (flush ch r)
    have d: "distinct (map fst (outbox s))" using assms(4) by (simp add: chans_ok_def due_def)
    have "fst ` set (remove1 (ch, r) (outbox s)) = fst ` set (outbox s) - {ch}" by (rule remove1_fst [OF d flush(1)])
    with flush assms(2) show ?thesis by (auto simp: heard_def chan_send_Some)
  next
    case shut
    with assms(2) show ?thesis by (simp add: heard_def close_shut_def)
  next
    case swap
    then have "fst ` set (outbox t) = fst ` set (outbox s) \<union> snd ` set (pending (dl s))"
        "phases t = phases s" "chans t = chans s" "issued t = issued s"
      by (simp_all add: close_swap_def image_Un image_image)
    with assms(2) show ?thesis by (force simp: heard_def)
  qed
qed

lemma spent_mono:
  "spent s \<Longrightarrow> chans t = chans s \<Longrightarrow> phases t = phases s \<Longrightarrow> set (due t) \<subseteq> set (due s) \<Longrightarrow> spent t"
  unfolding spent_def by (simp, blast)

lemma spent_forget: "spent s \<Longrightarrow> spent (s\<lparr>dl := forget i (dl s)\<rparr>)"
  by (rule spent_mono) (auto dest: due_forget [THEN subsetD])

lemma spent_error: "spent s \<Longrightarrow> spent (finish k (dial_error e) s)"
  by (auto simp: spent_def finish_def due_def)

lemma spent_step:
  assumes "dial_step s t" "spent s" "chans_ok s"
  shows "spent t"
proof -
  have mono: "spent t" if "chans t = chans s" "phases t = phases s" "set (due t) \<subseteq> set (due s)"
    using spent_mono assms(2) that by blast
  show ?thesis using assms(1)
  proof cases
    case (refuse k e)
    with assms(2) spent_error show ?thesis by simp
  next
    case (name k)
    with assms(2) show ?thesis by (auto simp: spent_def due_def dial_name_def AddUint32_def Let_def)
  next
    case (register k i)
    then have "chans t = chans s" "phases t = (phases s)(k := Registered i)" "set (due t) \<subseteq> insert k (set (due s))"
      using set_update_sub [of i k "pending (dl s)"]
      by (auto simp: due_def dial_register_def VPNDialer.register_def)
    with assms(2) show ?thesis by (auto simp: spent_def) blast
  next
    case (send k i sendErr)
    show ?thesis
    proof (cases sendErr)
      case None
      with send assms(2) show ?thesis by (auto simp: dial_send_def spent_def due_def)
    next
      case (Some e)
      with send spent_error [OF spent_forget [OF assms(2)]] show ?thesis by (simp add: dial_send_def)
    qed
  next
    case (select k i w)
    show ?thesis
    proof (cases w)
      case GotResult
      then obtain r rs where c: "chans s k = r # rs" "t = finish k r (s\<lparr>chans := (chans s)(k := rs)\<rparr>)"
        using select(2) by (auto simp: dial_select_def split: list.splits)
      moreover have "rs = []" using assms(2) c(1) unfolding spent_def by (metis length_0_conv length_Cons le_SucE Suc_le_mono le_zero_eq One_nat_def)
      moreover have "k \<notin> set (due s)" using assms(3) c(1) by (auto simp: chans_ok_def)
      ultimately show ?thesis using assms(2) by (auto simp: spent_def finish_def due_def)
    next
      case (DialCtxDone e)
      with select spent_error [OF spent_forget [OF assms(2)]] show ?thesis by (auto simp: dial_select_def)
    next
      case SawClosed
      with select spent_error [OF assms(2)] show ?thesis by (auto simp: dial_select_def split: if_splits)
    qed
  next
    case (deliver i r)
    have sub: "set (due (s\<lparr>dl := forget i (dl s)\<rparr>)) \<subseteq> set (due s)" by (rule due_forget)
    show ?thesis
    proof (cases rule: deliver_begin_cases [of s i r])
      case gone
      with deliver sub show ?thesis by (intro mono) (auto simp: due_def)
    next
      case (found ch)
      have "ch \<in> set (due s)" using map_of_SomeD [OF found(1)] by (force simp: due_def)
      with found deliver sub show ?thesis by (intro mono) (auto simp: due_def)
    qed
  next
    case (flush ch r)
    have "ch \<in> set (due s)" using flush(1) by (force simp: due_def)
    moreover have "chans t = (chans s)(ch := [r])" "phases t = phases s" using flush(2) by (simp_all add: chan_send_Some)
    moreover have "set (due t) \<subseteq> set (due s)"
      using flush(2) set_remove1_subset [of "(ch, r)" "outbox s"] by (auto simp: due_def chan_send_Some)
    ultimately show ?thesis using assms(2) unfolding spent_def by (simp, blast)
  next
    case shut
    then show ?thesis by (intro mono) (simp_all add: close_shut_def due_def)
  next
    case swap
    then show ?thesis by (intro mono) (auto simp: close_swap_def due_def)
  qed
qed

interpretation dialer: transition_system "\<lambda>s. s = dial_init" dial_step dial_inv
proof
  show "dial_inv s" if "s = dial_init" for s
    using that by (simp add: dial_inv_def dial_init_def newLinuxVPNDialer_def ids_ok_def chans_ok_def due_def matched_def
        held_def kept_def unique_ids_def heard_def spent_def)
  show "dial_inv t" if "dial_inv s" "dial_step s t" for s t
    using that ids_ok_step chans_ok_step matched_step kept_step unique_ids_step heard_step spent_step
    by (simp add: dial_inv_def)
qed

section \<open>The goroutines take steps and never block\<close>

lemma chan_send_due:
  assumes "chans_ok s" "(ch, r) \<in> set (outbox s)"
  shows "\<exists>t. chan_send ch r s = Some t \<and> dial_step s t"
proof -
  have "ch \<in> set (due s)" using assms(2) by (force simp: due_def)
  then have "chans s ch = []" using assms(1) by (simp add: chans_ok_def)
  then show ?thesis using dial_step.flush [OF assms(2)] by (auto simp: chan_send_Some)
qed

lemma deliver_result_runs:
  assumes "dial_inv s"
  shows "\<exists>t. deliver_result i r s = Some t \<and> dial_step\<^sup>*\<^sup>* s t"
proof (cases "map_of (pending (dl s)) i")
  case None
  then show ?thesis using dial_step.deliver [of s i r] by (auto simp: deliver_result_def Let_def)
next
  case (Some ch)
  have c: "chans_ok (deliver_begin i r s)"
    using chans_ok_step [OF dial_step.deliver] assms by (simp add: dial_inv_def)
  have "(ch, r) \<in> set (outbox (deliver_begin i r s))" using Some by (simp add: deliver_begin_def Let_def)
  from chan_send_due [OF c this] obtain t where "chan_send ch r (deliver_begin i r s) = Some t" "dial_step (deliver_begin i r s) t" by blast
  with Some dial_step.deliver [of s i r] show ?thesis
    by (auto simp: deliver_result_def Let_def intro: converse_rtranclp_into_rtranclp)
qed

lemma send_all_runs:
  "chans_ok s \<Longrightarrow> distinct chs \<Longrightarrow> (\<forall>ch \<in> set chs. (ch, r) \<in> set (outbox s)) \<Longrightarrow>
   \<exists>t. send_all chs r s = Some t \<and> dial_step\<^sup>*\<^sup>* s t"
proof (induction chs arbitrary: s)
  case (Cons ch chs)
  then obtain u where u: "chan_send ch r s = Some u" "dial_step s u" using chan_send_due [of s ch r] by auto
  have "(c, r) \<in> set (outbox u)" if "c \<in> set chs" for c
  proof -
    have "c \<noteq> ch" using Cons.prems(2) that by auto
    then show ?thesis using Cons.prems(3) that u(1) by (simp add: chan_send_Some in_set_remove1)
  qed
  then obtain t where "send_all chs r u = Some t" "dial_step\<^sup>*\<^sup>* u t"
    using Cons.IH [of u] Cons.prems chans_ok_step [OF u(2)] by auto
  with u show ?case by (auto intro: converse_rtranclp_into_rtranclp)
qed simp

lemma close_begin_steps: "dial_step\<^sup>*\<^sup>* s (close_begin s)"
proof (cases "d_closed (dl s)")
  case False
  then have "dial_step s (close_shut s)" by (rule dial_step.shut)
  moreover have "dial_step (close_shut s) (close_swap (close_shut s))" by (rule dial_step.swap) (simp add: close_shut_def)
  ultimately show ?thesis using False by (simp add: close_begin_def)
qed (simp add: close_begin_def)

text \<open>Without interruption the dialer is left as \<open>dialer_Close\<close> leaves it, and its channels are told.\<close>

lemma close_begin_dialer:
  "dl (close_begin s) = snd (dialer_Close (dl s))
   \<and> outbox (close_begin s) = outbox s @ map (\<lambda>ch. (ch, dial_error closed_error)) (fst (dialer_Close (dl s)))"
  by (simp add: close_begin_def close_swap_def close_shut_def dialer_Close_def)

lemma close_dialer_runs:
  assumes "dial_inv s"
  shows "\<exists>t. close_dialer s = Some t \<and> dial_step\<^sup>*\<^sup>* s t"
proof -
  let ?chs = "fst (dialer_Close (dl s))"
  have steps: "dial_step\<^sup>*\<^sup>* s (close_begin s)" by (rule close_begin_steps)
  have "chans_ok (close_begin s)" using dialer.steps_inv [OF steps assms] by (simp add: dial_inv_def)
  moreover have "distinct ?chs" using assms by (simp add: dial_inv_def chans_ok_def due_def dialer_Close_def)
  moreover have "\<forall>ch \<in> set ?chs. (ch, dial_error closed_error) \<in> set (outbox (close_begin s))"
    by (auto simp: close_begin_def close_swap_def close_shut_def dialer_Close_def)
  ultimately obtain t where "close_dialer s = Some t" "dial_step\<^sup>*\<^sup>* (close_begin s) t"
    unfolding close_dialer_def using send_all_runs by blast
  with steps show ?thesis by (auto intro: rtranclp_trans)
qed

lemma readLoop_runs: "dial_inv s \<Longrightarrow> \<exists>t. readLoop fileConn ms s = Some t \<and> dial_step\<^sup>*\<^sup>* s t"
proof (induction ms arbitrary: s)
  case (Cons m ms)
  show ?case
  proof (cases "read_reply fileConn m")
    case LoopEnds
    then show ?thesis using close_dialer_runs [OF Cons.prems] by simp
  next
    case Skipped
    then show ?thesis using Cons by simp
  next
    case (Deliver i r)
    obtain u where u: "deliver_result i r s = Some u" "dial_step\<^sup>*\<^sup>* s u" using deliver_result_runs [OF Cons.prems] by blast
    obtain t where "readLoop fileConn ms u = Some t" "dial_step\<^sup>*\<^sup>* u t"
      using Cons.IH [OF dialer.steps_inv [OF u(2) Cons.prems]] by blast
    with u Deliver show ?thesis by (auto intro: rtranclp_trans)
  qed
qed simp

lemma draw_id_steps: "phases s k = Idle \<Longrightarrow> dial_step\<^sup>*\<^sup>* s (draw_id k s)"
  by (auto simp: draw_id_def Let_def intro: dial_step.name converse_rtranclp_into_rtranclp)

lemma draw_id_named: "phases s k = Idle \<Longrightarrow> \<exists>i. phases (draw_id k s) k = Named i"
  by (auto simp: draw_id_def dial_name_def AddUint32_def Let_def)

text \<open>A call only takes steps of the system, if what the others do meanwhile does and leaves the call waiting.\<close>

lemma DialContext_steps:
  assumes "DialContext network address k sendErr others w s = Some (out, t)" "phases s k = Idle"
    and "\<And>u. dial_step\<^sup>*\<^sup>* u (others u)" "\<And>u. phases (others u) k = phases u k"
  shows "dial_step\<^sup>*\<^sup>* s t"
proof (cases "network \<noteq> ''tcp'' \<and> network \<noteq> ''tcp4''")
  case True
  with assms(1,2) show ?thesis by (auto simp: DialContext_def intro: dial_step.refuse)
next
  case False
  obtain i where i: "phases (draw_id k s) k = Named i" using draw_id_named [OF assms(2)] by blast
  define s2 where "s2 = dial_register k i (draw_id k s)"
  define e where "e = sendErr (sockOpen (dl s2)) (dial_msg i address)"
  define s3 where "s3 = dial_send k i e s2"
  have "dial_step (draw_id k s) s2" unfolding s2_def by (rule dial_step.register [OF i])
  moreover have "dial_step s2 s3" unfolding s3_def by (rule dial_step.send) (simp add: s2_def dial_register_def)
  ultimately have s3: "dial_step\<^sup>*\<^sup>* s s3" using draw_id_steps [OF assms(2)] by (meson rtranclp.rtrancl_into_rtrancl)
  have r: "DialContext network address k sendErr others w s =
      (if e \<noteq> None then Some ([dial_msg i address], s3) else map_option (Pair [dial_msg i address]) (dial_select k i w (others s3)))"
    using i unfolding DialContext_def if_not_P [OF False] by (simp add: Let_def s2_def e_def s3_def)
  show ?thesis
  proof (cases e)
    case (Some x)
    with r assms(1) s3 show ?thesis by simp
  next
    case None
    with r assms(1) have "dial_select k i w (others s3) = Some t"
      by (auto dest!: sym [of "Some _"] simp: map_option_eq_Some)
    moreover have "phases (others s3) k = Waiting i" using None by (simp add: assms(4) s3_def dial_send_def)
    ultimately have "dial_step (others s3) t" by (rule dial_step.select [rotated])
    with s3 assms(3) [of s3] show ?thesis by (meson rtranclp.rtrancl_into_rtrancl rtranclp_trans)
  qed
qed

section \<open>What callers get\<close>

lemma u32_at_second: "u32_at (x # put32_be i @ ys) 1 = i"
  using u32_at_put [of "[x]" 1 i ys] by simp

lemma read_refusal:
  "read_reply fileConn (Inl (fst (sendLinuxProxyResult 0x45 i None m), Inl (snd (sendLinuxProxyResult 0x45 i None m)))) =
     Deliver i (dial_error (ErrorsNew (take 8187 m)))"
proof -
  have "take 8192 (0x45 # put32_be i @ bytes_of_string m) = 0x45 # put32_be i @ bytes_of_string (take 8187 m)"
    by (simp add: put32_be_def bytes_of_string_def take_map)
  then show ?thesis using u32_at_second [of "0x45" i] by (simp add: read_reply_def sendLinuxProxyResult_def Let_def put32_be_def)
qed

lemma read_connected:
  "read_reply fileConn (Inl (fst (sendLinuxProxyResult 0x43 i (Some fd) ''''), Inl (snd (sendLinuxProxyResult 0x43 i (Some fd) '''')))) =
     Deliver i (case fileConn fd of Inl c \<Rightarrow> \<lparr>dr_conn = Some c, dr_err = None\<rparr> | Inr e \<Rightarrow> dial_error e)"
  using u32_at_second [of "0x43" i "[]"]
  by (simp add: read_reply_def sendLinuxProxyResult_def Let_def put32_be_def bytes_of_string_def)

text \<open>
  C36. The dialer's calls and the namespace agree on the wire: a request for a target of at most 8187 bytes is read by the
  child with the same number and target, and the datagram it answers with is delivered to exactly this number: as
  the passed connection when the child could connect, otherwise as an error with the text of the child's error.
\<close>

theorem dial_request_answered:
  assumes "address \<noteq> ''''" "length address \<le> 8187" "proxy_serve env [Inl (dial_msg i address)] = (out, e)"
  shows "e = None \<and> (\<exists>dgram scm. out = [(dgram, scm)] \<and> read_reply fileConn (Inl (dgram, Inl scm)) = Deliver i
    (case de_dial env address of
       Inr x \<Rightarrow> dial_error (ErrorsNew (take 8187 (de_text env x)))
     | Inl c \<Rightarrow>
         if \<not> de_tcp env c then dial_error (ErrorsNew ''VPN dial did not return TCP'')
         else case de_file env c of
           Inr x \<Rightarrow> dial_error (ErrorsNew (take 8187 (de_text env x)))
         | Inl fd \<Rightarrow> (case fileConn fd of Inl c' \<Rightarrow> \<lparr>dr_conn = Some c', dr_err = None\<rparr> | Inr x \<Rightarrow> dial_error x)))"
proof -
  have "proxy_request (dial_msg i address) = Some (i, address)"
    using assms(1,2) u32_at_second by (simp add: proxy_request_def dial_msg_def Let_def put32_be_def Suc_le_eq)
  then have out: "out = [serve_dial env i address]" "e = None" using assms(3) by auto
  have "read_reply fileConn (Inl (fst (serve_dial env i address), Inl (snd (serve_dial env i address)))) = Deliver i
    (case de_dial env address of
       Inr x \<Rightarrow> dial_error (ErrorsNew (take 8187 (de_text env x)))
     | Inl c \<Rightarrow>
         if \<not> de_tcp env c then dial_error (ErrorsNew ''VPN dial did not return TCP'')
         else case de_file env c of
           Inr x \<Rightarrow> dial_error (ErrorsNew (take 8187 (de_text env x)))
         | Inl fd \<Rightarrow> (case fileConn fd of Inl c' \<Rightarrow> \<lparr>dr_conn = Some c', dr_err = None\<rparr> | Inr x \<Rightarrow> dial_error x))"
    by (simp add: serve_dial_def read_refusal read_connected split: sum.split)
  then show ?thesis unfolding out by (cases "serve_dial env i address") simp
qed

text \<open>
  C9. No goroutine of the dialer ever blocks on a channel: in every reachable state each send that is due finds its
  channel empty, and the reader runs through any sequence of datagrams, including one that ends it.  As long as
  fewer than \<open>2 ^ 32\<close> numbers were drawn, a waiting call for which no result is on its way yet gets the next
  result delivered to its number: delivering it ends exactly this call with it.
\<close>

theorem dialer_delivers:
  assumes "dial_step\<^sup>*\<^sup>* dial_init s"
  shows "(\<forall>(ch, r) \<in> set (outbox s). chan_send ch r s \<noteq> None)
    \<and> readLoop fileConn ms s \<noteq> None
    \<and> (issued s < 2 ^ 32 \<and> phases s k = Waiting i \<and> chans s k = [] \<and> k \<notin> fst ` set (outbox s) \<longrightarrow>
        (\<exists>t u. deliver_result i r s = Some t \<and> dial_select k i GotResult t = Some u \<and> phases u = (phases s)(k := Returned r)))"
proof (intro conjI impI)
  have inv: "dial_inv s" using dialer.reach_inv assms by blast
  then have ok: "chans_ok s" by (simp add: dial_inv_def)
  show "\<forall>(ch, r) \<in> set (outbox s). chan_send ch r s \<noteq> None"
    using chan_send_due [OF ok] by fastforce
  show "readLoop fileConn ms s \<noteq> None" using readLoop_runs [OF inv] by fastforce
  assume w: "issued s < 2 ^ 32 \<and> phases s k = Waiting i \<and> chans s k = [] \<and> k \<notin> fst ` set (outbox s)"
  then have "(i, k) \<in> set (pending (dl s))" using inv by (force simp: dial_inv_def heard_def)
  then have p: "map_of (pending (dl s)) i = Some k" using ok by (simp add: chans_ok_def)
  have "deliver_result i r s = Some (s\<lparr>dl := forget i (dl s), replies := replies s @ [(i, r)], chans := (chans s)(k := [r]),
      outbox := remove1 (k, r) (outbox s @ [(k, r)])\<rparr>)"
    using p w by (simp add: deliver_result_def deliver_begin_def Let_def chan_send_def)
  then show "\<exists>t u. deliver_result i r s = Some t \<and> dial_select k i GotResult t = Some u \<and> phases u = (phases s)(k := Returned r)"
    by (simp add: dial_select_def finish_def)
qed

lemma received_kept:
  assumes "dial_inv s" "(i, x) \<in> set (replies s)" "dr_conn x = Some c" "c \<notin> set (released s)"
  shows "\<exists>k. names s k = Some i \<and> (phases s k = Returned x \<or> (k, x) \<in> set (outbox s) \<or> chans s k = [x]
    \<and> (phases s k = Registered i \<or> phases s k = Waiting i \<or> (\<exists>e. phases s k = Returned (dial_error e))))"
proof -
  obtain k where k: "names s k = Some i" "held s k x" using assms unfolding dial_inv_def kept_def by blast
  have "phases s k = Registered i \<or> phases s k = Waiting i \<or> (\<exists>e. phases s k = Returned (dial_error e))"
    if "chans s k \<noteq> []"
  proof (cases "phases s k")
    case (Returned y)
    with that assms(1) show ?thesis by (auto simp: dial_inv_def spent_def)
  qed (use that assms(1) k(1) in \<open>auto simp: dial_inv_def chans_ok_def ids_ok_def dest: spec [of _ k]\<close>)
  moreover have "chans s k = [x]" if "x \<in> set (chans s k)"
  proof -
    have "length (chans s k) \<le> 1" using assms(1) by (simp add: dial_inv_def spent_def)
    with that show ?thesis by (cases "chans s k") auto
  qed
  ultimately show ?thesis using k unfolding held_def by fastforce
qed

text \<open>
  C17. Connections are not mixed up, and where they can be left behind: in every reachable state a call that returned a connection
  returned one that was received for its own number.  Every connection received was closed, or belongs to a call with the number it was
  received for: the call returned it, it is on its way to the call's channel, or it is alone in that channel.  In the last
  case the call still waits for it, or it has already returned an error; such a connection is abandoned.  With fewer
  than \<open>2 ^ 32\<close> numbers drawn no two calls have the same number.
\<close>

theorem dialer_conserves_connections:
  assumes "dial_step\<^sup>*\<^sup>* dial_init s"
  shows "(phases s k = Returned r \<and> dr_conn r \<noteq> None \<longrightarrow> (\<exists>i. names s k = Some i \<and> (i, r) \<in> set (replies s)))
    \<and> ((i, x) \<in> set (replies s) \<and> dr_conn x = Some c \<longrightarrow> c \<in> set (released s)
        \<or> (\<exists>k. names s k = Some i \<and> (phases s k = Returned x \<or> (k, x) \<in> set (outbox s) \<or> chans s k = [x]
            \<and> (phases s k = Registered i \<or> phases s k = Waiting i \<or> (\<exists>e. phases s k = Returned (dial_error e))))))
    \<and> (issued s < 2 ^ 32 \<and> names s j = Some i \<and> names s j' = Some i \<longrightarrow> j = j')"
proof -
  have inv: "dial_inv s" using dialer.reach_inv assms by blast
  show ?thesis
  proof (intro conjI impI)
    assume "phases s k = Returned r \<and> dr_conn r \<noteq> None"
    then show "\<exists>i. names s k = Some i \<and> (i, r) \<in> set (replies s)"
      using inv unfolding dial_inv_def matched_def held_def by blast
  next
    assume "(i, x) \<in> set (replies s) \<and> dr_conn x = Some c"
    then show "c \<in> set (released s)
        \<or> (\<exists>k. names s k = Some i \<and> (phases s k = Returned x \<or> (k, x) \<in> set (outbox s) \<or> chans s k = [x]
            \<and> (phases s k = Registered i \<or> phases s k = Waiting i \<or> (\<exists>e. phases s k = Returned (dial_error e)))))"
      using received_kept [OF inv] by blast
  next
    assume "issued s < 2 ^ 32 \<and> names s j = Some i \<and> names s j' = Some i"
    then show "j = j'" using inv unfolding dial_inv_def unique_ids_def by blast
  qed
qed


section \<open>A concrete run\<close>

definition sample_waiting :: dial_sys where
  "sample_waiting = dial_send 0 1 None (dial_register 0 1 (dial_name 0 dial_init))"

lemma sample_waiting_reached: "dial_step\<^sup>*\<^sup>* dial_init sample_waiting"
proof -
  have "dial_step dial_init (dial_name 0 dial_init)" by (rule dial_step.name) (simp add: dial_init_def)
  moreover have "dial_step (dial_name 0 dial_init) (dial_register 0 1 (dial_name 0 dial_init))"
    by (rule dial_step.register) (simp add: dial_name_def AddUint32_def dial_init_def newLinuxVPNDialer_def)
  moreover have "dial_step (dial_register 0 1 (dial_name 0 dial_init)) sample_waiting"
    unfolding sample_waiting_def by (rule dial_step.send) (simp add: dial_register_def)
  ultimately show ?thesis by (meson converse_rtranclp_into_rtranclp rtranclp.rtrancl_refl)
qed

lemma sample_waiting_state:
  "phases sample_waiting = (\<lambda>_. Idle)(0 := Waiting 1)" "chans sample_waiting = (\<lambda>_. [])" "outbox sample_waiting = []"
  "issued sample_waiting = 1" "names sample_waiting = [0 \<mapsto> 1]" "pending (dl sample_waiting) = [(1, 0)]" "replies sample_waiting = []"
  "released sample_waiting = []"
  by (simp_all add: sample_waiting_def dial_send_def dial_register_def register_def dial_name_def AddUint32_def dial_init_def
      newLinuxVPNDialer_def)

theorem dialer_delivers_witness:
  "phases sample_waiting 0 = Waiting 1
    \<and> (\<exists>t u. deliver_result 1 \<lparr>dr_conn = Some 7, dr_err = None\<rparr> sample_waiting = Some t
        \<and> dial_select 0 1 GotResult t = Some u \<and> phases u 0 = Returned \<lparr>dr_conn = Some 7, dr_err = None\<rparr>)
    \<and> readLoop (\<lambda>fd. Inl fd) [Inl ([0x43, 0, 0, 0, 1], Inl [Inl [7]]), Inr EOF] sample_waiting \<noteq> None"
proof -
  have "\<exists>t u. deliver_result 1 \<lparr>dr_conn = Some 7, dr_err = None\<rparr> sample_waiting = Some t
        \<and> dial_select 0 1 GotResult t = Some u \<and> phases u = (phases sample_waiting)(0 := Returned \<lparr>dr_conn = Some 7, dr_err = None\<rparr>)"
    using dialer_delivers [OF sample_waiting_reached, where k = 0 and i = 1] by (simp add: sample_waiting_state)
  moreover have "readLoop (\<lambda>fd. Inl fd) [Inl ([0x43, 0, 0, 0, 1], Inl [Inl [7]]), Inr EOF] sample_waiting \<noteq> None"
    using dialer_delivers [OF sample_waiting_reached] by blast
  ultimately show ?thesis by (fastforce simp: sample_waiting_state)
qed

theorem dialer_conserves_connections_witness:
  "\<exists>t. dial_step\<^sup>*\<^sup>* dial_init t \<and> (1, \<lparr>dr_conn = Some 7, dr_err = None\<rparr>) \<in> set (replies t) \<and> released t = []
    \<and> (\<exists>k. names t k = Some 1 \<and> (phases t k = Returned \<lparr>dr_conn = Some 7, dr_err = None\<rparr>
        \<or> (k, \<lparr>dr_conn = Some 7, dr_err = None\<rparr>) \<in> set (outbox t) \<or> chans t k = [\<lparr>dr_conn = Some 7, dr_err = None\<rparr>]))"
proof -
  let ?r = "\<lparr>dr_conn = Some 7, dr_err = None\<rparr>"
  let ?t = "deliver_begin 1 ?r sample_waiting"
  have t: "dial_step\<^sup>*\<^sup>* dial_init ?t"
    using sample_waiting_reached dial_step.deliver by (rule rtranclp.rtrancl_into_rtrancl)
  have e: "released ?t = []" "(1, ?r) \<in> set (replies ?t)"
    by (simp_all add: deliver_begin_def Let_def sample_waiting_state)
  have "\<exists>k. names ?t k = Some 1 \<and> (phases ?t k = Returned ?r \<or> (k, ?r) \<in> set (outbox ?t) \<or> chans ?t k = [?r])"
    using dialer_conserves_connections [OF t, where i = 1 and x = ?r and c = 7] e by fastforce
  with t e show ?thesis by blast
qed

theorem dial_request_answered_witness:
  "\<exists>dgram scm. proxy_serve \<lparr>de_dial = (\<lambda>_. Inl 5), de_tcp = (\<lambda>_. True), de_file = (\<lambda>_. Inl 9), de_text = (\<lambda>_. ''x'')\<rparr>
      [Inl (dial_msg 3 ''discord.com:443'')] = ([(dgram, scm)], None)
    \<and> read_reply (\<lambda>fd. Inl (fd + 1)) (Inl (dgram, Inl scm)) = Deliver 3 \<lparr>dr_conn = Some 10, dr_err = None\<rparr>"
proof -
  let ?env = "\<lparr>de_dial = (\<lambda>_. Inl 5), de_tcp = (\<lambda>_. True), de_file = (\<lambda>_. Inl 9), de_text = (\<lambda>_. ''x'')\<rparr> :: dial_env"
  obtain out e where o: "proxy_serve ?env [Inl (dial_msg 3 ''discord.com:443'')] = (out, e)" by fastforce
  show ?thesis using dial_request_answered [OF _ _ o, of "\<lambda>fd. Inl (fd + 1)"] o by auto
qed

text \<open>
  A call whose context ends after its result was queued leaves the connection in its channel: the \<^verbatim>\<open>select\<close> may take the
  context, and nothing closes the connection any more.
\<close>

lemma late_result_abandoned:
  "\<exists>s. dial_step\<^sup>*\<^sup>* dial_init s \<and> phases s 0 = Returned (dial_error EOF) \<and> chans s 0 = [\<lparr>dr_conn = Some 7, dr_err = None\<rparr>]
    \<and> outbox s = [] \<and> released s = []"
proof -
  let ?r = "\<lparr>dr_conn = Some 7, dr_err = None\<rparr>"
  have inv: "dial_inv sample_waiting" using dialer.reach_inv sample_waiting_reached by blast
  obtain t where t: "deliver_result 1 ?r sample_waiting = Some t" "dial_step\<^sup>*\<^sup>* sample_waiting t"
    using deliver_result_runs [OF inv] by blast
  have s: "phases t = phases sample_waiting" "chans t 0 = [?r]" "outbox t = []" "released t = released sample_waiting"
    using t(1) by (auto simp: deliver_result_def deliver_begin_def Let_def sample_waiting_state chan_send_def)
  have "dial_select 0 1 (DialCtxDone EOF) t = Some (finish 0 (dial_error EOF) (t\<lparr>dl := forget 1 (dl t)\<rparr>))"
    by (simp add: dial_select_def)
  then have "dial_step t (finish 0 (dial_error EOF) (t\<lparr>dl := forget 1 (dl t)\<rparr>))"
    by (rule dial_step.select [rotated]) (simp add: s sample_waiting_state)
  then have "dial_step\<^sup>*\<^sup>* dial_init (finish 0 (dial_error EOF) (t\<lparr>dl := forget 1 (dl t)\<rparr>))"
    using sample_waiting_reached t(2) by (meson rtranclp.rtrancl_into_rtrancl rtranclp_trans)
  moreover have "released sample_waiting = []" by (rule sample_waiting_state)
  ultimately show ?thesis using s
    by (intro exI [of _ "finish 0 (dial_error EOF) (t\<lparr>dl := forget 1 (dl t)\<rparr>)"] conjI) (simp_all add: finish_def)
qed

end
