(* ===== verification/LinuxProxy.thy ===== *)
theory LinuxProxy
  imports VPNDialer
begin

text \<open>
  The Linux bootstrap, \<^verbatim>\<open>linux_bootstrap_proxy.go\<close>: the process in the namespace, the backend that owns session, bridge
  and dialer, the local HTTP proxy with its switch between direct and tunneled connections, and the loop that
  starts Discord, switches the proxy and hands over.
\<close>

section \<open>Host and port\<close>

definition LastIndexByte :: "string \<Rightarrow> char \<Rightarrow> nat option" where
  "LastIndexByte s c = map_option (\<lambda>j. length s - 1 - j) (IndexByte (rev s) c)"

text \<open>\<^verbatim>\<open>net.SplitHostPort\<close>: the positions of the last colon and of a closing bracket decide.\<close>

definition split_check :: "string \<Rightarrow> nat \<Rightarrow> nat \<Rightarrow> nat \<Rightarrow> string \<Rightarrow> go_error + (string \<times> string)" where
  "split_check hp i j k host =
     (if IndexByte (drop j hp) (CHR ''['') \<noteq> None then Inl (SysErr ''unexpected [ in address'')
      else if IndexByte (drop k hp) (CHR '']'') \<noteq> None then Inl (SysErr ''unexpected ] in address'')
      else Inr (host, drop (Suc i) hp))"

definition SplitHostPort :: "string \<Rightarrow> go_error + (string \<times> string)" where
  "SplitHostPort hp =
     (case LastIndexByte hp (CHR '':'') of
        None \<Rightarrow> Inl (SysErr ''missing port in address'')
      | Some i \<Rightarrow>
          (if hp ! 0 = CHR ''['' then
             (case IndexByte hp (CHR '']'') of
                None \<Rightarrow> Inl (SysErr ''missing ] in address'')
              | Some e \<Rightarrow>
                  (if Suc e = length hp then Inl (SysErr ''missing port in address'')
                   else if Suc e = i then split_check hp i 1 (Suc e) (take (e - 1) (drop 1 hp))
                   else if hp ! Suc e = CHR '':'' then Inl (SysErr ''too many colons in address'')
                   else Inl (SysErr ''missing port in address'')))
           else if IndexByte (take i hp) (CHR '':'') \<noteq> None then Inl (SysErr ''too many colons in address'')
           else split_check hp i 0 0 (take i hp)))"

definition Trim :: "string \<Rightarrow> char set \<Rightarrow> string" where
  "Trim s cutset = rev (dropWhile (\<lambda>c. c \<in> cutset) (rev (dropWhile (\<lambda>c. c \<in> cutset) s)))"

definition addDefaultPort :: "string \<Rightarrow> string \<Rightarrow> string" where
  "addDefaultPort hostport port =
     (case SplitHostPort hostport of
        Inr _ \<Rightarrow> hostport
      | Inl _ \<Rightarrow> JoinHostPort (Trim hostport {CHR ''['', CHR '']''}) port)"

section \<open>The process in the namespace\<close>

definition proxy_child_args :: "string list \<Rightarrow> go_error + (bytes \<times> nat \<times> bytes)" where
  "proxy_child_args args =
     (if length args \<noteq> 3 then Inl (ErrorsNew ''internal VPN proxy child requires ip prefix dns'')
      else case ParseIP4 (args ! 0) of
        None \<Rightarrow> Inl (ErrorsNew ''invalid proxy child IPv4'')
      | Some ip \<Rightarrow>
          (case ParseUint (args ! 1) 8 of
             Ok prefix \<Rightarrow>
               (if prefix > 32 then Inl (ErrorsNew ''invalid proxy child prefix'')
                else (case ParseIP4 (args ! 2) of
                  None \<Rightarrow> Inl (ErrorsNew ''invalid proxy child DNS'')
                | Some dns \<Rightarrow> Inr (ip, prefix, dns)))
           | _ \<Rightarrow> Inl (ErrorsNew ''invalid proxy child prefix'')))"

datatype proxy_act = Setup child_act | Answered "bytes \<times> rights list"

text \<open>What the child does, in order, and the error it ends with (\<open>None\<close>: it still reads, or a call blocks).\<close>

definition vpnProxyChild :: "child_env \<Rightarrow> dial_env \<Rightarrow> (bytes + go_error) list \<Rightarrow> string list \<Rightarrow> proxy_act list \<times> go_error option" where
  "vpnProxyChild env denv reads args =
     (case proxy_child_args args of
        Inl e \<Rightarrow> ([], Some e)
      | Inr (ip, prefix, dns) \<Rightarrow>
     (case createTUN (ce_openErr env) (ce_ioctl env) ''disfree0'' of
        (Inl e, _) \<Rightarrow> ([], Some (Wrapf ''create proxy TUN: %w'' e))
      | (Inr name, _) \<Rightarrow>
     (case configureTUNIPv4 (ce_nl env) (ce_byName env) name ip (of_nat prefix) of
        None \<Rightarrow> (map Setup [TunCreated name], None)
      | Some (sent, Some e) \<Rightarrow> (map Setup [TunCreated name, TunClosed], Some e)
      | Some (sent, None) \<Rightarrow>
     (case startDNSProxy env dns of
        None \<Rightarrow> (map Setup [TunCreated name, Configured sent], None)
      | Some (Some e, _) \<Rightarrow> (map Setup [TunCreated name, Configured sent, TunClosed], Some e)
      | Some (None, _) \<Rightarrow>
     (case ce_sendErr env of
        Some e \<Rightarrow> (map Setup [TunCreated name, Configured sent, DnsStarted, TunClosed], Some (Wrapf ''send proxy TUN fd: %w'' e))
      | None \<Rightarrow>
     (case waitVPNReady (ce_ready env) of
        None \<Rightarrow> (map Setup [TunCreated name, Configured sent, DnsStarted, FdSent], None)
      | Some (Some e) \<Rightarrow>
          (map Setup [TunCreated name, Configured sent, DnsStarted, FdSent, TunClosed], Some (Wrapf ''wait proxy VPN ready: %w'' e))
      | Some None \<Rightarrow>
          (let (out, e) = proxy_serve denv reads in
           (map Setup [TunCreated name, Configured sent, DnsStarted, FdSent, ReadySeen] @ map Answered out
              @ (if e = None then [] else [Setup TunClosed]), e))))))))"

section \<open>The backend\<close>

definition launchVPNProxyChild :: "launch_env \<Rightarrow> (nat + go_error) \<times> nat list" where
  "launchVPNProxyChild env =
     (case socketpair env of
        Inr e \<Rightarrow> (Inr e, [])
      | Inl (p0, p1) \<Rightarrow>
          (case executableErr env of
             Some e \<Rightarrow> (Inr e, [p0, p1])
           | None \<Rightarrow>
               (case startErr env of
                  Some e \<Rightarrow> (Inr e, [p1, p0])
                | None \<Rightarrow> (Inl p0, [p1]))))"

definition proxy_launch_args :: "bytes \<Rightarrow> nat \<Rightarrow> bytes \<Rightarrow> string list" where
  "proxy_launch_args ip prefix dns = [IP_String ip, Itoa_nat prefix, IP_String dns]"

record linuxVPNProxyBackend =
  be_vpn :: liveVPN
  be_dialer :: linuxVPNDialer
  be_errCh :: "go_error list"
  be_closed :: bool

record backend_env =
  bk_session :: "liveVPN + go_error"
  bk_launch :: launch_env
  bk_nonblock :: "go_error option"
  bk_childOut :: string
  bk_rounds :: "(recvmsg \<times> wake) list"
  bk_signalErr :: "go_error option"
  bk_blockErr :: "go_error option"

text \<open>The actions are those of the application runner; \<open>None\<close>: no descriptor has arrived yet.\<close>

definition startLinuxVPNProxyBackend :: "backend_env \<Rightarrow> (run_act list \<times> (linuxVPNProxyBackend + go_error)) option" where
  "startLinuxVPNProxyBackend env =
     (case bk_session env of Inr e \<Rightarrow> Some ([], Inr e) | Inl vpn \<Rightarrow>
      let ps = vSession vpn; (ones, bits) = IPMask_Size (psNetmask ps) in
      if bits \<noteq> 32 then Some ([SessionUp, SessionClosed], Inr (Errorf ''invalid pushed IPv4 netmask %s''
        [ArgS (case psNetmask ps of Some m \<Rightarrow> IP_String m | None \<Rightarrow> ''<nil>'')]))
      else case launchVPNProxyChild (bk_launch env) of
        (Inr e, _) \<Rightarrow> Some ([SessionUp, SessionClosed], Inr (Wrapf ''launch VPN proxy namespace: %w'' e))
      | (Inl _, _) \<Rightarrow>
      let begun = [SessionUp, ChildStarted (proxy_launch_args (case psIPv4 ps of Some ip \<Rightarrow> ip | None \<Rightarrow> []) ones (case psDNS ps of Some d \<Rightarrow> d | None \<Rightarrow> []))];
          undo = [BridgeCancelled, TunFdClosed, ChildKilled, SockClosed, SessionClosed] in
      (case recvFDWithChild (bk_nonblock env) (bk_childOut env) (bk_rounds env) of
         None \<Rightarrow> None
       | Some (Inl e) \<Rightarrow> Some (begun @ [ChildKilled, SockClosed, SessionClosed], Inr (Wrapf ''receive VPN proxy TUN fd: %w'' e))
       | Some (Inr fd) \<Rightarrow>
           (case bk_signalErr env of
              Some e \<Rightarrow> Some (begun @ BridgeStarted # undo, Inr (Wrapf ''signal VPN proxy ready: %w'' e))
            | None \<Rightarrow>
                (case bk_blockErr env of
                   Some e \<Rightarrow> Some (begun @ BridgeStarted # ReadySignalled # undo, Inr (Wrapf ''proxy control blocking mode: %w'' e))
                 | None \<Rightarrow>
                     Some (begun @ [BridgeStarted, ReadySignalled],
                       Inl \<lparr>be_vpn = vpn, be_dialer = newLinuxVPNDialer, be_errCh = [], be_closed = False\<rparr>)))))"

text \<open>The watching goroutine: what its \<^verbatim>\<open>select\<close> takes, and the non-blocking send to a channel of two.\<close>

datatype backend_event = BridgeStopped "go_error option" | NamespaceExited "go_error option" | BackendClosed

definition offer :: "nat \<Rightarrow> 'a \<Rightarrow> 'a list \<Rightarrow> 'a list" where
  "offer cap x ch = (if length ch < cap then ch @ [x] else ch)"

definition watchBackend :: "backend_event \<Rightarrow> linuxVPNProxyBackend \<Rightarrow> linuxVPNProxyBackend" where
  "watchBackend ev b =
     (case ev of
        BridgeStopped e \<Rightarrow>
          b\<lparr>be_errCh := offer 2 (case e of Some x \<Rightarrow> x | None \<Rightarrow> ErrorsNew ''VPN proxy bridge stopped'') (be_errCh b)\<rparr>
      | NamespaceExited e \<Rightarrow>
          b\<lparr>be_errCh := offer 2 (Wrapf ''VPN proxy namespace: %w''
              (case e of Some x \<Rightarrow> x | None \<Rightarrow> ErrorsNew ''VPN proxy namespace exited'')) (be_errCh b)\<rparr>
      | BackendClosed \<Rightarrow> b)"

text \<open>\<^verbatim>\<open>Close\<close> under its \<^verbatim>\<open>sync.Once\<close>; the socket belongs to the dialer, which may have closed it already.\<close>

definition backend_Close :: "linuxVPNProxyBackend option \<Rightarrow> run_act list \<times> linuxVPNProxyBackend option" where
  "backend_Close ob =
     (case ob of
        None \<Rightarrow> ([], None)
      | Some b \<Rightarrow>
          (if be_closed b then ([], Some b)
           else ((if d_closed (be_dialer b) then [] else [SockClosed]) @ [BridgeCancelled, TunFdClosed, ChildKilled, SessionClosed],
                 Some (b\<lparr>be_closed := True, be_dialer := snd (dialer_Close (be_dialer b))\<rparr>))))"

section \<open>The HTTP proxy\<close>

datatype proxy_mode = linuxProxyDirect | linuxProxyVPN

text \<open>
  The proxy with its concurrent calls.  \<open>active\<close> and \<open>pmode\<close> are the proxy's; \<open>shut\<close> are the client connections that were closed,
  \<open>ended\<close> those whose handler returned, \<open>via\<close> the mode a handler read when it dialled, \<open>seen\<close> the connections accepted.
  \<open>sweeps\<close> has a running call of \<^verbatim>\<open>setMode\<close> or \<^verbatim>\<open>Close\<close>: \<open>None\<close> before it copied the active connections, then those it
  still has to close.
\<close>

record linuxHTTPProxy =
  lnOpen :: bool
  pmode :: proxy_mode
  active :: "nat list"
  shut :: "nat list"
  ended :: "nat list"
  seen :: "nat list"
  via :: "nat \<rightharpoonup> proxy_mode"
  sweeps :: "nat list option list"

definition newLinuxHTTPProxy :: linuxHTTPProxy where
  "newLinuxHTTPProxy = \<lparr>lnOpen = True, pmode = linuxProxyDirect, active = [], shut = [], ended = [], seen = [],
     via = Map.empty, sweeps = []\<rparr>"

definition track :: "nat \<Rightarrow> bool \<Rightarrow> linuxHTTPProxy \<Rightarrow> linuxHTTPProxy" where
  "track c add p = p\<lparr>active := if add then List.insert c (active p) else removeAll c (active p)\<rparr>"

definition accept_conn :: "nat \<Rightarrow> linuxHTTPProxy \<Rightarrow> linuxHTTPProxy" where
  "accept_conn c p = track c True (p\<lparr>seen := c # seen p\<rparr>)"

definition load_mode :: "nat \<Rightarrow> linuxHTTPProxy \<Rightarrow> linuxHTTPProxy" where
  "load_mode c p = p\<lparr>via := (via p)(c \<mapsto> pmode p)\<rparr>"

definition close_conn :: "nat \<Rightarrow> linuxHTTPProxy \<Rightarrow> linuxHTTPProxy" where
  "close_conn c p = p\<lparr>shut := c # shut p\<rparr>"

definition swap_mode :: "proxy_mode \<Rightarrow> linuxHTTPProxy \<Rightarrow> linuxHTTPProxy" where
  "swap_mode m p = p\<lparr>pmode := m, sweeps := if pmode p = m then sweeps p else None # sweeps p\<rparr>"

definition begin_close :: "linuxHTTPProxy \<Rightarrow> linuxHTTPProxy" where
  "begin_close p = (if lnOpen p then p\<lparr>lnOpen := False, sweeps := None # sweeps p\<rparr> else p)"

text \<open>A step of the sweep at position \<open>n\<close>: copy the active connections, close the next one, or end.\<close>

definition sweep :: "nat \<Rightarrow> linuxHTTPProxy \<Rightarrow> linuxHTTPProxy" where
  "sweep n p =
     (case sweeps p ! n of
        None \<Rightarrow> p\<lparr>sweeps := (sweeps p)[n := Some (active p)]\<rparr>
      | Some [] \<Rightarrow> p\<lparr>sweeps := take n (sweeps p) @ drop (Suc n) (sweeps p)\<rparr>
      | Some (c # cs) \<Rightarrow> close_conn c (p\<lparr>sweeps := (sweeps p)[n := Some cs]\<rparr>))"

inductive proxy_step :: "linuxHTTPProxy \<Rightarrow> linuxHTTPProxy \<Rightarrow> bool" where
  accepted: "c \<notin> set (seen p) \<Longrightarrow> proxy_step p (accept_conn c p)"
| dialled: "c \<in> set (active p) \<Longrightarrow> via p c = None \<Longrightarrow> proxy_step p (load_mode c p)"
| ended: "c \<in> set (active p) \<Longrightarrow> proxy_step p (close_conn c (p\<lparr>ended := c # ended p\<rparr>))"
| untracked: "c \<in> set (ended p) \<Longrightarrow> proxy_step p (track c False p)"
| switched: "proxy_step p (swap_mode m p)"
| closing: "proxy_step p (begin_close p)"
| sweeping: "n < length (sweeps p) \<Longrightarrow> proxy_step p (sweep n p)"

text \<open>\<^verbatim>\<open>setMode\<close> and \<^verbatim>\<open>Close\<close> without interruption.\<close>

definition sweep_all :: "linuxHTTPProxy \<Rightarrow> linuxHTTPProxy" where
  "sweep_all p = fold close_conn (active p) p"

definition setMode :: "proxy_mode \<Rightarrow> linuxHTTPProxy \<Rightarrow> linuxHTTPProxy" where
  "setMode m p = (let p' = p\<lparr>pmode := m\<rparr> in if pmode p = m then p' else sweep_all p')"

definition UseVPN :: "linuxHTTPProxy \<Rightarrow> linuxHTTPProxy" where
  "UseVPN p = setMode linuxProxyVPN p"

definition UseDirect :: "linuxHTTPProxy \<Rightarrow> linuxHTTPProxy" where
  "UseDirect p = setMode linuxProxyDirect p"

definition proxy_Close :: "linuxHTTPProxy \<Rightarrow> linuxHTTPProxy" where
  "proxy_Close p = (if lnOpen p then sweep_all (p\<lparr>lnOpen := False\<rparr>) else p)"

section \<open>Requests\<close>

record http_req =
  rq_method :: string
  rq_host :: string
  rq_urlHost :: string
  rq_scheme :: string

datatype dial_via = DirectDial string | TunnelDial string

definition proxy_dial :: "linuxHTTPProxy \<Rightarrow> string \<Rightarrow> dial_via" where
  "proxy_dial p address = (if pmode p = linuxProxyVPN then TunnelDial address else DirectDial address)"

datatype handle_act = Dialled dial_via | ToClient string | RequestForwarded | Relayed | UpstreamClosed

definition bad_gateway :: string where
  "bad_gateway = ''HTTP/1.1 502 Bad Gateway'' @ [CHR 0x0D, CHR 0x0A] @ ''Connection: close'' @ [CHR 0x0D, CHR 0x0A, CHR 0x0D, CHR 0x0A]"

definition established :: string where
  "established = ''HTTP/1.1 200 Connection Established'' @ [CHR 0x0D, CHR 0x0A, CHR 0x0D, CHR 0x0A]"

definition request_target :: "http_req \<Rightarrow> string" where
  "request_target rq =
     (if EqualFold (rq_method rq) ''CONNECT'' then addDefaultPort (rq_host rq) ''443''
      else
        let target = (if rq_urlHost rq = '''' then rq_host rq else rq_urlHost rq);
            port = (if EqualFold (rq_scheme rq) ''https'' then ''443'' else ''80'') in
        addDefaultPort target port)"

text \<open>
  A client connection: the parsed request (\<open>None\<close>: it could not be read), whether dialling succeeds, and the error of
  writing the request to the upstream.
\<close>

definition handle :: "linuxHTTPProxy \<Rightarrow> http_req option \<Rightarrow> (dial_via \<Rightarrow> bool) \<Rightarrow> go_error option \<Rightarrow> handle_act list" where
  "handle p req dialOk upErr =
     (case req of
        None \<Rightarrow> []
      | Some rq \<Rightarrow>
          (let d = proxy_dial p (request_target rq) in
           if \<not> dialOk d then [Dialled d, ToClient bad_gateway]
           else if EqualFold (rq_method rq) ''CONNECT'' then [Dialled d, ToClient established, Relayed, UpstreamClosed]
           else if upErr \<noteq> None then [Dialled d, UpstreamClosed]
           else [Dialled d, RequestForwarded, Relayed, UpstreamClosed]))"


section \<open>Discord's output\<close>

text \<open>
  \<^verbatim>\<open>bufio.Scanner\<close> with lines and a limit of \<open>limit\<close> bytes: the text after the last newline is a line of its own unless it is
  empty, a final carriage return is dropped, and a line that does not fit the buffer with its newline ends the scan.
\<close>

definition drop_cr :: "string \<Rightarrow> string" where
  "drop_cr l = (if l \<noteq> [] \<and> last l = CHR 0x0D then butlast l else l)"

definition scan_lines :: "nat \<Rightarrow> string \<Rightarrow> string list" where
  "scan_lines limit s =
     (let ls = Split_char s (CHR 0x0A); ls' = (if last ls = [] then butlast ls else ls) in
      map drop_cr (takeWhile (\<lambda>l. length l < limit) ls'))"

definition launch_line :: "string \<Rightarrow> bool" where
  "launch_line l \<longleftrightarrow> Contains l ''splashScreen.launchMainWindow:''
     \<or> Contains l ''splashScreen.updateSplashState launching launching''"

definition ready_line :: "string \<Rightarrow> bool" where
  "ready_line l \<longleftrightarrow> Contains l ''Setting connection state to SESSION_ESTABLISHED''"

section \<open>The bootstrap\<close>

text \<open>
  The state the loop and the two readers of Discord's output share: the proxy, the backend, whether \<^verbatim>\<open>activate\<close> ran, the channel
  \<^verbatim>\<open>ready\<close> of capacity one, \<open>handedOff\<close>, what was done to the backend, and how often Discord was stopped.
\<close>

record boot_state =
  bs_proxy :: linuxHTTPProxy
  bs_backend :: "linuxVPNProxyBackend option"
  bs_activated :: bool
  bs_ready :: "unit list"
  bs_handedOff :: bool
  bs_acts :: "run_act list"
  bs_stops :: nat

definition activate :: "boot_state \<Rightarrow> boot_state" where
  "activate s = (if bs_activated s then s else s\<lparr>bs_activated := True, bs_proxy := UseVPN (bs_proxy s)\<rparr>)"

definition stream_line :: "string \<Rightarrow> boot_state \<Rightarrow> boot_state" where
  "stream_line l s =
     (let s1 = (if launch_line l then activate s else s) in
      if ready_line l then s1\<lparr>bs_ready := offer 1 () (bs_ready s1)\<rparr> else s1)"

definition streamLinuxDiscordOutput :: "string \<Rightarrow> boot_state \<Rightarrow> boot_state" where
  "streamLinuxDiscordOutput text s = fold stream_line (scan_lines 1048576 text) s"

definition close_backend :: "boot_state \<Rightarrow> boot_state" where
  "close_backend s = (let (acts, b) = backend_Close (bs_backend s) in s\<lparr>bs_acts := bs_acts s @ acts, bs_backend := b\<rparr>)"

definition end_dialer :: "boot_state \<Rightarrow> boot_state" where
  "end_dialer s =
     (case bs_backend s of
        None \<Rightarrow> s
      | Some b \<Rightarrow>
          s\<lparr>bs_acts := bs_acts s @ (if d_closed (be_dialer b) then [] else [SockClosed]),
            bs_backend := Some (b\<lparr>be_dialer := snd (dialer_Close (be_dialer b))\<rparr>)\<rparr>)"

text \<open>
  Waiting for Discord to end: each round has whether a Discord process is found and what the \<^verbatim>\<open>select\<close> takes.  The result is
  the error and whether Discord was stopped; \<open>None\<close>: still waiting.
\<close>

datatype exit_event = ExitCtxDone go_error | GraceOver | ExitTick

fun exit_loop :: "go_error option \<Rightarrow> bool \<Rightarrow> (bool \<times> exit_event) list \<Rightarrow> (go_error option \<times> bool) option" where
  "exit_loop firstErr sawIt [] = None"
| "exit_loop firstErr sawIt ((found, ev) # rounds) =
     (if \<not> found \<and> sawIt then Some (firstErr, False)
      else let sawIt' = (sawIt \<or> found) in
        case ev of
          ExitCtxDone e \<Rightarrow> Some (Some e, True)
        | GraceOver \<Rightarrow> (if sawIt' then exit_loop firstErr sawIt' rounds else Some (firstErr, False))
        | ExitTick \<Rightarrow> exit_loop firstErr sawIt' rounds)"

definition waitForLinuxDiscordExit :: "go_error option \<Rightarrow> bool \<Rightarrow> (bool \<times> exit_event) list \<Rightarrow> (go_error option \<times> bool) option" where
  "waitForLinuxDiscordExit firstErr found rounds = exit_loop firstErr found rounds"

text \<open>
  What happens next: a reader handles a line, the watching goroutine reports, the reader of the dialer ends, a client of the proxy
  comes, dials or goes, or the loop takes a case of its \<^verbatim>\<open>select\<close>.
\<close>

datatype boot_event =
    LineRead string
  | Watched backend_event
  | DialerEnded
  | ClientCame nat
  | ClientDialled nat
  | ClientGone nat
  | TakeDone "go_error option" bool "(bool \<times> exit_event) list"
  | TakeReady
  | TakeBackendErr
  | TakeCtx go_error

text \<open>The result of an event: the loop goes on, or it returns an error value; a case that is not ready is not taken.\<close>

definition boot_event_step :: "boot_event \<Rightarrow> boot_state \<Rightarrow> go_error option option \<times> boot_state" where
  "boot_event_step ev s =
     (case ev of
        LineRead l \<Rightarrow> (None, stream_line l s)
      | Watched be \<Rightarrow> (None, s\<lparr>bs_backend := map_option (watchBackend be) (bs_backend s)\<rparr>)
      | DialerEnded \<Rightarrow> (None, end_dialer s)
      | ClientCame c \<Rightarrow> (None, s\<lparr>bs_proxy := accept_conn c (bs_proxy s)\<rparr>)
      | ClientDialled c \<Rightarrow> (None, s\<lparr>bs_proxy := load_mode c (bs_proxy s)\<rparr>)
      | ClientGone c \<Rightarrow> (None, s\<lparr>bs_proxy := track c False (close_conn c (bs_proxy s))\<rparr>)
      | TakeDone e found rounds \<Rightarrow>
          (case waitForLinuxDiscordExit e found rounds of
             None \<Rightarrow> (None, s)
           | Some (r, stopped) \<Rightarrow> (Some r, s\<lparr>bs_stops := bs_stops s + (if stopped then 1 else 0)\<rparr>))
      | TakeReady \<Rightarrow>
          (if bs_ready s = [] then (None, s)
           else let s1 = s\<lparr>bs_ready := tl (bs_ready s)\<rparr> in
             if bs_handedOff s1 then (None, s1)
             else (None, close_backend (s1\<lparr>bs_handedOff := True, bs_proxy := UseDirect (bs_proxy s1)\<rparr>)))
      | TakeBackendErr \<Rightarrow>
          (case bs_backend s of
             None \<Rightarrow> (None, s)
           | Some b \<Rightarrow>
               (case be_errCh b of
                  [] \<Rightarrow> (None, s)
                | e # es \<Rightarrow>
                    (let s1 = s\<lparr>bs_backend := Some (b\<lparr>be_errCh := es\<rparr>)\<rparr> in
                     if bs_handedOff s1 then (None, s1) else (Some (Some e), s1\<lparr>bs_stops := Suc (bs_stops s1)\<rparr>))))
      | TakeCtx e \<Rightarrow> (Some (Some e), s\<lparr>bs_stops := Suc (bs_stops s)\<rparr>))"

primrec boot_loop :: "boot_event list \<Rightarrow> boot_state \<Rightarrow> go_error option option \<times> boot_state" where
  "boot_loop [] s = (None, s)"
| "boot_loop (ev # evs) s =
     (let (r, s') = boot_event_step ev s in case r of Some e \<Rightarrow> (Some e, s') | None \<Rightarrow> boot_loop evs s')"

record boot_env =
  bt_backend :: backend_env
  bt_listenErr :: "go_error option"
  bt_url :: string
  bt_stdoutErr :: "go_error option"
  bt_stderrErr :: "go_error option"
  bt_startErr :: "go_error option"

definition discord_args :: "string list \<Rightarrow> string \<Rightarrow> string list" where
  "discord_args args url = args @ [''--proxy-server='' @ url, ''--disable-quic'']"

text \<open>The whole run: the arguments Discord is started with, the error (\<open>None\<close>: still running), and the state after the deferred calls.\<close>

definition boot_defers :: "boot_state \<Rightarrow> boot_state" where
  "boot_defers s = close_backend (s\<lparr>bs_proxy := proxy_Close (bs_proxy s)\<rparr>)"

definition boot_start :: "run_act list \<Rightarrow> linuxVPNProxyBackend \<Rightarrow> boot_state" where
  "boot_start acts b = \<lparr>bs_proxy = newLinuxHTTPProxy, bs_backend = Some b, bs_activated = False, bs_ready = [],
     bs_handedOff = False, bs_acts = acts, bs_stops = 0\<rparr>"

definition start_error :: "boot_env \<Rightarrow> go_error option" where
  "start_error env =
     (case bt_stdoutErr env of Some e \<Rightarrow> Some (Wrapf ''Discord stdout: %w'' e) | None \<Rightarrow>
     (case bt_stderrErr env of Some e \<Rightarrow> Some (Wrapf ''Discord stderr: %w'' e) | None \<Rightarrow>
      map_option (Wrapf ''start Discord: %w'') (bt_startErr env)))"

definition runLinuxDiscordBootstrap ::
  "boot_env \<Rightarrow> string list \<Rightarrow> boot_event list \<Rightarrow> (string list option \<times> go_error option option \<times> run_act list \<times> nat) option" where
  "runLinuxDiscordBootstrap env discordArgs evs =
     (case startLinuxVPNProxyBackend (bt_backend env) of
        None \<Rightarrow> None
      | Some (acts, Inr e) \<Rightarrow> Some (None, Some (Some e), acts, 0)
      | Some (acts, Inl b) \<Rightarrow>
          (case bt_listenErr env of
             Some e \<Rightarrow> Some (None, Some (Some (Wrapf ''local bootstrap proxy: %w'' e)), bs_acts (close_backend (boot_start acts b)), 0)
           | None \<Rightarrow>
               (case start_error env of
                  Some e \<Rightarrow> Some (None, Some (Some e), bs_acts (boot_defers (boot_start acts b)), 0)
                | None \<Rightarrow>
                    (let (r, s) = boot_loop evs (boot_start acts b) in
                     Some (Some (discord_args discordArgs (bt_url env)), r,
                       bs_acts (if r = None then s else boot_defers s), bs_stops s)))))"

section \<open>The mode switch\<close>

text \<open>A connection that was dialled in another mode than the current one is about to be closed.\<close>

definition covered :: "linuxHTTPProxy \<Rightarrow> nat \<Rightarrow> bool" where
  "covered p c \<longleftrightarrow> None \<in> set (sweeps p) \<or> (\<exists>cs. Some cs \<in> set (sweeps p) \<and> c \<in> set cs)"

definition stale :: "linuxHTTPProxy \<Rightarrow> nat \<Rightarrow> bool" where
  "stale p c \<longleftrightarrow> c \<in> set (active p) \<and> c \<notin> set (shut p) \<and> (\<exists>m. via p c = Some m \<and> m \<noteq> pmode p)"

definition proxy_inv :: "linuxHTTPProxy \<Rightarrow> bool" where
  "proxy_inv p \<longleftrightarrow> dom (via p) \<subseteq> set (seen p) \<and> set (active p) \<subseteq> set (seen p) \<and> (\<forall>c. stale p c \<longrightarrow> covered p c)"

lemma sweep_covers:
  assumes "n < length (sweeps p)" "stale (sweep n p) c" "stale p c \<Longrightarrow> covered p c"
  shows "covered (sweep n p) c"
proof (cases "sweeps p ! n")
  case None
  then have "Some (active p) \<in> set (sweeps (sweep n p))" "active (sweep n p) = active p"
    using assms(1) by (simp_all add: sweep_def set_update_memI)
  with assms(2) show ?thesis by (auto simp: covered_def stale_def)
next
  case (Some cs)
  have split: "sweeps p = take n (sweeps p) @ Some cs # drop (Suc n) (sweeps p)"
    using assms(1) Some by (metis id_take_nth_drop)
  have "stale p c" using assms(2) Some by (auto simp: sweep_def stale_def close_conn_def split: list.splits)
  then have cov: "covered p c" by (rule assms(3))
  show ?thesis
  proof (cases cs)
    case Nil
    with Some have "sweeps (sweep n p) = take n (sweeps p) @ drop (Suc n) (sweeps p)" by (simp add: sweep_def)
    with cov Nil split show ?thesis unfolding covered_def
      by (metis (no_types, lifting) Un_iff append_is_Nil_conv empty_iff empty_set insert_iff list.simps(15) option.distinct(1) option.inject set_append)
  next
    case (Cons d ds)
    with Some have s: "sweeps (sweep n p) = take n (sweeps p) @ Some ds # drop (Suc n) (sweeps p)" "shut (sweep n p) = d # shut p"
      using assms(1) by (simp_all add: sweep_def close_conn_def upd_conv_take_nth_drop)
    have "c \<noteq> d" using assms(2) s(2) by (auto simp: stale_def)
    have "x \<in> set (sweeps p) \<longleftrightarrow> x = Some cs \<or> x \<in> set (take n (sweeps p)) \<or> x \<in> set (drop (Suc n) (sweeps p))" for x
      by (subst split) auto
    with cov \<open>c \<noteq> d\<close> Cons show ?thesis unfolding covered_def s(1) by auto
  qed
qed

lemma proxy_inv_step: "proxy_step p q \<Longrightarrow> proxy_inv p \<Longrightarrow> proxy_inv q"
proof (induction rule: proxy_step.induct)
  case (accepted c p)
  then have "via p c = None" by (auto simp: proxy_inv_def domIff)
  with accepted show ?case
    by (auto simp: proxy_inv_def accept_conn_def track_def stale_def covered_def)
next
  case (sweeping n p)
  have "dom (via (sweep n p)) = dom (via p)" "seen (sweep n p) = seen p" "active (sweep n p) = active p"
    by (simp_all add: sweep_def close_conn_def split: option.split list.split)
  with sweeping sweep_covers [of n p] show ?case by (auto simp: proxy_inv_def)
qed (auto simp: proxy_inv_def load_mode_def close_conn_def track_def swap_mode_def begin_close_def stale_def covered_def split: if_splits)

interpretation proxy: transition_system "\<lambda>p. p = newLinuxHTTPProxy" proxy_step proxy_inv
proof
  show "proxy_inv p" if "p = newLinuxHTTPProxy" for p
    using that by (simp add: newLinuxHTTPProxy_def proxy_inv_def stale_def)
qed (rule proxy_inv_step)

lemma sweep_steps:
  "proxy_step\<^sup>*\<^sup>* (p\<lparr>sweeps := Some cs # ss\<rparr>) (fold close_conn cs (p\<lparr>sweeps := ss\<rparr>))"
proof (induction cs arbitrary: p)
  case Nil
  have "proxy_step (p\<lparr>sweeps := Some [] # ss\<rparr>) (sweep 0 (p\<lparr>sweeps := Some [] # ss\<rparr>))"
    by (rule proxy_step.sweeping) simp
  then show ?case by (simp add: sweep_def r_into_rtranclp)
next
  case (Cons c cs)
  have "proxy_step (p\<lparr>sweeps := Some (c # cs) # ss\<rparr>) (sweep 0 (p\<lparr>sweeps := Some (c # cs) # ss\<rparr>))"
    by (rule proxy_step.sweeping) simp
  moreover have "sweep 0 (p\<lparr>sweeps := Some (c # cs) # ss\<rparr>) = (close_conn c p)\<lparr>sweeps := Some cs # ss\<rparr>"
    "close_conn c (p\<lparr>sweeps := ss\<rparr>) = (close_conn c p)\<lparr>sweeps := ss\<rparr>"
    by (simp_all add: sweep_def close_conn_def)
  ultimately show ?case using Cons.IH [of "close_conn c p"] by (simp add: converse_rtranclp_into_rtranclp)
qed

lemma sweep_all_steps: "proxy_step\<^sup>*\<^sup>* (p\<lparr>sweeps := None # sweeps p\<rparr>) (sweep_all p)"
proof -
  have "proxy_step (p\<lparr>sweeps := None # sweeps p\<rparr>) (sweep 0 (p\<lparr>sweeps := None # sweeps p\<rparr>))"
    by (rule proxy_step.sweeping) simp
  then show ?thesis using sweep_steps [of "active p" "sweeps p" p]
    by (simp add: sweep_def sweep_all_def converse_rtranclp_into_rtranclp)
qed

lemma setMode_steps: "proxy_step\<^sup>*\<^sup>* p (setMode m p)"
proof (cases "pmode p = m")
  case True
  then have "setMode m p = swap_mode m p" by (simp add: setMode_def swap_mode_def)
  then show ?thesis using proxy_step.switched [of p m] by (simp add: r_into_rtranclp)
next
  case False
  then have "swap_mode m p = (p\<lparr>pmode := m\<rparr>)\<lparr>sweeps := None # sweeps (p\<lparr>pmode := m\<rparr>)\<rparr>" "setMode m p = sweep_all (p\<lparr>pmode := m\<rparr>)"
    by (simp_all add: swap_mode_def setMode_def Let_def)
  then show ?thesis using proxy_step.switched [of p m] sweep_all_steps [of "p\<lparr>pmode := m\<rparr>"]
    by (simp add: converse_rtranclp_into_rtranclp)
qed

lemma fold_close_conn: "fold close_conn cs p = p\<lparr>shut := rev cs @ shut p\<rparr>"
  by (induction cs arbitrary: p) (simp_all add: close_conn_def)

lemma sweep_all_eq: "sweep_all p = p\<lparr>shut := rev (active p) @ shut p\<rparr>"
  by (simp add: sweep_all_def fold_close_conn)

lemma pmode_simps [simp]:
  "pmode (setMode m p) = m" "pmode (UseVPN p) = linuxProxyVPN" "pmode (UseDirect p) = linuxProxyDirect"
  by (simp_all add: setMode_def sweep_all_eq UseVPN_def UseDirect_def Let_def)

text \<open>
  C12. The mode switch is complete although clients connect and dial while it runs: in every reachable state of the proxy a
  client connection that is still open and whose handler dialled in another mode than the current one is among those
  a running \<^verbatim>\<open>setMode\<close> (or \<^verbatim>\<open>Close\<close>) is going to close.  So when no such call is running every open connection was
  dialled in the current mode; and a switch that runs undisturbed is a sequence of steps that closes every connection that was active.
\<close>

theorem mode_switch_complete:
  assumes "proxy_step\<^sup>*\<^sup>* newLinuxHTTPProxy p" "c \<in> set (active p)" "c \<notin> set (shut p)" "via p c = Some m"
  shows "(m = pmode p \<or> None \<in> set (sweeps p) \<or> (\<exists>cs. Some cs \<in> set (sweeps p) \<and> c \<in> set cs))
    \<and> (sweeps p = [] \<longrightarrow> m = pmode p)
    \<and> proxy_step\<^sup>*\<^sup>* p (setMode m' p) \<and> pmode (setMode m' p) = m' \<and> (m' \<noteq> pmode p \<longrightarrow> set (active p) \<subseteq> set (shut (setMode m' p)))"
proof -
  have "proxy_inv p" using proxy.reach_inv assms(1) by blast
  then have "m = pmode p \<or> None \<in> set (sweeps p) \<or> (\<exists>cs. Some cs \<in> set (sweeps p) \<and> c \<in> set cs)"
    using assms(2-4) by (auto simp: proxy_inv_def stale_def covered_def)
  moreover have "m' \<noteq> pmode p \<longrightarrow> set (active p) \<subseteq> set (shut (setMode m' p))" by (auto simp: setMode_def sweep_all_eq Let_def)
  ultimately show ?thesis using setMode_steps [of p m'] by auto
qed

theorem mode_switch_complete_witness:
  "\<exists>p. proxy_step\<^sup>*\<^sup>* newLinuxHTTPProxy p \<and> 4 \<in> set (active p) \<and> via p 4 = Some linuxProxyDirect \<and> pmode p = linuxProxyVPN
    \<and> (linuxProxyDirect = pmode p \<or> None \<in> set (sweeps p) \<or> (\<exists>cs. Some cs \<in> set (sweeps p) \<and> 4 \<in> set cs))"
proof -
  let ?a = "accept_conn 4 newLinuxHTTPProxy"
  let ?p = "swap_mode linuxProxyVPN (load_mode 4 ?a)"
  have s: "proxy_step newLinuxHTTPProxy ?a" "proxy_step ?a (load_mode 4 ?a)" "proxy_step (load_mode 4 ?a) ?p"
    by (rule proxy_step.intros; simp add: accept_conn_def track_def newLinuxHTTPProxy_def)+
  then have p: "proxy_step\<^sup>*\<^sup>* newLinuxHTTPProxy ?p" by (meson converse_rtranclp_into_rtranclp rtranclp.rtrancl_refl)
  have v: "4 \<in> set (active ?p)" "4 \<notin> set (shut ?p)" "via ?p 4 = Some linuxProxyDirect" "pmode ?p = linuxProxyVPN"
    by (simp_all add: swap_mode_def load_mode_def accept_conn_def track_def newLinuxHTTPProxy_def)
  show ?thesis using mode_switch_complete [OF p v(1-3)] p v by blast
qed

section \<open>Nothing is left behind\<close>

fun is_child :: "run_act \<Rightarrow> bool" where
  "is_child (ChildStarted args) = True"
| "is_child _ = False"

definition children :: "run_act list \<Rightarrow> nat" where
  "children acts = length (filter is_child acts)"

text \<open>Every session, child process, control socket, bridge and TUN descriptor that was acquired was released exactly once.\<close>

definition balanced :: "run_act list \<Rightarrow> bool" where
  "balanced acts \<longleftrightarrow> count_list acts SessionClosed = count_list acts SessionUp
     \<and> count_list acts SockClosed = children acts \<and> count_list acts ChildKilled = children acts
     \<and> count_list acts BridgeCancelled = count_list acts BridgeStarted \<and> count_list acts TunFdClosed = count_list acts BridgeStarted"

lemma children_simps [simp]:
  "children [] = 0" "children (a # as) = (if is_child a then Suc (children as) else children as)" "children (as @ bs) = children as + children bs"
  by (simp_all add: children_def)

definition owed :: "linuxVPNProxyBackend option \<Rightarrow> run_act list" where
  "owed ob = fst (backend_Close ob)"

lemma start_backend_balanced:
  assumes "startLinuxVPNProxyBackend env = Some (acts, r)"
  shows "case r of Inr e \<Rightarrow> balanced acts
    | Inl b \<Rightarrow> balanced (acts @ owed (Some b)) \<and> b = \<lparr>be_vpn = be_vpn b, be_dialer = newLinuxVPNDialer, be_errCh = [], be_closed = False\<rparr>"
  using assms unfolding startLinuxVPNProxyBackend_def Let_def
  by (auto simp: balanced_def owed_def backend_Close_def newLinuxVPNDialer_def split: sum.splits prod.splits if_splits option.splits)

lemma owed_closed [simp]: "owed (snd (backend_Close ob)) = []"
  by (auto simp: owed_def backend_Close_def split: option.split)

lemma close_backend_owes [simp]: "bs_acts (close_backend s) = bs_acts s @ owed (bs_backend s)"
  by (simp add: close_backend_def owed_def split: prod.split)

definition boot_owes :: "boot_state \<Rightarrow> run_act list" where
  "boot_owes s = bs_acts s @ owed (bs_backend s)"

lemma stream_line_backend [simp]: "bs_backend (stream_line l s) = bs_backend s" "bs_acts (stream_line l s) = bs_acts s"
    "bs_handedOff (stream_line l s) = bs_handedOff s" "bs_stops (stream_line l s) = bs_stops s"
  by (simp_all add: stream_line_def activate_def Let_def)

lemma stream_line_mode [simp]:
  "pmode (bs_proxy (stream_line l s)) = (if launch_line l \<and> \<not> bs_activated s then linuxProxyVPN else pmode (bs_proxy s))"
  "bs_activated (stream_line l s) \<longleftrightarrow> bs_activated s \<or> launch_line l"
  by (simp_all add: stream_line_def activate_def Let_def)

lemma owed_watch [simp]: "owed (map_option (watchBackend be) ob) = owed ob"
  by (auto simp: owed_def backend_Close_def watchBackend_def split: option.split backend_event.split)

lemma owed_errCh [simp]: "owed (Some (b\<lparr>be_errCh := es\<rparr>)) = owed (Some b)"
  by (simp add: owed_def backend_Close_def)

text \<open>
  What the loop keeps: everything owed is still owed or was released once, a closed backend has a closed dialer, before the
  hand-over the backend is open and the proxy is in the tunnel mode exactly when it was activated, and afterwards the backend is closed.
\<close>

definition boot_inv :: "boot_state \<Rightarrow> bool" where
  "boot_inv s \<longleftrightarrow> balanced (boot_owes s)
     \<and> (\<exists>b. bs_backend s = Some b \<and> be_closed b = bs_handedOff s \<and> (be_closed b \<longrightarrow> d_closed (be_dialer b)))
     \<and> (\<not> bs_handedOff s \<longrightarrow> (pmode (bs_proxy s) = linuxProxyVPN \<longleftrightarrow> bs_activated s))"

lemma boot_inv_close:
  assumes "boot_inv s"
  shows "boot_inv (close_backend (s\<lparr>bs_ready := ch, bs_handedOff := True, bs_proxy := p\<rparr>))"
proof -
  obtain b where b: "bs_backend s = Some b" "be_closed b \<longrightarrow> d_closed (be_dialer b)" using assms by (auto simp: boot_inv_def)
  have o: "boot_owes (close_backend (s\<lparr>bs_ready := ch, bs_handedOff := True, bs_proxy := p\<rparr>)) = boot_owes s"
    using owed_closed [of "bs_backend s"] by (auto simp: boot_owes_def close_backend_def owed_def split: prod.split)
  have "\<exists>b'. bs_backend (close_backend (s\<lparr>bs_ready := ch, bs_handedOff := True, bs_proxy := p\<rparr>)) = Some b' \<and> be_closed b' \<and> d_closed (be_dialer b')"
    using b by (auto simp: close_backend_def backend_Close_def dialer_Close_def)
  moreover have "bs_handedOff (close_backend (s\<lparr>bs_ready := ch, bs_handedOff := True, bs_proxy := p\<rparr>))"
    by (simp add: close_backend_def split: prod.split)
  ultimately show ?thesis using assms o by (auto simp: boot_inv_def)
qed

lemma boot_inv_end_dialer:
  assumes "boot_inv s"
  shows "boot_inv (end_dialer s)"
proof -
  obtain b where b: "bs_backend s = Some b" "be_closed b = bs_handedOff s" "be_closed b \<longrightarrow> d_closed (be_dialer b)"
    using assms by (auto simp: boot_inv_def)
  have "balanced (boot_owes (end_dialer s))"
    using assms b by (auto simp: boot_inv_def end_dialer_def boot_owes_def owed_def backend_Close_def dialer_Close_def balanced_def)
  then show ?thesis using assms b by (auto simp: boot_inv_def end_dialer_def dialer_Close_def)
qed

lemma boot_inv_line: "boot_inv s \<Longrightarrow> boot_inv (stream_line l s)"
  by (auto simp: boot_inv_def boot_owes_def)

lemma boot_inv_step:
  assumes "boot_event_step ev s = (r, s')" "boot_inv s"
  shows "boot_inv s'"
proof (cases ev)
  case (LineRead l)
  with assms boot_inv_line show ?thesis by (auto simp: boot_event_step_def)
next
  case DialerEnded
  with assms boot_inv_end_dialer show ?thesis by (auto simp: boot_event_step_def)
next
  case TakeReady
  show ?thesis
  proof (cases "bs_ready s = [] \<or> bs_handedOff s")
    case True
    with TakeReady assms show ?thesis by (auto simp: boot_event_step_def boot_inv_def boot_owes_def Let_def split: if_splits)
  next
    case False
    with TakeReady assms(1) have "s' = close_backend (s\<lparr>bs_ready := tl (bs_ready s), bs_handedOff := True, bs_proxy := UseDirect (bs_proxy s)\<rparr>)"
      by (auto simp: boot_event_step_def Let_def)
    then show ?thesis using boot_inv_close [OF assms(2)] by simp
  qed
next
  case (Watched be)
  then have s': "s' = s\<lparr>bs_backend := map_option (watchBackend be) (bs_backend s)\<rparr>" using assms(1) by (simp add: boot_event_step_def)
  have "be_closed (watchBackend be b) = be_closed b" "be_dialer (watchBackend be b) = be_dialer b" for b
    by (simp_all add: watchBackend_def split: backend_event.split)
  with assms(2) show ?thesis unfolding s' by (auto simp: boot_inv_def boot_owes_def)
next
  case TakeBackendErr
  with assms show ?thesis
    by (auto simp: boot_event_step_def boot_inv_def boot_owes_def Let_def split: option.splits list.splits if_splits)
qed (use assms in \<open>auto simp: boot_event_step_def boot_inv_def boot_owes_def accept_conn_def load_mode_def track_def close_conn_def
       split: option.splits\<close>)

lemma boot_inv_loop: "boot_loop evs s = (r, s') \<Longrightarrow> boot_inv s \<Longrightarrow> boot_inv s'"
proof (induction evs arbitrary: s)
  case (Cons ev evs)
  obtain r1 s1 where e: "boot_event_step ev s = (r1, s1)" by fastforce
  with Cons boot_inv_step [OF e Cons.prems(2)] show ?case by (cases r1) auto
qed simp

lemma boot_inv_start:
  "startLinuxVPNProxyBackend env = Some (acts, Inl b) \<Longrightarrow> boot_inv (boot_start acts b)"
  using start_backend_balanced [of env acts "Inl b"]
  by (simp add: boot_inv_def boot_start_def boot_owes_def newLinuxHTTPProxy_def) (metis linuxVPNProxyBackend.simps(4))

text \<open>
  C16. The bootstrap releases everything it acquired, exactly once, on every path on which it returns: the session, the child in the
  namespace, its control socket, the bridge and the TUN descriptor, whether setting up the backend failed, Discord
  could not be started, the hand-over had already closed the backend, the dialer's reader had closed the socket, or the loop ended for any other reason.
\<close>

theorem bootstrap_releases:
  assumes "runLinuxDiscordBootstrap env args evs = Some (started, Some r, acts, stops)"
  shows "balanced acts"
proof (cases "startLinuxVPNProxyBackend (bt_backend env)")
  case None
  with assms show ?thesis by (simp add: runLinuxDiscordBootstrap_def)
next
  case (Some ab)
  obtain acts0 res where ab: "ab = (acts0, res)" by fastforce
  show ?thesis
  proof (cases res)
    case (Inr e)
    with assms Some ab show ?thesis using start_backend_balanced [of "bt_backend env" acts0 res]
      by (simp add: runLinuxDiscordBootstrap_def)
  next
    case (Inl b)
    have inv: "boot_inv (boot_start acts0 b)" using Some ab Inl boot_inv_start by simp
    have rel: "balanced (bs_acts (close_backend s))" "balanced (bs_acts (boot_defers s))" if "boot_inv s" for s
      using that by (simp_all add: boot_inv_def boot_owes_def boot_defers_def)
    obtain r1 s where l: "boot_loop evs (boot_start acts0 b) = (r1, s)" by fastforce
    have "boot_inv s" using boot_inv_loop [OF l inv] .
    with assms Some ab Inl l inv rel show ?thesis
      by (auto simp: runLinuxDiscordBootstrap_def split: option.splits if_splits)
  qed
qed

lemma boot_step_activated:
  "boot_event_step ev s = (r, s') \<Longrightarrow> bs_activated s' \<longleftrightarrow> bs_activated s \<or> (\<exists>l. ev = LineRead l \<and> launch_line l)"
  by (cases ev) (auto simp: boot_event_step_def end_dialer_def close_backend_def Let_def
      split: option.splits list.splits if_splits prod.splits)

lemma boot_loop_activated:
  "boot_loop evs s = (None, s') \<Longrightarrow> bs_activated s' \<longleftrightarrow> bs_activated s \<or> (\<exists>l. LineRead l \<in> set evs \<and> launch_line l)"
proof (induction evs arbitrary: s)
  case (Cons ev evs)
  obtain r1 s1 where e: "boot_event_step ev s = (r1, s1)" by fastforce
  with Cons boot_step_activated [OF e] show ?case by (cases r1) auto
qed simp

lemma boot_loop_keeps_activated: "boot_loop evs s = (r, s') \<Longrightarrow> bs_activated s \<Longrightarrow> bs_activated s'"
proof (induction evs arbitrary: s)
  case (Cons ev evs)
  obtain r1 s1 where e: "boot_event_step ev s = (r1, s1)" by fastforce
  with Cons boot_step_activated [OF e] show ?case by (cases r1) auto
qed simp

text \<open>After the hand-over only the first launch line changes the mode.\<close>

lemma handed_off_mode:
  "bs_handedOff s \<Longrightarrow> boot_event_step ev s = (r, s') \<Longrightarrow>
   bs_handedOff s' \<and> pmode (bs_proxy s') = (if bs_activated s' \<and> \<not> bs_activated s then linuxProxyVPN else pmode (bs_proxy s))"
  by (cases ev) (auto simp: boot_event_step_def end_dialer_def accept_conn_def load_mode_def track_def close_conn_def Let_def
      split: option.splits list.splits if_splits)

lemma handed_off_loop:
  "boot_loop evs s = (r, s') \<Longrightarrow> bs_handedOff s \<Longrightarrow>
   pmode (bs_proxy s') = (if bs_activated s' \<and> \<not> bs_activated s then linuxProxyVPN else pmode (bs_proxy s))"
proof (induction evs arbitrary: s)
  case (Cons ev evs)
  obtain r1 s1 where e: "boot_event_step ev s = (r1, s1)" by fastforce
  note m = handed_off_mode [OF Cons.prems(2) e] and a = boot_step_activated [OF e]
  show ?case
  proof (cases r1)
    case None
    then have l: "boot_loop evs s1 = (r, s')" using Cons.prems(1) e by simp
    have "pmode (bs_proxy s') = (if bs_activated s' \<and> \<not> bs_activated s1 then linuxProxyVPN else pmode (bs_proxy s1))"
      using Cons.IH [OF l] m by blast
    moreover have "bs_activated s \<Longrightarrow> bs_activated s1" "bs_activated s1 \<Longrightarrow> bs_activated s'"
      using a boot_loop_keeps_activated [OF l] by blast+
    ultimately show ?thesis using conjunct2 [OF m] by (cases "bs_activated s"; cases "bs_activated s1") simp_all
  qed (use Cons.prems(1) e m in simp)
qed simp

lemma hand_over:
  assumes "\<not> bs_handedOff s" "bs_ready s \<noteq> []" "boot_loop (TakeReady # later) s = (r, s')"
  shows "pmode (bs_proxy s') = (if bs_activated s' \<and> \<not> bs_activated s then linuxProxyVPN else linuxProxyDirect)"
proof -
  let ?s = "close_backend (s\<lparr>bs_ready := tl (bs_ready s), bs_handedOff := True, bs_proxy := UseDirect (bs_proxy s)\<rparr>)"
  have "boot_event_step TakeReady s = (None, ?s)" using assms(1,2) by (simp add: boot_event_step_def Let_def)
  then have "boot_loop later ?s = (r, s')" using assms(3) by simp
  moreover have "bs_activated ?s = bs_activated s" "bs_handedOff ?s" "pmode (bs_proxy ?s) = linuxProxyDirect"
    by (simp_all add: close_backend_def split: prod.split)
  ultimately show ?thesis using handed_off_loop [of later ?s r s'] by simp
qed

text \<open>
  C13. The phases of the bootstrap.  Until the hand-over the backend stays open and the proxy tunnels exactly when a launch line
  of Discord's output was read; a backend error is then returned and stops Discord, so no traffic falls back to the direct
  path.  From the hand-over on the backend is closed.  The hand-over makes the proxy direct, and whatever happens afterwards it stays
  direct if a launch line was read before; if none was, it is direct until the first launch line is read and in the tunnel mode from then on.
\<close>

theorem bootstrap_phases:
  assumes "startLinuxVPNProxyBackend env = Some (acts, Inl b)" "boot_loop evs (boot_start acts b) = (None, s)"
  shows "(\<exists>b. bs_backend s = Some b \<and> be_closed b = bs_handedOff s)
    \<and> (bs_activated s \<longleftrightarrow> (\<exists>l. LineRead l \<in> set evs \<and> launch_line l))
    \<and> (\<not> bs_handedOff s \<longrightarrow> (pmode (bs_proxy s) = linuxProxyVPN \<longleftrightarrow> bs_activated s)
        \<and> (\<forall>b e es. bs_backend s = Some b \<and> be_errCh b = e # es \<longrightarrow>
              (\<exists>s'. boot_loop [TakeBackendErr] s = (Some (Some e), s') \<and> bs_stops s' = Suc (bs_stops s)))
        \<and> (\<forall>later r s'. bs_ready s \<noteq> [] \<and> boot_loop (TakeReady # later) s = (r, s') \<longrightarrow>
              (bs_activated s \<longrightarrow> pmode (bs_proxy s') = linuxProxyDirect)
              \<and> (\<not> bs_activated s \<longrightarrow> (pmode (bs_proxy s') = linuxProxyVPN \<longleftrightarrow> bs_activated s'))))"
proof (intro conjI impI allI)
  have inv: "boot_inv s" using boot_inv_loop [OF assms(2) boot_inv_start [OF assms(1)]] .
  then show "\<exists>b. bs_backend s = Some b \<and> be_closed b = bs_handedOff s" by (auto simp: boot_inv_def)
  show "bs_activated s \<longleftrightarrow> (\<exists>l. LineRead l \<in> set evs \<and> launch_line l)"
    using boot_loop_activated [OF assms(2)] by (simp add: boot_start_def)
  assume h: "\<not> bs_handedOff s"
  then show "pmode (bs_proxy s) = linuxProxyVPN \<longleftrightarrow> bs_activated s" using inv by (simp add: boot_inv_def)
  show "\<exists>s'. boot_loop [TakeBackendErr] s = (Some (Some e), s') \<and> bs_stops s' = Suc (bs_stops s)"
    if "bs_backend s = Some b \<and> be_errCh b = e # es" for b e es
    using that h by (simp add: boot_event_step_def Let_def)
  fix later r s' assume "bs_ready s \<noteq> [] \<and> boot_loop (TakeReady # later) s = (r, s')"
  then have m: "pmode (bs_proxy s') = (if bs_activated s' \<and> \<not> bs_activated s then linuxProxyVPN else linuxProxyDirect)"
    using hand_over [OF h] by blast
  show "pmode (bs_proxy s') = linuxProxyDirect" if "bs_activated s" using m that by simp
  show "pmode (bs_proxy s') = linuxProxyVPN \<longleftrightarrow> bs_activated s'" if "\<not> bs_activated s" using m that by simp
qed

text \<open>
  When Discord's session is reported before its launch line, the hand-over happens first and the late activation leaves the proxy
  in the tunnel mode although the dialer is closed: every later connection of Discord fails.
\<close>

lemma late_activation_strands_proxy:
  assumes "boot_inv s" "bs_handedOff s" "\<not> bs_activated s" "launch_line l"
  shows "pmode (bs_proxy (stream_line l s)) = linuxProxyVPN
    \<and> (\<exists>b. bs_backend (stream_line l s) = Some b \<and> be_closed b \<and> d_closed (be_dialer b))"
  using assms by (auto simp: boot_inv_def)

section \<open>Dialled targets\<close>

lemma IndexByte_append: "c \<notin> set xs \<Longrightarrow> IndexByte (xs @ c # ys) c = Some (length xs)"
  by (induction xs) auto

lemma LastIndexByte_append: "c \<notin> set ys \<Longrightarrow> LastIndexByte (xs @ c # ys) c = Some (length xs)"
  using IndexByte_append [of c "rev ys" "rev xs"] by (simp add: LastIndexByte_def)

definition unbracketed :: "string \<Rightarrow> bool" where
  "unbracketed s \<longleftrightarrow> CHR ''['' \<notin> set s \<and> CHR '']'' \<notin> set s"

lemma Split_Join:
  assumes "unbracketed host" "unbracketed port" "CHR '':'' \<notin> set port"
  shows "SplitHostPort (JoinHostPort host port) = Inr (host, port)"
proof (cases "CHR '':'' \<in> set host")
  case True
  let ?hp = "CHR ''['' # host @ CHR '']'' # CHR '':'' # port"
  have j: "JoinHostPort host port = ?hp" using True by (simp add: JoinHostPort_def IndexByte_None_iff)
  have "LastIndexByte ?hp (CHR '':'') = Some (length host + 2)"
    using LastIndexByte_append [OF assms(3), of "CHR ''['' # host @ [CHR '']'']"] by simp
  moreover have "IndexByte ?hp (CHR '']'') = Some (length host + 1)"
    using IndexByte_append [of "CHR '']''" "CHR ''['' # host"] assms(1) by (simp add: unbracketed_def)
  ultimately show ?thesis using assms(1,2) unfolding j
    by (simp add: SplitHostPort_def split_check_def IndexByte_None_iff unbracketed_def)
next
  case False
  let ?hp = "host @ CHR '':'' # port"
  have j: "JoinHostPort host port = ?hp" using False by (simp add: JoinHostPort_def IndexByte_None_iff)
  have "?hp ! 0 \<noteq> CHR ''[''" using assms(1) by (cases host) (auto simp: unbracketed_def)
  with LastIndexByte_append [OF assms(3), of host] False assms(1,2) show ?thesis unfolding j
    by (simp add: SplitHostPort_def split_check_def IndexByte_None_iff unbracketed_def)
qed

text \<open>
  Every target the proxy dials has a host and a port: the ones of the request when it names both, and otherwise the host without
  its brackets with port 443 for \<^verbatim>\<open>CONNECT\<close> and https requests and port 80 for all others.  The connection goes through
  the tunnel exactly in the tunnel mode.
\<close>

theorem dialled_target:
  assumes "handle p (Some rq) ok e = Dialled d # rest"
    and "name = (if EqualFold (rq_method rq) ''CONNECT'' \<or> rq_urlHost rq = '''' then rq_host rq else rq_urlHost rq)"
    and "unbracketed (Trim name {CHR ''['', CHR '']''})"
  shows "\<exists>target. d = (if pmode p = linuxProxyVPN then TunnelDial target else DirectDial target)
    \<and> SplitHostPort target = (case SplitHostPort name of
        Inr hp \<Rightarrow> Inr hp
      | Inl _ \<Rightarrow> Inr (Trim name {CHR ''['', CHR '']''},
          if EqualFold (rq_method rq) ''CONNECT'' \<or> EqualFold (rq_scheme rq) ''https'' then ''443'' else ''80''))"
proof -
  have add: "SplitHostPort (addDefaultPort name port) = (case SplitHostPort name of
      Inr hp \<Rightarrow> Inr hp | Inl _ \<Rightarrow> Inr (Trim name {CHR ''['', CHR '']''}, port))" if "port = ''443'' \<or> port = ''80''" for port
    using that Split_Join [OF assms(3), of port] by (auto simp: addDefaultPort_def unbracketed_def split: sum.split)
  have "d = proxy_dial p (request_target rq)"
    using assms(1) by (auto simp: handle_def Let_def split: if_splits)
  moreover have "request_target rq = addDefaultPort name
      (if EqualFold (rq_method rq) ''CONNECT'' \<or> EqualFold (rq_scheme rq) ''https'' then ''443'' else ''80'')"
    using assms(2) by (simp add: request_target_def Let_def)
  ultimately show ?thesis using add by (auto simp: proxy_dial_def)
qed

theorem dialled_target_witness:
  "\<exists>target. SplitHostPort target = Inr (''::1'', ''443'')
    \<and> handle newLinuxHTTPProxy (Some \<lparr>rq_method = ''CONNECT'', rq_host = ''[::1]'', rq_urlHost = '''', rq_scheme = ''''\<rparr>) (\<lambda>_. True) None
      = [Dialled (DirectDial target), ToClient established, Relayed, UpstreamClosed]"
proof -
  let ?rq = "\<lparr>rq_method = ''CONNECT'', rq_host = ''[::1]'', rq_urlHost = '''', rq_scheme = ''''\<rparr>"
  have h: "handle newLinuxHTTPProxy (Some ?rq) (\<lambda>_. True) None
      = Dialled (proxy_dial newLinuxHTTPProxy (request_target ?rq)) # [ToClient established, Relayed, UpstreamClosed]"
    by (simp add: handle_def EqualFold_def)
  have t: "Trim ''[::1]'' {CHR ''['', CHR '']''} = ''::1''" by (simp add: Trim_def)
  have s: "\<exists>e. SplitHostPort ''[::1]'' = Inl e"
    by (simp add: SplitHostPort_def LastIndexByte_def)
  show ?thesis
    using dialled_target [OF h, of "''[::1]''"] h s by (auto simp: t EqualFold_def unbracketed_def newLinuxHTTPProxy_def proxy_dial_def)
qed


section \<open>A concrete bootstrap\<close>

definition sample_vpn :: liveVPN where
  "sample_vpn = \<lparr>vEndpoint = \<lparr>Host = ''h'', IP = ''1.2.3.4'', Location = ''x'', Protocol = ''udp'', Port = 53\<rparr>,
    vControl = None, vSession = sample_push\<lparr>psNetmask := Some (CIDRMask 16)\<rparr>, vKeys = sample_bridge_keys, vResetLatency = 0\<rparr>"

definition sample_backend :: backend_env where
  "sample_backend = \<lparr>bk_session = Inl sample_vpn, bk_launch = sample_launch, bk_nonblock = None, bk_childOut = '''',
     bk_rounds = [(Inl (1, 0x54, Inl [Inl [9]]), Tick)], bk_signalErr = None, bk_blockErr = None\<rparr>"

definition sample_lines :: "boot_event list" where
  "sample_lines = [LineRead ''splashScreen.launchMainWindow: 1'', LineRead ''Setting connection state to SESSION_ESTABLISHED'']"

lemma sample_backend_starts: "\<exists>acts b. startLinuxVPNProxyBackend sample_backend = Some (acts, Inl b)"
  using IPMask_Size_CIDR [of 16]
  by (simp add: startLinuxVPNProxyBackend_def sample_backend_def sample_vpn_def launchVPNProxyChild_def sample_launch_def
      recvFDWithChild_def recvFD_def)

lemma sample_lines_kind:
  "launch_line ''splashScreen.launchMainWindow: 1''" "\<not> ready_line ''splashScreen.launchMainWindow: 1''"
  "ready_line ''Setting connection state to SESSION_ESTABLISHED''" "\<not> launch_line ''Setting connection state to SESSION_ESTABLISHED''"
  by code_simp+

lemma sample_lines_read:
  "boot_loop sample_lines s = (None, (activate s)\<lparr>bs_ready := offer 1 () (bs_ready (activate s))\<rparr>)"
  by (simp add: sample_lines_def boot_event_step_def stream_line_def sample_lines_kind Let_def)

theorem bootstrap_phases_witness:
  "\<exists>acts b s t. startLinuxVPNProxyBackend sample_backend = Some (acts, Inl b)
    \<and> boot_loop sample_lines (boot_start acts b) = (None, s) \<and> pmode (bs_proxy s) = linuxProxyVPN
    \<and> boot_loop [TakeReady, LineRead ''splashScreen.launchMainWindow: 1''] s = (None, t) \<and> pmode (bs_proxy t) = linuxProxyDirect"
proof -
  obtain acts b where b: "startLinuxVPNProxyBackend sample_backend = Some (acts, Inl b)" using sample_backend_starts by blast
  define s where "s = (activate (boot_start acts b))\<lparr>bs_ready := offer 1 () (bs_ready (activate (boot_start acts b)))\<rparr>"
  have l: "boot_loop sample_lines (boot_start acts b) = (None, s)" by (simp add: sample_lines_read s_def)
  have s: "bs_activated s" "bs_ready s \<noteq> []" "\<not> bs_handedOff s"
    by (simp_all add: s_def activate_def boot_start_def offer_def)
  obtain r t where t: "boot_loop [TakeReady, LineRead ''splashScreen.launchMainWindow: 1''] s = (r, t)" by fastforce
  have "r = None" using t s by (auto simp: boot_event_step_def Let_def)
  with bootstrap_phases [OF b l] b l s t show ?thesis by blast
qed

theorem bootstrap_releases_witness:
  "\<exists>acts stops. runLinuxDiscordBootstrap \<lparr>bt_backend = sample_backend, bt_listenErr = None, bt_url = ''http://127.0.0.1:9'',
      bt_stdoutErr = None, bt_stderrErr = None, bt_startErr = None\<rparr> [] (sample_lines @ [TakeReady, TakeCtx EOF])
    = Some (Some [''--proxy-server=http://127.0.0.1:9'', ''--disable-quic''], Some (Some EOF), acts, stops) \<and> balanced acts \<and> stops = 1"
proof -
  obtain acts b where b: "startLinuxVPNProxyBackend sample_backend = Some (acts, Inl b)" using sample_backend_starts by blast
  let ?env = "\<lparr>bt_backend = sample_backend, bt_listenErr = None, bt_url = ''http://127.0.0.1:9'',
      bt_stdoutErr = None, bt_stderrErr = None, bt_startErr = None\<rparr>"
  have loop_app: "boot_loop (es @ fs) s = boot_loop fs s'" if "boot_loop es s = (None, s')" for es fs s s'
    using that by (induction es arbitrary: s) (auto split: prod.splits option.splits)
  define s where "s = (activate (boot_start acts b))\<lparr>bs_ready := offer 1 () (bs_ready (activate (boot_start acts b)))\<rparr>"
  have s: "bs_ready s \<noteq> []" "\<not> bs_handedOff s" "bs_stops s = 0" by (simp_all add: s_def activate_def boot_start_def offer_def)
  have "boot_loop (sample_lines @ [TakeReady, TakeCtx EOF]) (boot_start acts b) = boot_loop [TakeReady, TakeCtx EOF] s"
    by (rule loop_app) (simp add: sample_lines_read s_def)
  also have "\<exists>t. \<dots> = (Some (Some EOF), t) \<and> bs_stops t = 1"
    using s by (simp add: boot_event_step_def Let_def close_backend_def split: prod.split)
  finally obtain t where "boot_loop (sample_lines @ [TakeReady, TakeCtx EOF]) (boot_start acts b) = (Some (Some EOF), t)" "bs_stops t = 1" by blast
  then have r: "runLinuxDiscordBootstrap ?env [] (sample_lines @ [TakeReady, TakeCtx EOF]) =
      Some (Some [''--proxy-server=http://127.0.0.1:9'', ''--disable-quic''], Some (Some EOF), bs_acts (boot_defers t), 1)"
    using b by (simp add: runLinuxDiscordBootstrap_def start_error_def discord_args_def)
  show ?thesis using r bootstrap_releases [OF r] by blast
qed


section \<open>The child and the end of Discord\<close>

lemma proxy_args_parsed:
  assumes "length ip = 4" "prefix \<le> 32" "length dns = 4"
  shows "proxy_child_args (proxy_launch_args ip prefix dns) = Inr (ip, prefix, dns)"
proof -
  have "To4 ip = Some ip" "To4 dns = Some dns" using assms by simp_all
  then have "IP_String ip = dotted ip" "IP_String dns = dotted dns" using assms by (simp_all add: IP_String_def)
  moreover have "ParseUint (Itoa_nat prefix) 8 = Ok prefix" using assms(2) by (intro ParseUint_Itoa) simp
  ultimately show ?thesis using ParseIP4_dotted assms by (simp add: proxy_child_args_def proxy_launch_args_def)
qed

text \<open>The child answers a request only in a configured namespace with its resolver running and after the ready marker.\<close>

lemma proxy_child_fails_closed:
  assumes "vpnProxyChild env denv reads args = (acts, e)" "Answered a \<in> set acts"
  shows "\<exists>ip prefix dns name sent. proxy_child_args args = Inr (ip, prefix, dns)
    \<and> configureTUNIPv4 (ce_nl env) (ce_byName env) name ip (of_nat prefix) = Some (sent, None)
    \<and> (\<exists>open. startDNSProxy env dns = Some (None, open)) \<and> waitVPNReady (ce_ready env) = Some None
    \<and> take 5 acts = map Setup [TunCreated name, Configured sent, DnsStarted, FdSent, ReadySeen]"
  using assms unfolding vpnProxyChild_def
  by (auto split: sum.splits prod.splits option.splits if_splits)

text \<open>If Discord is not found at all, its own exit status is returned once the grace period is over; if it was seen, once it is gone.\<close>

lemma exit_after_grace:
  "list_all (\<lambda>r. r = (False, ExitTick)) pre \<Longrightarrow> waitForLinuxDiscordExit e False (pre @ (False, GraceOver) # post) = Some (e, False)"
  unfolding waitForLinuxDiscordExit_def by (induction pre) auto

lemma exit_when_gone:
  "list_all (\<lambda>r. r = (True, ExitTick) \<or> r = (True, GraceOver)) pre \<Longrightarrow> waitForLinuxDiscordExit e True (pre @ (False, ev) # post) = Some (e, False)"
  unfolding waitForLinuxDiscordExit_def by (induction pre) auto

end
