(* ===== verification/Relay.thy ===== *)
theory Relay
  imports Interleaving Go_Prelude
begin

text \<open>
  Copying between two connections: \<^verbatim>\<open>copyDuplex\<close> of the Linux proxy and the relay of DNS over TCP in \<^verbatim>\<open>startDNSProxy\<close>.  Two goroutines copy one
  direction each with \<^verbatim>\<open>io.Copy\<close>; the function waits for the first of them and returns, and the caller's
  deferred calls close both connections.
\<close>

section \<open>Definitions\<close>

datatype side = FromA | FromB

text \<open>One direction: what has arrived on the source so far, what was written to the other side, whether the source's peer has closed its
  half, whether the goroutine has ended, and whether it ended with an error.\<close>

record half =
  arrived :: bytes
  copied :: bytes
  peer_eof :: bool
  copy_done :: bool
  broken :: bool

record relay =
  halves :: "side \<Rightarrow> half"
  returned :: bool

definition upd :: "side \<Rightarrow> (half \<Rightarrow> half) \<Rightarrow> relay \<Rightarrow> relay" where
  "upd d f s = s\<lparr>halves := (halves s)(d := f (halves s d))\<rparr>"

text \<open>One read and write of \<^verbatim>\<open>io.Copy\<close>, of at most \<open>n\<close> bytes; on closed connections nothing is copied.\<close>

definition copy_chunk :: "nat \<Rightarrow> side \<Rightarrow> relay \<Rightarrow> relay" where
  "copy_chunk n d s =
     (if returned s \<or> copy_done (halves s d) then s
      else upd d (\<lambda>h. h\<lparr>copied := copied h @ take n (drop (length (copied h)) (arrived h))\<rparr>) s)"

text \<open>The end of a direction: at the end of the input, or with an error (a closed connection included).\<close>

definition copy_end :: "side \<Rightarrow> relay \<Rightarrow> relay" where
  "copy_end d s =
     (let h = halves s d in
      if \<not> copy_done h \<and> \<not> returned s \<and> peer_eof h \<and> copied h = arrived h then upd d (\<lambda>h. h\<lparr>copy_done := True\<rparr>) s else s)"

definition copy_fail :: "side \<Rightarrow> relay \<Rightarrow> relay" where
  "copy_fail d s = (if copy_done (halves s d) then s else upd d (\<lambda>h. h\<lparr>copy_done := True, broken := True\<rparr>) s)"

text \<open>The receive from \<^verbatim>\<open>done\<close>, the return and the deferred calls.\<close>

definition relay_return :: "relay \<Rightarrow> relay" where
  "relay_return s =
     (if copy_done (halves s FromA) \<or> copy_done (halves s FromB) then s\<lparr>returned := True\<rparr> else s)"

definition copyDuplex_start :: relay where
  "copyDuplex_start =
     \<lparr>halves = (\<lambda>_. \<lparr>arrived = [], copied = [], peer_eof = False, copy_done = False, broken = False\<rparr>), returned = False\<rparr>"

text \<open>A DNS client over TCP: without a connection to the VPN's resolver it is closed, otherwise relayed.\<close>

definition dns_tcp :: "go_error option \<Rightarrow> relay option" where
  "dns_tcp dialErr = (case dialErr of Some _ \<Rightarrow> None | None \<Rightarrow> Some copyDuplex_start)"

inductive relay_step :: "relay \<Rightarrow> relay \<Rightarrow> bool" where
  arrive: "\<not> peer_eof (halves s d) \<Longrightarrow> relay_step s (upd d (\<lambda>h. h\<lparr>arrived := arrived h @ b\<rparr>) s)"
| half_close: "relay_step s (upd d (\<lambda>h. h\<lparr>peer_eof := True\<rparr>) s)"
| chunk: "relay_step s (copy_chunk n d s)"
| finish: "relay_step s (copy_end d s)"
| error: "relay_step s (copy_fail d s)"
| return: "relay_step s (relay_return s)"

section \<open>What is copied\<close>

definition half_ok :: "half \<Rightarrow> bool" where
  "half_ok h \<longleftrightarrow> (\<exists>rest. arrived h = copied h @ rest) \<and> (copy_done h \<longrightarrow> broken h \<or> peer_eof h \<and> copied h = arrived h)"

definition relay_ok :: "relay \<Rightarrow> bool" where
  "relay_ok s \<longleftrightarrow> (\<forall>d. half_ok (halves s d)) \<and> (returned s \<longrightarrow> (\<exists>d. copy_done (halves s d)))"

lemma halves_upd [simp]:
  "halves (upd d f s) e = (if e = d then f (halves s d) else halves s e)" "returned (upd d f s) = returned s"
  by (simp_all add: upd_def)

lemma half_arrive: "half_ok h \<Longrightarrow> \<not> peer_eof h \<Longrightarrow> half_ok (h\<lparr>arrived := arrived h @ b\<rparr>)"
  by (auto simp: half_ok_def)

lemma half_chunk:
  assumes "half_ok h" "\<not> copy_done h"
  shows "half_ok (h\<lparr>copied := copied h @ take n (drop (length (copied h)) (arrived h))\<rparr>)"
proof -
  obtain rest where r: "arrived h = copied h @ rest" using assms(1) by (auto simp: half_ok_def)
  then have "arrived h = (copied h @ take n rest) @ drop n rest" by simp
  then have "\<exists>rest'. arrived h = (copied h @ take n rest) @ rest'" by blast
  with r assms(2) show ?thesis by (simp add: half_ok_def)
qed

lemma half_end:
  "half_ok h \<Longrightarrow> half_ok (h\<lparr>peer_eof := True\<rparr>)"
  "half_ok h \<Longrightarrow> peer_eof h \<Longrightarrow> copied h = arrived h \<Longrightarrow> half_ok (h\<lparr>copy_done := True\<rparr>)"
  "half_ok h \<Longrightarrow> half_ok (h\<lparr>copy_done := True, broken := True\<rparr>)"
  by (simp_all add: half_ok_def) blast

lemma relay_upd:
  assumes "relay_ok s" "half_ok (f (halves s d))" "copy_done (halves s d) \<Longrightarrow> copy_done (f (halves s d))"
  shows "relay_ok (upd d f s)"
  using assms unfolding relay_ok_def by fastforce

lemma relay_step_ok: "relay_ok s \<Longrightarrow> relay_step s t \<Longrightarrow> relay_ok t"
proof -
  assume ok: "relay_ok s" and "relay_step s t"
  have h: "half_ok (halves s d)" for d using ok by (simp add: relay_ok_def)
  from \<open>relay_step s t\<close> show "relay_ok t"
  proof cases
    case (arrive d b)
    then show ?thesis using relay_upd [OF ok] half_arrive h by simp
  next
    case (half_close d)
    then show ?thesis using relay_upd [OF ok] half_end(1) h by simp
  next
    case (chunk n d)
    then show ?thesis using half_chunk [OF h] ok by (auto simp: copy_chunk_def intro!: relay_upd [OF ok])
  next
    case (finish d)
    then show ?thesis using half_end(2) [OF h] ok by (auto simp: copy_end_def Let_def intro!: relay_upd [OF ok])
  next
    case (error d)
    then show ?thesis using half_end(3) [OF h] ok by (auto simp: copy_fail_def intro!: relay_upd [OF ok])
  next
    case return
    then show ?thesis using ok by (auto simp: relay_return_def relay_ok_def)
  qed
qed

interpretation duplex: transition_system "\<lambda>s. s = copyDuplex_start" relay_step relay_ok
proof unfold_locales
  show "relay_ok s" if "s = copyDuplex_start" for s
    using that by (simp add: copyDuplex_start_def relay_ok_def half_ok_def)
qed (rule relay_step_ok)

text \<open>
  The relay never alters, reorders or repeats bytes: in every reachable state what was written in a direction is a prefix of what arrived, and a
  direction that ended without an error was copied to its end; the function has returned only if one
  direction has ended.
\<close>

theorem relay_faithful:
  assumes "relay_step\<^sup>*\<^sup>* copyDuplex_start s"
  shows "(\<forall>d. \<exists>rest. arrived (halves s d) = copied (halves s d) @ rest)
    \<and> (\<forall>d. copy_done (halves s d) \<longrightarrow> broken (halves s d) \<or> peer_eof (halves s d) \<and> copied (halves s d) = arrived (halves s d))
    \<and> (returned s \<longrightarrow> (\<exists>d. copy_done (halves s d)))"
  using duplex.reach_inv [OF refl assms] by (auto simp: relay_ok_def half_ok_def)

section \<open>A half-closed connection\<close>

lemma returned_step: "relay_step s t \<Longrightarrow> returned s \<Longrightarrow> returned t \<and> copied (halves t d) = copied (halves s d)"
  by (induction rule: relay_step.induct)
    (auto simp: copy_chunk_def copy_end_def copy_fail_def relay_return_def Let_def)

lemma returned_steps: "relay_step\<^sup>*\<^sup>* s t \<Longrightarrow> returned s \<Longrightarrow> returned t \<and> copied (halves t d) = copied (halves s d)"
  by (induction rule: rtranclp_induct) (auto dest: returned_step [where d = d])

text \<open>
  A client that half-closes its connection after its request loses the response: its direction ends, the function returns although the other
  direction has not begun, and nothing of the response is ever written.
\<close>

theorem half_close_loses_response:
  assumes "request \<noteq> []" "response \<noteq> []"
  shows "\<exists>s. relay_step\<^sup>*\<^sup>* copyDuplex_start s \<and> returned s
    \<and> copied (halves s FromA) = request \<and> \<not> broken (halves s FromA) \<and> arrived (halves s FromB) = response
    \<and> (\<forall>t. relay_step\<^sup>*\<^sup>* s t \<longrightarrow> copied (halves t FromB) = [])"
proof -
  let ?s1 = "upd FromA (\<lambda>h. h\<lparr>arrived := arrived h @ request\<rparr>) copyDuplex_start"
  let ?s2 = "upd FromA (\<lambda>h. h\<lparr>peer_eof := True\<rparr>) ?s1"
  let ?s3 = "copy_chunk (length request) FromA ?s2"
  let ?s4 = "copy_end FromA ?s3"
  let ?s5 = "relay_return ?s4"
  let ?s6 = "upd FromB (\<lambda>h. h\<lparr>arrived := arrived h @ response\<rparr>) ?s5"
  note defs = copyDuplex_start_def copy_chunk_def copy_end_def relay_return_def Let_def
  have r: "relay_step copyDuplex_start ?s1" "relay_step ?s1 ?s2" "relay_step ?s2 ?s3" "relay_step ?s3 ?s4" "relay_step ?s4 ?s5" "relay_step ?s5 ?s6"
    by (rule relay_step.intros; simp add: defs)+
  have s: "returned ?s6" "copied (halves ?s6 FromA) = request" "\<not> broken (halves ?s6 FromA)"
    "arrived (halves ?s6 FromB) = response" "copied (halves ?s6 FromB) = []"
    by (simp_all add: defs)
  have "relay_step\<^sup>*\<^sup>* copyDuplex_start ?s6"
    using r by (meson rtranclp.rtrancl_refl rtranclp.rtrancl_into_rtrancl)
  moreover have "copied (halves t FromB) = []" if "relay_step\<^sup>*\<^sup>* ?s6 t" for t
    using returned_steps [OF that s(1), of FromB] s(5) by simp
  ultimately show ?thesis using s by blast
qed

end
