(* ===== verification/Probes.thy ===== *)
theory Probes
  imports Session LinuxProxy DataProbe
begin

text \<open>
  The diagnostic commands: \<^verbatim>\<open>tlsprobe\<close>, \<^verbatim>\<open>keyprobe\<close>, \<^verbatim>\<open>pushprobe\<close>, \<^verbatim>\<open>dataprobe\<close>, \<^verbatim>\<open>vpntunprobe\<close> and \<^verbatim>\<open>tunprobe\<close>.  Each takes its parsed flags as
  arguments and returns the values it prints.  All but \<^verbatim>\<open>tunprobe\<close> work on the environment of a session, and the control socket is
  closed by a deferred call.
\<close>

section \<open>Up to the control channel\<close>

definition with_control ::
  "session_env \<Rightarrow> filesys \<Rightarrow> string \<Rightarrow> (Endpoint \<Rightarrow> Identity \<Rightarrow> ProviderTrust \<Rightarrow> controlUDPConn \<Rightarrow> nat \<Rightarrow> 'a result)
    \<Rightarrow> ('a result \<times> filesys) option" where
  "with_control env fs identityPath body =
     map_option (\<lambda>(r, fs).
       (then_do r (\<lambda>(ep, idt, trust).
        then_do (on_error (dialControlUDP (se_udp env) ep) (Wrapf ''control reset: %w'')) (\<lambda>(cc, resetLatency, _).
        body ep idt trust cc resetLatency)), fs))
     (prepare_session env fs identityPath)"

section \<open>tlsprobe\<close>

record tls_report =
  tr_endpoint :: Endpoint
  tr_latency :: nat
  tr_leaf :: Certificate
  tr_chain :: nat
  tr_ca :: Certificate
  tr_fingerprint :: bytes

text \<open>Here the trust is loaded after the dial.\<close>

definition tls_probe_on :: "session_env \<Rightarrow> Endpoint \<Rightarrow> Identity \<Rightarrow> tls_report result" where
  "tls_probe_on env ep idt =
     then_do (on_error (dialControlUDP (se_udp env) ep) (Wrapf ''control reset: %w'')) (\<lambda>(cc, resetLatency, _).
     then_do (on_error (loadProviderTrust (se_web env)) (Wrapf ''provider trust: %w'')) (\<lambda>trust.
     case tls_Handshake env (tlsConfigForGateway (se_x509 env) trust ep idt) cc of
       Some e \<Rightarrow> Error (Wrapf ''TLS over OpenVPN control channel: %w'' e)
     | None \<Rightarrow>
        (let certs = tls_peer env cc in
         if length certs = 0 then Error (ErrorsNew ''TLS completed without peer certificate'')
         else Ok \<lparr>tr_endpoint = ep, tr_latency = resetLatency, tr_leaf = certs ! 0, tr_chain = length certs,
           tr_ca = CA trust, tr_fingerprint = Fingerprint trust\<rparr>)))"

definition cmdTLSProbe :: "session_env \<Rightarrow> filesys \<Rightarrow> string \<Rightarrow> (tls_report result \<times> filesys) option" where
  "cmdTLSProbe env fs identityPath =
     (case then_do (API_service (se_web env)) (bestWireEndpoint (se_ctxErr env) (se_net env) (se_net2 env)) of
        Error e \<Rightarrow> Some (Error e, fs)
      | Panicked p \<Rightarrow> Some (Panicked p, fs)
      | Ok ep \<Rightarrow>
          map_option (\<lambda>(r, trace). (then_do r (tls_probe_on env ep), last trace))
            (loadOrFetchIdentity (se_web env) (se_os env) fs identityPath))"

section \<open>keyprobe, pushprobe and dataprobe\<close>

text \<open>What the three commands have in common: the handshake and the key exchange, and for the last two the pushed options.\<close>

definition probe_keys ::
  "session_env \<Rightarrow> Endpoint \<Rightarrow> Identity \<Rightarrow> ProviderTrust \<Rightarrow> controlUDPConn
    \<Rightarrow> (bytes \<times> keyMethodRecord \<times> bytes \<times> bytes \<times> dataKeyBlock) result" where
  "probe_keys env ep idt trust cc =
     (case tls_Handshake env (tlsConfigForGateway (se_x509 env) trust ep idt) cc of
        Some e \<Rightarrow> Error (Wrapf ''TLS control channel: %w'' e)
      | None \<Rightarrow>
        then_do (randomClientKeySource (se_rand env)) (\<lambda>clientSrc.
        then_do (marshalClientKeyMethod clientSrc ep) (\<lambda>km.
        case tls_Write env [] km of Some e \<Rightarrow> Error (Wrapf ''send key-method 2: %w'' e) | None \<Rightarrow>
        then_do (on_error (readServerKeyMethod (tls_recv env [km])) (Wrapf ''read key-method 2: %w'')) (\<lambda>(serverRec, unread).
        then_do (deriveOpenVPNKeys clientSrc (Source serverRec) (localSID cc) (remoteSID cc)) (\<lambda>(master, keys).
        Ok (km, serverRec, unread, master, keys))))))"

definition probe_push ::
  "session_env \<Rightarrow> Endpoint \<Rightarrow> Identity \<Rightarrow> ProviderTrust \<Rightarrow> controlUDPConn \<Rightarrow> (dataKeyBlock \<times> string list) result" where
  "probe_push env ep idt trust cc =
     then_do (probe_keys env ep idt trust cc) (\<lambda>(km, serverRec, unread, master, keys).
     case tls_Write env [km] push_request of Some e \<Rightarrow> Error (Wrapf ''send PUSH_REQUEST: %w'' e) | None \<Rightarrow>
     then_do (on_error (readPushReply (tls_endErr env) (unread @ tls_recv env [km, push_request])) (Wrapf ''PUSH_REPLY: %w''))
       (\<lambda>(messages, _). Ok (keys, flattenPushOptions messages)))"

record key_report =
  kr_endpoint :: Endpoint
  kr_latency :: nat
  kr_options :: string
  kr_peerInfo :: string
  kr_master :: string
  kr_client :: string
  kr_server :: string

definition cmdKeyProbe :: "session_env \<Rightarrow> filesys \<Rightarrow> string \<Rightarrow> (key_report result \<times> filesys) option" where
  "cmdKeyProbe env fs identityPath =
     with_control env fs identityPath (\<lambda>ep idt trust cc resetLatency.
       then_do (probe_keys env ep idt trust cc) (\<lambda>(_, serverRec, _, master, keys).
       Ok \<lparr>kr_endpoint = ep, kr_latency = resetLatency, kr_options = sanitizeOneLine (Options serverRec) 260,
           kr_peerInfo = sanitizeOneLine (PeerInfo serverRec) 260, kr_master = shortKeyProof master,
           kr_client = shortKeyProof (take 32 (ClientCipher keys)), kr_server = shortKeyProof (take 32 (ServerCipher keys))\<rparr>))"

record push_report =
  pr_endpoint :: Endpoint
  pr_latency :: nat
  pr_summary :: "string list"
  pr_options :: "string list"
  pr_client :: string
  pr_server :: string

definition cmdPushProbe :: "session_env \<Rightarrow> filesys \<Rightarrow> string \<Rightarrow> bool \<Rightarrow> (push_report result \<times> filesys) option" where
  "cmdPushProbe env fs identityPath showAll =
     with_control env fs identityPath (\<lambda>ep idt trust cc resetLatency.
       then_do (probe_push env ep idt trust cc) (\<lambda>(keys, opts).
       Ok \<lparr>pr_endpoint = ep, pr_latency = resetLatency, pr_summary = summarizePushOptions opts,
           pr_options = (if showAll then map (\<lambda>opt. sanitizeOneLine opt 500) opts else []),
           pr_client = shortKeyProof (take 32 (ClientCipher keys)), pr_server = shortKeyProof (take 32 (ServerCipher keys))\<rparr>))"

text \<open>
  The data socket after the negotiation: setting the deadline, the write, what the reads return, and the error of a read when nothing
  more comes.  \<open>rnd\<close> is \<^verbatim>\<open>rand.Read\<close> of two bytes.
\<close>

record data_env =
  dp_deadlineErr :: "go_error option"
  dp_write :: "bytes \<Rightarrow> go_error option"
  dp_reads :: "bytes result list"
  dp_endErr :: go_error
  dp_rand :: "bytes result"

record data_report =
  dr_endpoint :: Endpoint
  dr_latency :: nat
  dr_session :: pushedSession
  dr_sent :: bytes
  dr_meta :: decryptedDataV2
  dr_proof :: dnsReplyProof

text \<open>The query packet: the source port, the packet and what is sent.\<close>

definition data_query ::
  "pushedSession \<Rightarrow> dataKeyBlock \<Rightarrow> bytes result \<Rightarrow> string \<Rightarrow> (u16 \<times> u16 \<times> bytes \<times> bytes) result" where
  "data_query ps keys rnd queryName =
     then_do (buildDNSQuery rnd queryName) (\<lambda>(dnsPayload, txid).
     let srcPort = 40000 + txid mod 20000 in
     then_do (buildIPv4UDP (case psIPv4 ps of Some ip \<Rightarrow> ip | None \<Rightarrow> []) (case psDNS ps of Some d \<Rightarrow> d | None \<Rightarrow> [])
       srcPort 53 dnsPayload txid) (\<lambda>inner.
     then_do (encryptDataV2 (psPeerID ps) 0 1 (take 32 (ClientCipher keys)) (ClientHMAC keys) inner) (\<lambda>encrypted.
     Ok (txid, srcPort, inner, encrypted))))"

definition data_probe_on ::
  "session_env \<Rightarrow> data_env \<Rightarrow> string \<Rightarrow> Endpoint \<Rightarrow> Identity \<Rightarrow> ProviderTrust \<Rightarrow> controlUDPConn \<Rightarrow> nat \<Rightarrow> data_report result" where
  "data_probe_on env dp queryName ep idt trust cc resetLatency =
     then_do (probe_push env ep idt trust cc) (\<lambda>(keys, opts).
     then_do (parsePushedSession opts) (\<lambda>ps.
     then_do (data_query ps keys (dp_rand dp) queryName) (\<lambda>(txid, srcPort, inner, encrypted).
     case dp_deadlineErr dp of Some e \<Rightarrow> Error e | None \<Rightarrow>
     case dp_write dp encrypted of Some e \<Rightarrow> Error (Wrapf ''send P_DATA_V2: %w'' e) | None \<Rightarrow>
     then_do (awaitReply (dp_endErr dp) keys txid srcPort 0 40 (dp_reads dp)) (\<lambda>(dataMeta, proof).
     Ok \<lparr>dr_endpoint = ep, dr_latency = resetLatency, dr_session = ps, dr_sent = encrypted, dr_meta = dataMeta, dr_proof = proof\<rparr>))))"

definition cmdDataProbe ::
  "session_env \<Rightarrow> data_env \<Rightarrow> filesys \<Rightarrow> string \<Rightarrow> string \<Rightarrow> (data_report result \<times> filesys) option" where
  "cmdDataProbe env dp fs identityPath queryName = with_control env fs identityPath (data_probe_on env dp queryName)"

section \<open>The probes and the session\<close>

lemma probe_keys_Ok_iff:
  "probe_keys env ep idt trust cc = Ok (km, rec, unread, master, keys) \<longleftrightarrow>
     tls_Handshake env (tlsConfigForGateway (se_x509 env) trust ep idt) cc = None
     \<and> (\<exists>src. randomClientKeySource (se_rand env) = Ok src \<and> marshalClientKeyMethod src ep = Ok km
          \<and> tls_Write env [] km = None \<and> readServerKeyMethod (tls_recv env [km]) = Ok (rec, unread)
          \<and> deriveOpenVPNKeys src (Source rec) (localSID cc) (remoteSID cc) = Ok (master, keys))"
  by (auto simp: probe_keys_def then_do_Ok_iff split: option.splits)

lemma probe_push_Ok_iff:
  "probe_push env ep idt trust cc = Ok (keys, opts) \<longleftrightarrow>
     (\<exists>km rec unread master msgs rest. probe_keys env ep idt trust cc = Ok (km, rec, unread, master, keys)
       \<and> tls_Write env [km] push_request = None
       \<and> readPushReply (tls_endErr env) (unread @ tls_recv env [km, push_request]) = Ok (msgs, rest)
       \<and> opts = flattenPushOptions msgs)"
  by (auto simp: probe_push_def then_do_Ok_iff split: option.splits) blast

text \<open>A session is negotiated exactly when the push probe gets options that parse as a session; keys and configuration agree.\<close>

lemma negotiate_via_keys:
  "negotiate env ep idt trust cc lat = Ok vpn \<longleftrightarrow>
     (\<exists>km rec unread master keys msgs rest ps. probe_keys env ep idt trust cc = Ok (km, rec, unread, master, keys)
       \<and> tls_Write env [km] push_request = None
       \<and> readPushReply (tls_endErr env) (unread @ tls_recv env [km, push_request]) = Ok (msgs, rest)
       \<and> parsePushedSession (flattenPushOptions msgs) = Ok ps
       \<and> vpn = \<lparr>vEndpoint = ep, vControl = Some (tls_conn env cc), vSession = ps, vKeys = keys, vResetLatency = lat\<rparr>)"
  (is "?n = ?k")
proof
  show ?k if ?n
  proof -
    from that obtain src km rec unread master keys msgs rest ps where
      "tls_Handshake env (tlsConfigForGateway (se_x509 env) trust ep idt) cc = None"
      "randomClientKeySource (se_rand env) = Ok src" "marshalClientKeyMethod src ep = Ok km" "tls_Write env [] km = None"
      "readServerKeyMethod (tls_recv env [km]) = Ok (rec, unread)"
      "deriveOpenVPNKeys src (Source rec) (localSID cc) (remoteSID cc) = Ok (master, keys)"
      "tls_Write env [km] push_request = None"
      "readPushReply (tls_endErr env) (unread @ tls_recv env [km, push_request]) = Ok (msgs, rest)"
      "parsePushedSession (flattenPushOptions msgs) = Ok ps"
      "vpn = \<lparr>vEndpoint = ep, vControl = Some (tls_conn env cc), vSession = ps, vKeys = keys, vResetLatency = lat\<rparr>"
      by (auto simp: negotiate_def then_do_Ok_iff split: option.splits prod.splits)
    then show ?k unfolding probe_keys_Ok_iff by blast
  qed
  show ?n if ?k
    using that unfolding probe_keys_Ok_iff by (elim exE conjE) (simp add: negotiate_def)
qed

lemma negotiate_iff_probe:
  "negotiate env ep idt trust cc lat = Ok vpn \<longleftrightarrow>
     (\<exists>keys opts ps. probe_push env ep idt trust cc = Ok (keys, opts) \<and> parsePushedSession opts = Ok ps
       \<and> vpn = \<lparr>vEndpoint = ep, vControl = Some (tls_conn env cc), vSession = ps, vKeys = keys, vResetLatency = lat\<rparr>)"
  unfolding negotiate_via_keys probe_push_Ok_iff by blast

lemma establish_iff:
  "establishLiveVPN env fs path = Some (Ok vpn, True, fs') \<longleftrightarrow>
     with_control env fs path (negotiate env) = Some (Ok vpn, fs')"
proof -
  have on: "establish_on env ep idt trust = (Ok vpn, True) \<longleftrightarrow>
      then_do (on_error (dialControlUDP (se_udp env) ep) (Wrapf ''control reset: %w''))
        (\<lambda>(cc, lat, _). negotiate env ep idt trust cc lat) = Ok vpn" for ep idt trust
    by (cases "dialControlUDP (se_udp env) ep") (auto simp: establish_on_def split: result.splits)
  show ?thesis
  proof (cases "prepare_session env fs path")
    case (Some x)
    then obtain r fs1 where x: "x = (r, fs1)" by (cases x)
    show ?thesis
    proof (cases r)
      case (Ok t)
      then obtain ep idt trust where t: "r = Ok (ep, idt, trust)" by (cases t) auto
      obtain v b where v: "establish_on env ep idt trust = (v, b)" by fastforce
      show ?thesis using on [of ep idt trust] by (auto simp: establishLiveVPN_def with_control_def Some x t v)
    qed (simp_all add: establishLiveVPN_def with_control_def Some x)
  qed (simp add: establishLiveVPN_def with_control_def)
qed

lemma with_control_Ok_iff:
  "with_control env fs path body = Some (Ok y, fs') \<longleftrightarrow>
     (\<exists>ep idt trust cc lat sent. prepare_session env fs path = Some (Ok (ep, idt, trust), fs')
       \<and> dialControlUDP (se_udp env) ep = Ok (cc, lat, sent) \<and> body ep idt trust cc lat = Ok y)"
  by (auto simp: with_control_def then_do_Ok_iff)

section \<open>The answer the data probe waits for\<close>

definition first_answer ::
  "nat \<Rightarrow> dataKeyBlock \<Rightarrow> u16 \<Rightarrow> u16 \<Rightarrow> bytes result list \<Rightarrow> decryptedDataV2 \<Rightarrow> dnsReplyProof \<Rightarrow> bool" where
  "first_answer n keys txid sp reads dec p \<longleftrightarrow>
     (\<exists>i dgram. i < n \<and> i < length reads \<and> reads ! i = Ok dgram \<and> matching_reply keys txid sp dgram dec p \<and> TxID p \<noteq> 0
       \<and> (\<forall>j < i. \<exists>d. reads ! j = Ok d \<and> (\<forall>dec p. \<not> matching_reply keys txid sp d dec p)))"

lemma first_answer_Cons:
  assumes "first_answer n keys txid sp reads dec p" "\<forall>dec p. \<not> matching_reply keys txid sp d dec p"
  shows "first_answer (Suc n) keys txid sp (Ok d # reads) dec p"
proof -
  from assms(1) obtain i dgram where i: "i < n" "i < length reads" "reads ! i = Ok dgram"
    "matching_reply keys txid sp dgram dec p" "TxID p \<noteq> 0"
    "\<forall>j < i. \<exists>d. reads ! j = Ok d \<and> (\<forall>dec p. \<not> matching_reply keys txid sp d dec p)"
    unfolding first_answer_def by blast
  have "\<exists>d'. (Ok d # reads) ! j = Ok d' \<and> (\<forall>dec p. \<not> matching_reply keys txid sp d' dec p)" if "j < Suc i" for j
    using that i(6) assms(2) by (cases j) auto
  with i show ?thesis unfolding first_answer_def by (intro exI [of _ "Suc i"] exI [of _ dgram]) simp
qed

lemma awaitReply_answer:
  "awaitReply e keys txid sp f n reads = Ok (dec, p) \<Longrightarrow> first_answer n keys txid sp reads dec p"
proof (induction n arbitrary: f reads)
  case (Suc n)
  then obtain rd rest where reads: "reads = rd # rest" by (cases reads) auto
  then obtain dgram where rd: "rd = Ok dgram"
    using Suc.prems by (cases rd) (auto simp: awaitReply.simps(3))
  show ?case
  proof (cases "inspect keys txid sp dgram")
    case (Hit dec' p')
    then have "dec' = dec" "p' = p" "TxID p \<noteq> 0"
      using Suc.prems by (auto simp: reads rd awaitReply_step split: if_splits)
    moreover have "matching_reply keys txid sp dgram dec' p'" using Hit by (simp only: inspect_Hit)
    ultimately show ?thesis unfolding first_answer_def reads rd by (intro exI [of _ 0] exI [of _ dgram]) simp
  next
    case Skipped
    then have "\<forall>dec p. \<not> matching_reply keys txid sp dgram dec p" unfolding inspect_Hit [symmetric] by simp
    moreover have "first_answer n keys txid sp rest dec p"
      using Suc Skipped by (auto simp: reads rd awaitReply_step)
    ultimately show ?thesis unfolding reads rd by (rule first_answer_Cons [rotated])
  next
    case NotAuthentic
    then have "\<forall>dec p. \<not> matching_reply keys txid sp dgram dec p" unfolding inspect_Hit [symmetric] by simp
    moreover have "first_answer n keys txid sp rest dec p"
      using Suc NotAuthentic by (auto simp: reads rd awaitReply_step)
    ultimately show ?thesis unfolding reads rd by (rule first_answer_Cons [rotated])
  qed
qed simp

lemma awaitReply_iff: "awaitReply e keys txid sp f n reads = Ok (dec, p) \<longleftrightarrow> first_answer n keys txid sp reads dec p"
proof
  assume "first_answer n keys txid sp reads dec p"
  then show "awaitReply e keys txid sp f n reads = Ok (dec, p)"
    unfolding first_answer_def by (elim exE conjE) (rule awaitReply_complete)
qed (rule awaitReply_answer)

lemma data_probe_iff:
  "data_probe_on env dp name ep idt trust cc lat = Ok rep \<longleftrightarrow>
     (\<exists>vpn txid sp inner enc. negotiate env ep idt trust cc lat = Ok vpn
       \<and> data_query (vSession vpn) (vKeys vpn) (dp_rand dp) name = Ok (txid, sp, inner, enc)
       \<and> dp_deadlineErr dp = None \<and> dp_write dp enc = None
       \<and> first_answer 40 (vKeys vpn) txid sp (dp_reads dp) (dr_meta rep) (dr_proof rep)
       \<and> dr_endpoint rep = ep \<and> dr_latency rep = lat \<and> dr_session rep = vSession vpn \<and> dr_sent rep = enc)"
proof -
  have rep: "(\<lparr>dr_endpoint = ep, dr_latency = lat, dr_session = ps, dr_sent = enc, dr_meta = dec, dr_proof = p\<rparr> = rep) \<longleftrightarrow>
      dr_endpoint rep = ep \<and> dr_latency rep = lat \<and> dr_session rep = ps \<and> dr_sent rep = enc \<and> dr_meta rep = dec \<and> dr_proof rep = p"
    for ps enc dec p by (cases rep) auto
  show ?thesis
    unfolding data_probe_on_def negotiate_iff_probe
    by (auto simp: then_do_Ok_iff awaitReply_iff rep split: option.splits) blast
qed

lemma buildIPv4UDP_Ok:
  assumes "buildIPv4UDP src dst sp dp payload ipID = Ok pkt"
  shows "\<exists>src4 dst4. To4 src = Some src4 \<and> To4 dst = Some dst4 \<and> pkt = udp_packet src4 dst4 sp dp payload ipID"
proof -
  obtain src4 dst4 where t: "To4 src = Some src4" "To4 dst = Some dst4"
    using assms by (cases "To4 src"; cases "To4 dst") (auto simp: buildIPv4UDP_def)
  have "length payload \<le> 65507"
    using assms t by (cases "length payload \<le> 65507") (auto simp: buildIPv4UDP_def)
  with buildIPv4UDP_eq [OF t] assms t show ?thesis by auto
qed

lemma query_opens:
  assumes "data_query ps keys rnd name = Ok (txid, sp, inner, enc)"
  shows "decryptDataV2 enc (take 32 (ClientCipher keys)) (ClientHMAC keys)
      = Ok \<lparr>dPeerID = psPeerID ps, dKeyID = 0, dPacketID = 1, dPayload = inner\<rparr>"
    and "txid \<noteq> 0" "\<exists>payload. buildDNSQuery rnd name = Ok (payload, txid)
      \<and> buildIPv4UDP (case psIPv4 ps of Some ip \<Rightarrow> ip | None \<Rightarrow> []) (case psDNS ps of Some d \<Rightarrow> d | None \<Rightarrow> []) sp 53 payload txid = Ok inner"
proof -
  from assms obtain payload where q: "buildDNSQuery rnd name = Ok (payload, txid)" and
    i: "buildIPv4UDP (case psIPv4 ps of Some ip \<Rightarrow> ip | None \<Rightarrow> []) (case psDNS ps of Some d \<Rightarrow> d | None \<Rightarrow> []) sp 53 payload txid = Ok inner" and
    e: "encryptDataV2 (psPeerID ps) 0 1 (take 32 (ClientCipher keys)) (ClientHMAC keys) inner = Ok enc"
    by (auto simp: data_query_def then_do_Ok_iff Let_def)
  have "inner \<noteq> []"
    using buildIPv4UDP_Ok [OF i] by (auto simp: udp_packet_def udp_header_def)
  then show "decryptDataV2 enc (take 32 (ClientCipher keys)) (ClientHMAC keys)
      = Ok \<lparr>dPeerID = psPeerID ps, dKeyID = 0, dPacketID = 1, dPayload = inner\<rparr>"
    by (rule decrypt_encrypt [OF e])
  show "txid \<noteq> 0" using q by (auto simp: buildDNSQuery_def then_do_Ok_iff Let_def split: if_splits)
  show "\<exists>payload. buildDNSQuery rnd name = Ok (payload, txid)
      \<and> buildIPv4UDP (case psIPv4 ps of Some ip \<Rightarrow> ip | None \<Rightarrow> []) (case psDNS ps of Some d \<Rightarrow> d | None \<Rightarrow> []) sp 53 payload txid = Ok inner"
    using q i by blast
qed

text \<open>
  C11. The data probe succeeds exactly when the tunnel works.  \<^verbatim>\<open>cmdDataProbe\<close> returns a report if and only if a session is established in
  the same surroundings, the probe's query is sent, and among the first 40 datagrams one
  authenticates under the session's server keys and carries the reply to that query, after datagrams
  that do neither.  What it sent opens under the session's client keys, as the gateway opens it, to the packet from the pushed address to
  port 53 of the pushed resolver.
\<close>

theorem dataprobe_iff_tunnel_works:
  "cmdDataProbe env dp fs path name = Some (Ok rep, fs') \<longleftrightarrow>
     (\<exists>vpn txid sp inner payload. establishLiveVPN env fs path = Some (Ok vpn, True, fs')
       \<and> dr_endpoint rep = vEndpoint vpn \<and> dr_latency rep = vResetLatency vpn \<and> dr_session rep = vSession vpn
       \<and> data_query (vSession vpn) (vKeys vpn) (dp_rand dp) name = Ok (txid, sp, inner, dr_sent rep)
       \<and> buildDNSQuery (dp_rand dp) name = Ok (payload, txid)
       \<and> buildIPv4UDP (case psIPv4 (vSession vpn) of Some ip \<Rightarrow> ip | None \<Rightarrow> [])
           (case psDNS (vSession vpn) of Some d \<Rightarrow> d | None \<Rightarrow> []) sp 53 payload txid = Ok inner
       \<and> server_opens vpn (dr_sent rep) = Ok \<lparr>dPeerID = psPeerID (vSession vpn), dKeyID = 0, dPacketID = 1, dPayload = inner\<rparr>
       \<and> dp_deadlineErr dp = None \<and> dp_write dp (dr_sent rep) = None
       \<and> first_answer 40 (vKeys vpn) txid sp (dp_reads dp) (dr_meta rep) (dr_proof rep))"
  (is "?probe = ?tunnel")
proof
  assume ?probe
  then obtain ep idt trust cc lat sent vpn txid sp inner where
    p: "prepare_session env fs path = Some (Ok (ep, idt, trust), fs')" "dialControlUDP (se_udp env) ep = Ok (cc, lat, sent)"
    and n: "negotiate env ep idt trust cc lat = Ok vpn"
    and q: "data_query (vSession vpn) (vKeys vpn) (dp_rand dp) name = Ok (txid, sp, inner, dr_sent rep)"
    and r: "dp_deadlineErr dp = None" "dp_write dp (dr_sent rep) = None"
      "first_answer 40 (vKeys vpn) txid sp (dp_reads dp) (dr_meta rep) (dr_proof rep)"
      "dr_endpoint rep = ep" "dr_latency rep = lat" "dr_session rep = vSession vpn"
    unfolding cmdDataProbe_def with_control_Ok_iff data_probe_iff by auto
  have "establishLiveVPN env fs path = Some (Ok vpn, True, fs')"
    unfolding establish_iff with_control_Ok_iff using p n by blast
  moreover have "vEndpoint vpn = ep" "vResetLatency vpn = lat" using n by (auto simp: negotiate_via_keys)
  ultimately show ?tunnel
    using q r query_opens [OF q] unfolding server_opens_def by blast
next
  assume ?tunnel
  then obtain vpn txid sp inner where e: "establishLiveVPN env fs path = Some (Ok vpn, True, fs')"
    and r: "dr_endpoint rep = vEndpoint vpn" "dr_latency rep = vResetLatency vpn" "dr_session rep = vSession vpn"
      "data_query (vSession vpn) (vKeys vpn) (dp_rand dp) name = Ok (txid, sp, inner, dr_sent rep)"
      "dp_deadlineErr dp = None" "dp_write dp (dr_sent rep) = None"
      "first_answer 40 (vKeys vpn) txid sp (dp_reads dp) (dr_meta rep) (dr_proof rep)"
    by blast
  from e obtain ep idt trust cc lat sent where
    p: "prepare_session env fs path = Some (Ok (ep, idt, trust), fs')" "dialControlUDP (se_udp env) ep = Ok (cc, lat, sent)"
    and n: "negotiate env ep idt trust cc lat = Ok vpn"
    unfolding establish_iff with_control_Ok_iff by blast
  have "vEndpoint vpn = ep" "vResetLatency vpn = lat" using n by (auto simp: negotiate_via_keys)
  with r n have "data_probe_on env dp name ep idt trust cc lat = Ok rep" unfolding data_probe_iff by blast
  with p show ?probe unfolding cmdDataProbe_def with_control_Ok_iff by blast
qed

section \<open>What the other probes promise\<close>

text \<open>
  With a TLS library that honours \<^verbatim>\<open>VerifyConnection\<close>, a handshake never completes without a certificate, so the check after it never
  fires, and the reported leaf was verified for the gateway.
\<close>

lemma tls_probe_verified:
  assumes "tls_law env" "verify_law (se_x509 env)" "tls_probe_on env ep idt = r"
  shows "r \<noteq> Error (ErrorsNew ''TLS completed without peer certificate'')
    \<and> (\<forall>rep. r = Ok rep \<longrightarrow> tr_endpoint rep = ep \<and> tr_chain rep > 0
        \<and> (CommonName (tr_leaf rep) = expectedCN ep \<or> x_VerifyHostname (se_x509 env) (tr_leaf rep) (Host ep) = None))"
proof (cases "dialControlUDP (se_udp env) ep")
  case (Ok d)
  obtain cc lat sent where d: "dialControlUDP (se_udp env) ep = Ok (cc, lat, sent)" using Ok by (cases d) auto
  show ?thesis
  proof (cases "loadProviderTrust (se_web env)")
    case t: (Ok trust)
    let ?cfg = "tlsConfigForGateway (se_x509 env) trust ep idt"
    show ?thesis
    proof (cases "tls_Handshake env ?cfg cc")
      case None
      with assms(1) have "Verify_fn ?cfg (tls_peer env cc) = None" by (simp add: tls_law_def)
      from gateway_chain [OF assms(2) this] obtain leaf others where
        "tls_peer env cc = leaf # others" "CommonName leaf = expectedCN ep \<or> x_VerifyHostname (se_x509 env) leaf (Host ep) = None"
        unfolding verified_peer_def by blast
      with assms(3) d t None show ?thesis by (auto simp: tls_probe_on_def Let_def)
    next
      case (Some e)
      with assms(3) d t show ?thesis by (auto simp: tls_probe_on_def)
    qed
  qed (use assms(3) d in \<open>auto simp: tls_probe_on_def\<close>)
qed (use assms(3) in \<open>auto simp: tls_probe_on_def\<close>)

text \<open>What a probe prints of the server's strings is one line of bounded length.\<close>

lemma ReplaceAll_char_absent: "c \<notin> set r \<Longrightarrow> c \<notin> set (ReplaceAll_char s c r)"
  by (auto simp: ReplaceAll_char_def split: if_splits)

lemma ReplaceAll_char_keeps: "d \<notin> set r \<Longrightarrow> d \<notin> set s \<Longrightarrow> d \<notin> set (ReplaceAll_char s c r)"
  by (auto simp: ReplaceAll_char_def split: if_splits)

lemma sanitized_one_line:
  "CHR 0x0D \<notin> set (sanitizeOneLine s n) \<and> CHR 0x0A \<notin> set (sanitizeOneLine s n) \<and> length (sanitizeOneLine s n) \<le> n + 3"
proof -
  let ?s = "ReplaceAll_char (ReplaceAll_char s (CHR 0x0D) [CHR 0x5C, CHR ''r'']) (CHR 0x0A) [CHR 0x5C, CHR ''n'']"
  have "CHR 0x0D \<notin> set ?s" by (intro ReplaceAll_char_keeps ReplaceAll_char_absent) simp_all
  moreover have "CHR 0x0A \<notin> set ?s" by (intro ReplaceAll_char_absent) simp
  ultimately show ?thesis
    by (auto simp: sanitizeOneLine_def Let_def dest: in_set_takeD)
qed

end
