(* ===== verification/NamespaceProbes.thy ===== *)
theory NamespaceProbes
  imports Probes
begin

text \<open>
  The two Linux probes that work in a namespace of their own: \<^verbatim>\<open>vpntunprobe\<close>, which resolves a name through a whole tunnel, and \<^verbatim>\<open>tunprobe\<close>,
  which catches on a TUN device the packet it sends.
\<close>

section \<open>vpntunprobe: the child\<close>

record tun_child_env =
  tc_child :: child_env
  tc_passNil :: bool
  tc_rand :: "bytes result"
  tc_dialErr :: "go_error option"
  tc_deadlineErr :: "go_error option"
  tc_write :: "bytes \<Rightarrow> go_error option"
  tc_read :: "bytes + go_error"

definition tun_child_args :: "string list \<Rightarrow> go_error + (bytes \<times> nat \<times> bytes)" where
  "tun_child_args args =
     (if length args \<noteq> 3 then Inl (ErrorsNew ''internal vpntun child requires ip prefix dns'')
      else parse_child (args ! 0) (args ! 1) (args ! 2))"

text \<open>The answer read from the socket: the response code and the number of answers.\<close>

definition child_reply :: "u16 \<Rightarrow> bytes \<Rightarrow> (u16 \<times> u16) result" where
  "child_reply txid msg =
     (let reply = take 4096 msg in
      if length reply < 12 then Error (ErrorsNew ''short DNS response inside namespace'')
      else if u16_at reply 0 \<noteq> txid then
        Error (Errorf ''DNS txid mismatch %d != %d'' [ArgN (unat (u16_at reply 0)), ArgN (unat txid)])
      else if u16_at reply 2 AND 0x8000 = 0 then Error (ErrorsNew ''isolated DNS packet is not a response'')
      else Ok (u16_at reply 2 AND 0x0f, u16_at reply 6))"

definition child_query :: "tun_child_env \<Rightarrow> (u16 \<times> u16) result" where
  "child_query env =
     then_do (buildDNSQuery (tc_rand env) ''example.com'') (\<lambda>(q, txid).
     case tc_dialErr env of Some e \<Rightarrow> Error (Wrapf ''isolated DNS socket: %w'' e) | None \<Rightarrow>
     case tc_deadlineErr env of Some e \<Rightarrow> Error e | None \<Rightarrow>
     case tc_write env q of Some e \<Rightarrow> Error (Wrapf ''isolated DNS write: %w'' e) | None \<Rightarrow>
     case tc_read env of Inr e \<Rightarrow> Error (Wrapf ''isolated DNS read: %w'' e) | Inl msg \<Rightarrow> child_reply txid msg)"

text \<open>What the child does, in order, and its result; \<open>None\<close> while a call blocks.\<close>

definition vpnTunChild :: "tun_child_env \<Rightarrow> string list \<Rightarrow> (child_act list \<times> (u16 \<times> u16) result) option" where
  "vpnTunChild env args =
     (case tun_child_args args of
        Inl e \<Rightarrow> Some ([], Error e)
      | Inr (ip, prefix, dns) \<Rightarrow>
     (case createTUN (ce_openErr (tc_child env)) (ce_ioctl (tc_child env)) ''disfree0'' of
        (Inl e, _) \<Rightarrow> Some ([], Error (Wrapf ''create TUN: %w'' e))
      | (Inr name, _) \<Rightarrow>
     (case configureTUNIPv4 (ce_nl (tc_child env)) (ce_byName (tc_child env)) name ip (of_nat prefix) of
        None \<Rightarrow> None
      | Some (sent, Some e) \<Rightarrow> Some ([TunCreated name, TunClosed], Error e)
      | Some (sent, None) \<Rightarrow>
          (if tc_passNil env then
             Some ([TunCreated name, Configured sent, TunClosed], Error (ErrorsNew ''missing fd-pass socket''))
           else case ce_sendErr (tc_child env) of
             Some e \<Rightarrow> Some ([TunCreated name, Configured sent, TunClosed], Error (Wrapf ''send TUN fd: %w'' e))
           | None \<Rightarrow> Some ([TunCreated name, Configured sent, FdSent, TunClosed], child_query env)))))"

section \<open>vpntunprobe: the parent\<close>

text \<open>Which case the \<^verbatim>\<open>select\<close> takes; the child's exit is awaited after a kill.\<close>

datatype tunprobe_event =
    ProbeChild "go_error option"
  | ProbeBridge "go_error option" "go_error option"
  | ProbeCtx go_error

record tunprobe_env =
  tp_session :: session_env
  tp_launch :: launch_env
  tp_nonblock :: "go_error option"
  tp_rounds :: "(recvmsg \<times> wake) list"
  tp_childOut :: string
  tp_event :: tunprobe_event

definition tun_launch_args :: "pushedSession \<Rightarrow> nat \<Rightarrow> string list" where
  "tun_launch_args ps ones =
     [IP_String (case psIPv4 ps of Some ip \<Rightarrow> ip | None \<Rightarrow> []), Itoa_nat ones,
      IP_String (case psDNS ps of Some d \<Rightarrow> d | None \<Rightarrow> [])]"

definition child_verdict :: "string \<Rightarrow> go_error option \<Rightarrow> unit result" where
  "child_verdict out childErr =
     (case childErr of None \<Rightarrow> Ok () | Some e \<Rightarrow> Error (Wrapf (''isolated app failed: %w'' @ [CHR 0x0A] @ out) e))"

text \<open>With the session: what is done, in order (deferred calls in reverse order), and the result; \<open>None\<close>: no descriptor has arrived yet.\<close>

definition tunprobe_on :: "tunprobe_env \<Rightarrow> liveVPN \<Rightarrow> (run_act list \<times> unit result) option" where
  "tunprobe_on env vpn =
     (let ps = vSession vpn; (ones, bits) = IPMask_Size (psNetmask ps) in
      if bits \<noteq> 32 then Some ([SessionUp, SessionClosed], Error (Errorf ''invalid pushed IPv4 netmask %s''
        [ArgS (case psNetmask ps of Some m \<Rightarrow> IP_String m | None \<Rightarrow> ''<nil>'')]))
      else case launchVPNTunChild (tp_launch env) of
        (Inr e, _) \<Rightarrow> Some ([SessionUp, SessionClosed], Error (Wrapf ''launch isolated app: %w'' e))
      | (Inl _, _) \<Rightarrow>
      let begun = [SessionUp, ChildStarted (tun_launch_args ps ones)] in
      (case recvFDWithChild (tp_nonblock env) (tp_childOut env) (tp_rounds env) of
         None \<Rightarrow> None
       | Some (Inl e) \<Rightarrow> Some (begun @ [ChildKilled, SockClosed, SessionClosed], Error (Wrapf ''receive TUN fd: %w'' e))
       | Some (Inr fd) \<Rightarrow>
           (case tp_event env of
              ProbeChild childErr \<Rightarrow>
                Some (begun @ [BridgeStarted, BridgeCancelled, TunFdClosed, SockClosed, SessionClosed],
                      child_verdict (tp_childOut env) childErr)
            | ProbeBridge err childErr \<Rightarrow>
                Some (begun @ [BridgeStarted, BridgeCancelled, ChildKilled, TunFdClosed, SockClosed, SessionClosed],
                      case err of Some e \<Rightarrow> Error e | None \<Rightarrow> child_verdict (tp_childOut env) childErr)
            | ProbeCtx e \<Rightarrow>
                Some (begun @ [BridgeStarted, BridgeCancelled, ChildKilled, TunFdClosed, SockClosed, SessionClosed], Error e))))"

text \<open>The negotiation is, line by line, the one of \<^verbatim>\<open>establishLiveVPN\<close>.\<close>

definition cmdVPNTunProbe :: "tunprobe_env \<Rightarrow> filesys \<Rightarrow> string \<Rightarrow> (run_act list \<times> unit result) option" where
  "cmdVPNTunProbe env fs identityPath =
     (case with_control (tp_session env) fs identityPath (negotiate (tp_session env)) of
        None \<Rightarrow> None
      | Some (Error e, _) \<Rightarrow> Some ([], Error e)
      | Some (Panicked p, _) \<Rightarrow> Some ([], Panicked p)
      | Some (Ok vpn, _) \<Rightarrow> tunprobe_on env vpn)"

section \<open>tunprobe\<close>

text \<open>\<^verbatim>\<open>os.File.Read\<close> hands back a system call's error inside a \<^verbatim>\<open>*fs.PathError\<close>, and \<^verbatim>\<open>io.EOF\<close> for an empty read.\<close>

definition PathError :: "string \<Rightarrow> go_error \<Rightarrow> go_error" where
  "PathError op e = Wrapf (op @ '': %w'') e"

definition File_Read :: "bytes + go_error \<Rightarrow> bytes result" where
  "File_Read r =
     (case r of
        Inr e \<Rightarrow> Error (PathError ''read /dev/net/tun'' e)
      | Inl b \<Rightarrow> if b = [] then Error EOF else Ok (take 65535 b))"

text \<open>Whether a packet of the device is the one the probe's socket sent.\<close>

definition probe_packet :: "bytes \<Rightarrow> bool" where
  "probe_packet buf \<longleftrightarrow>
     (if length buf < 20 \<or> drop_bit 4 (buf ! 0) \<noteq> 4 then False
      else let ihl = ihl_of (buf ! 0) in
        if ihl < 20 \<or> length buf < ihl + 8 \<or> buf ! 9 \<noteq> 17 then False
        else if take 4 (drop 16 buf) \<noteq> [203, 0, 113, 7] then False
        else u16_at buf (ihl + 2) = 443)"

text \<open>The loop: each round says whether the deadline is still ahead and what the read returns.\<close>

fun tun_watch :: "(bool \<times> (bytes + go_error)) list \<Rightarrow> nat result option" where
  "tun_watch [] = None"
| "tun_watch ((early, rd) # rounds) =
     (if \<not> early then Some (Error (ErrorsNew ''timed out waiting for application packet on TUN''))
      else case File_Read rd of
        Error e \<Rightarrow> (if e = EAGAIN then tun_watch rounds else Some (Error e))
      | Panicked p \<Rightarrow> Some (Panicked p)
      | Ok buf \<Rightarrow> (if probe_packet buf then Some (Ok (length buf)) else tun_watch rounds))"

record tun_probe_env =
  tq_child :: child_env
  tq_nonblock :: "go_error option"
  tq_dialErr :: "go_error option"
  tq_writeErr :: "go_error option"
  tq_rounds :: "(bool \<times> (bytes + go_error)) list"

definition tunProbeChild :: "tun_probe_env \<Rightarrow> nat result option" where
  "tunProbeChild env =
     (case createTUN (ce_openErr (tq_child env)) (ce_ioctl (tq_child env)) ''disfree0'' of
        (Inl e, _) \<Rightarrow> Some (Error (Wrapf ''create TUN: %w'' e))
      | (Inr name, _) \<Rightarrow>
     (case configureTUNIPv4 (ce_nl (tq_child env)) (ce_byName (tq_child env)) name (IPv4 10 77 0 2) 24 of
        None \<Rightarrow> None
      | Some (_, Some e) \<Rightarrow> Some (Error e)
      | Some (_, None) \<Rightarrow>
     (case tq_nonblock env of Some e \<Rightarrow> Some (Error e) | None \<Rightarrow>
      case tq_dialErr env of Some e \<Rightarrow> Some (Error (Wrapf ''namespace UDP socket: %w'' e)) | None \<Rightarrow>
      case tq_writeErr env of Some e \<Rightarrow> Some (Error (Wrapf ''namespace UDP write: %w'' e)) | None \<Rightarrow>
      tun_watch (tq_rounds env))))"

definition mustInterfaceIndex :: "(string \<Rightarrow> nat + go_error) \<Rightarrow> string \<Rightarrow> int" where
  "mustInterfaceIndex byName name = (case byName name of Inr _ \<Rightarrow> -1 | Inl index \<Rightarrow> int index)"

definition cmdTunProbe :: "go_error option \<Rightarrow> go_error option \<Rightarrow> string \<Rightarrow> unit result" where
  "cmdTunProbe exeErr runErr out =
     (case exeErr of Some e \<Rightarrow> Error e | None \<Rightarrow>
      case runErr of Some e \<Rightarrow> Error (Wrapf (''rootless namespace child: %w'' @ [CHR 0x0A] @ out) e) | None \<Rightarrow> Ok ())"

section \<open>What the namespace probes promise\<close>

text \<open>The child configures exactly the pushed address, prefix and resolver the parent passes.\<close>

lemma tun_child_gets_session:
  assumes "psIPv4 ps = Some ip" "length ip = 4" "psDNS ps = Some dns" "length dns = 4" "ones \<le> 32"
  shows "tun_child_args (tun_launch_args ps ones) = Inr (ip, ones, dns)"
proof -
  have "To4 ip = Some ip" "To4 dns = Some dns" using assms by (simp_all add: To4_def)
  then have "IP_String ip = dotted ip" "IP_String dns = dotted dns" using assms by (simp_all add: IP_String_def)
  moreover have "ParseUint (Itoa_nat ones) 8 = Ok ones" using assms(5) by (intro ParseUint_Itoa) simp
  ultimately show ?thesis
    using ParseIP4_dotted assms by (simp add: tun_child_args_def tun_launch_args_def parse_child_def numeral_eq_Suc)
qed

text \<open>The child reports success only for an answer to its own question.\<close>

lemma child_query_answered:
  assumes "child_query env = Ok (rcode, ancount)"
  shows "\<exists>q txid msg. buildDNSQuery (tc_rand env) ''example.com'' = Ok (q, txid) \<and> tc_write env q = None
    \<and> tc_read env = Inl msg \<and> 12 \<le> length msg \<and> u16_at msg 0 = txid \<and> u16_at msg 2 AND 0x8000 \<noteq> 0
    \<and> rcode = u16_at msg 2 AND 0x0f \<and> ancount = u16_at msg 6"
proof -
  obtain q txid where q: "buildDNSQuery (tc_rand env) ''example.com'' = Ok (q, txid)"
    using assms by (auto simp: child_query_def then_do_Ok_iff)
  with assms obtain msg where m: "tc_write env q = None" "tc_read env = Inl msg" "child_reply txid msg = Ok (rcode, ancount)"
    by (auto simp: child_query_def split: option.splits sum.splits)
  then have l: "12 \<le> length msg" by (auto simp: child_reply_def Let_def split: if_splits)
  have "u16_at (take 4096 msg) i = u16_at msg i" if "i \<in> {0, 2, 6}" for i using that by (auto simp: u16_at_def)
  then have "u16_at msg 0 = txid" "u16_at msg 2 AND 0x8000 \<noteq> 0" "rcode = u16_at msg 2 AND 0x0f" "ancount = u16_at msg 6"
    using m(3) by (auto simp: child_reply_def Let_def split: if_splits)
  with q m l show ?thesis by blast
qed

lemma tunprobe_on_releases:
  assumes "tunprobe_on env vpn = Some (acts, r)"
  shows "last acts = SessionClosed
    \<and> (\<forall>args. ChildStarted args \<in> set acts \<longrightarrow>
        SockClosed \<in> set acts \<and> (ChildKilled \<in> set acts \<or> (\<exists>e. tp_event env = ProbeChild e)))
    \<and> (BridgeStarted \<in> set acts \<longrightarrow> BridgeCancelled \<in> set acts \<and> TunFdClosed \<in> set acts)
    \<and> (r = Ok () \<longrightarrow> BridgeStarted \<in> set acts \<and> tp_event env \<in> {ProbeChild None, ProbeBridge None None})"
  using assms unfolding tunprobe_on_def Let_def child_verdict_def
  by (auto split: if_splits sum.splits option.splits prod.splits tunprobe_event.splits)

text \<open>
  On every path \<^verbatim>\<open>cmdVPNTunProbe\<close> closes the session, the descriptor socket and the TUN descriptor it received, cancels its bridge, and
  its child has exited or is killed; it reports success only when the session was established, the
  bridge ran and the child, which checks the answer to its query, exited without error.
\<close>

theorem vpntunprobe_leaves_nothing:
  assumes "cmdVPNTunProbe env fs path = Some (acts, r)"
  shows "(SessionUp \<in> set acts \<longrightarrow> last acts = SessionClosed)
    \<and> (\<forall>args. ChildStarted args \<in> set acts \<longrightarrow>
        SockClosed \<in> set acts \<and> (ChildKilled \<in> set acts \<or> (\<exists>e. tp_event env = ProbeChild e)))
    \<and> (BridgeStarted \<in> set acts \<longrightarrow> BridgeCancelled \<in> set acts \<and> TunFdClosed \<in> set acts)
    \<and> (r = Ok () \<longrightarrow> BridgeStarted \<in> set acts \<and> tp_event env \<in> {ProbeChild None, ProbeBridge None None}
        \<and> (\<exists>vpn fs'. establishLiveVPN (tp_session env) fs path = Some (Ok vpn, True, fs')))"
proof -
  obtain q fs' where q: "with_control (tp_session env) fs path (negotiate (tp_session env)) = Some (q, fs')"
    using assms by (cases "with_control (tp_session env) fs path (negotiate (tp_session env))") (auto simp: cmdVPNTunProbe_def)
  show ?thesis
  proof (cases q)
    case (Ok vpn)
    then have "establishLiveVPN (tp_session env) fs path = Some (Ok vpn, True, fs')" using q by (simp add: establish_iff)
    moreover have "tunprobe_on env vpn = Some (acts, r)" using assms q Ok by (simp add: cmdVPNTunProbe_def)
    ultimately show ?thesis using tunprobe_on_releases by blast
  qed (use assms q in \<open>auto simp: cmdVPNTunProbe_def\<close>)
qed

text \<open>The packet the probe sends, whatever the kernel puts in the free fields, is the packet it waits for.\<close>

lemma probe_recognises_own:
  assumes "length src4 = 4" "length payload \<le> 65507"
  shows "probe_packet (udp_packet src4 [203, 0, 113, 7] sp 443 payload ipID)"
proof -
  note f = udp_packet_fields [OF assms(1) _ assms(2) refl, of "[203, 0, 113, 7]" sp 443 ipID]
  have "length (udp_packet src4 [203, 0, 113, 7] sp 443 payload ipID) = 28 + length payload"
    by (rule length_udp_packet) (simp_all add: assms)
  with f show ?thesis by (simp add: probe_packet_def ihl_45)
qed

text \<open>
  An empty TUN queue ends the probe: the error of the non-blocking read arrives wrapped, so the comparison with \<^verbatim>\<open>EAGAIN\<close>, meant to retry
  until the deadline, never holds.
\<close>

lemma tun_watch_never_retries:
  "tun_watch ((True, Inr e) # rounds) = Some (Error (PathError ''read /dev/net/tun'' e))"
  by (simp add: File_Read_def PathError_def)

section \<open>A sample probe\<close>

definition sample_tunprobe :: tunprobe_env where
  "sample_tunprobe = \<lparr>tp_session = sample_session, tp_launch = sample_launch, tp_nonblock = None,
     tp_rounds = [(Inl (1, 0x54, Inl [Inl [9]]), Tick)], tp_childOut = '''', tp_event = ProbeChild None\<rparr>"

theorem vpntunprobe_leaves_nothing_witness:
  "\<exists>acts r. cmdVPNTunProbe sample_tunprobe Map.empty ''d/i'' = Some (acts, r) \<and> SessionUp \<in> set acts \<and> last acts = SessionClosed"
proof -
  obtain vpn fs' where e: "establishLiveVPN sample_session Map.empty ''d/i'' = Some (Ok vpn, True, fs')"
    using sample_established by blast
  then have w: "with_control sample_session Map.empty ''d/i'' (negotiate sample_session) = Some (Ok vpn, fs')"
    by (simp add: establish_iff)
  have env: "launchVPNTunChild (tp_launch sample_tunprobe) = (Inl 5, [6])" "tp_event sample_tunprobe = ProbeChild None"
    "recvFDWithChild (tp_nonblock sample_tunprobe) (tp_childOut sample_tunprobe) (tp_rounds sample_tunprobe) = Some (Inr 9)"
    by (simp_all add: sample_tunprobe_def sample_launch_def launchVPNTunChild_def recvFDWithChild_def recvFD_def)
  obtain ones bits where "IPMask_Size (psNetmask (vSession vpn)) = (ones, bits)" by fastforce
  with env have "\<exists>acts r. tunprobe_on sample_tunprobe vpn = Some (acts, r) \<and> SessionUp \<in> set acts"
    by (cases "bits = 32") (simp_all add: tunprobe_on_def)
  then obtain acts r where "cmdVPNTunProbe sample_tunprobe Map.empty ''d/i'' = Some (acts, r)" "SessionUp \<in> set acts"
    using w by (auto simp: cmdVPNTunProbe_def sample_tunprobe_def)
  with vpntunprobe_leaves_nothing [OF this(1)] show ?thesis by blast
qed

end
