(* ===== verification/Go_CommandLine.thy ===== *)
theory Go_CommandLine
  imports Go_Strings
begin

text \<open>
  Command lines on Windows, from Go's standard library: \<^verbatim>\<open>syscall.EscapeArg\<close>, with which the program builds the
  command line of its elevated copy, and the splitting of a command line into \<^verbatim>\<open>os.Args\<close>, with which
  that copy reads it.  The second undoes the first for every list of arguments.
\<close>

section \<open>Definitions\<close>

abbreviation (input) backslash :: char where "backslash \<equiv> CHR 0x5C"
abbreviation (input) quote :: char where "quote \<equiv> CHR 0x22"

definition blank :: "char \<Rightarrow> bool" where
  "blank c \<longleftrightarrow> c = CHR '' '' \<or> c = CHR 0x09"

text \<open>The loop of \<^verbatim>\<open>EscapeArg\<close>: what it appends, and the backslashes counted at the end.\<close>

fun escape_loop :: "nat \<Rightarrow> string \<Rightarrow> string \<times> nat" where
  "escape_loop slashes [] = ([], slashes)"
| "escape_loop slashes (c # s) =
     (if c = backslash then (let (b, k) = escape_loop (Suc slashes) s in (c # b, k))
      else let (b, k) = escape_loop 0 s in
        if c = quote then (replicate slashes backslash @ [backslash, c] @ b, k) else (c # b, k))"

definition EscapeArg :: "string \<Rightarrow> string" where
  "EscapeArg s =
     (if s = [] then [quote, quote]
      else
        let needsBackslash = list_ex (\<lambda>c. c = quote \<or> c = backslash) s; hasSpace = list_ex blank s in
        if \<not> needsBackslash \<and> \<not> hasSpace then s
        else if \<not> needsBackslash then [quote] @ s @ [quote]
        else let (b, slashes) = escape_loop 0 s in
          if hasSpace then [quote] @ b @ replicate slashes backslash @ [quote] else b)"

text \<open>\<^verbatim>\<open>strings.Join(parts, " ")\<close>.\<close>

fun Join_blank :: "string list \<Rightarrow> string" where
  "Join_blank [] = []"
| "Join_blank [p] = p"
| "Join_blank (p # ps) = p @ CHR '' '' # Join_blank ps"

text \<open>\<^verbatim>\<open>readNextArg\<close>: the bytes so far, whether inside quotes, and the pending backslashes.\<close>

fun readNextArg :: "string \<Rightarrow> bool \<Rightarrow> nat \<Rightarrow> string \<Rightarrow> string \<times> string" where
  "readNextArg b inquote nslash [] = (b @ replicate nslash backslash, [])"
| "readNextArg b inquote nslash (c # cmd) =
     (if blank c \<and> \<not> inquote then (b @ replicate nslash backslash, cmd)
      else if c = quote then
        (if even nslash then
           (if inquote \<and> cmd \<noteq> [] \<and> hd cmd = quote
            then readNextArg (b @ replicate (nslash div 2) backslash @ [c]) (\<not> inquote) 0 (tl cmd)
            else readNextArg (b @ replicate (nslash div 2) backslash) (\<not> inquote) 0 cmd)
         else readNextArg (b @ replicate (nslash div 2) backslash @ [c]) inquote 0 cmd)
      else if c = backslash then readNextArg b inquote (Suc nslash) cmd
      else readNextArg (b @ replicate nslash backslash @ [c]) inquote 0 cmd)"

lemma readNextArg_le: "length (snd (readNextArg b q n cmd)) \<le> length cmd"
proof (induction cmd arbitrary: b q n rule: length_induct)
  case (1 cmd)
  then have IH: "length (snd (readNextArg b q n xs)) \<le> length xs" if "length xs < length cmd" for b q n xs
    using that by blast
  show ?case
  proof (cases cmd)
    case (Cons c xs)
    have "length (snd (readNextArg b q n (tl xs))) \<le> Suc (length xs)" for b q n
      using IH [of "tl xs" b q n] Cons by (cases xs) auto
    moreover have "length (snd (readNextArg b q n xs)) \<le> Suc (length xs)" for b q n
      using IH [of xs] Cons by (auto intro: le_SucI)
    ultimately show ?thesis by (simp add: Cons)
  qed simp
qed

lemma readNextArg_rest: "length (snd (readNextArg b q n (c # cmd))) < length (c # cmd)"
proof -
  have "length (snd (readNextArg b q n (tl cmd))) \<le> length cmd" for b q n
    using readNextArg_le [of b q n "tl cmd"] by simp
  then show ?thesis by (simp add: readNextArg_le less_Suc_eq_le)
qed

function commandLineToArgv :: "string \<Rightarrow> string list" where
  "commandLineToArgv cmd =
     (case cmd of
        [] \<Rightarrow> []
      | c # rest \<Rightarrow>
          (if blank c then commandLineToArgv rest
           else let (arg, rest') = readNextArg [] False 0 cmd in arg # commandLineToArgv rest'))"
  by pat_completeness auto
termination
proof (relation "measure length")
  fix cmd rest arg rest' and c :: char and x
  assume "cmd = c # rest" "x = readNextArg [] False 0 cmd" "(arg, rest') = x"
  moreover from this have "rest' = snd (readNextArg [] False 0 (c # rest))" by (metis snd_conv)
  ultimately show "(rest', cmd) \<in> measure length"
    using readNextArg_rest [of "[]" False 0 c rest] by simp
qed auto

declare commandLineToArgv.simps [simp del]

section \<open>Reading what was escaped\<close>

lemma read_backslashes: "readNextArg b q n (replicate m backslash @ rest) = readNextArg b q (n + m) rest"
  by (induction m arbitrary: n) (auto simp: blank_def)

text \<open>
  Reading the escaped form of \<open>s\<close>, with as many backslashes pending as the writer has counted, ends in the same position
  of both: the bytes read and the pending backslashes are \<open>s\<close>.
\<close>

lemma read_escaped:
  assumes "escape_loop n s = (e, k)" "q \<or> \<not> list_ex blank s"
  shows "\<exists>b'. readNextArg b q n (e @ rest) = readNextArg b' q k rest
    \<and> b' @ replicate k backslash = b @ replicate n backslash @ s"
  using assms
proof (induction n s arbitrary: b e rule: escape_loop.induct)
  case (1 n)
  then show ?case by auto
next
  case (2 n c s)
  consider "c = backslash" | "c = quote" | "c \<noteq> backslash" "c \<noteq> quote" by blast
  then show ?case
  proof cases
    case 1
    with "2.prems" obtain e' where e': "escape_loop (Suc n) s = (e', k)" "e = c # e'" "q \<or> \<not> list_ex blank s"
      by (auto split: prod.splits)
    from "2.IH"(1) [OF 1 e'(1,3), of b] obtain b' where
      "readNextArg b q (Suc n) (e' @ rest) = readNextArg b' q k rest"
      "b' @ replicate k backslash = b @ replicate (Suc n) backslash @ s" by blast
    with 1 e'(2) show ?thesis
      by (intro exI [of _ b']) (auto simp: blank_def replicate_append_same [symmetric])
  next
    case 2
    with "2.prems" obtain e' where e': "escape_loop 0 s = (e', k)"
      "e = replicate (Suc n) backslash @ c # e'" "q \<or> \<not> list_ex blank s"
      by (auto simp: replicate_append_same [symmetric] split: prod.splits)
    have c: "c \<noteq> backslash" using 2 by simp
    from "2.IH"(2) [OF c e'(1,3), of "b @ replicate n backslash @ [c]"] obtain b' where
      b': "readNextArg (b @ replicate n backslash @ [c]) q 0 (e' @ rest) = readNextArg b' q k rest"
      "b' @ replicate k backslash = b @ replicate n backslash @ c # s" by auto
    have "readNextArg b q n (e @ rest) = readNextArg b q (n + Suc n) (c # e' @ rest)"
      unfolding e'(2) append_assoc by (subst read_backslashes) simp
    also have "\<dots> = readNextArg (b @ replicate n backslash @ [c]) q 0 (e' @ rest)"
      using 2 by (simp add: blank_def)
    finally show ?thesis using b' by auto
  next
    case 3
    with "2.prems" obtain e' where e': "escape_loop 0 s = (e', k)" "e = c # e'" "q \<or> \<not> list_ex blank s" "q \<or> \<not> blank c"
      by (auto split: prod.splits)
    from "2.IH"(2) [OF 3(1) e'(1,3), of "b @ replicate n backslash @ [c]"] obtain b' where
      "readNextArg (b @ replicate n backslash @ [c]) q 0 (e' @ rest) = readNextArg b' q k rest"
      "b' @ replicate k backslash = b @ replicate n backslash @ c # s" by auto
    with 3 e'(2,4) show ?thesis by auto
  qed
qed

text \<open>The end of an argument: the end of the command line or a blank.\<close>

definition arg_end :: "string \<Rightarrow> bool" where
  "arg_end rest \<longleftrightarrow> rest = [] \<or> hd rest = CHR '' ''"

lemma read_end: "arg_end rest \<Longrightarrow> readNextArg b False n rest = (b @ replicate n backslash, tl rest)"
  by (cases rest) (auto simp: arg_end_def blank_def)

lemma read_closing:
  "arg_end rest \<Longrightarrow> readNextArg b True k (replicate k backslash @ quote # rest) = (b @ replicate k backslash, tl rest)"
  by (subst read_backslashes) (auto simp: blank_def arg_end_def read_end simp flip: mult_2)

lemma escape_loop_plain:
  "\<not> list_ex (\<lambda>c. c = quote \<or> c = backslash) s \<Longrightarrow> escape_loop n s = (s, if s = [] then n else 0)"
  by (induction s arbitrary: n) auto

lemma EscapeArg_eq:
  "s \<noteq> [] \<Longrightarrow> EscapeArg s =
     (let (b, k) = escape_loop 0 s in if list_ex blank s then [quote] @ b @ replicate k backslash @ [quote] else b)"
  by (auto simp: EscapeArg_def Let_def escape_loop_plain split: prod.splits)

lemma read_EscapeArg:
  assumes "arg_end rest"
  shows "readNextArg [] False 0 (EscapeArg s @ rest) = (s, tl rest)"
proof (cases "s = []")
  case True
  with assms show ?thesis
    using read_end [OF assms, of "[]" 0] by (auto simp: EscapeArg_def blank_def arg_end_def)
next
  case s: False
  obtain e k where e: "escape_loop 0 s = (e, k)" by fastforce
  show ?thesis
  proof (cases "list_ex blank s")
    case True
    obtain b' where b': "readNextArg [] True 0 (e @ replicate k backslash @ quote # rest)
        = readNextArg b' True k (replicate k backslash @ quote # rest)" "b' @ replicate k backslash = s"
      using read_escaped [OF e, of True "[]"] by auto
    have "readNextArg [] False 0 (EscapeArg s @ rest) = readNextArg [] True 0 (e @ replicate k backslash @ quote # rest)"
      using True e s by (simp add: EscapeArg_eq blank_def)
    with b' read_closing [OF assms, of b' k] show ?thesis by simp
  next
    case False
    obtain b' where "readNextArg [] False 0 (e @ rest) = readNextArg b' False k rest" "b' @ replicate k backslash = s"
      using read_escaped [OF e, of False "[]"] False by auto
    with False e s read_end [OF assms, of b' k] show ?thesis by (simp add: EscapeArg_eq)
  qed
qed

lemma escape_loop_hd: "s \<noteq> [] \<Longrightarrow> fst (escape_loop 0 s) \<noteq> [] \<and> (hd (fst (escape_loop 0 s)) = hd s \<or> hd (fst (escape_loop 0 s)) = backslash)"
  by (cases s) (auto split: prod.splits)

lemma EscapeArg_hd: "EscapeArg s \<noteq> [] \<and> \<not> blank (hd (EscapeArg s))"
proof (cases "s = []")
  case True
  then show ?thesis by (simp add: EscapeArg_def blank_def)
next
  case False
  then obtain c s' where s: "s = c # s'" by (cases s) auto
  show ?thesis
    using escape_loop_hd [OF False] False
    by (auto simp: EscapeArg_eq blank_def s split: prod.splits if_splits)
qed

lemma argv_step:
  assumes "arg_end rest"
  shows "commandLineToArgv (EscapeArg s @ rest) = s # commandLineToArgv (tl rest)"
proof -
  obtain c cs where c: "EscapeArg s = c # cs" "\<not> blank c" using EscapeArg_hd [of s] by (cases "EscapeArg s") auto
  with read_EscapeArg [OF assms, of s] show ?thesis
    by (subst commandLineToArgv.simps) auto
qed

lemma argv_of_escaped: "commandLineToArgv (Join_blank (map EscapeArg args)) = args"
proof (induction args rule: Join_blank.induct)
  case 1
  then show ?case by (simp add: commandLineToArgv.simps)
next
  case (2 p)
  then show ?case using argv_step [of "[]" p] by (simp add: arg_end_def commandLineToArgv.simps)
next
  case (3 p q ps)
  then show ?case using argv_step [of "CHR '' '' # Join_blank (map EscapeArg (q # ps))" p]
    by (simp add: arg_end_def)
qed

end
