(* ===== verification/WindowsRun.thy ===== *)
theory WindowsRun
  imports Session LinuxProxy Go_CommandLine Go_Sort
begin

text \<open>
  The Windows command, \<^verbatim>\<open>windows_discord.go\<close> and \<^verbatim>\<open>platform_windows.go\<close>: elevation, the search for Discord, and the run from
  the session to the release of everything it took (the session's control socket, the DLL, the driver
  handles, the console handler and the Discord process).
\<close>

section \<open>Elevation\<close>

text \<open>What the calls on the process token give: the errors of the first two, the elevation or the error of the third.\<close>

record token_env =
  te_process :: "go_error option"
  te_open :: "go_error option"
  te_info :: "u32 + go_error"

definition isWindowsElevated :: "token_env \<Rightarrow> bool" where
  "isWindowsElevated te \<longleftrightarrow>
     (if te_process te \<noteq> None then False
      else if te_open te \<noteq> None then False
      else case te_info te of Inr _ \<Rightarrow> False | Inl elevated \<Rightarrow> elevated \<noteq> 0)"

text \<open>The strings given to \<^verbatim>\<open>ShellExecuteW\<close>; a string with a NUL becomes the nil pointer, as its error is ignored.\<close>

record shell_call =
  sh_verb :: "string option"
  sh_file :: "string option"
  sh_params :: "string option"
  sh_cwd :: "string option"

text \<open>
  \<^verbatim>\<open>syscall.UTF16PtrFromString\<close> refuses a NUL.  The re-encoding from UTF-8 to UTF-16, which loses nothing of valid UTF-8, is left out: a
  string stands for its own UTF-16 text.
\<close>

definition UTF16Ptr :: "string \<Rightarrow> string option" where
  "UTF16Ptr s = (if CHR 0x00 \<in> set s then None else Some s)"

text \<open>\<^verbatim>\<open>filepath.Dir\<close> of a clean absolute path on a drive; only the root keeps its separator.\<close>

definition filepath_Dir :: "string \<Rightarrow> string" where
  "filepath_Dir p =
     (let d = rev (dropWhile (\<lambda>c. \<not> path_sep c) (rev p)) in if length d \<le> 3 then d else butlast d)"

text \<open>
  The outcome, and the call made: \<open>exe\<close> is \<^verbatim>\<open>os.Executable\<close>, \<open>args\<close> are \<^verbatim>\<open>os.Args[1:]\<close>, \<open>shell\<close> gives the return value and the
  \<^verbatim>\<open>callErr\<close>.
\<close>

definition elevateWindowsSelf ::
  "token_env \<Rightarrow> string result \<Rightarrow> string list \<Rightarrow> (shell_call \<Rightarrow> nat \<times> go_error option) \<Rightarrow> bool result \<times> shell_call option" where
  "elevateWindowsSelf te exe args shell =
     (if isWindowsElevated te then (Ok False, None)
      else case exe of
        Error e \<Rightarrow> (Error e, None)
      | Panicked p \<Rightarrow> (Panicked p, None)
      | Ok exe \<Rightarrow>
          (let call = \<lparr>sh_verb = UTF16Ptr ''runas'', sh_file = UTF16Ptr exe,
                 sh_params = UTF16Ptr (Join_blank (map EscapeArg args)), sh_cwd = UTF16Ptr (filepath_Dir exe)\<rparr>;
               (rv, callErr) = shell call
           in (if rv \<le> 32 then
                 (case callErr of
                    Some e \<Rightarrow> Error e
                  | None \<Rightarrow> Error (Errorf ''UAC elevation failed: code %d'' [ArgN rv]))
               else Ok True, Some call)))"

section \<open>Discord processes and the executable\<close>

text \<open>The processes \<^verbatim>\<open>TerminateProcess\<close> is called on: the snapshot (\<open>None\<close> when it cannot be taken) and which processes can be opened.\<close>

definition terminateDiscordWindows :: "(u32 \<times> string) list option \<Rightarrow> (u32 \<Rightarrow> bool) \<Rightarrow> u32 list" where
  "terminateDiscordWindows snap canOpen =
     (case snap of
        None \<Rightarrow> []
      | Some ps \<Rightarrow> map fst (filter (\<lambda>(pid, exe). EqualFold exe ''Discord.exe'' \<and> canOpen pid) ps))"

text \<open>The processes terminated and the pause that follows, in milliseconds.\<close>

definition stopExistingDiscordWindows :: "(u32 \<times> string) list option \<Rightarrow> (u32 \<Rightarrow> bool) \<Rightarrow> u32 list \<times> nat" where
  "stopExistingDiscordWindows snap canOpen = (terminateDiscordWindows snap canOpen, 600)"

text \<open>The callback of \<^verbatim>\<open>installWindowsDiscordCloseHandler\<close>: the processes terminated and its return value.\<close>

definition close_callback :: "(u32 \<times> string) list option \<Rightarrow> (u32 \<Rightarrow> bool) \<Rightarrow> u32 \<Rightarrow> u32 list \<times> nat" where
  "close_callback snap canOpen ctrlType =
     (if ctrlType \<in> {0, 1, 2, 5, 6} then (terminateDiscordWindows snap canOpen, 0) else ([], 0))"

definition installWindowsDiscordCloseHandler :: "nat \<times> go_error option \<Rightarrow> go_error option" where
  "installWindowsDiscordCloseHandler setResult =
     (case setResult of (rv, callErr) \<Rightarrow>
        if rv = 0 then Some (call_error ''SetConsoleCtrlHandler failed'' callErr) else None)"

text \<open>\<^verbatim>\<open>sort.Strings\<close>.\<close>

abbreviation sort_Strings :: "string list \<Rightarrow> string list" where
  "sort_Strings \<equiv> SliceStable string_less"

record path_env =
  Getenv :: "string \<Rightarrow> string"
  Glob :: "string \<Rightarrow> string list"
  Stat :: "string \<Rightarrow> bool option"
  LookPath :: "string + go_error"

definition discord_candidates :: "path_env \<Rightarrow> string list" where
  "discord_candidates env =
     (let local = Getenv env ''LOCALAPPDATA'' in
      (if local \<noteq> '''' then
         Glob env (filepath_Join [local, ''Discord'', ''app-*'', ''Discord.exe'']) @ [filepath_Join [local, ''Discord'', ''Discord.exe'']]
       else [])
      @ map (\<lambda>root. filepath_Join [root, ''Discord'', ''Discord.exe''])
          (filter (\<lambda>root. root \<noteq> '''') [Getenv env ''ProgramFiles'', Getenv env ''ProgramFiles(x86)'']))"

definition discordPathWindows :: "path_env \<Rightarrow> string result" where
  "discordPathWindows env =
     (case find (\<lambda>p. Stat env p = Some False) (rev (sort_Strings (discord_candidates env))) of
        Some p \<Rightarrow> Ok p
      | None \<Rightarrow> (case LookPath env of Inl p \<Rightarrow> Ok p | Inr _ \<Rightarrow> Error (ErrorsNew ''Discord.exe not found'')))"

section \<open>Discord's output\<close>

text \<open>A line of Discord's output, on the manager and the channel \<^verbatim>\<open>ready\<close> of capacity one.\<close>

definition stream_step :: "string \<Rightarrow> windowsFlowManager \<times> unit list \<Rightarrow> windowsFlowManager \<times> unit list" where
  "stream_step line = (\<lambda>(m, ready).
     (if launch_line line \<and> \<not> bootstrapActive m then m\<lparr>bootstrapActive := True\<rparr> else m,
      if ready_line line then offer 1 () ready else ready))"

definition streamDiscordOutput :: "string \<Rightarrow> windowsFlowManager \<times> unit list \<Rightarrow> windowsFlowManager \<times> unit list" where
  "streamDiscordOutput out = fold stream_step (scan_lines (1024 * 1024) out)"

section \<open>The run\<close>

text \<open>
  What the run holds: the driver handles, the loaded DLL, the session's control socket, the console handler, the Discord process it
  started, and the Discord processes it terminated before.
\<close>

datatype discord_child = NoChild | Running string "string list" | Exited | Killed

record win_world =
  ww_handles :: wd_handles
  ww_dll :: bool
  ww_vpn :: bool
  ww_hook :: bool
  ww_child :: discord_child
  ww_stopped :: "u32 list"

text \<open>Which case the final \<^verbatim>\<open>select\<close> takes; after \<^verbatim>\<open>ready\<close> the command waits for Discord, which may still be running.\<close>

datatype win_event =
    DiscordDone "go_error option"
  | GatewayReady "go_error option option"
  | ManagerError go_error
  | WinCtxDone go_error

text \<open>
  \<open>de_mgr\<close> is what the goroutines have made of the manager, started with the given handles, by the time it is closed: the flows in
  flight and the manager.  \<open>de_late\<close> is what they make of both after \<^verbatim>\<open>mgr.close\<close> has returned, before they notice that the run is over.
\<close>

record discord_env =
  de_token :: token_env
  de_exe :: "string result"
  de_args :: "string list"
  de_shell :: "shell_call \<Rightarrow> nat \<times> go_error option"
  de_path :: path_env
  de_snap :: "(u32 \<times> string) list option"
  de_canOpen :: "u32 \<Rightarrow> bool"
  de_session :: session_env
  de_idfs :: filesys
  de_fs :: fs_env
  de_dll :: dll_env
  de_assets :: "bytes \<times> bytes \<times> bytes"
  de_files :: files
  de_open :: open_proc
  de_mgr :: "wd_handles \<Rightarrow> windowsDiscordFlow list \<times> windowsFlowManager"
  de_late :: "windowsDiscordFlow list \<times> windowsFlowManager \<Rightarrow> windowsDiscordFlow list \<times> windowsFlowManager"
  de_pipeErr :: "go_error option"
  de_pipeErr2 :: "go_error option"
  de_startErr :: "go_error option"
  de_hookResult :: "nat \<times> go_error option"
  de_event :: win_event

definition close_handle :: "handle \<Rightarrow> wd_handles \<Rightarrow> wd_handles" where
  "close_handle h hs = fst (wd_Close None (Some h) hs)"

text \<open>The three handles of the run; a failing call closes the ones before it.\<close>

definition open_handles :: "open_proc \<Rightarrow> wd_handles \<Rightarrow> (handle \<times> handle \<times> handle) result \<times> wd_handles" where
  "open_handles op hs =
     (case wd_open op ''true'' wdLayerFlow 300 (wdFlagSniff OR wdFlagRecvOnly) hs of
        (Error e, hs) \<Rightarrow> (Error (Wrapf ''WinDivert FLOW open (run DisFree as Administrator): %w'' e), hs)
      | (Panicked p, hs) \<Rightarrow> (Panicked p, hs)
      | (Ok flowH, hs) \<Rightarrow>
     (case wd_open op ''event == CONNECT or event == CLOSE'' wdLayerSocket 300 (wdFlagSniff OR wdFlagRecvOnly) hs of
        (Error e, hs) \<Rightarrow> (Error (Wrapf ''WinDivert SOCKET open: %w'' e), close_handle flowH hs)
      | (Panicked p, hs) \<Rightarrow> (Panicked p, hs)
      | (Ok socketH, hs) \<Rightarrow>
     (case wd_open op ''!impostor and !loopback and outbound and ip and tcp and tcp.Syn and !tcp.Ack'' wdLayerNetwork 260 0 hs of
        (Error e, hs) \<Rightarrow>
          (Error (Wrapf ''WinDivert first-SYN gate open: %w'' e), close_handle flowH (close_handle socketH hs))
      | (Panicked p, hs) \<Rightarrow> (Panicked p, hs)
      | (Ok synH, hs) \<Rightarrow> (Ok (flowH, socketH, synH), hs))))"

text \<open>\<^verbatim>\<open>winDivertRuntime.Close\<close> and \<^verbatim>\<open>liveVPN.Close\<close>.\<close>

definition release_dll :: "win_world \<Rightarrow> win_world" where
  "release_dll w = w\<lparr>ww_dll := False\<rparr>"

definition release_vpn :: "liveVPN \<Rightarrow> win_world \<Rightarrow> win_world" where
  "release_vpn vpn w = w\<lparr>ww_vpn := snd (vpn_Close (Some vpn) (ww_vpn w))\<rparr>"

text \<open>
  The closure \<^verbatim>\<open>cleanup\<close>; under \<^verbatim>\<open>sync.Once\<close> the deferred call after it does nothing.  \<open>late\<close>: what the goroutines still do once the manager is
  closed; it concerns other handles than the three closed next, so it may as well happen before them.
\<close>

definition cleanup ::
  "liveVPN \<Rightarrow> (windowsDiscordFlow list \<times> windowsFlowManager \<Rightarrow> windowsDiscordFlow list \<times> windowsFlowManager)
    \<Rightarrow> windowsDiscordFlow list \<times> windowsFlowManager \<Rightarrow> handle \<times> handle \<times> handle \<Rightarrow> win_world \<Rightarrow> win_world" where
  "cleanup vpn late = (\<lambda>(pend, m) (flowH, socketH, synH) w.
     let (_, m) = late (pend, closeManager m);
         hs = close_handle synH (close_handle socketH (close_handle flowH (wd m)))
     in release_vpn vpn (release_dll (w\<lparr>ww_handles := hs\<rparr>)))"

text \<open>From the start of Discord to the return: the result (\<open>None\<close>: waiting for Discord) and what is held.\<close>

definition watch_discord ::
  "win_event \<Rightarrow> (win_world \<Rightarrow> win_world) \<Rightarrow> win_world \<Rightarrow> unit result option \<times> win_world" where
  "watch_discord ev clean w =
     (let exit = (\<lambda>err w. (Some (case err of Some e \<Rightarrow> Error e | None \<Rightarrow> Ok ()), w\<lparr>ww_child := Exited, ww_hook := False\<rparr>)) in
      case ev of
        DiscordDone err \<Rightarrow> exit err (clean w)
      | GatewayReady (Some err) \<Rightarrow> exit err (clean w)
      | GatewayReady None \<Rightarrow> (None, clean w)
      | ManagerError e \<Rightarrow> (Some (Error e), (clean w)\<lparr>ww_child := Killed, ww_hook := False\<rparr>)
      | WinCtxDone e \<Rightarrow> (Some (Error e), (clean w)\<lparr>ww_child := Killed, ww_hook := False\<rparr>))"

definition run_discord ::
  "discord_env \<Rightarrow> string \<Rightarrow> string list \<Rightarrow> (win_world \<Rightarrow> win_world) \<Rightarrow> win_world \<Rightarrow> unit result option \<times> win_world" where
  "run_discord env path extra clean w =
     (case de_pipeErr env of
        Some e \<Rightarrow> (Some (Error (Wrapf ''Discord stdout: %w'' e)), clean w)
      | None \<Rightarrow>
     (case de_pipeErr2 env of
        Some e \<Rightarrow> (Some (Error (Wrapf ''Discord stderr: %w'' e)), clean w)
      | None \<Rightarrow>
     (case de_startErr env of
        Some e \<Rightarrow> (Some (Error (Wrapf ''start Discord: %w'' e)), clean w)
      | None \<Rightarrow>
     (let w = w\<lparr>ww_child := Running path (extra @ [''--disable-quic''])\<rparr> in
      case installWindowsDiscordCloseHandler (de_hookResult env) of
        Some e \<Rightarrow> (Some (Error (Wrapf ''install Discord close handler: %w'' e)), clean (w\<lparr>ww_child := Killed\<rparr>))
      | None \<Rightarrow> watch_discord (de_event env) clean (w\<lparr>ww_hook := True\<rparr>)))))"

text \<open>With the session: the driver, the manager and Discord.\<close>

definition run_session ::
  "discord_env \<Rightarrow> string \<Rightarrow> string list \<Rightarrow> liveVPN \<Rightarrow> win_world \<Rightarrow> unit result option \<times> win_world" where
  "run_session env path extra vpn w =
     (case (case de_assets env of (dll, sys, lic) \<Rightarrow> loadWinDivertRuntime (de_fs env) (de_dll env) dll sys lic (de_files env)) of
        (Error e, _, loaded) \<Rightarrow> (Some (Error e), release_vpn vpn (w\<lparr>ww_dll := loaded\<rparr>))
      | (Panicked p, _, loaded) \<Rightarrow> (Some (Panicked p), w\<lparr>ww_dll := loaded\<rparr>)
      | (Ok rt, _, loaded) \<Rightarrow>
     (let w = w\<lparr>ww_dll := loaded\<rparr> in
      case open_handles (de_open env) (ww_handles w) of
        (Error e, hs) \<Rightarrow> (Some (Error e), release_vpn vpn (release_dll (w\<lparr>ww_handles := hs\<rparr>)))
      | (Panicked p, hs) \<Rightarrow> (Some (Panicked p), w\<lparr>ww_handles := hs\<rparr>)
      | (Ok handles, hs) \<Rightarrow>
          run_discord env path extra (cleanup vpn (de_late env) (de_mgr env hs) handles) (w\<lparr>ww_handles := hs\<rparr>)))"

text \<open>
  The command, given its parsed flags and remaining arguments.  \<open>None\<close>: storing the identity does not return.
\<close>

definition cmdDiscordVPN_windows ::
  "discord_env \<Rightarrow> string \<Rightarrow> bool \<Rightarrow> string list \<Rightarrow> win_world \<Rightarrow> (unit result option \<times> win_world) option" where
  "cmdDiscordVPN_windows env identityPath keepExisting extra w =
     (let start =
        (case discordPathWindows (de_path env) of
           Error e \<Rightarrow> Some (Some (Error e), w)
         | Panicked p \<Rightarrow> Some (Some (Panicked p), w)
         | Ok path \<Rightarrow>
             (let w = (if keepExisting then w
                       else w\<lparr>ww_stopped := ww_stopped w @ fst (stopExistingDiscordWindows (de_snap env) (de_canOpen env))\<rparr>) in
              map_option (\<lambda>(r, isOpen, _).
                let w = w\<lparr>ww_vpn := isOpen\<rparr> in
                case r of
                  Error e \<Rightarrow> (Some (Error e), w)
                | Panicked p \<Rightarrow> (Some (Panicked p), w)
                | Ok vpn \<Rightarrow> run_session env path extra vpn w)
              (establishLiveVPN (de_session env) (de_idfs env) identityPath)))
      in if isWindowsElevated (de_token env) then start
         else case fst (elevateWindowsSelf (de_token env) (de_exe env) (de_args env) (de_shell env)) of
           Error e \<Rightarrow> Some (Some (Error (Wrapf ''Administrator elevation: %w'' e)), w)
         | Panicked p \<Rightarrow> Some (Some (Panicked p), w)
         | Ok relaunched \<Rightarrow> if relaunched then Some (Some (Ok ()), w) else start)"

section \<open>The self-test\<close>

definition selftest_filters :: "(u32 \<times> string) list" where
  "selftest_filters =
     [(wdLayerFlow, ''true''),
      (wdLayerSocket, ''event == BIND or event == CONNECT or event == CLOSE''),
      (wdLayerNetwork, ''!impostor and !loopback and ip and tcp and localAddr == 192.168.1.10 and localPort == 50000 and remoteAddr == 162.159.128.233 and remotePort == 443''),
      (wdLayerNetwork, ''!impostor and !loopback and tcp and localPort == 50000''),
      (wdLayerNetwork, ''!impostor and !loopback and udp and localPort == 50001''),
      (wdLayerNetwork, ''!impostor and !loopback and ip and udp and localAddr == 192.168.1.10 and localPort == 50001 and remoteAddr == 162.159.128.233 and remotePort == 443''),
      (wdLayerNetwork, ''!impostor and !loopback and udp and localPort == 50001''),
      (wdLayerNetwork, ''!impostor and !loopback and ipv6 and udp and localAddr == 2001:db8::1 and localPort == 50002 and remoteAddr == 2001:db8::2 and remotePort == 443''),
      (wdLayerNetwork, ''!impostor and !loopback and outbound and ip and tcp and tcp.Syn and !tcp.Ack''),
      (wdLayerNetwork, ''!impostor and !loopback and outbound and (ip or ipv6) and (tcp or udp)'')]"

fun first_error :: "('a \<Rightarrow> go_error option) \<Rightarrow> 'a list \<Rightarrow> unit result" where
  "first_error f [] = Ok ()"
| "first_error f (x # xs) = (case f x of Some e \<Rightarrow> Error e | None \<Rightarrow> first_error f xs)"

text \<open>The result, and whether the DLL is left loaded.\<close>

definition cmdWindowsSelfTest ::
  "fs_env \<Rightarrow> dll_env \<Rightarrow> bytes \<times> bytes \<times> bytes \<Rightarrow> (string \<Rightarrow> u32 \<Rightarrow> go_error option) \<Rightarrow> files \<Rightarrow> unit result \<times> bool" where
  "cmdWindowsSelfTest fs env assets validate files =
     (case (case assets of (dll, sys, lic) \<Rightarrow> loadWinDivertRuntime fs env dll sys lic files) of
        (Error e, _, loaded) \<Rightarrow> (Error e, loaded)
      | (Panicked p, _, loaded) \<Rightarrow> (Panicked p, loaded)
      | (Ok rt, _, loaded) \<Rightarrow> (first_error (\<lambda>(layer, filt). validate filt layer) selftest_filters, False))"

section \<open>Choosing the executable\<close>

lemma string_less_simps [simp]:
  "string_less [] t \<longleftrightarrow> t \<noteq> []"
  "\<not> string_less s []"
  "string_less (c # s) (d # t) \<longleftrightarrow> (of_char c :: nat) < of_char d \<or> c = d \<and> string_less s t"
  by (auto simp: string_less_def List.lexordp_def neq_Nil_conv)

lemma string_less_irrefl [simp]: "\<not> string_less s s"
  by (induction s) auto

lemma string_less_asym: "string_less s t \<Longrightarrow> \<not> string_less t s"
  by (induction s t rule: list_induct2') auto

lemma string_less_neg_trans: "string_less s u \<Longrightarrow> string_less s t \<or> string_less t u"
proof (induction s u arbitrary: t rule: list_induct2')
  case (3 d u)
  show ?case by (cases t) auto
next
  case (4 c s d u)
  show ?case
  proof (cases t)
    case (Cons x xs)
    with 4 show ?thesis by (cases "c = d") fastforce+
  qed (use 4 in auto)
qed auto

lemma string_less_linear: "string_less s t \<or> s = t \<or> string_less t s"
proof (induction s t rule: list_induct2')
  case (4 c s d t)
  have "c = d" if "(of_char c :: nat) = of_char d" using that by simp
  with 4 show ?case by (metis nat_neq_iff string_less_simps(3))
qed (auto simp: neq_Nil_conv)

interpretation strings: strict_weak_order string_less
  by unfold_locales (rule string_less_asym string_less_neg_trans, assumption)+

lemma find_rev_sorted:
  assumes "find P (rev (sort_Strings xs)) = Some p"
  shows "p \<in> set xs \<and> P p \<and> (\<forall>q \<in> set xs. P q \<longrightarrow> \<not> string_less p q)"
proof -
  let ?s = "sort_Strings xs"
  have o: "sorted_wrt (\<lambda>a b. \<not> string_less b a) ?s"
    using strings.SliceStable_in_order [of xs] by (simp add: strings.in_order_def)
  obtain i where i: "i < length ?s" "P (rev ?s ! i)" "p = rev ?s ! i" "\<forall>j < i. \<not> P (rev ?s ! j)"
    using assms by (auto simp: find_Some_iff)
  have "\<not> string_less p q" if "q \<in> set xs" "P q" for q
  proof -
    have "q \<in> set (rev ?s)" using that(1) by simp
    then obtain j where j: "j < length ?s" "rev ?s ! j = q" by (metis in_set_conv_nth length_rev)
    show ?thesis
    proof (cases "i = j")
      case False
      then have "i < j" using i j that(2) by (meson linorder_neqE_nat)
      then have "\<not> string_less (rev ?s ! i) (rev ?s ! j)"
        using o i(1) j(1) by (simp add: rev_nth sorted_wrt_iff_nth_less)
      then show ?thesis using i(3) j(2) by simp
    qed (use i j in auto)
  qed
  moreover have "p \<in> set xs"
    using i by (metis length_rev nth_mem set_SliceStable set_rev)
  ultimately show ?thesis using i by blast
qed

text \<open>
  \<^verbatim>\<open>discordPathWindows\<close> returns the greatest candidate in string order that exists and is no directory; only without one does it take
  what \<^verbatim>\<open>LookPath\<close> finds.
\<close>

lemma discordPathWindows_greatest:
  "case discordPathWindows env of
     Ok p \<Rightarrow> p \<in> set (discord_candidates env) \<and> Stat env p = Some False
         \<and> (\<forall>q \<in> set (discord_candidates env). Stat env q = Some False \<longrightarrow> q = p \<or> string_less q p)
       \<or> LookPath env = Inl p \<and> (\<forall>q \<in> set (discord_candidates env). Stat env q \<noteq> Some False)
   | Error e \<Rightarrow> (\<forall>q \<in> set (discord_candidates env). Stat env q \<noteq> Some False) \<and> (\<exists>x. LookPath env = Inr x)
   | Panicked p \<Rightarrow> False"
proof (cases "find (\<lambda>p. Stat env p = Some False) (rev (sort_Strings (discord_candidates env)))")
  case None
  then have "\<forall>q \<in> set (discord_candidates env). Stat env q \<noteq> Some False" by (simp add: find_None_iff)
  with None show ?thesis by (auto simp: discordPathWindows_def split: sum.split)
next
  case (Some p)
  from find_rev_sorted [OF this] string_less_linear show ?thesis
    by (auto simp: discordPathWindows_def Some)
qed

section \<open>What Discord's output does\<close>

lemma stream_fold:
  "fold stream_step ls (m, ready) =
     (if (\<exists>l \<in> set ls. launch_line l) then m\<lparr>bootstrapActive := True\<rparr> else m,
      if ready = [] \<and> (\<exists>l \<in> set ls. ready_line l) then [()] else ready)"
proof (induction ls arbitrary: m ready)
  case (Cons l ls)
  have offer: "offer 1 () ready = (if ready = [] then [()] else ready)" by (simp add: offer_def)
  have active: "(if a \<and> \<not> bootstrapActive m then m\<lparr>bootstrapActive := True\<rparr> else m) = (if a then m\<lparr>bootstrapActive := True\<rparr> else m)" for a
    by (cases "bootstrapActive m") simp_all
  have step: "stream_step l (m, ready) =
      (if launch_line l then m\<lparr>bootstrapActive := True\<rparr> else m, if ready = [] \<and> ready_line l then [()] else ready)"
    unfolding stream_step_def prod.case active offer by (cases "ready_line l") (simp_all only: if_True if_False simp_thms)
  show ?case
    unfolding fold.simps comp_apply step Cons by (cases "launch_line l"; cases "ready_line l") auto
qed simp

text \<open>
  Reading Discord's output arms the gate exactly when a line of it announces the main window, signals \<^verbatim>\<open>ready\<close> at most once and exactly when a
  line announces the session, and is a run of the manager's transition system.
\<close>

lemma stream_effect:
  "streamDiscordOutput out (m, ready) =
     (if (\<exists>l \<in> set (scan_lines (1024 * 1024) out). launch_line l) then m\<lparr>bootstrapActive := True\<rparr> else m,
      if ready = [] \<and> (\<exists>l \<in> set (scan_lines (1024 * 1024) out). ready_line l) then [()] else ready)"
  by (simp only: streamDiscordOutput_def stream_fold)

lemma stream_steps: "fm_step\<^sup>*\<^sup>* (pend, m) (pend, fst (streamDiscordOutput out (m, ready)))"
  by (auto simp: stream_effect intro: fm_step.activate)

section \<open>The elevated copy gets the same arguments\<close>

text \<open>
  C14. The elevated copy runs the same program with the same arguments: \<^verbatim>\<open>elevateWindowsSelf\<close> makes a call only without elevation, on
  the program's own executable, and the command line it passes splits, by the rules with which Go fills
  \<^verbatim>\<open>os.Args\<close>, into exactly the arguments of this run, whatever blanks, quotes and backslashes they hold.
\<close>

theorem elevation_preserves_arguments:
  assumes "elevateWindowsSelf te exe args shell = (r, Some call)" and "sh_params call = Some params"
  shows "\<not> isWindowsElevated te \<and> sh_verb call = Some ''runas'' \<and> (\<exists>x. exe = Ok x \<and> sh_file call = UTF16Ptr x)
    \<and> commandLineToArgv params = args \<and> (r = Ok True \<longleftrightarrow> fst (shell call) > 32)"
proof -
  have e: "\<not> isWindowsElevated te" using assms(1) by (auto simp: elevateWindowsSelf_def)
  with assms(1) obtain x where x: "exe = Ok x" by (auto simp: elevateWindowsSelf_def split: result.splits)
  obtain rv ce where s: "shell call = (rv, ce)" by fastforce
  have c: "call = \<lparr>sh_verb = UTF16Ptr ''runas'', sh_file = UTF16Ptr x,
      sh_params = UTF16Ptr (Join_blank (map EscapeArg args)), sh_cwd = UTF16Ptr (filepath_Dir x)\<rparr>"
    using assms(1) e x by (auto simp: elevateWindowsSelf_def Let_def split: prod.splits)
  with assms(2) have "params = Join_blank (map EscapeArg args)" by (auto simp: UTF16Ptr_def split: if_splits)
  moreover have "r = Ok True \<longleftrightarrow> rv > 32"
    using assms(1) e x s c by (auto simp: elevateWindowsSelf_def Let_def split: prod.splits option.splits if_splits)
  ultimately show ?thesis
    using e x c s argv_of_escaped by (simp add: UTF16Ptr_def)
qed

section \<open>What the run leaves behind\<close>

definition handles_ok :: "wd_handles \<Rightarrow> bool" where
  "handles_ok hs \<longleftrightarrow> (\<forall>h \<in> live hs. h < next_handle hs)"

lemma live_close_handle [simp]: "live (close_handle h hs) = live hs - {h}"
  by (auto simp: close_handle_def wd_Close_def)

lemma open_step:
  assumes "handles_ok hs" "wd_open op filt layer prio flags hs = (r, hs')"
  shows "handles_ok hs' \<and>
    (\<exists>e. r = Error e \<and> hs' = hs \<or> (\<exists>h. r = Ok h \<and> h \<notin> live hs \<and> live hs' = insert h (live hs)))"
  using wd_open_cases [OF assms(2)] assms(1) by (auto simp: handles_ok_def less_SucI)

text \<open>Opening the three handles: all of them, or none.\<close>

definition opened_all :: "wd_handles \<Rightarrow> (handle \<times> handle \<times> handle) result \<times> wd_handles \<Rightarrow> bool" where
  "opened_all hs out \<longleftrightarrow>
     (case out of
        (Ok (f, s, y), hs') \<Rightarrow> handles_ok hs' \<and> live hs' = live hs \<union> {f, s, y} \<and> live hs \<inter> {f, s, y} = {}
      | (Error e, hs') \<Rightarrow> live hs' = live hs
      | (Panicked p, hs') \<Rightarrow> False)"

lemma open_handles_all:
  assumes "handles_ok hs"
  shows "opened_all hs (open_handles op hs)"
proof -
  let ?fl = "wdFlagSniff OR wdFlagRecvOnly"
  let ?syn = "''!impostor and !loopback and outbound and ip and tcp and tcp.Syn and !tcp.Ack''"
  obtain r1 hs1 where 1: "wd_open op ''true'' wdLayerFlow 300 ?fl hs = (r1, hs1)" by fastforce
  obtain r2 hs2 where 2: "wd_open op ''event == CONNECT or event == CLOSE'' wdLayerSocket 300 ?fl hs1 = (r2, hs2)" by fastforce
  obtain r3 hs3 where 3: "wd_open op ?syn wdLayerNetwork 260 0 hs2 = (r3, hs3)" by fastforce
  have s1: "handles_ok hs1" "(\<exists>e. r1 = Error e \<and> hs1 = hs) \<or> (\<exists>h. r1 = Ok h \<and> h \<notin> live hs \<and> live hs1 = insert h (live hs))"
    using open_step [OF assms 1] by auto
  have s2: "handles_ok hs2" "(\<exists>e. r2 = Error e \<and> hs2 = hs1) \<or> (\<exists>h. r2 = Ok h \<and> h \<notin> live hs1 \<and> live hs2 = insert h (live hs1))"
    using open_step [OF s1(1) 2] by auto
  have s3: "handles_ok hs3" "(\<exists>e. r3 = Error e \<and> hs3 = hs2) \<or> (\<exists>h. r3 = Ok h \<and> h \<notin> live hs2 \<and> live hs3 = insert h (live hs2))"
    using open_step [OF s2(1) 3] by auto
  from s1(2) show ?thesis
  proof (elim disjE exE conjE)
    fix e assume "r1 = Error e" "hs1 = hs"
    with 1 show ?thesis by (simp add: open_handles_def opened_all_def)
  next
    fix f assume f: "r1 = Ok f" "f \<notin> live hs" "live hs1 = insert f (live hs)"
    from s2(2) show ?thesis
    proof (elim disjE exE conjE)
      fix e assume "r2 = Error e" "hs2 = hs1"
      with 1 2 f show ?thesis by (simp add: open_handles_def opened_all_def)
    next
      fix s assume s: "r2 = Ok s" "s \<notin> live hs1" "live hs2 = insert s (live hs1)"
      from s3(2) show ?thesis
        using 1 2 3 f s s3(1) by (elim disjE exE conjE) (auto simp: open_handles_def opened_all_def)
    qed
  qed
qed

text \<open>
  The world after the release: nothing held, and of the handles only those from before and those the manager and its goroutines hold in
  the end.
\<close>

abbreviation closed_mgr :: "discord_env \<Rightarrow> wd_handles \<Rightarrow> windowsDiscordFlow list \<times> windowsFlowManager" where
  "closed_mgr env hs \<equiv> (fst (de_mgr env hs), closeManager (snd (de_mgr env hs)))"

definition all_released :: "discord_env \<Rightarrow> win_world \<Rightarrow> win_world \<Rightarrow> bool" where
  "all_released env w w' \<longleftrightarrow> \<not> ww_dll w' \<and> \<not> ww_vpn w'
     \<and> (live (ww_handles w') = live (ww_handles w)
        \<or> (\<exists>handles hs pend m. open_handles (de_open env) (ww_handles w) = (Ok handles, hs)
            \<and> de_late env (closed_mgr env hs) = (pend, m)
            \<and> live (ww_handles w') = live (ww_handles w) \<union> set (owned pend m)))"

lemma owned_closed: "owned pend (closeManager m) = map fl_handle pend"
  by (simp add: owned_def closeManager_eq own_of_def)

lemma late_inv:
  assumes "fm_step\<^sup>*\<^sup>* s (pend', m')" "fm_inv base (fst s) (snd s)"
  shows "fm_inv base pend' m'"
proof -
  have "fm_inv base (fst t) (snd t)" if "fm_step\<^sup>*\<^sup>* s t" for t
    using that
  proof (induction rule: rtranclp_induct)
    case (step t u)
    then show ?case using inv_step [of "fst t" "snd t" "fst u" "snd u" base] by simp
  qed (rule assms(2))
  from this [OF assms(1)] show ?thesis by simp
qed

lemma cleanup_eq:
  assumes "de_late env (closed_mgr env hs) = (pend, m)"
  shows "cleanup vpn (de_late env) (de_mgr env hs) (f, s, y) x = release_vpn vpn (release_dll
      (x\<lparr>ww_handles := close_handle y (close_handle s (close_handle f (wd m)))\<rparr>))"
  using assms by (cases "de_mgr env hs") (simp add: cleanup_def)

lemma cleanup_released:
  assumes o: "opened_all (ww_handles w) (Ok handles, hs)" "open_handles (de_open env) (ww_handles w) = (Ok handles, hs)"
    and reach: "fm_reaches port hs (fst (de_mgr env hs)) (snd (de_mgr env hs))"
    and late: "fm_step\<^sup>*\<^sup>* (closed_mgr env hs) (de_late env (closed_mgr env hs))" and v: "vControl vpn \<noteq> None"
  shows "all_released env w (cleanup vpn (de_late env) (de_mgr env hs) handles x)"
    and "ww_hook (cleanup vpn (de_late env) (de_mgr env hs) handles x) = ww_hook x"
    and "ww_child (cleanup vpn (de_late env) (de_mgr env hs) handles x) = ww_child x"
proof -
  obtain f s y where h: "handles = (f, s, y)" by (cases handles)
  obtain pend m where pm: "de_late env (closed_mgr env hs) = (pend, m)" by fastforce
  have l: "live hs = live (ww_handles w) \<union> {f, s, y}" "live (ww_handles w) \<inter> {f, s, y} = {}"
    and b: "\<forall>h \<in> live hs. h < next_handle hs"
    using o(1) by (auto simp: h opened_all_def handles_ok_def)
  have "fm_inv (live hs) (fst (closed_mgr env hs)) (snd (closed_mgr env hs))"
    using inv_close [OF reachable_inv [OF reach b]] by simp
  from late_inv [OF late [unfolded pm] this] have "ledger (live hs) (owned pend m) (wd m)" by (simp add: fm_inv_def)
  then have "live (wd m) - {f} - {s} - {y} = live (ww_handles w) \<union> set (owned pend m)"
    using l by (auto simp: ledger_def)
  then show "all_released env w (cleanup vpn (de_late env) (de_mgr env hs) handles x)"
    using v o(2) pm unfolding h cleanup_eq [OF pm] all_released_def
    by (auto simp: release_vpn_def release_dll_def vpn_Close_def)
  show "ww_hook (cleanup vpn (de_late env) (de_mgr env hs) handles x) = ww_hook x"
    "ww_child (cleanup vpn (de_late env) (de_mgr env hs) handles x) = ww_child x"
    unfolding h cleanup_eq [OF pm] by (simp_all add: release_vpn_def release_dll_def)
qed

text \<open>How the run stands: waiting for Discord with the network restored, or returned with nothing running.\<close>

definition settled :: "unit result option \<Rightarrow> win_world \<Rightarrow> bool" where
  "settled r w \<longleftrightarrow>
     (case r of
        None \<Rightarrow> ww_hook w \<and> (\<exists>path args. ww_child w = Running path args)
      | Some _ \<Rightarrow> \<not> ww_hook w \<and> (\<forall>path args. ww_child w \<noteq> Running path args))"

lemma all_released_simps [simp]:
  "all_released env w (x\<lparr>ww_child := c\<rparr>) = all_released env w x" "all_released env w (x\<lparr>ww_hook := b\<rparr>) = all_released env w x"
  by (simp_all add: all_released_def)

definition cleans :: "discord_env \<Rightarrow> win_world \<Rightarrow> (win_world \<Rightarrow> win_world) \<Rightarrow> bool" where
  "cleans env w clean \<longleftrightarrow>
     (\<forall>x. all_released env w (clean x) \<and> ww_hook (clean x) = ww_hook x \<and> ww_child (clean x) = ww_child x)"

lemma cleansD:
  assumes "cleans env w clean"
  shows "all_released env w (clean x)" "ww_hook (clean x) = ww_hook x" "ww_child (clean x) = ww_child x"
  using assms by (simp_all add: cleans_def)

lemma watch_settles:
  assumes "cleans env w clean" "ww_hook x" "ww_child x = Running path args" "watch_discord ev clean x = (r, w')"
  shows "all_released env w w' \<and> settled r w' \<and> (r = None \<longleftrightarrow> ev = GatewayReady None)"
proof (cases ev)
  case (GatewayReady g)
  with assms cleansD [OF assms(1)] show ?thesis
    by (cases g) (auto simp: watch_discord_def settled_def)
qed (use assms cleansD [OF assms(1)] in \<open>auto simp: watch_discord_def settled_def\<close>)

lemma run_settles:
  assumes "cleans env w clean" "\<not> ww_hook x" "ww_child x = NoChild" "run_discord env path extra clean x = (r, w')"
  shows "all_released env w w' \<and> settled r w' \<and> (r = None \<longrightarrow> de_event env = GatewayReady None)"
proof (cases "de_pipeErr env = None \<and> de_pipeErr2 env = None \<and> de_startErr env = None
    \<and> installWindowsDiscordCloseHandler (de_hookResult env) = None")
  case True
  let ?x = "x\<lparr>ww_child := Running path (extra @ [''--disable-quic'']), ww_hook := True\<rparr>"
  from True assms(4) have "watch_discord (de_event env) clean ?x = (r, w')" by (auto simp: run_discord_def Let_def)
  from watch_settles [OF assms(1) _ _ this] show ?thesis by simp
next
  case False
  with assms cleansD [OF assms(1)] show ?thesis
    by (auto simp: run_discord_def settled_def Let_def split: option.splits)
qed

lemma session_settles:
  assumes "handles_ok (ww_handles w)" and "\<forall>hs. fm_reaches port hs (fst (de_mgr env hs)) (snd (de_mgr env hs))
      \<and> fm_step\<^sup>*\<^sup>* (closed_mgr env hs) (de_late env (closed_mgr env hs))"
    and "no_panic (UserCacheDir (de_dll env))" "vControl vpn \<noteq> None" "\<not> ww_hook w" "ww_child w = NoChild"
    and "run_session env path extra vpn w = (r, w')"
  shows "all_released env w w' \<and> settled r w' \<and> (r = None \<longrightarrow> de_event env = GatewayReady None)
    \<and> (ww_child w' \<noteq> NoChild \<longrightarrow> (\<exists>handles hs. open_handles (de_open env) (ww_handles w) = (Ok handles, hs)))"
proof -
  obtain dll sys lic where a: "de_assets env = (dll, sys, lic)" by (cases "de_assets env")
  obtain q files' loaded where l: "loadWinDivertRuntime (de_fs env) (de_dll env) dll sys lic (de_files env) = (q, files', loaded)"
    by (cases "loadWinDivertRuntime (de_fs env) (de_dll env) dll sys lic (de_files env)")
  show ?thesis
  proof (cases q)
    case (Error e)
    with l assms a have "w' = release_vpn vpn (w\<lparr>ww_dll := False\<rparr>)" "\<exists>x. r = Some x"
      by (auto simp: run_session_def dest: load_error)
    with assms(4-6) show ?thesis
      by (auto simp: all_released_def settled_def release_vpn_def vpn_Close_def)
  next
    case (Panicked p)
    with l assms(3) show ?thesis by (auto dest: load_no_panic)
  next
    case (Ok rt)
    obtain out hs where o: "open_handles (de_open env) (ww_handles w) = (out, hs)" by fastforce
    have all: "opened_all (ww_handles w) (out, hs)" using open_handles_all [OF assms(1)] o by metis
    show ?thesis
    proof (cases out)
      case (Error e)
      with l Ok assms a o all show ?thesis
        by (auto simp: run_session_def opened_all_def all_released_def settled_def release_vpn_def release_dll_def vpn_Close_def)
    next
      case (Panicked p)
      with all show ?thesis by (simp add: opened_all_def)
    next
      case Ok': (Ok handles)
      let ?clean = "cleanup vpn (de_late env) (de_mgr env hs) handles"
      have c: "cleans env w ?clean"
        using cleanup_released [OF all [unfolded Ok'] o [unfolded Ok'] conjunct1 [OF spec [OF assms(2)]]
            conjunct2 [OF spec [OF assms(2)]] assms(4)] by (simp add: cleans_def)
      have "run_discord env path extra ?clean (w\<lparr>ww_dll := loaded, ww_handles := hs\<rparr>) = (r, w')"
        using l Ok Ok' assms(7) a o by (simp add: run_session_def)
      from run_settles [OF c _ _ this] assms(5,6) o Ok' show ?thesis by (cases handles) simp
    qed
  qed
qed

lemma established_control:
  assumes "establishLiveVPN env fs path = Some (Ok vpn, isOpen, fs')"
  shows "vControl vpn \<noteq> None" "isOpen"
proof -
  obtain svc ep idt trust cc lat sent trace where "negotiate env ep idt trust cc lat = Ok vpn"
    using establish_parts [OF assms] by metis
  then show "vControl vpn \<noteq> None" using negotiate_exchanged by blast
  show isOpen using establish_open [OF assms] by simp
qed

lemma elevate_relaunches:
  "\<not> isWindowsElevated te \<Longrightarrow> fst (elevateWindowsSelf te exe args shell) \<noteq> Ok False"
  by (auto simp: elevateWindowsSelf_def Let_def split: result.splits prod.splits option.splits if_splits)

lemma command_cases:
  assumes "cmdDiscordVPN_windows env idPath keep extra w = Some (r, w')"
  obtains "w' = w" "r \<noteq> None"
  | path stopped isOpen fs' vpn where "isWindowsElevated (de_token env)"
      "establishLiveVPN (de_session env) (de_idfs env) idPath = Some (Ok vpn, isOpen, fs')"
      "run_session env path extra vpn (w\<lparr>ww_stopped := stopped, ww_vpn := True\<rparr>) = (r, w')"
  | stopped where "w' = w\<lparr>ww_stopped := stopped, ww_vpn := False\<rparr>" "r \<noteq> None"
proof (cases "isWindowsElevated (de_token env)")
  case False
  then have "w' = w" "r \<noteq> None"
    using assms elevate_relaunches [OF False, of "de_exe env" "de_args env" "de_shell env"]
    by (auto simp: cmdDiscordVPN_windows_def split: result.splits if_splits)
  then show thesis by (rule that(1))
next
  case True
  show thesis
  proof (cases "discordPathWindows (de_path env)")
    case (Ok path)
    let ?st = "if keep then ww_stopped w else ww_stopped w @ fst (stopExistingDiscordWindows (de_snap env) (de_canOpen env))"
    have w: "(if keep then w else w\<lparr>ww_stopped := ?st\<rparr>) = w\<lparr>ww_stopped := ?st\<rparr>" by simp
    obtain q isOpen fs' where e: "establishLiveVPN (de_session env) (de_idfs env) idPath = Some (q, isOpen, fs')"
      using assms True Ok by (cases "establishLiveVPN (de_session env) (de_idfs env) idPath") (auto simp: cmdDiscordVPN_windows_def)
    note o = establish_open [OF e]
    show thesis
    proof (cases q)
      case q: (Ok vpn)
      have "run_session env path extra vpn (w\<lparr>ww_stopped := ?st, ww_vpn := True\<rparr>) = (r, w')"
        using assms True Ok e q o by (cases keep) (auto simp: cmdDiscordVPN_windows_def Let_def)
      with that(2) [OF True, of vpn isOpen fs'] e q show thesis by blast
    next
      case (Error x)
      with assms True Ok e o have "w' = w\<lparr>ww_stopped := ?st, ww_vpn := False\<rparr>" "r \<noteq> None"
        by (cases keep; auto simp: cmdDiscordVPN_windows_def Let_def)+
      then show thesis by (rule that(3))
    next
      case (Panicked p)
      with assms True Ok e o have "w' = w\<lparr>ww_stopped := ?st, ww_vpn := False\<rparr>" "r \<noteq> None"
        by (cases keep; auto simp: cmdDiscordVPN_windows_def Let_def)+
      then show thesis by (rule that(3))
    qed
  qed (use assms True in \<open>auto simp: cmdDiscordVPN_windows_def intro: that(1)\<close>)
qed

text \<open>
  C10. The Windows command gives back what it takes.  Whatever fails and whichever event ends it, when it returns the session's
  socket is closed, the driver's DLL is unloaded, the console handler is removed, and the Discord it
  started has ended or was killed; the only driver handles it may leave open are those the goroutines hold after the manager was closed: of flows they had opened
  and not yet entered then, and of what they still open afterwards; so if they do nothing any more once the manager is closed, only the former.  The same
  holds of the network resources from the moment the gateway session is established, while Discord goes on without the tunnel.
  Discord is started only by an elevated run, with a session, and behind the three open driver handles.
\<close>

theorem windows_run_releases:
  assumes "cmdDiscordVPN_windows env idPath keep extra w = Some (r, w')"
    and "\<forall>hs. fm_reaches port hs (fst (de_mgr env hs)) (snd (de_mgr env hs))
      \<and> fm_step\<^sup>*\<^sup>* (closed_mgr env hs) (de_late env (closed_mgr env hs))"
    and "no_panic (UserCacheDir (de_dll env))" "\<forall>h \<in> live (ww_handles w). h < next_handle (ww_handles w)"
    and "\<not> ww_dll w" "\<not> ww_vpn w" "\<not> ww_hook w" "ww_child w = NoChild"
  shows "\<not> ww_dll w' \<and> \<not> ww_vpn w'
    \<and> (live (ww_handles w') = live (ww_handles w)
       \<or> (\<exists>handles hs pend m. open_handles (de_open env) (ww_handles w) = (Ok handles, hs)
           \<and> de_late env (closed_mgr env hs) = (pend, m) \<and> live (ww_handles w') = live (ww_handles w) \<union> set (owned pend m)))
    \<and> ((\<forall>s. de_late env s = s) \<longrightarrow> live (ww_handles w') = live (ww_handles w)
       \<or> (\<exists>hs. live (ww_handles w') = live (ww_handles w) \<union> fl_handle ` set (fst (de_mgr env hs))))
    \<and> (case r of
         None \<Rightarrow> de_event env = GatewayReady None \<and> (\<exists>path args. ww_child w' = Running path args)
       | Some _ \<Rightarrow> \<not> ww_hook w' \<and> (\<forall>path args. ww_child w' \<noteq> Running path args))
    \<and> (ww_child w' \<noteq> NoChild \<longrightarrow> isWindowsElevated (de_token env)
         \<and> (\<exists>vpn fs'. establishLiveVPN (de_session env) (de_idfs env) idPath = Some (Ok vpn, True, fs'))
         \<and> (\<exists>handles hs. open_handles (de_open env) (ww_handles w) = (Ok handles, hs)))"
  using assms(1)
proof (cases rule: command_cases)
  case 1
  with assms show ?thesis by auto
next
  case (2 path stopped isOpen fs' vpn)
  let ?w = "w\<lparr>ww_stopped := stopped, ww_vpn := True\<rparr>"
  have h: "handles_ok (ww_handles ?w)" using assms(4) by (simp add: handles_ok_def)
  have s: "all_released env ?w w'" "settled r w'" "r = None \<longrightarrow> de_event env = GatewayReady None"
    "ww_child w' \<noteq> NoChild \<longrightarrow> (\<exists>handles hs. open_handles (de_open env) (ww_handles w) = (Ok handles, hs))"
    using session_settles [OF h assms(2,3) established_control(1) [OF 2(2)] _ _ 2(3)] assms(7,8) by simp_all
  have e: "establishLiveVPN (de_session env) (de_idfs env) idPath = Some (Ok vpn, True, fs')"
    using 2(2) established_control(2) [OF 2(2)] by simp
  have a: "\<not> ww_dll w' \<and> \<not> ww_vpn w' \<and> (live (ww_handles w') = live (ww_handles w)
       \<or> (\<exists>handles hs pend m. open_handles (de_open env) (ww_handles w) = (Ok handles, hs)
           \<and> de_late env (closed_mgr env hs) = (pend, m) \<and> live (ww_handles w') = live (ww_handles w) \<union> set (owned pend m)))"
    using s(1) unfolding all_released_def by simp
  have q: "live (ww_handles w') = live (ww_handles w)
       \<or> (\<exists>hs. live (ww_handles w') = live (ww_handles w) \<union> fl_handle ` set (fst (de_mgr env hs)))"
    if "\<forall>s. de_late env s = s"
    using a that by (auto simp: owned_closed)
  show ?thesis
    using a q s(2-4) 2(1) e unfolding settled_def by (cases r) auto
next
  case (3 stopped)
  with assms show ?thesis by auto
qed

section \<open>The self-test\<close>

text \<open>The filters the self-test compiles are the shapes the run uses.\<close>

lemma selftest_ports: "Itoa_nat 50000 = ''50000''" "Itoa_nat 50001 = ''50001''" "Itoa_nat 443 = ''443''"
proof -
  have "char_of (48 :: nat) = CHR ''0''" "char_of (49 :: nat) = CHR ''1''" "char_of (53 :: nat) = CHR ''5''" by code_simp+
  then show "Itoa_nat 50000 = ''50000''" "Itoa_nat 50001 = ''50001''" by (simp_all add: Itoa_nat.simps)
  show "Itoa_nat 443 = ''443''" by code_simp
qed

lemma selftest_addresses:
  "To4 [192, 168, 1, 10] \<noteq> None" "To4 [162, 159, 128, 233] \<noteq> None"
  "IP_String [192, 168, 1, 10] = ''192.168.1.10''" "IP_String [162, 159, 128, 233] = ''162.159.128.233''"
  by code_simp+

lemma selftest_covers:
  "windowsFlowFilter 6 [192, 168, 1, 10] 50000 [162, 159, 128, 233] 443 = Ok (snd (selftest_filters ! 2))"
  "windowsFlowFilter 17 [192, 168, 1, 10] 50001 [162, 159, 128, 233] 443 = Ok (snd (selftest_filters ! 5))"
  by (simp_all add: windowsFlowFilter_def windowsProtoName_def selftest_filters_def selftest_addresses selftest_ports)

lemma first_error_Ok: "first_error f xs = Ok () \<longleftrightarrow> (\<forall>x \<in> set xs. f x = None)"
  by (induction xs) (auto split: option.splits)

text \<open>The self-test leaves no DLL loaded and succeeds only if the runtime loads and every filter is accepted.\<close>

lemma selftest_result:
  assumes "cmdWindowsSelfTest fs env assets validate files = (r, loaded)" "no_panic (UserCacheDir env)"
  shows "\<not> loaded \<and> (r = Ok () \<longrightarrow> (\<forall>(layer, filt) \<in> set selftest_filters. validate filt layer = None))"
proof -
  obtain dll sys lic where a: "assets = (dll, sys, lic)" by (cases assets)
  obtain q files' l where q: "loadWinDivertRuntime fs env dll sys lic files = (q, files', l)"
    by (cases "loadWinDivertRuntime fs env dll sys lic files")
  show ?thesis
  proof (cases q)
    case (Ok rt)
    with assms(1) a q have "r = first_error (\<lambda>(layer, filt). validate filt layer) selftest_filters" "\<not> loaded"
      by (simp_all add: cmdWindowsSelfTest_def)
    then show ?thesis by (auto simp: first_error_Ok)
  next
    case (Error e)
    with assms(1) a q load_error [of fs env dll sys lic files e files' l] have "\<not> loaded" "r = Error e"
      by (auto simp: cmdWindowsSelfTest_def)
    then show ?thesis by simp
  next
    case (Panicked p)
    with q assms(2) show ?thesis by (auto dest: load_no_panic)
  qed
qed

section \<open>A sample run\<close>

definition sample_discord :: discord_env where
  "sample_discord = \<lparr>de_token = \<lparr>te_process = None, te_open = None, te_info = Inl 1\<rparr>,
     de_exe = Ok ''C:/disfree.exe'', de_args = [], de_shell = (\<lambda>_. (42, None)),
     de_path = \<lparr>Getenv = (\<lambda>_. ''C:''), Glob = (\<lambda>_. []), Stat = (\<lambda>_. Some False), LookPath = Inr EOF\<rparr>,
     de_snap = Some [(7, ''discord.exe'')], de_canOpen = (\<lambda>_. True), de_session = sample_session, de_idfs = Map.empty,
     de_fs = good_fs, de_dll = good_dll, de_assets = ([], [], []), de_files = Map.empty,
     de_open = (\<lambda>_ _ _ _. Inl ()), de_mgr = (\<lambda>hs. ([], newWindowsFlowManager (Some 1194) hs)),
     de_late = (\<lambda>(pend, m). (pend, reportErr EOF m)),
     de_pipeErr = None, de_pipeErr2 = None, de_startErr = None, de_hookResult = (1, None), de_event = GatewayReady None\<rparr>"

definition sample_world :: win_world where
  "sample_world = \<lparr>ww_handles = sample_handles, ww_dll = False, ww_vpn = False, ww_hook = False, ww_child = NoChild, ww_stopped = []\<rparr>"

lemma sample_discord_mgr:
  "\<forall>hs. fm_reaches (Some 1194) hs (fst (de_mgr sample_discord hs)) (snd (de_mgr sample_discord hs))
    \<and> fm_step\<^sup>*\<^sup>* (closed_mgr sample_discord hs) (de_late sample_discord (closed_mgr sample_discord hs))"
  by (simp add: sample_discord_def fm_reaches.start r_into_rtranclp fm_step.report)

lemma elevated_returns:
  assumes "isWindowsElevated (de_token env)" "establishLiveVPN (de_session env) (de_idfs env) idPath \<noteq> None"
  shows "cmdDiscordVPN_windows env idPath keep extra w \<noteq> None"
  using assms by (cases "discordPathWindows (de_path env)") (simp_all add: cmdDiscordVPN_windows_def Let_def del: not_None_eq)

lemma sample_discord_runs: "\<exists>r w'. cmdDiscordVPN_windows sample_discord ''d/i'' False [] sample_world = Some (r, w')"
proof -
  have "isWindowsElevated (de_token sample_discord)" by (simp add: sample_discord_def isWindowsElevated_def)
  moreover have "establishLiveVPN (de_session sample_discord) (de_idfs sample_discord) ''d/i'' \<noteq> None"
    using sample_established by (auto simp: sample_discord_def)
  ultimately show ?thesis using elevated_returns by (metis not_None_eq surj_pair)
qed

theorem windows_run_releases_witness:
  "\<exists>r w'. cmdDiscordVPN_windows sample_discord ''d/i'' False [] sample_world = Some (r, w') \<and> \<not> ww_dll w' \<and> \<not> ww_vpn w'"
proof -
  obtain r w' where run: "cmdDiscordVPN_windows sample_discord ''d/i'' False [] sample_world = Some (r, w')"
    using sample_discord_runs by blast
  have "no_panic (UserCacheDir (de_dll sample_discord))" "\<forall>h \<in> live (ww_handles sample_world). h < next_handle (ww_handles sample_world)"
    "\<not> ww_dll sample_world" "\<not> ww_vpn sample_world" "\<not> ww_hook sample_world" "ww_child sample_world = NoChild"
    using sample_handles_ok by (simp_all add: sample_discord_def good_dll_def sample_world_def)
  from windows_run_releases [OF run sample_discord_mgr this] run show ?thesis by blast
qed

theorem elevation_preserves_arguments_witness:
  "\<exists>call params. elevateWindowsSelf \<lparr>te_process = None, te_open = None, te_info = Inl 0\<rparr> (Ok ''C:/d.exe'')
      [''discord'', ''a b'', [CHR 0x5C, CHR 0x22], []] (\<lambda>_. (42, None)) = (Ok True, Some call)
    \<and> sh_params call = Some params
    \<and> commandLineToArgv params = [''discord'', ''a b'', [CHR 0x5C, CHR 0x22], []]"
proof -
  let ?te = "\<lparr>te_process = None, te_open = None, te_info = Inl 0\<rparr> :: token_env"
  let ?args = "[''discord'', ''a b'', [CHR 0x5C, CHR 0x22], []]"
  let ?call = "\<lparr>sh_verb = UTF16Ptr ''runas'', sh_file = UTF16Ptr ''C:/d.exe'',
      sh_params = UTF16Ptr (Join_blank (map EscapeArg ?args)), sh_cwd = UTF16Ptr (filepath_Dir ''C:/d.exe'')\<rparr>"
  have run: "elevateWindowsSelf ?te (Ok ''C:/d.exe'') ?args (\<lambda>_. (42, None)) = (Ok True, Some ?call)"
    by (simp add: elevateWindowsSelf_def isWindowsElevated_def Let_def)
  have p: "sh_params ?call = Some (Join_blank (map EscapeArg ?args))" by code_simp
  from elevation_preserves_arguments [OF run p] run p show ?thesis by blast
qed

end
