(* ===== verification/Go_Flags.thy ===== *)
theory Go_Flags
  imports Go_Strings
begin

text \<open>
  Parsing of command line flags, from Go's package \<^verbatim>\<open>flag\<close>.  The flags of a set are known by their kind; what \<^verbatim>\<open>Value.Set\<close> of a flag says to a
  value is a parameter (a string flag takes every value).  The result is the settings in the order they
  were made, so that a later one overrides, and the arguments left.
\<close>

datatype flag_kind = BoolFlag | ValueFlag

text \<open>The name and the value after the first \<^verbatim>\<open>=\<close> that is not the first character.\<close>

definition cut_value :: "string \<Rightarrow> string \<times> string option" where
  "cut_value name =
     (case name of
        [] \<Rightarrow> ([], None)
      | c # cs \<Rightarrow>
          (c # takeWhile (\<lambda>x. x \<noteq> CHR ''='') cs,
           case dropWhile (\<lambda>x. x \<noteq> CHR ''='') cs of [] \<Rightarrow> None | _ # v \<Rightarrow> Some v))"

text \<open>Whether an argument is a flag at all, and its text without the dashes.\<close>

definition flag_text :: "string \<Rightarrow> string option" where
  "flag_text s =
     (if length s < 2 \<or> s ! 0 \<noteq> CHR ''-'' then None
      else Some (if s ! 1 = CHR ''-'' then drop 2 s else drop 1 s))"

fun flag_Parse ::
  "(string \<rightharpoonup> flag_kind) \<Rightarrow> (string \<Rightarrow> string \<Rightarrow> go_error option) \<Rightarrow> string list
    \<Rightarrow> ((string \<times> string) list \<times> string list) result" where
  "flag_Parse formal set_value [] = Ok ([], [])"
| "flag_Parse formal set_value (s # args) =
     (case flag_text s of
        None \<Rightarrow> Ok ([], s # args)
      | Some name \<Rightarrow>
          (if s = ''--'' then Ok ([], args)
           else if name = [] \<or> hd name = CHR ''-'' \<or> hd name = CHR ''='' then Error (Errorf ''bad flag syntax: %s'' [ArgS s])
           else
             let (n, v) = cut_value name in
             case formal n of
               None \<Rightarrow>
                 (if n = ''help'' \<or> n = ''h'' then Error (ErrorsNew ''flag: help requested'')
                  else Error (Errorf ''flag provided but not defined: -%s'' [ArgS n]))
             | Some BoolFlag \<Rightarrow>
                 (let value = (case v of Some x \<Rightarrow> x | None \<Rightarrow> ''true'') in
                  case set_value n value of
                    Some e \<Rightarrow> Error (Errorf ''invalid boolean value %q for -%s'' [ArgS value, ArgS n])
                  | None \<Rightarrow> then_do (flag_Parse formal set_value args) (\<lambda>(sets, rest). Ok ((n, value) # sets, rest)))
             | Some ValueFlag \<Rightarrow>
                 (case v of
                    Some value \<Rightarrow>
                      (case set_value n value of
                         Some e \<Rightarrow> Error (Errorf ''invalid value %q for flag -%s'' [ArgS value, ArgS n])
                       | None \<Rightarrow> then_do (flag_Parse formal set_value args) (\<lambda>(sets, rest). Ok ((n, value) # sets, rest)))
                  | None \<Rightarrow>
                      (case args of
                         [] \<Rightarrow> Error (Errorf ''flag needs an argument: -%s'' [ArgS n])
                       | value # args' \<Rightarrow>
                           (case set_value n value of
                              Some e \<Rightarrow> Error (Errorf ''invalid value %q for flag -%s'' [ArgS value, ArgS n])
                            | None \<Rightarrow>
                                then_do (flag_Parse formal set_value args') (\<lambda>(sets, rest). Ok ((n, value) # sets, rest)))))))"

definition flag_value :: "(string \<times> string) list \<Rightarrow> string \<Rightarrow> string \<Rightarrow> string" where
  "flag_value sets name dflt = (case map_of (rev sets) name of Some v \<Rightarrow> v | None \<Rightarrow> dflt)"

text \<open>\<^verbatim>\<open>strconv.ParseBool\<close>.\<close>

definition ParseBool :: "string \<Rightarrow> bool option" where
  "ParseBool s =
     (if s \<in> {''1'', ''t'', ''T'', ''TRUE'', ''true'', ''True''} then Some True
      else if s \<in> {''0'', ''f'', ''F'', ''FALSE'', ''false'', ''False''} then Some False else None)"

text \<open>
  Flags given as \<^verbatim>\<open>-name value\<close>, then \<^verbatim>\<open>--\<close>, then anything: the settings are the flags and what follows is left untouched.
\<close>

definition flag_word :: "string \<Rightarrow> bool" where
  "flag_word n \<longleftrightarrow> n \<noteq> [] \<and> hd n \<noteq> CHR ''-'' \<and> CHR ''='' \<notin> set n"

lemma cut_flag_word: "flag_word n \<Longrightarrow> cut_value n = (n, None)"
proof -
  assume "flag_word n"
  then obtain c cs where n: "n = c # cs" "CHR ''='' \<notin> set cs" by (cases n) (auto simp: flag_word_def)
  then have "takeWhile (\<lambda>x. x \<noteq> CHR ''='') cs = cs" "dropWhile (\<lambda>x. x \<noteq> CHR ''='') cs = []"
    by (auto simp: dropWhile_eq_Nil_conv takeWhile_eq_all_conv)
  with n show ?thesis unfolding cut_value_def by (simp only: list.case)
qed

lemma flag_word_text:
  assumes "flag_word n"
  shows "flag_text (CHR ''-'' # n) = Some n" "CHR ''-'' # n \<noteq> ''--''" "hd n \<noteq> CHR ''=''"
  using assms by (cases n; auto simp: flag_word_def flag_text_def)+

lemma flag_Parse_flags:
  assumes "\<forall>(n, v) \<in> set sets. flag_word n \<and> formal n = Some ValueFlag \<and> set_value n v = None"
  shows "flag_Parse formal set_value (concat (map (\<lambda>(n, v). [CHR ''-'' # n, v]) sets) @ ''--'' # rest) = Ok (sets, rest)"
  using assms
proof (induction sets)
  case Nil
  then show ?case by (simp add: flag_text_def)
next
  case (Cons s sets)
  obtain n v where s: "s = (n, v)" by (cases s)
  then have "flag_word n" "formal n = Some ValueFlag" "set_value n v = None" using Cons.prems by auto
  with Cons show ?case using flag_word_text [of n] cut_flag_word [of n] by (auto simp: s flag_word_def)
qed

end
