(* ===== verification/Commands.thy ===== *)
theory Commands
  imports Probes NamespaceProbes WindowsRun Go_Flags
begin

text \<open>
  The commands of the program and their dispatch, \<^verbatim>\<open>main.go\<close>, with the commands of \<^verbatim>\<open>protocol.go\<close>, \<^verbatim>\<open>provider.go\<close>, \<^verbatim>\<open>run_linux.go\<close> and of
  the platform files that are short enough to stand here.  A command returns the values it prints.
\<close>

section \<open>Paths\<close>

text \<open>\<^verbatim>\<open>filepath.Join\<close> of clean elements on Linux.\<close>

definition unix_Join :: "string list \<Rightarrow> string" where
  "unix_Join parts =
     (case filter (\<lambda>p. p \<noteq> []) parts of [] \<Rightarrow> [] | p # ps \<Rightarrow> p @ concat (map (\<lambda>q. CHR ''/'' # q) ps))"

text \<open>\<open>cfgDir\<close> is \<^verbatim>\<open>os.UserConfigDir\<close> (\<open>None\<close> on error), \<open>home\<close> what \<^verbatim>\<open>os.UserHomeDir\<close> returns beside its error.\<close>

definition defaultIdentityPath :: "string option \<Rightarrow> string \<Rightarrow> string" where
  "defaultIdentityPath cfgDir home =
     (let d = (case cfgDir of Some d \<Rightarrow> d | None \<Rightarrow> unix_Join [home, ''.config'']) in
      unix_Join [d, ''disfree'', ''identity.pem''])"

text \<open>\<open>stat\<close> gives, for a path that exists, whether it is a directory and its permission bits.\<close>

definition discordPath :: "string option \<Rightarrow> (string \<Rightarrow> (bool \<times> nat) option) \<Rightarrow> string + go_error \<Rightarrow> string result" where
  "discordPath cfgDir stat lookPath =
     (let p = (case cfgDir of Some cfg \<Rightarrow> unix_Join [cfg, ''discord'', ''Discord''] | None \<Rightarrow> '''');
          found = (cfgDir \<noteq> None \<and> (case stat p of Some (isDir, mode) \<Rightarrow> \<not> isDir \<and> mode AND 73 \<noteq> 0 | None \<Rightarrow> False))
      in if found then Ok p
         else case lookPath of Inl q \<Rightarrow> Ok q | Inr _ \<Rightarrow> Error (ErrorsNew ''Discord executable not found''))"

section \<open>gateways, probe, wire, provider\<close>

text \<open>\<open>conf\<close> is the decoded \<^verbatim>\<open>openvpn_configuration\<close>, keys and printed values; what is printed is the number of gateways, the sorted parameters and the gateways shown.\<close>

definition cmdGateways ::
  "web_env \<Rightarrow> (string \<times> string) list \<Rightarrow> int \<Rightarrow> (nat \<times> (string \<times> string) list \<times> Gateway list) result" where
  "cmdGateways web conf limit =
     then_do (API_service web) (\<lambda>s.
     let keys = sort_Strings (map fst conf);
         shown = map (\<lambda>k. (k, the (map_of conf k))) keys;
         n = length (Gateways s);
         n = (if limit > 0 \<and> limit < int n then nat limit else n)
     in Ok (length (Gateways s), shown, take n (Gateways s)))"

text \<open>The lines shown, the number of reachable endpoints and of all.\<close>

primrec show_reachable :: "int \<Rightarrow> Probe list \<Rightarrow> nat \<Rightarrow> Probe list" where
  "show_reachable best [] shown = []"
| "show_reachable best (r # rs) shown =
     (if prErr r = None \<and> int shown < best then r # show_reachable best rs (Suc shown) else show_reachable best rs shown)"

definition cmdProbe ::
  "web_env \<Rightarrow> go_error \<Rightarrow> (nat \<Rightarrow> Endpoint \<Rightarrow> (nat \<times> go_error option) option) \<Rightarrow> int \<Rightarrow> (Probe list \<times> nat \<times> nat) result" where
  "cmdProbe web ctxErr outcome best =
     then_do (API_service web) (\<lambda>s.
     let rs = probeTCP ctxErr outcome s; reachable = length (filter (\<lambda>r. prErr r = None) rs) in
     if reachable = 0 then Error (ErrorsNew ''no advertised TCP endpoint reachable'')
     else Ok (show_reachable best rs 0, reachable, length rs))"

text \<open>The lines shown, the number of endpoints that completed the handshake and of all; the error names the hosts of its sample.\<close>

primrec show_wire :: "int \<Rightarrow> wireProbe list \<Rightarrow> nat \<Rightarrow> wireProbe list" where
  "show_wire best [] shown = []"
| "show_wire best (r # rs) shown =
     (if Err r = None \<and> int shown < best then r # show_wire best rs (Suc shown) else show_wire best rs shown)"

definition cmdWire ::
  "web_env \<Rightarrow> go_error \<Rightarrow> (nat \<Rightarrow> Endpoint \<Rightarrow> udp_env option) \<Rightarrow> int \<Rightarrow> (wireProbe list \<times> nat \<times> nat) result" where
  "cmdWire web ctxErr net best =
     then_do (API_service web) (\<lambda>s.
     then_do (probeOpenVPNWire ctxErr net s) (\<lambda>results.
     if length results = 0 then Error (ErrorsNew ''no UDP OpenVPN endpoints advertised'')
     else let okCount = length (filter (\<lambda>r. Err r = None) results) in
       if okCount = 0 then
         Error (Errorf ''no gateway completed OpenVPN reset handshake (%s)''
           (map (\<lambda>r. ArgS (Host (wpEndpoint r))) (take 4 (filter (\<lambda>r. Err r \<noteq> None) results))))
       else Ok (show_wire best results 0, okCount, length results)))"

definition cmdProvider :: "web_env \<Rightarrow> string list \<Rightarrow> ProviderTrust result" where
  "cmdProvider web args =
     (if length args \<noteq> 0 then Error (ErrorsNew ''provider takes no arguments'') else loadProviderTrust web)"

section \<open>identity and bootstrap\<close>

text \<open>The identity that is reported, with the states of the file system; \<open>None\<close> when parsing does not end.\<close>

definition fetchIdentity :: "web_env \<Rightarrow> os_env \<Rightarrow> filesys \<Rightarrow> string \<Rightarrow> (Identity result \<times> filesys list) option" where
  "fetchIdentity web os fs out =
     (case API_identity web of
        None \<Rightarrow> None
      | Some (Error e) \<Rightarrow> Some (Error e, [fs])
      | Some (Panicked p) \<Rightarrow> Some (Panicked p, [fs])
      | Some (Ok idt) \<Rightarrow>
          (case saveIdentity os fs idt out of
             (trace, Some e) \<Rightarrow> Some (Error e, trace)
           | (trace, None) \<Rightarrow> Some (Ok idt, trace)))"

definition cmdBootstrap ::
  "web_env \<Rightarrow> os_env \<Rightarrow> go_error \<Rightarrow> (nat \<Rightarrow> Endpoint \<Rightarrow> (nat \<times> go_error option) option) \<Rightarrow> filesys \<Rightarrow> string
    \<Rightarrow> ((Probe list \<times> Identity) result \<times> filesys list) option" where
  "cmdBootstrap web os ctxErr outcome fs out =
     (case API_service web of
        Error e \<Rightarrow> Some (Error e, [fs])
      | Panicked p \<Rightarrow> Some (Panicked p, [fs])
      | Ok s \<Rightarrow>
          (let shown = show_reachable 5 (probeTCP ctxErr outcome s) 0 in
           if shown = [] then Some (Error (ErrorsNew ''API works but no TCP gateway was reachable''), [fs])
           else map_option (\<lambda>(r, trace). (then_do r (\<lambda>idt. Ok (shown, idt)), trace)) (fetchIdentity web os fs out)))"

section \<open>run and discord on Linux\<close>

text \<open>The flags of a command; \<open>durations v\<close> is the error \<^verbatim>\<open>time.ParseDuration\<close> returns, a string flag takes every value.\<close>

definition run_flags :: "string \<rightharpoonup> flag_kind" where
  "run_flags = [''identity'' \<mapsto> ValueFlag, ''setup-timeout'' \<mapsto> ValueFlag]"

definition discord_flags :: "string \<rightharpoonup> flag_kind" where
  "discord_flags = run_flags(''keep-existing'' \<mapsto> BoolFlag)"

definition set_value :: "(string \<Rightarrow> go_error option) \<Rightarrow> string \<Rightarrow> string \<Rightarrow> go_error option" where
  "set_value durations n v =
     (if n = ''setup-timeout'' then durations v
      else if n = ''keep-existing'' then (if ParseBool v = None then Some (ErrorsNew ''parse error'') else None)
      else None)"

text \<open>\<open>env\<close> is what the run meets for the identity path chosen.\<close>

definition cmdRunVPN ::
  "(string \<Rightarrow> run_env) \<Rightarrow> (string \<Rightarrow> go_error option) \<Rightarrow> string \<Rightarrow> string list \<Rightarrow> (run_act list \<times> go_error option) option" where
  "cmdRunVPN env durations defaultId args =
     (case flag_Parse run_flags (set_value durations) args of
        Error e \<Rightarrow> Some ([], Some e)
      | Panicked p \<Rightarrow> None
      | Ok (sets, appArgs) \<Rightarrow>
          (if length appArgs = 0 then Some ([], Some (ErrorsNew ''usage: disfree run [flags] -- <application> [args...]''))
           else runVPNApplication (env (flag_value sets ''identity'' defaultId)) appArgs))"

text \<open>
  The signals sent before the run, what the run does, and the signals of the deferred call; each search for Discord processes gives a list.
\<close>

record linux_discord_env =
  ld_path :: "string result"
  ld_before :: "int list \<times> int list list \<times> int list"
  ld_boot :: boot_env
  ld_events :: "boot_event list"
  ld_after :: "int list \<times> int list list \<times> int list"

definition stop_signals :: "int list \<times> int list list \<times> int list \<Rightarrow> (int \<times> string) list" where
  "stop_signals = (\<lambda>(first, polls, final). stopExistingDiscord first polls final)"

definition cmdDiscordVPN_linux ::
  "linux_discord_env \<Rightarrow> (string \<Rightarrow> go_error option) \<Rightarrow> string list
    \<Rightarrow> ((int \<times> string) list \<times> (string list option \<times> go_error option option \<times> run_act list \<times> nat) option \<times> (int \<times> string) list) result" where
  "cmdDiscordVPN_linux env durations args =
     then_do (flag_Parse discord_flags (set_value durations) args) (\<lambda>(sets, discordArgs).
     then_do (ld_path env) (\<lambda>path.
     let before = (if ParseBool (flag_value sets ''keep-existing'' ''false'') = Some True then [] else stop_signals (ld_before env));
         run = runLinuxDiscordBootstrap (ld_boot env) discordArgs (ld_events env);
         ended = (case run of Some (_, r, _, _) \<Rightarrow> r \<noteq> None | None \<Rightarrow> False)
     in Ok (before, run, if ended then stop_signals (ld_after env) else [])))"

text \<open>The Windows command from its arguments.\<close>

definition cmdDiscord_windows ::
  "discord_env \<Rightarrow> (string \<Rightarrow> go_error option) \<Rightarrow> string \<Rightarrow> string list \<Rightarrow> win_world \<Rightarrow> (unit result option \<times> win_world) option" where
  "cmdDiscord_windows env durations defaultId args w =
     (case flag_Parse discord_flags (set_value durations) args of
        Error e \<Rightarrow> Some (Some (Error e), w)
      | Panicked p \<Rightarrow> Some (Some (Panicked p), w)
      | Ok (sets, extra) \<Rightarrow>
          cmdDiscordVPN_windows env (flag_value sets ''identity'' defaultId)
            (ParseBool (flag_value sets ''keep-existing'' ''false'') = Some True) extra w)"

section \<open>Dispatch\<close>

datatype command =
    Version | WinSelfTest | GatewaysCmd "string list" | ProbeCmd "string list" | WireCmd "string list" | TLSProbe "string list"
  | ProviderCmd "string list" | KeyProbe "string list" | PushProbe "string list" | DataProbeCmd "string list" | TunProbe
  | VPNTunProbe "string list" | RunVPN "string list" | DiscordVPN "string list" | TunProbeChild | VPNTunChild "string list"
  | VPNAppChild "string list" | VPNProxyChild "string list" | IdentityCmd "string list" | BootstrapCmd "string list" | Usage
  | Unknown string

definition command_of :: "string \<Rightarrow> string list \<Rightarrow> command" where
  "command_of name rest =
     (if name = ''version'' then Version
      else if name = ''winselftest'' then WinSelfTest
      else if name = ''gateways'' then GatewaysCmd rest
      else if name = ''probe'' then ProbeCmd rest
      else if name = ''wire'' then WireCmd rest
      else if name = ''tlsprobe'' then TLSProbe rest
      else if name = ''provider'' then ProviderCmd rest
      else if name = ''keyprobe'' then KeyProbe rest
      else if name = ''pushprobe'' then PushProbe rest
      else if name = ''dataprobe'' then DataProbeCmd rest
      else if name = ''tunprobe'' then TunProbe
      else if name = ''vpntunprobe'' then VPNTunProbe rest
      else if name = ''run'' then RunVPN rest
      else if name = ''discord'' then DiscordVPN rest
      else if name = ''__tunprobe_child'' then TunProbeChild
      else if name = ''__vpntun_child'' then VPNTunChild rest
      else if name = ''__vpnapp_child'' then VPNAppChild rest
      else if name = ''__vpnproxy_child'' then VPNProxyChild rest
      else if name = ''identity'' then IdentityCmd rest
      else if name = ''bootstrap'' then BootstrapCmd rest
      else if name = ''help'' \<or> name = ''-h'' \<or> name = ''--help'' then Usage
      else Unknown name)"

text \<open>\<^verbatim>\<open>platformDefaultCommand\<close> of both platforms.\<close>

definition platformDefaultCommand :: string where
  "platformDefaultCommand = ''discord''"

text \<open>The command and the exit code, given the outcome \<open>run\<close> of a command; \<open>args\<close> is \<^verbatim>\<open>os.Args\<close>.\<close>

definition main_go :: "(command \<Rightarrow> go_error option) \<Rightarrow> string list \<Rightarrow> command \<times> nat" where
  "main_go run args =
     (if length args < 2 \<and> platformDefaultCommand = '''' then (Usage, 2)
      else
        let args = (if length args < 2 then args @ [platformDefaultCommand] else args);
            cmd = command_of (args ! 1) (drop 2 args);
            err = (case cmd of Unknown name \<Rightarrow> Some (Errorf ''unknown command %q'' [ArgS name]) | Version \<Rightarrow> None | Usage \<Rightarrow> None | _ \<Rightarrow> run cmd)
        in (cmd, if err = None then 0 else 1))"

text \<open>What the commands that a platform lacks return.\<close>

definition windows_missing :: "command \<Rightarrow> bool" where
  "windows_missing cmd \<longleftrightarrow>
     (case cmd of TunProbe \<Rightarrow> True | VPNTunProbe _ \<Rightarrow> True | RunVPN _ \<Rightarrow> True | TunProbeChild \<Rightarrow> True | VPNTunChild _ \<Rightarrow> True
      | VPNAppChild _ \<Rightarrow> True | VPNProxyChild _ \<Rightarrow> True | _ \<Rightarrow> False)"

definition errWindowsGenericTunPending :: go_error where
  "errWindowsGenericTunPending =
     ErrorsNew (''generic Windows TUN/run mode is not enabled yet; use '' @ [CHR 0x27] @ ''disfree discord'' @ [CHR 0x27])"

definition cmdWindowsSelfTest_linux :: go_error where
  "cmdWindowsSelfTest_linux = ErrorsNew ''winselftest is only available in the Windows build''"

section \<open>What the commands promise\<close>

text \<open>The internal names under which the parents start their children lead to the children.\<close>

lemma children_dispatched:
  "command_of ''__tunprobe_child'' rest = TunProbeChild" "command_of ''__vpntun_child'' rest = VPNTunChild rest"
  "command_of ''__vpnapp_child'' rest = VPNAppChild rest" "command_of ''__vpnproxy_child'' rest = VPNProxyChild rest"
  by (simp_all add: command_of_def)

lemma unknown_command_fails: "fst (main_go run args) = Unknown n \<Longrightarrow> snd (main_go run args) = 1"
  by (simp add: main_go_def Let_def platformDefaultCommand_def)

lemma show_reachable_eq:
  "show_reachable best rs shown = take (nat (best - int shown)) (filter (\<lambda>r. prErr r = None) rs)"
proof (induction rs arbitrary: shown)
  case (Cons r rs)
  show ?case
  proof (cases "int shown < best")
    case True
    then have "nat (best - int shown) = Suc (nat (best - int (Suc shown)))" by simp
    with True Cons show ?thesis by simp
  qed (simp add: Cons)
qed simp

lemma show_wire_eq:
  "show_wire best rs shown = take (nat (best - int shown)) (filter (\<lambda>r. Err r = None) rs)"
proof (induction rs arbitrary: shown)
  case (Cons r rs)
  show ?case
  proof (cases "int shown < best")
    case True
    then have "nat (best - int shown) = Suc (nat (best - int (Suc shown)))" by simp
    with True Cons show ?thesis by simp
  qed (simp add: Cons)
qed simp

text \<open>The probe shows the reachable endpoints with the least latencies, in order.\<close>

lemma cmdProbe_shows_best:
  assumes "cmdProbe web ctxErr outcome best = Ok (shown, reachable, total_n)"
  shows "sorted (map prLatency shown) \<and> (\<forall>r \<in> set shown. prErr r = None)
    \<and> (\<exists>s. API_service web = Ok s \<and> (\<forall>r \<in> set (probeTCP ctxErr outcome s). prErr r = None \<longrightarrow> r \<notin> set shown \<longrightarrow>
         (\<forall>q \<in> set shown. prLatency q \<le> prLatency r)))"
proof -
  obtain s where s: "API_service web = Ok s" "shown = take (nat best) (filter (\<lambda>r. prErr r = None) (probeTCP ctxErr outcome s))"
    using assms by (auto simp: cmdProbe_def then_do_Ok_iff show_reachable_eq Let_def split: if_splits)
  let ?ok = "filter (\<lambda>r. prErr r = None) (probeTCP ctxErr outcome s)"
  have "sorted_wrt (\<lambda>a b. \<not> tcp_less b a) (probeTCP ctxErr outcome s)"
    using tcp_order.SliceStable_in_order unfolding tcp_order.in_order_def probeTCP_def Let_def by blast
  then have "sorted_wrt (\<lambda>a b. \<not> tcp_less b a) ?ok" by (rule sorted_wrt_filter)
  then have o: "sorted_wrt (\<lambda>a b. prLatency a \<le> prLatency b) ?ok"
    by (rule sorted_wrt_mono_rel [rotated]) (auto simp: tcp_less_def)
  have "sorted (map prLatency shown)" using sorted_wrt_take [OF o, of "nat best"] by (simp add: s(2) sorted_map)
  moreover have "\<forall>r \<in> set shown. prErr r = None" using s(2) by (auto dest: in_set_takeD)
  moreover have "prLatency q \<le> prLatency r" if "r \<in> set ?ok" "r \<notin> set shown" "q \<in> set shown" for q r
  proof -
    have "r \<in> set (drop (nat best) ?ok)" using that(1,2) s(2) by (metis Un_iff append_take_drop_id set_append)
    moreover have "sorted_wrt (\<lambda>a b. prLatency a \<le> prLatency b) (take (nat best) ?ok @ drop (nat best) ?ok)" using o by simp
    ultimately show ?thesis using that(3) s(2) unfolding sorted_wrt_append by blast
  qed
  ultimately show ?thesis using s(1) by auto
qed

text \<open>The identity command stores like the session does, and the bootstrap stores nothing unless a gateway was reachable.\<close>

lemma fetchIdentity_eq: "fetchIdentity web os fs out = fetch_and_save web os fs out"
  by (simp add: fetchIdentity_def fetch_and_save_def split: option.split result.split)

lemma bootstrap_stores_last:
  assumes "cmdBootstrap web os ctxErr outcome fs out = Some (r, trace)" "trace \<noteq> [fs]"
  shows "\<exists>s. API_service web = Ok s \<and> (\<exists>p \<in> set (probeTCP ctxErr outcome s). prErr p = None)"
proof -
  obtain s where s: "API_service web = Ok s" "show_reachable 5 (probeTCP ctxErr outcome s) 0 \<noteq> []"
    using assms by (auto simp: cmdBootstrap_def Let_def split: result.splits if_splits)
  then show ?thesis by (auto simp: show_reachable_eq filter_empty_conv)
qed

lemma run_flags_parsed:
  assumes "\<forall>(n, v) \<in> set sets. n = ''identity'' \<or> n = ''setup-timeout'' \<and> durations v = None"
  shows "flag_Parse run_flags (set_value durations) (concat (map (\<lambda>(n, v). [CHR ''-'' # n, v]) sets) @ ''--'' # rest) = Ok (sets, rest)"
  by (rule flag_Parse_flags) (use assms in \<open>auto simp: flag_word_def run_flags_def set_value_def\<close>)

lemma lead_le: "fst (lead k v) \<le> k"
  by (induction k v rule: lead.induct) (auto simp: Let_def split: prod.split)

lemma simpleMaskLength_le: "simpleMaskLength b = Some n \<Longrightarrow> n \<le> 8 * length b"
proof (induction b arbitrary: n rule: simpleMaskLength.induct)
  case (2 v vs)
  obtain k w where l: "lead 8 v = (k, w)" by fastforce
  then have "k \<le> 8" using lead_le [of 8 v] by simp
  with 2 l show ?case by (fastforce split: if_splits)
qed simp

lemma mask_ones: "IPMask_Size m = (ones, 32) \<Longrightarrow> ones \<le> 32"
  using simpleMaskLength_le by (fastforce simp: IPMask_Size_def split: option.splits)

lemma run_child_args:
  assumes "runVPNApplication env app = Some (acts, err)" "ChildStarted args \<in> set acts"
  shows "\<exists>vpn ones. re_session env = Inl vpn \<and> IPMask_Size (psNetmask (vSession vpn)) = (ones, 32) \<and> app \<noteq> []
    \<and> args = launch_args (case psIPv4 (vSession vpn) of Some ip \<Rightarrow> ip | None \<Rightarrow> []) ones
        (case psDNS (vSession vpn) of Some d \<Rightarrow> d | None \<Rightarrow> []) app"
proof -
  obtain vpn where v: "app \<noteq> []" "re_session env = Inl vpn"
    using assms by (auto simp: runVPNApplication_def split: if_splits sum.splits)
  obtain ones bits where m: "IPMask_Size (psNetmask (vSession vpn)) = (ones, bits)" by fastforce
  have b: "bits = 32"
  proof (rule ccontr)
    assume "bits \<noteq> 32"
    with assms(1) v m have "acts = [SessionUp, SessionClosed]" by (simp add: runVPNApplication_def Let_def)
    with assms(2) show False by simp
  qed
  show ?thesis
    using assms v m b unfolding runVPNApplication_def Let_def
    by (auto split: sum.splits option.splits prod.splits run_event.splits)
qed

text \<open>
  C15. \<^verbatim>\<open>disfree run [flags] -- command\<close> runs exactly that command, in the namespace of the session.  Whatever the command's words are (they may look
  like flags), the dispatch reaches \<^verbatim>\<open>cmdRunVPN\<close>, the flags before the \<^verbatim>\<open>--\<close> are read, the last \<^verbatim>\<open>identity\<close> among them chooses the identity, and the
  arguments with which the child is started are read by it back as the pushed address and resolver and
  the words of the command, unchanged.
\<close>

theorem run_command_verbatim:
  assumes "\<forall>(n, v) \<in> set sets. n = ''identity'' \<or> n = ''setup-timeout'' \<and> durations v = None" and "app \<noteq> []"
    and "flags = concat (map (\<lambda>(n, v). [CHR ''-'' # n, v]) sets)"
    and "re_session (env (flag_value sets ''identity'' defaultId)) = Inl vpn"
    and "psIPv4 (vSession vpn) = Some ip" "length ip = 4" "psDNS (vSession vpn) = Some dns" "length dns = 4"
  shows "fst (main_go run ([''disfree'', ''run''] @ flags @ ''--'' # app)) = RunVPN (flags @ ''--'' # app)
    \<and> cmdRunVPN env durations defaultId (flags @ ''--'' # app)
        = runVPNApplication (env (flag_value sets ''identity'' defaultId)) app
    \<and> (\<forall>acts err args. runVPNApplication (env (flag_value sets ''identity'' defaultId)) app = Some (acts, err) \<longrightarrow>
        ChildStarted args \<in> set acts \<longrightarrow>
        (\<exists>prefix. IPMask_Size (psNetmask (vSession vpn)) = (prefix, 32) \<and> app_child_args args = Inr (ip, prefix, dns, app)))"
proof (intro conjI allI impI)
  show "fst (main_go run ([''disfree'', ''run''] @ flags @ ''--'' # app)) = RunVPN (flags @ ''--'' # app)"
    by (simp add: main_go_def command_of_def Let_def)
  show "cmdRunVPN env durations defaultId (flags @ ''--'' # app) = runVPNApplication (env (flag_value sets ''identity'' defaultId)) app"
    using run_flags_parsed [OF assms(1), of app] assms(2,3) by (simp add: cmdRunVPN_def)
next
  fix acts err args
  assume "runVPNApplication (env (flag_value sets ''identity'' defaultId)) app = Some (acts, err)" "ChildStarted args \<in> set acts"
  from run_child_args [OF this] obtain ones where o: "IPMask_Size (psNetmask (vSession vpn)) = (ones, 32)"
    "args = launch_args ip ones dns app"
    using assms(4,5,7) by auto
  have "ones \<le> 32" using mask_ones [OF o(1)] .
  with o launch_args_parsed [OF assms(6) _ assms(8,2)] show
    "\<exists>prefix. IPMask_Size (psNetmask (vSession vpn)) = (prefix, 32) \<and> app_child_args args = Inr (ip, prefix, dns, app)"
    by blast
qed

definition sample_run_env :: "string \<Rightarrow> run_env" where
  "sample_run_env path = \<lparr>re_session = Inl (sample_vpn\<lparr>vSession := \<lparr>psIPv4 = Some [10, 8, 0, 2], psNetmask = Some (CIDRMask 16),
       psDNS = Some [10, 8, 0, 1], psPeerID = 7, psCipher = ''AES-256-GCM''\<rparr>\<rparr>), re_launch = sample_launch, re_nonblock = None,
     re_rounds = [(Inl (1, 0x54, Inl [Inl [9]]), Tick)], re_signalErr = None, re_event = ChildExit None\<rparr>"

theorem run_command_verbatim_witness:
  "fst (main_go (\<lambda>_. None) [''disfree'', ''run'', ''-identity'', ''me.pem'', ''--'', ''curl'', ''-v'']) =
     RunVPN [''-identity'', ''me.pem'', ''--'', ''curl'', ''-v'']
   \<and> cmdRunVPN sample_run_env (\<lambda>_. None) ''d'' [''-identity'', ''me.pem'', ''--'', ''curl'', ''-v'']
     = runVPNApplication (sample_run_env ''me.pem'') [''curl'', ''-v'']"
proof -
  let ?vpn = "sample_vpn\<lparr>vSession := \<lparr>psIPv4 = Some [10, 8, 0, 2], psNetmask = Some (CIDRMask 16),
       psDNS = Some [10, 8, 0, 1], psPeerID = 7, psCipher = ''AES-256-GCM''\<rparr>\<rparr>"
  have "flag_value [(''identity'', ''me.pem'')] ''identity'' ''d'' = ''me.pem''" by (simp add: flag_value_def)
  with run_command_verbatim [of "[(''identity'', ''me.pem'')]" "\<lambda>_. None" "[''curl'', ''-v'']" "[''-identity'', ''me.pem'']"
      sample_run_env "''d''" ?vpn "[10, 8, 0, 2]" "[10, 8, 0, 1]" "\<lambda>_. None"]
  show ?thesis by (simp add: sample_run_env_def)
qed

end
