(* ===== verification/Spec2Isabelle.thy ===== *)
theory Spec2Isabelle
  imports Endpoints Protocol ControlConn KeyMethod PushReply DataProbe DataChannel PacketNAT FlowPackets FlowLocks Session LinuxProxy Relay Commands
begin

text \<open>
  A verification library for DisFree, a user-space OpenVPN client in Go that carries the start-up traffic of Discord (or
  any application, on Linux) through a Riseup gateway.  File names below are those under \<^verbatim>\<open>src/\<close>.

  \<^bold>\<open>The program.\<close>  The client asks the provider's API for the gateways (\<^verbatim>\<open>main.go\<close>), probes them with OpenVPN reset packets and
  picks the fastest (\<^verbatim>\<open>protocol.go\<close>, \<^verbatim>\<open>tlsprobe.go\<close>), fetches or reuses a client certificate (\<^verbatim>\<open>main.go\<close>, \<^verbatim>\<open>tlsprobe.go\<close>) and
  the pinned provider CA (\<^verbatim>\<open>provider.go\<close>), runs TLS over the reliable control channel (\<^verbatim>\<open>tlsprobe.go\<close>), exchanges key method 2
  records (\<^verbatim>\<open>keymethod.go\<close>), and reads the pushed configuration (\<^verbatim>\<open>pushprobe.go\<close>, \<^verbatim>\<open>dataprobe.go\<close>); \<^verbatim>\<open>livevpn.go\<close> composes these
  steps to a session.  Packets are then sealed and opened by the AES-GCM data channel (\<^verbatim>\<open>datachannel.go\<close>).  On Windows the
  flows of Discord are captured with WinDivert, translated to the tunnel address and back (\<^verbatim>\<open>windivert_windows.go\<close>,
  \<^verbatim>\<open>windows_discord.go\<close>, \<^verbatim>\<open>packetnat.go\<close>).  On Linux a child process owns a network namespace with a TUN device
  (\<^verbatim>\<open>tun_linux.go\<close>), whose descriptor it hands to the parent, which bridges it to the session (\<^verbatim>\<open>vpntun_linux.go\<close>); an application
  runs inside the namespace (\<^verbatim>\<open>run_linux.go\<close>), or Discord runs outside and uses a local HTTP proxy that dials through the namespace until Discord is
  connected (\<^verbatim>\<open>linux_bootstrap_proxy.go\<close>).

  \<^bold>\<open>Foundations.\<close>  \<open>Go_Prelude\<close> has Go's outcomes (\<open>Ok\<close>, \<open>Error\<close>, \<open>Panicked\<close>), checked slices and byte orders; \<open>Go_Strings\<close>,
  \<open>Go_Net\<close> and \<open>Go_Sort\<close> the parts of \<^verbatim>\<open>strings\<close>, \<^verbatim>\<open>strconv\<close>, \<^verbatim>\<open>net\<close> and \<^verbatim>\<open>sort\<close> the code calls; \<open>Go_Hash\<close> and \<open>Go_GCM\<close>
  executable MD5, SHA-1, SHA-256, HMAC, AES and GCM; \<open>Go_CommandLine\<close> and \<open>Go_Flags\<close> Windows command
  lines and the package \<^verbatim>\<open>flag\<close>.  The interfaces are locales: \<open>strict_weak_order\<close> (what a stable sort needs of a
  comparator, interpreted for every comparator of the program), \<open>mac\<close> (interpreted for the HMACs), \<open>aead\<close> (interpreted
  for AES-GCM; the data channel rests on it) and \<open>transition_system\<close> in \<open>Interleaving\<close> (interpreted for the dialer, the proxy, the
  relay and the locks of the flow manager).

  \<^bold>\<open>Components.\<close>
  \<^item> \<open>Endpoints\<close>: services, gateways and their endpoints, the TCP probe (\<^verbatim>\<open>main.go\<close>).
  \<^item> \<open>Protocol\<close>: control packets, their codec, the reset exchange and the ranking of gateways (\<^verbatim>\<open>protocol.go\<close>).  The codec is a round trip in
    both directions and never panics.
  \<^item> \<open>ControlConn\<close>: \<^verbatim>\<open>controlUDPConn\<close> as a stream (what one end writes the other reads, if every datagram arrives once and in order: a
    retransmitted packet is delivered twice; \<^verbatim>\<open>Read\<close> refines an abstract byte stream) and
    \<^verbatim>\<open>bestWireEndpoint\<close>.
  \<^item> \<open>Provider\<close>: the API requests, the pinned CA, the verification of a gateway, the identity file.  A trust anchor is accepted only with
    the published fingerprint; a gateway only if \<^verbatim>\<open>Verify\<close> returned chains to it for server authentication; the file is replaced atomically, given that \<^verbatim>\<open>os.Rename\<close> is
    one step (POSIX promises it, Go on Windows does not).
  \<^item> \<open>KeyMethod\<close>, \<open>PushReply\<close>: the key exchange (the PRF is that of RFC 2246) and the pushed options.
  \<^item> \<open>LiveVPN\<close>, \<open>Session\<close>: \<^verbatim>\<open>establishLiveVPN\<close>; an established session is with a verified gateway and has the keys of the exchange with it, and a
    server that follows the protocol gets one.
  \<^item> \<open>DataChannel\<close>, \<open>DataProbe\<close>: sealing and opening data packets, and the DNS probe over them.
  \<^item> \<open>Inet_Checksum\<close>, \<open>PacketNAT\<close>: checksums, address rewriting and MSS clamping; every rewritten packet has valid checksums.
  \<^item> \<open>WinDivert\<close>, \<open>FlowManager\<close>, \<open>FlowInvariant\<close>, \<open>FlowPackets\<close>, \<open>FlowLocks\<close>: the Windows flow manager as functions on its record, as a
    transition system with the invariant on its tables and handles, on the packets that pass it, and again with the locked sections and the
    closes that follow them as separate steps.
  \<^item> \<open>Netlink\<close>, \<open>TunBridge\<close>, \<open>LinuxRun\<close>: the TUN device and its configuration, the two bridge loops, the namespace child and the runner.
  \<^item> \<open>VPNDialer\<close>, \<open>LinuxProxy\<close>, \<open>Relay\<close>: the concurrent dialer (it never blocks; a connection whose call has returned meanwhile stays in its channel), the
    HTTP proxy with its mode switch, the backend, the bootstrap loop with the late activation that leaves the proxy in the tunnel mode, and
    the copying between two connections, which delivers a prefix of what arrives.
  \<^item> \<open>WindowsRun\<close>: the Windows command (\<^verbatim>\<open>windows_discord.go\<close>, \<^verbatim>\<open>platform_windows.go\<close>) from elevation to the release of everything it took; it
    gives back session, DLL, handles, console handler and Discord on every path, except handles that goroutines still hold after the manager was
    closed, and the elevated copy gets the same arguments.
  \<^item> \<open>Probes\<close>, \<open>NamespaceProbes\<close>: the diagnostic commands; the data probe succeeds exactly when the tunnel works.
  \<^item> \<open>Commands\<close>: the other commands and the dispatch of \<^verbatim>\<open>main.go\<close>; \<^verbatim>\<open>run\<close> starts the given command unchanged.

  \<^bold>\<open>Conventions.\<close>  A struct is a record with the source's fields, an error keeps its format and arguments, a call that may panic
  returns \<open>result\<close>.  Goroutines that share state are inductive step relations whose steps are the locked sections and atomic
  operations; the sequential handlers are shown to consist of such steps.  A loop over a socket or a channel is a function of the
  list of what its rounds meet, so it ends with the list; \<open>None\<close> (or an unfinished result) says that the code still waits.  The bounds in the
  statements are those of the code: 40 reads of the data probe, 16 continued push messages, 8192-byte datagrams, channels of one or two
  entries, 64 acknowledged packets, and \<open>2 ^ 32\<close> packet or request numbers, after which the 32-bit counters wrap.  The loop over PEM
  blocks is a partial function into \<open>option\<close> that is proved to return when decoding shortens its input.

  \<^bold>\<open>Parameters.\<close>  HTTP, JSON, PEM and X.509 parsing, chain verification, TLS, the random source, clocks, sockets, system calls, the
  exported procedures of the WinDivert DLL and the netlink replies of the kernel are arguments (the \<open>_env\<close> records).  Their documented
  behaviour appears as named hypotheses only: \<open>verify_law\<close> (a verified chain runs from the leaf to a root of the pool, is signed link by link, valid at the
  given time and permits a requested key usage), \<open>tls_law\<close> (a handshake succeeds
  only if the configured verification accepts the peer), \<open>pem_shrinks\<close>, \<open>fresh_temp\<close>; each has a witness.

  \<^bold>\<open>Simplified.\<close>  UTF-8 to UTF-16 conversion is the identity except for its error on NUL; a descriptor passed over a Unix socket keeps its
  number, which the receiver only wraps.

  \<^bold>\<open>Not modelled.\<close>  The internals of the Go runtime and of \<^verbatim>\<open>crypto/tls\<close>, which are not part of the repository; the layout of what the commands
  print and the usage text (a command of the model returns the values it prints); the console title; time-outs, which appear as the errors
  they cause; and the flags of the diagnostic commands, which take the parsed values (\<^verbatim>\<open>run\<close> and \<^verbatim>\<open>discord\<close> parse theirs).
\<close>

end
